(* ===== verification/Rlp_Encode.thy ===== *)
theory Rlp_Encode
  imports Gttc_Prelude
begin

text \<open>
  The RLP encoder, \<open>src/gttc/rlp/encode.go\<close>.

  Reflection picks a writer from the type of the value (\<open>makeWriter\<close>); here the types are
  the values of \<open>gtype\<close> and the dispatch is recursion on them.  The encoder does not write
  list headers in place: \<open>encbuf\<close> keeps the string data and the list headers apart
  (\<open>list\<close>, \<open>listEnd\<close>) and \<open>toBytes\<close> merges them at the end.  The theorems relate that
  two-buffer routine to the direct recursive definition of the format, \<open>rlp_enc\<close>.
\<close>

section \<open>Types, values, errors\<close>

text \<open>
  The kinds of Go types that \<open>makeWriter\<close> and \<open>makeDecoder\<close> tell apart.  \<open>TPtrNil\<close> is a
  pointer-typed struct field with the tag \<open>rlp:"nil"\<close>.
\<close>

datatype gtype =
    TRaw
  | TBigInt
  | TUint nat
  | TBool
  | TString
  | TBytes
  | TByteArray nat
  | TSlice gtype
  | TStruct "gtype list"
  | TPtr gtype
  | TPtrNil gtype

text \<open>Values; a nil \<open>*big.Int\<close> or pointer is \<open>None\<close>.\<close>

datatype gval =
    VRaw bytes
  | VBig "int option"
  | VUint u64
  | VBool bool
  | VString bytes
  | VBytes bytes
  | VByteArray bytes
  | VList "gval list"
  | VStruct "gval list"
  | VPtr "gval option"

datatype rlp_err =
    EOL
  | ErrExpectedString
  | ErrExpectedList
  | ErrCanonInt
  | ErrCanonSize
  | ErrElemTooLarge
  | ErrValueTooLarge
  | ErrMoreThanOneValue
  | ErrNotInList
  | ErrNotAtEOL
  | ErrUintOverflow
  | IoEOF
  | IoUnexpectedEOF
  | DecodeError string
  | ErrInvalidBool u64
  | ErrNegativeBigInt
  | IndexPanic
  | TypeMismatch
  | OutOfFuel

section \<open>Integers as bytes\<close>

text \<open>\<open>putint\<close>: the least number of big-endian bytes, at least one.\<close>

definition putint :: "u64 \<Rightarrow> bytes" where
  "putint i =
    (if i < 2 ^ 8 then [ucast i]
     else if i < 2 ^ 16 then [ucast (drop_bit 8 i), ucast i]
     else if i < 2 ^ 24 then [ucast (drop_bit 16 i), ucast (drop_bit 8 i), ucast i]
     else if i < 2 ^ 32 then
       [ucast (drop_bit 24 i), ucast (drop_bit 16 i), ucast (drop_bit 8 i), ucast i]
     else if i < 2 ^ 40 then
       [ucast (drop_bit 32 i), ucast (drop_bit 24 i), ucast (drop_bit 16 i),
        ucast (drop_bit 8 i), ucast i]
     else if i < 2 ^ 48 then
       [ucast (drop_bit 40 i), ucast (drop_bit 32 i), ucast (drop_bit 24 i),
        ucast (drop_bit 16 i), ucast (drop_bit 8 i), ucast i]
     else if i < 2 ^ 56 then
       [ucast (drop_bit 48 i), ucast (drop_bit 40 i), ucast (drop_bit 32 i),
        ucast (drop_bit 24 i), ucast (drop_bit 16 i), ucast (drop_bit 8 i), ucast i]
     else
       [ucast (drop_bit 56 i), ucast (drop_bit 48 i), ucast (drop_bit 40 i),
        ucast (drop_bit 32 i), ucast (drop_bit 24 i), ucast (drop_bit 16 i),
        ucast (drop_bit 8 i), ucast i])"

text \<open>\<open>intsize\<close>: the loop that shifts the number out byte by byte.\<close>

lemma drop_bit_8_smaller: "drop_bit 8 i \<noteq> 0 \<Longrightarrow> unat (drop_bit 8 i) < unat i" for i :: u64
proof -
  assume nz: "drop_bit 8 i \<noteq> 0"
  have eq: "unat (drop_bit 8 i) = unat i div 256"
    by (simp add: drop_bit_eq_div unat_div_distrib)
  moreover from nz have "0 < unat (drop_bit 8 i)"
    by (simp add: unat_gt_0)
  ultimately show ?thesis by (metis div_less_dividend div_0 gr0I less_irrefl numeral_less_iff
        one_less_numeral_iff semiring_norm(76))
qed

function intsize :: "u64 \<Rightarrow> nat" where
  "intsize i = (let j = drop_bit 8 i in if j = 0 then 1 else Suc (intsize j))"
  by pat_completeness auto
termination
  by (relation "measure unat") (auto simp: drop_bit_8_smaller)

declare intsize.simps [simp del]

text \<open>\<open>big.Int.Bytes\<close> and \<open>big.Int.SetBytes\<close> of the standard library.\<close>

fun be_bytes :: "nat \<Rightarrow> bytes" where
  "be_bytes n = (if n = 0 then [] else be_bytes (n div 256) @ [of_nat (n mod 256)])"

declare be_bytes.simps [simp del]

definition be_val :: "bytes \<Rightarrow> nat" where
  "be_val bs = foldl (\<lambda>a b. a * 256 + unat b) 0 bs"

section \<open>Headers and the encoding buffer\<close>

definition headsize :: "u64 \<Rightarrow> nat" where
  "headsize sz = (if sz < 56 then 1 else 1 + intsize sz)"

text \<open>\<open>puthead\<close>, as the bytes it writes to the front of its buffer.\<close>

definition puthead :: "byte \<Rightarrow> byte \<Rightarrow> u64 \<Rightarrow> bytes" where
  "puthead smalltag largetag sz =
    (if sz < 56 then [smalltag + ucast sz]
     else (let s = putint sz in (largetag + of_nat (length s)) # s))"

record listhead =
  lh_offset :: int
  lh_size :: int

record encbuf =
  eb_str :: bytes
  eb_lheads :: "listhead list"
  eb_lhsize :: int

definition listhead_encode :: "listhead \<Rightarrow> bytes" where
  "listhead_encode head = puthead 0xC0 0xF7 (word_of_int (lh_size head))"

definition encbuf_reset :: "encbuf \<Rightarrow> encbuf" where
  "encbuf_reset w = w\<lparr>eb_lhsize := 0, eb_str := [], eb_lheads := []\<rparr>"

definition encbuf_Write :: "bytes \<Rightarrow> encbuf \<Rightarrow> encbuf" where
  "encbuf_Write b w = w\<lparr>eb_str := eb_str w @ b\<rparr>"

definition encbuf_size :: "encbuf \<Rightarrow> int" where
  "encbuf_size w = int (length (eb_str w)) + eb_lhsize w"

definition encodeStringHeader :: "nat \<Rightarrow> encbuf \<Rightarrow> encbuf" where
  "encodeStringHeader sz w =
    (if sz < 56 then encbuf_Write [0x80 + of_nat sz] w
     else (let s = putint (of_nat sz)
           in encbuf_Write ((0xB7 + of_nat (length s)) # s) w))"

definition encodeString :: "bytes \<Rightarrow> encbuf \<Rightarrow> encbuf" where
  "encodeString b w =
    (if length b = 1 \<and> hd b \<le> 0x7F then encbuf_Write [hd b] w
     else encbuf_Write b (encodeStringHeader (length b) w))"

text \<open>
  \<open>list\<close> returns a pointer to the header it appends; headers are only ever appended, so
  the pointer is the header's index.
\<close>

definition encbuf_list :: "encbuf \<Rightarrow> nat \<times> encbuf" where
  "encbuf_list w =
    (length (eb_lheads w),
     w\<lparr>eb_lheads := eb_lheads w @ [\<lparr>lh_offset = int (length (eb_str w)), lh_size = eb_lhsize w\<rparr>]\<rparr>)"

definition encbuf_listEnd :: "nat \<Rightarrow> encbuf \<Rightarrow> encbuf" where
  "encbuf_listEnd lh w =
    (let head = eb_lheads w ! lh;
         sz = encbuf_size w - lh_offset head - lh_size head;
         w' = w\<lparr>eb_lheads := (eb_lheads w)[lh := head\<lparr>lh_size := sz\<rparr>]\<rparr>
     in if sz < 56 then w'\<lparr>eb_lhsize := eb_lhsize w' + 1\<rparr>
        else w'\<lparr>eb_lhsize := eb_lhsize w' + 1 + int (intsize (word_of_int sz))\<rparr>)"

text \<open>
  \<open>toBytes\<close> writes into a slice allocated with \<open>w.size()\<close> bytes: \<open>copy\<close> stops at the end
  of the slice, \<open>puthead\<close> panics beyond it.
\<close>

definition go_copy :: "bytes \<Rightarrow> nat \<Rightarrow> bytes \<Rightarrow> bytes" where
  "go_copy out pos src =
    take pos out @ take (length out - pos) src @ drop (pos + length src) out"

primrec toBytes_loop :: "bytes \<Rightarrow> bytes \<Rightarrow> nat \<Rightarrow> nat \<Rightarrow> listhead list \<Rightarrow> rlp_err + bytes \<times> nat \<times> nat" where
  "toBytes_loop str out pos strpos [] = Inr (out, pos, strpos)"
| "toBytes_loop str out pos strpos (head # heads) =
    (let piece = take (nat (lh_offset head) - strpos) (drop strpos str);
         n = min (length piece) (length out - pos);
         out1 = go_copy out pos piece;
         enc = listhead_encode head
     in if pos + n + length enc \<le> length out1
        then toBytes_loop str (go_copy out1 (pos + n) enc) (pos + n + length enc) (strpos + n) heads
        else Inl IndexPanic)"

definition toBytes :: "encbuf \<Rightarrow> rlp_err + bytes" where
  "toBytes w =
    bindR (toBytes_loop (eb_str w) (replicate (nat (encbuf_size w)) 0) 0 0 (eb_lheads w))
      (\<lambda>(out, pos, strpos). Inr (go_copy out pos (drop strpos (eb_str w))))"

section \<open>Writers\<close>

definition writeUint :: "u64 \<Rightarrow> encbuf \<Rightarrow> encbuf" where
  "writeUint i w =
    (if i = 0 then encbuf_Write [0x80] w
     else if i < 128 then encbuf_Write [ucast i] w
     else (let s = putint i in encbuf_Write ((0x80 + of_nat (length s)) # s) w))"

definition writeBool :: "bool \<Rightarrow> encbuf \<Rightarrow> encbuf" where
  "writeBool b w = encbuf_Write [if b then 0x01 else 0x80] w"

definition writeBigInt :: "int \<Rightarrow> encbuf \<Rightarrow> rlp_err + encbuf" where
  "writeBigInt i w =
    (if i < 0 then Inl ErrNegativeBigInt
     else if i = 0 then Inr (encbuf_Write [0x80] w)
     else Inr (encodeString (be_bytes (nat i)) w))"

definition writeBigIntPtr :: "int option \<Rightarrow> encbuf \<Rightarrow> rlp_err + encbuf" where
  "writeBigIntPtr p w =
    (case p of None \<Rightarrow> Inr (encbuf_Write [0x80] w) | Some i \<Rightarrow> writeBigInt i w)"

definition writeString :: "bytes \<Rightarrow> encbuf \<Rightarrow> encbuf" where
  "writeString s w =
    (if length s = 1 \<and> hd s \<le> 0x7F then encbuf_Write [hd s] w
     else encbuf_Write s (encodeStringHeader (length s) w))"

text \<open>The zero value of a type, which a nil pointer to a scalar is encoded as.\<close>

primrec gzero :: "gtype \<Rightarrow> gval" where
  "gzero TRaw = VRaw []"
| "gzero TBigInt = VBig None"
| "gzero (TUint n) = VUint 0"
| "gzero TBool = VBool False"
| "gzero TString = VString []"
| "gzero TBytes = VBytes []"
| "gzero (TByteArray n) = VByteArray (replicate n 0)"
| "gzero (TSlice t) = VList []"
| "gzero (TStruct ts) = VStruct (map gzero ts)"
| "gzero (TPtr t) = VPtr None"
| "gzero (TPtrNil t) = VPtr None"

type_synonym gwriter = "gval \<Rightarrow> encbuf \<Rightarrow> rlp_err + encbuf"

text \<open>
  A slice opens a list, writes its elements and closes it (the deferred \<open>listEnd\<close> also
  runs when an element fails; the buffer is then discarded by \<open>EncodeToBytes\<close>).
\<close>

definition makeSliceWriter :: "gwriter \<Rightarrow> gwriter" where
  "makeSliceWriter ew v w =
    (case v of
       VList vs \<Rightarrow>
         (case encbuf_list w of (lh, w1) \<Rightarrow>
            bindR (foldR (\<lambda>w' x. ew x w') w1 vs) (\<lambda>w2. Inr (encbuf_listEnd lh w2)))
     | _ \<Rightarrow> Inl TypeMismatch)"

primrec write_fields :: "gwriter list \<Rightarrow> gval list \<Rightarrow> encbuf \<Rightarrow> rlp_err + encbuf" where
  "write_fields [] vs w = (if vs = [] then Inr w else Inl TypeMismatch)"
| "write_fields (f # fs) vs w =
    (case vs of
       [] \<Rightarrow> Inl TypeMismatch
     | x # xs \<Rightarrow> bindR (f x w) (\<lambda>w1. write_fields fs xs w1))"

definition makeStructWriter :: "gwriter list \<Rightarrow> gwriter" where
  "makeStructWriter fws v w =
    (case v of
       VStruct vs \<Rightarrow>
         (case encbuf_list w of (lh, w1) \<Rightarrow>
            bindR (write_fields fws vs w1) (\<lambda>w2. Inr (encbuf_listEnd lh w2)))
     | _ \<Rightarrow> Inl TypeMismatch)"

text \<open>A nil pointer is written by the \<open>nilfunc\<close> of its element type.\<close>

definition makePtrWriter :: "gtype \<Rightarrow> gwriter \<Rightarrow> gwriter" where
  "makePtrWriter etyp ew v w =
    (case v of
       VPtr None \<Rightarrow>
         (case etyp of
            TByteArray n \<Rightarrow> Inr (encbuf_Write [0x80] w)
          | TStruct ts \<Rightarrow> (case encbuf_list w of (lh, w1) \<Rightarrow> Inr (encbuf_listEnd lh w1))
          | _ \<Rightarrow> ew (gzero etyp) w)
     | VPtr (Some x) \<Rightarrow> ew x w
     | _ \<Rightarrow> Inl TypeMismatch)"

text \<open>
  \<open>makeWriter\<close>: the writer of a type.  A value of another type cannot reach a writer in
  Go; the model answers \<open>TypeMismatch\<close>.
\<close>

primrec makeWriter :: "gtype \<Rightarrow> gwriter" where
  "makeWriter TRaw =
    (\<lambda>v w. case v of VRaw b \<Rightarrow> Inr (encbuf_Write b w) | _ \<Rightarrow> Inl TypeMismatch)"
| "makeWriter TBigInt =
    (\<lambda>v w. case v of VBig p \<Rightarrow> writeBigIntPtr p w | _ \<Rightarrow> Inl TypeMismatch)"
| "makeWriter (TUint n) =
    (\<lambda>v w. case v of VUint i \<Rightarrow> Inr (writeUint i w) | _ \<Rightarrow> Inl TypeMismatch)"
| "makeWriter TBool =
    (\<lambda>v w. case v of VBool b \<Rightarrow> Inr (writeBool b w) | _ \<Rightarrow> Inl TypeMismatch)"
| "makeWriter TString =
    (\<lambda>v w. case v of VString b \<Rightarrow> Inr (writeString b w) | _ \<Rightarrow> Inl TypeMismatch)"
| "makeWriter TBytes =
    (\<lambda>v w. case v of VBytes b \<Rightarrow> Inr (encodeString b w) | _ \<Rightarrow> Inl TypeMismatch)"
| "makeWriter (TByteArray n) =
    (\<lambda>v w. case v of VByteArray b \<Rightarrow> Inr (encodeString b w) | _ \<Rightarrow> Inl TypeMismatch)"
| "makeWriter (TSlice t) = makeSliceWriter (makeWriter t)"
| "makeWriter (TStruct ts) = makeStructWriter (map makeWriter ts)"
| "makeWriter (TPtr t) = makePtrWriter t (makeWriter t)"
| "makeWriter (TPtrNil t) = makePtrWriter t (makeWriter t)"

definition new_encbuf :: encbuf where
  "new_encbuf = \<lparr>eb_str = [], eb_lheads = [], eb_lhsize = 0\<rparr>"

text \<open>\<open>EncodeToBytes\<close>: a pooled buffer is reset before use, so any buffer will do.\<close>

definition EncodeToBytes_with :: "encbuf \<Rightarrow> gtype \<Rightarrow> gval \<Rightarrow> rlp_err + bytes" where
  "EncodeToBytes_with pooled t v = bindR (makeWriter t v (encbuf_reset pooled)) toBytes"

definition EncodeToBytes :: "gtype \<Rightarrow> gval \<Rightarrow> rlp_err + bytes" where
  "EncodeToBytes t v = EncodeToBytes_with new_encbuf t v"

section \<open>The format, directly\<close>

definition enc_string :: "bytes \<Rightarrow> bytes" where
  "enc_string b =
    (if length b = 1 \<and> hd b \<le> 0x7F then b else puthead 0x80 0xB7 (of_nat (length b)) @ b)"

definition enc_list :: "bytes \<Rightarrow> bytes" where
  "enc_list payload = puthead 0xC0 0xF7 (of_nat (length payload)) @ payload"

primrec rlp_enc :: "gtype \<Rightarrow> gval \<Rightarrow> bytes" where
  "rlp_enc TRaw = (\<lambda>v. case v of VRaw b \<Rightarrow> b | _ \<Rightarrow> [])"
| "rlp_enc TBigInt =
    (\<lambda>v. case v of VBig p \<Rightarrow> enc_string (be_bytes (case p of None \<Rightarrow> 0 | Some i \<Rightarrow> nat i)) | _ \<Rightarrow> [])"
| "rlp_enc (TUint n) = (\<lambda>v. case v of VUint i \<Rightarrow> enc_string (be_bytes (unat i)) | _ \<Rightarrow> [])"
| "rlp_enc TBool = (\<lambda>v. case v of VBool b \<Rightarrow> enc_string (if b then [1] else []) | _ \<Rightarrow> [])"
| "rlp_enc TString = (\<lambda>v. case v of VString b \<Rightarrow> enc_string b | _ \<Rightarrow> [])"
| "rlp_enc TBytes = (\<lambda>v. case v of VBytes b \<Rightarrow> enc_string b | _ \<Rightarrow> [])"
| "rlp_enc (TByteArray n) = (\<lambda>v. case v of VByteArray b \<Rightarrow> enc_string b | _ \<Rightarrow> [])"
| "rlp_enc (TSlice t) =
    (\<lambda>v. case v of VList vs \<Rightarrow> enc_list (concat (map (rlp_enc t) vs)) | _ \<Rightarrow> [])"
| "rlp_enc (TStruct ts) =
    (\<lambda>v. case v of VStruct vs \<Rightarrow> enc_list (concat (map2 (\<lambda>f x. f x) (map rlp_enc ts) vs)) | _ \<Rightarrow> [])"
| "rlp_enc (TPtr t) =
    (\<lambda>v. case v of
       VPtr None \<Rightarrow>
         (case t of TByteArray n \<Rightarrow> enc_string [] | TStruct ts \<Rightarrow> enc_list [] | _ \<Rightarrow> rlp_enc t (gzero t))
     | VPtr (Some x) \<Rightarrow> rlp_enc t x
     | _ \<Rightarrow> [])"
| "rlp_enc (TPtrNil t) =
    (\<lambda>v. case v of
       VPtr None \<Rightarrow>
         (case t of TByteArray n \<Rightarrow> enc_string [] | TStruct ts \<Rightarrow> enc_list [] | _ \<Rightarrow> rlp_enc t (gzero t))
     | VPtr (Some x) \<Rightarrow> rlp_enc t x
     | _ \<Rightarrow> [])"

text \<open>The values a type admits, and that the encoder accepts: no negative big integer.\<close>

primrec encodable :: "gtype \<Rightarrow> gval \<Rightarrow> bool" where
  "encodable TRaw = (\<lambda>v. case v of VRaw b \<Rightarrow> True | _ \<Rightarrow> False)"
| "encodable TBigInt =
    (\<lambda>v. case v of VBig p \<Rightarrow> (case p of None \<Rightarrow> True | Some i \<Rightarrow> 0 \<le> i) | _ \<Rightarrow> False)"
| "encodable (TUint n) = (\<lambda>v. case v of VUint i \<Rightarrow> unat i < 2 ^ n | _ \<Rightarrow> False)"
| "encodable TBool = (\<lambda>v. case v of VBool b \<Rightarrow> True | _ \<Rightarrow> False)"
| "encodable TString = (\<lambda>v. case v of VString b \<Rightarrow> True | _ \<Rightarrow> False)"
| "encodable TBytes = (\<lambda>v. case v of VBytes b \<Rightarrow> True | _ \<Rightarrow> False)"
| "encodable (TByteArray n) = (\<lambda>v. case v of VByteArray b \<Rightarrow> length b = n | _ \<Rightarrow> False)"
| "encodable (TSlice t) = (\<lambda>v. case v of VList vs \<Rightarrow> list_all (encodable t) vs | _ \<Rightarrow> False)"
| "encodable (TStruct ts) =
    (\<lambda>v. case v of VStruct vs \<Rightarrow> list_all2 (\<lambda>p x. p x) (map encodable ts) vs | _ \<Rightarrow> False)"
| "encodable (TPtr t) =
    (\<lambda>v. case v of VPtr None \<Rightarrow> encodable t (gzero t) | VPtr (Some x) \<Rightarrow> encodable t x | _ \<Rightarrow> False)"
| "encodable (TPtrNil t) =
    (\<lambda>v. case v of VPtr None \<Rightarrow> encodable t (gzero t) | VPtr (Some x) \<Rightarrow> encodable t x | _ \<Rightarrow> False)"

section \<open>Lemmas on integers as bytes\<close>

lemma unat_drop_bit_8: "unat (drop_bit 8 i) = unat i div 256" for i :: u64
  by (simp add: drop_bit_eq_div unat_div_distrib)

lemma putint_small: "unat i < 256 \<Longrightarrow> putint i = [ucast i]"
  by (simp add: putint_def word_less_nat_alt)

lemma putint_step: "256 \<le> unat i \<Longrightarrow> putint i = putint (drop_bit 8 i) @ [ucast i]"
  using unat_less_64 [of i]
  unfolding putint_def word_less_nat_alt unat_drop_bit_8
  by (simp add: drop_bit_drop_bit div_less_iff_less_mult)

lemma be_bytes_0 [simp]: "be_bytes 0 = []"
  by (simp add: be_bytes.simps)

lemma be_bytes_eq_Nil [simp]: "be_bytes n = [] \<longleftrightarrow> n = 0"
  by (subst be_bytes.simps) simp

lemma be_bytes_small: "0 < n \<Longrightarrow> n < 256 \<Longrightarrow> be_bytes n = [of_nat n]"
  by (simp add: be_bytes.simps [of n])

lemma ucast_u64_byte: "(ucast i :: byte) = of_nat (unat i mod 256)" for i :: u64
  apply (rule word_unat_eq_iff [THEN iffD2])
  by (simp add: unsigned_ucast_eq take_bit_eq_mod unat_of_nat)

lemma putint_eq_be_bytes: "i \<noteq> 0 \<Longrightarrow> putint i = be_bytes (unat i)"
proof (induction i rule: intsize.induct)
  case (1 i)
  show ?case
  proof (cases "unat i < 256")
    case True
    moreover from "1.prems" have "0 < unat i" by (simp only: unat_gt_0 not_False_eq_True)
    ultimately show ?thesis
      by (simp only: putint_small be_bytes_small ucast_u64_byte mod_less)
  next
    case False
    then have nz: "drop_bit 8 i \<noteq> 0"
      by (metis unat_drop_bit_8 div_eq_0_iff unat_0 zero_neq_numeral)
    have "putint i = putint (drop_bit 8 i) @ [ucast i]"
      using False by (simp add: putint_step)
    also have "putint (drop_bit 8 i) = be_bytes (unat i div 256)"
      using 1 nz by (simp add: unat_drop_bit_8)
    finally show ?thesis
      using False by (simp add: be_bytes.simps [of "unat i"] ucast_u64_byte)
  qed
qed

lemma intsize_eq: "intsize i = length (putint i)"
proof (induction i rule: intsize.induct)
  case (1 i)
  show ?case
  proof (cases "unat i < 256")
    case True
    then have "drop_bit 8 i = 0"
      by (metis unat_drop_bit_8 div_less unat_eq_zero)
    with True show ?thesis by (simp add: intsize.simps [of i] putint_small)
  next
    case False
    then have nz: "drop_bit 8 i \<noteq> 0"
      by (metis unat_drop_bit_8 div_eq_0_iff unat_0 zero_neq_numeral)
    with 1 False show ?thesis by (simp add: intsize.simps [of i] putint_step)
  qed
qed

lemma be_val_Nil [simp]: "be_val [] = 0"
  by (simp add: be_val_def)

lemma be_val_snoc [simp]: "be_val (bs @ [b]) = be_val bs * 256 + unat b"
  by (simp add: be_val_def)

lemma be_val_be_bytes [simp]: "be_val (be_bytes n) = n"
proof (induction n rule: be_bytes.induct)
  case (1 n)
  show ?case
  proof (cases "n = 0")
    case True
    then show ?thesis by simp
  next
    case False
    with 1 show ?thesis
      by (simp add: be_bytes.simps [of n] unat_of_nat)
  qed
qed

lemma hd_be_bytes: "0 < n \<Longrightarrow> hd (be_bytes n) \<noteq> 0"
proof (induction n rule: be_bytes.induct)
  case (1 n)
  show ?case
  proof (cases "n < 256")
    case True
    with 1 show ?thesis by (simp add: be_bytes_small word_unat_eq_iff unat_of_nat)
  next
    case False
    with 1 show ?thesis by (simp add: be_bytes.simps [of n] div_greater_zero_iff)
  qed
qed

lemma be_val_append: "be_val (xs @ ys) = be_val xs * 256 ^ length ys + be_val ys"
  by (induction ys rule: rev_induct) (auto simp: algebra_simps simp flip: append_assoc)

lemma be_val_less: "be_val bs < 256 ^ length bs"
proof (induction bs rule: rev_induct)
  case Nil
  then show ?case by simp
next
  case (snoc b bs)
  have "unat b < 256" using unsigned_less [of b] by simp
  with snoc show ?case by simp
qed

lemma length_be_bytes_le: "n < 256 ^ k \<Longrightarrow> length (be_bytes n) \<le> k"
proof (induction k arbitrary: n)
  case 0
  then show ?case by simp
next
  case (Suc k)
  then show ?case
    by (cases "n = 0") (simp_all add: be_bytes.simps [of n] div_less_iff_less_mult mult.commute)
qed

lemma length_putint: "1 \<le> length (putint i)" "length (putint i) \<le> 8"
proof -
  show "1 \<le> length (putint i)"
    by (auto simp: putint_def)
  show "length (putint i) \<le> 8"
    by (auto simp: putint_def)
qed

section \<open>The buffer against the format\<close>

text \<open>
  What \<open>toBytes\<close> makes of string data and headers, without the output slice: the pieces of
  the string data with the headers between them, from position \<open>p\<close> on.
\<close>

fun render :: "bytes \<Rightarrow> nat \<Rightarrow> listhead list \<Rightarrow> bytes" where
  "render str p [] = drop p str"
| "render str p (h # hs) =
    take (nat (lh_offset h) - p) (drop p str) @ listhead_encode h @ render str (nat (lh_offset h)) hs"

fun offsets_ok :: "nat \<Rightarrow> nat \<Rightarrow> listhead list \<Rightarrow> bool" where
  "offsets_ok lo hi [] \<longleftrightarrow> lo \<le> hi"
| "offsets_ok lo hi (h # hs) \<longleftrightarrow> int lo \<le> lh_offset h \<and> offsets_ok (nat (lh_offset h)) hi hs"

text \<open>
  \<open>writes w w' b\<close>: between \<open>w\<close> and \<open>w'\<close> the encoder appended string data and closed
  headers that render as \<open>b\<close>, and accounted for the size of the headers.
\<close>

definition writes :: "encbuf \<Rightarrow> encbuf \<Rightarrow> bytes \<Rightarrow> bool" where
  "writes w w' b \<longleftrightarrow>
    (\<exists>d hs. eb_str w' = eb_str w @ d \<and> eb_lheads w' = eb_lheads w @ hs \<and>
       offsets_ok (length (eb_str w)) (length (eb_str w')) hs \<and>
       render (eb_str w') (length (eb_str w)) hs = b \<and>
       encbuf_size w' = encbuf_size w + int (length b))"

lemma offsets_ok_le: "offsets_ok lo hi hs \<Longrightarrow> lo \<le> hi"
  by (induction lo hi hs rule: offsets_ok.induct) auto

lemma offsets_ok_append:
  "offsets_ok lo mid hs1 \<Longrightarrow> offsets_ok mid hi hs2 \<Longrightarrow> offsets_ok lo hi (hs1 @ hs2)"
proof (induction lo mid hs1 rule: offsets_ok.induct)
  case (1 lo mid)
  then show ?case by (cases hs2) auto
next
  case (2 lo mid h hs)
  then show ?case by simp
qed

lemma render_later:
  "p \<le> length s1 \<Longrightarrow> offsets_ok (length s1) hi hs \<Longrightarrow>
   render (s1 @ s2) p hs = drop p s1 @ render (s1 @ s2) (length s1) hs"
proof (cases hs)
  case (Cons h hs')
  assume p: "p \<le> length s1" and ok: "offsets_ok (length s1) hi hs"
  with Cons have off: "length s1 \<le> nat (lh_offset h)" by auto
  have "take (nat (lh_offset h) - p) (drop p (s1 @ s2)) =
        drop p s1 @ take (nat (lh_offset h) - length s1) s2"
    using p off by (simp add: take_drop [symmetric])
  with Cons show ?thesis by simp
qed simp

lemma render_append:
  "offsets_ok p (length s1) hs1 \<Longrightarrow> offsets_ok (length s1) hi hs2 \<Longrightarrow>
   render (s1 @ s2) p (hs1 @ hs2) = render s1 p hs1 @ render (s1 @ s2) (length s1) hs2"
proof (induction p "length s1" hs1 rule: offsets_ok.induct)
  case (1 p)
  then show ?case using render_later [of p s1 hi hs2 s2] by simp
next
  case (2 p h hs)
  then have "nat (lh_offset h) \<le> length s1" by (auto dest: offsets_ok_le)
  then have "take (nat (lh_offset h) - p) (drop p (s1 @ s2)) = take (nat (lh_offset h) - p) (drop p s1)"
    by (cases "p \<le> length s1") (simp_all add: 2)
  with 2 show ?case by simp
qed

lemma writes_refl: "writes w w []"
  by (auto simp: writes_def)

lemma writes_trans:
  assumes "writes w w1 b1" and "writes w1 w2 b2"
  shows "writes w w2 (b1 @ b2)"
proof -
  from assms(1) obtain d1 hs1 where 1: "eb_str w1 = eb_str w @ d1" "eb_lheads w1 = eb_lheads w @ hs1"
      "offsets_ok (length (eb_str w)) (length (eb_str w1)) hs1"
      "render (eb_str w1) (length (eb_str w)) hs1 = b1"
      "encbuf_size w1 = encbuf_size w + int (length b1)"
    by (auto simp: writes_def)
  from assms(2) obtain d2 hs2 where 2: "eb_str w2 = eb_str w1 @ d2" "eb_lheads w2 = eb_lheads w1 @ hs2"
      "offsets_ok (length (eb_str w1)) (length (eb_str w2)) hs2"
      "render (eb_str w2) (length (eb_str w1)) hs2 = b2"
      "encbuf_size w2 = encbuf_size w1 + int (length b2)"
    by (auto simp: writes_def)
  have "render (eb_str w2) (length (eb_str w)) (hs1 @ hs2) = b1 @ b2"
    using render_append [OF 1(3) 2(3), of d2] 1(4) 2(1,4) by simp
  moreover have "offsets_ok (length (eb_str w)) (length (eb_str w2)) (hs1 @ hs2)"
    using 1(3) 2(3) by (rule offsets_ok_append)
  ultimately show ?thesis
    unfolding writes_def using 1 2 by (intro exI [of _ "d1 @ d2"] exI [of _ "hs1 @ hs2"]) simp
qed

lemma writes_Write: "writes w (encbuf_Write b w) b"
  by (auto simp: writes_def encbuf_Write_def encbuf_size_def)

lemma length_puthead:
  "length (puthead a b sz) = headsize sz"
  by (simp add: puthead_def headsize_def Let_def intsize_eq)

text \<open>Closing a list puts its header in front of everything written since it was opened.\<close>

lemma writes_listEnd:
  assumes "encbuf_list w = (lh, w1)" and "writes w1 w2 b" and "length b < 2 ^ 63"
  shows "writes w (encbuf_listEnd lh w2) (enc_list b)"
proof -
  define h0 where "h0 = \<lparr>lh_offset = int (length (eb_str w)), lh_size = eb_lhsize w\<rparr>"
  from assms(1) have lh: "lh = length (eb_lheads w)" and w1: "w1 = w\<lparr>eb_lheads := eb_lheads w @ [h0]\<rparr>"
    by (auto simp: encbuf_list_def h0_def)
  from assms(2) obtain d hs where 2: "eb_str w2 = eb_str w @ d" "eb_lheads w2 = eb_lheads w @ h0 # hs"
      "offsets_ok (length (eb_str w)) (length (eb_str w2)) hs"
      "render (eb_str w2) (length (eb_str w)) hs = b"
      "encbuf_size w2 = encbuf_size w1 + int (length b)"
    by (auto simp: writes_def w1)
  define h where "h = h0\<lparr>lh_size := int (length b)\<rparr>"
  have sz: "encbuf_size w2 - lh_offset h0 - lh_size h0 = int (length b)"
    using 2(5) by (simp add: h0_def w1 encbuf_size_def)
  have hd: "(eb_lheads w @ h0 # hs) ! lh = h0" "(eb_lheads w @ h0 # hs)[lh := h] = eb_lheads w @ h # hs"
    by (simp_all add: lh)
  have enc: "listhead_encode h = puthead 0xC0 0xF7 (of_nat (length b))"
    by (simp add: listhead_encode_def h_def)
  define w3 where "w3 = encbuf_listEnd lh w2"
  have small: "((of_nat (length b) :: u64) < 56) = (length b < 56)"
    using assms(3) by (simp add: word_less_nat_alt unat_of_nat64)
  have w3: "eb_str w3 = eb_str w2" "eb_lheads w3 = eb_lheads w @ h # hs"
      "eb_lhsize w3 = eb_lhsize w2 + int (headsize (of_nat (length b)))"
    by (simp_all add: w3_def encbuf_listEnd_def Let_def 2(2) hd sz small headsize_def flip: h_def)
  have "offsets_ok (length (eb_str w)) (length (eb_str w3)) (h # hs)"
    using 2(3) by (simp add: w3 h_def h0_def)
  moreover have "render (eb_str w3) (length (eb_str w)) (h # hs) = enc_list b"
    using 2(4) by (simp add: w3 enc enc_list_def) (simp add: h_def h0_def)
  moreover have "encbuf_size w3 = encbuf_size w + int (length (enc_list b))"
    using 2(5) by (simp add: encbuf_size_def w3 enc_list_def length_puthead w1)
  ultimately show ?thesis
    unfolding writes_def w3_def [symmetric]
    using 2(1) w3 by (intro exI [of _ d] exI [of _ "h # hs"]) simp
qed

lemma writes_header_string:
  "length b < 2 ^ 63 \<Longrightarrow>
   writes w (encbuf_Write b (encodeStringHeader (length b) w))
     (puthead 0x80 0xB7 (of_nat (length b)) @ b)"
proof (rule writes_trans [OF _ writes_Write])
  assume len: "length b < 2 ^ 63"
  have small: "((of_nat (length b) :: u64) < 56) = (length b < 56)"
    using len by (simp add: word_less_nat_alt unat_of_nat64)
  have "(ucast (of_nat (length b) :: u64) :: byte) = of_nat (length b)"
    by (simp only: word_unat_eq_iff unsigned_ucast_eq unat_of_nat take_bit_eq_mod) (simp add: mod_mod_cancel take_bit_eq_mod)
  then have "encodeStringHeader (length b) w = encbuf_Write (puthead 0x80 0xB7 (of_nat (length b))) w"
    using small by (simp add: encodeStringHeader_def puthead_def Let_def)
  then show "writes w (encodeStringHeader (length b) w) (puthead 0x80 0xB7 (of_nat (length b)))"
    by (simp add: writes_Write)
qed

lemma writes_encodeString: "length b < 2 ^ 63 \<Longrightarrow> writes w (encodeString b w) (enc_string b)"
proof (cases "length b = 1 \<and> hd b \<le> 0x7F")
  case True
  then have "[hd b] = b" by (cases b) auto
  with True show ?thesis by (simp add: encodeString_def enc_string_def writes_Write)
next
  case False
  assume "length b < 2 ^ 63"
  with False show ?thesis
    by (auto simp: encodeString_def enc_string_def writes_header_string)
qed

lemma writeString_eq: "writeString b w = encodeString b w"
  by (simp add: writeString_def encodeString_def)

lemma enc_string_Nil: "enc_string [] = [0x80]"
  by (simp add: enc_string_def puthead_def)

lemma writes_writeUint: "writes w (writeUint i w) (enc_string (be_bytes (unat i)))"
proof -
  consider "i = 0" | "i \<noteq> 0" "unat i < 128" | "128 \<le> unat i" by force
  then show ?thesis
  proof cases
    case 1
    then show ?thesis by (simp add: writeUint_def enc_string_Nil writes_Write)
  next
    case 2
    then have pos: "0 < unat i" by (simp only: unat_gt_0 not_False_eq_True)
    with 2 have b: "be_bytes (unat i) = [of_nat (unat i)]" by (simp add: be_bytes_small)
    have "unat (of_nat (unat i) :: byte) = unat i" using 2 by (simp only: unat_of_nat) (simp add: take_bit_nat_eq_self)
    with 2 have le: "(of_nat (unat i) :: byte) \<le> 0x7F" by (simp add: word_le_nat_alt)
    have "(ucast i :: byte) = of_nat (unat i)" using 2 by (simp only: ucast_u64_byte) simp
    with 2 b le show ?thesis
      by (simp add: writeUint_def enc_string_def word_less_nat_alt writes_Write del: of_nat_unat)
  next
    case 3
    then have nz: "i \<noteq> 0" by auto
    have len: "length (putint i) \<le> 8" by (rule length_putint)
    have big: "\<not> (length (putint i) = 1 \<and> hd (putint i) \<le> 0x7F)"
    proof
      assume one: "length (putint i) = 1 \<and> hd (putint i) \<le> 0x7F"
      then obtain x where x: "putint i = [x]" by (auto simp: length_Suc_conv)
      have "be_val (putint i) = unat i" using nz by (simp add: putint_eq_be_bytes)
      with x have "unat x = unat i" by (simp add: be_val_def)
      with one x 3 show False by (simp add: word_le_nat_alt)
    qed
    have "puthead 0x80 0xB7 (of_nat (length (putint i))) = [0x80 + of_nat (length (putint i))]"
      using len by (simp add: puthead_def word_less_nat_alt unat_of_nat64 ucast_u64_byte)
    with 3 nz big show ?thesis
      by (auto simp add: writeUint_def enc_string_def word_less_nat_alt writes_Write Let_def
          putint_eq_be_bytes [symmetric])
  qed
qed

lemma length_enc_list: "length b \<le> length (enc_list b)"
  by (simp add: enc_list_def)

lemma length_enc_string: "length b \<le> length (enc_string b)"
  by (simp add: enc_string_def)

lemma writes_enc_string: "length (enc_string b) < 2 ^ 63 \<Longrightarrow> writes w (encodeString b w) (enc_string b)"
  using length_enc_string [of b] by (intro writes_encodeString) simp

lemma writes_bool: "writes w (writeBool b w) (enc_string (if b then [1] else []))"
  by (simp add: writeBool_def enc_string_def puthead_def writes_Write)

lemma writes_bigint:
  assumes "case p of None \<Rightarrow> True | Some i \<Rightarrow> 0 \<le> i"
    and "length (enc_string (be_bytes (case p of None \<Rightarrow> 0 | Some i \<Rightarrow> nat i))) < 2 ^ 63"
  shows "\<exists>w'. writeBigIntPtr p w = Inr w' \<and>
    writes w w' (enc_string (be_bytes (case p of None \<Rightarrow> 0 | Some i \<Rightarrow> nat i)))"
proof (cases "p = None \<or> p = Some 0")
  case True
  then show ?thesis by (auto simp: writeBigIntPtr_def writeBigInt_def enc_string_Nil writes_Write)
next
  case False
  then obtain i where p: "p = Some i" "0 < i" using assms(1) by (cases p) auto
  then have "length (be_bytes (nat i)) < 2 ^ 63"
    using assms(2) length_enc_string [of "be_bytes (nat i)"] by simp
  with p show ?thesis
    by (auto simp: writeBigIntPtr_def writeBigInt_def intro: writes_encodeString)
qed

lemma foldR_writes:
  assumes "\<And>v w. v \<in> set vs \<Longrightarrow> \<exists>w'. ew v w = Inr w' \<and> writes w w' (enc v)"
  shows "\<exists>w'. foldR (\<lambda>w' x. ew x w') w vs = Inr w' \<and> writes w w' (concat (map enc vs))"
  using assms
proof (induction vs arbitrary: w)
  case Nil
  then show ?case by (simp add: writes_refl)
next
  case (Cons v vs)
  from Cons.prems [of v w] obtain w1 where w1: "ew v w = Inr w1" "writes w w1 (enc v)" by auto
  moreover obtain w2 where "foldR (\<lambda>w' x. ew x w') w1 vs = Inr w2" "writes w1 w2 (concat (map enc vs))"
    using Cons.IH [of w1] Cons.prems by auto
  ultimately show ?case by (auto intro: writes_trans)
qed

lemma write_fields_writes:
  assumes "list_all2 (\<lambda>p x. p x) (map encodable ts) vs"
    and "\<And>t v w. t \<in> set ts \<Longrightarrow> encodable t v \<Longrightarrow>
      length (rlp_enc t v) \<le> length (concat (map2 (\<lambda>f x. f x) (map rlp_enc ts) vs)) \<Longrightarrow>
      \<exists>w'. makeWriter t v w = Inr w' \<and> writes w w' (rlp_enc t v)"
  shows "\<exists>w'. write_fields (map makeWriter ts) vs w = Inr w' \<and>
    writes w w' (concat (map2 (\<lambda>f x. f x) (map rlp_enc ts) vs))"
  using assms
proof (induction ts arbitrary: vs w)
  case Nil
  then show ?case by (simp add: writes_refl)
next
  case (Cons t ts)
  then obtain x xs where vs: "vs = x # xs" and x: "encodable t x"
    and xs: "list_all2 (\<lambda>p x. p x) (map encodable ts) xs"
    by (cases vs) auto
  obtain w1 where w1: "makeWriter t x w = Inr w1" "writes w w1 (rlp_enc t x)"
    using Cons.prems(2) [of t x w] x vs by auto
  moreover obtain w2 where "write_fields (map makeWriter ts) xs w1 = Inr w2"
      "writes w1 w2 (concat (map2 (\<lambda>f x. f x) (map rlp_enc ts) xs))"
    using Cons.IH [OF xs, of w1] Cons.prems(2) vs by force
  ultimately show ?case using vs by (auto intro: writes_trans)
qed

lemma length_concat_member: "b \<in> set bs \<Longrightarrow> length b \<le> length (concat bs)"
  by (induction bs) auto

lemma makePtrWriter_writes:
  assumes IH: "\<And>v w. encodable t v \<Longrightarrow> length (rlp_enc t v) < 2 ^ 63 \<Longrightarrow>
      \<exists>w'. makeWriter t v w = Inr w' \<and> writes w w' (rlp_enc t v)"
    and enc: "encodable (TPtr t) v" and len: "length (rlp_enc (TPtr t) v) < 2 ^ 63"
  shows "\<exists>w'. makePtrWriter t (makeWriter t) v w = Inr w' \<and> writes w w' (rlp_enc (TPtr t) v)"
proof -
  from enc obtain p where v: "v = VPtr p" by (cases v) auto
  show ?thesis
  proof (cases p)
    case (Some x)
    with v enc len IH [of x w] show ?thesis by (simp add: makePtrWriter_def)
  next
    case None
    obtain lh w1 where l: "encbuf_list w = (lh, w1)" by force
    have emp: "writes w (encbuf_listEnd lh w1) (enc_list [])"
      using l writes_refl by (rule writes_listEnd) simp
    show ?thesis
    proof (cases "(\<exists>n. t = TByteArray n) \<or> (\<exists>ts. t = TStruct ts)")
      case True
      with l emp v None show ?thesis
        by (auto simp: makePtrWriter_def enc_string_Nil writes_Write)
    next
      case False
      then have "makePtrWriter t (makeWriter t) v w = makeWriter t (gzero t) w"
        using v None by (cases t) (simp_all add: makePtrWriter_def)
      moreover from False have "rlp_enc (TPtr t) v = rlp_enc t (gzero t)"
        using v None by (cases t) simp_all
      ultimately show ?thesis using IH [of "gzero t" w] enc len v None by simp
    qed
  qed
qed

lemma makeWriter_writes:
  "encodable t v \<Longrightarrow> length (rlp_enc t v) < 2 ^ 63 \<Longrightarrow>
   \<exists>w'. makeWriter t v w = Inr w' \<and> writes w w' (rlp_enc t v)"
proof (induction t arbitrary: v w)
  case TRaw
  then show ?case by (auto split: gval.splits intro: writes_Write)
next
  case TBigInt
  then show ?case by (auto split: gval.splits intro!: writes_bigint)
next
  case (TUint n)
  then show ?case by (auto split: gval.splits intro: writes_writeUint)
next
  case TBool
  then show ?case using writes_bool [of w True] writes_bool [of w False]
    by (auto split: gval.splits)
next
  case TString
  then obtain b where "v = VString b" "length (enc_string b) < 2 ^ 63" by (auto split: gval.splits)
  then show ?case by (simp add: writeString_eq writes_enc_string)
next
  case TBytes
  then obtain b where "v = VBytes b" "length (enc_string b) < 2 ^ 63" by (auto split: gval.splits)
  then show ?case by (simp add: writes_enc_string)
next
  case (TByteArray n)
  then obtain b where "v = VByteArray b" "length (enc_string b) < 2 ^ 63" by (auto split: gval.splits)
  then show ?case by (simp add: writes_enc_string)
next
  case (TSlice t)
  then obtain vs where v: "v = VList vs" and all: "list_all (encodable t) vs"
    by (auto split: gval.splits)
  let ?b = "concat (map (rlp_enc t) vs)"
  have len: "length ?b < 2 ^ 63"
    using TSlice.prems(2) length_enc_list [of ?b] v by simp
  obtain lh w1 where l: "encbuf_list w = (lh, w1)" by force
  have "\<exists>w'. makeWriter t x u = Inr w' \<and> writes u w' (rlp_enc t x)" if "x \<in> set vs" for x u
  proof (rule TSlice.IH)
    show "encodable t x" using all that by (simp add: list_all_iff)
    show "length (rlp_enc t x) < 2 ^ 63"
      using that len length_concat_member [of "rlp_enc t x" "map (rlp_enc t) vs"] by simp
  qed
  then obtain w2 where "foldR (\<lambda>w' x. makeWriter t x w') w1 vs = Inr w2" "writes w1 w2 ?b"
    using foldR_writes [of vs "makeWriter t" "rlp_enc t" w1] by auto
  with l len v show ?case
    by (auto simp: makeSliceWriter_def intro: writes_listEnd)
next
  case (TStruct ts)
  then obtain vs where v: "v = VStruct vs" and all: "list_all2 (\<lambda>p x. p x) (map encodable ts) vs"
    by (auto split: gval.splits)
  let ?b = "concat (map2 (\<lambda>f x. f x) (map rlp_enc ts) vs)"
  have len: "length ?b < 2 ^ 63"
    using TStruct.prems(2) length_enc_list [of ?b] v by simp
  obtain lh w1 where l: "encbuf_list w = (lh, w1)" by force
  have IH: "\<exists>w'. makeWriter t x u = Inr w' \<and> writes u w' (rlp_enc t x)"
    if "t \<in> set ts" "encodable t x" "length (rlp_enc t x) \<le> length ?b" for t x u
    using TStruct.IH [OF that(1,2), of u] that(3) len by simp
  obtain w2 where "write_fields (map makeWriter ts) vs w1 = Inr w2" "writes w1 w2 ?b"
    using write_fields_writes [OF all IH, of w1] by auto
  with l len v show ?case
    by (auto simp: makeStructWriter_def intro: writes_listEnd)
next
  case (TPtr t)
  then show ?case using makePtrWriter_writes [of t v w] by simp
next
  case (TPtrNil t)
  then have "encodable (TPtr t) v" "length (rlp_enc (TPtr t) v) < 2 ^ 63" by simp_all
  with TPtrNil.IH show ?case using makePtrWriter_writes [of t v w] by simp
qed

section \<open>toBytes\<close>

lemma go_copy_fill:
  "length src \<le> n \<Longrightarrow>
   go_copy (pre @ replicate n 0) (length pre) src = (pre @ src) @ replicate (n - length src) 0"
  by (simp add: go_copy_def)

lemma toBytes_loop_render:
  assumes "offsets_ok strpos (length str) hs"
    and "length (render str strpos hs) \<le> n"
  shows "\<exists>out pos sp. toBytes_loop str (pre @ replicate n 0) (length pre) strpos hs = Inr (out, pos, sp) \<and>
    go_copy out pos (drop sp str) =
      pre @ render str strpos hs @ replicate (n - length (render str strpos hs)) 0"
  using assms
proof (induction hs arbitrary: strpos pre n)
  case Nil
  then show ?case using go_copy_fill [of "drop strpos str" n pre] by simp
next
  case (Cons h hs)
  define piece where "piece = take (nat (lh_offset h) - strpos) (drop strpos str)"
  define enc where "enc = listhead_encode h"
  define rest where "rest = render str (nat (lh_offset h)) hs"
  from Cons.prems(1) have off: "strpos \<le> nat (lh_offset h)"
      and ok: "offsets_ok (nat (lh_offset h)) (length str) hs" by auto
  then have "nat (lh_offset h) \<le> length str" by (auto dest: offsets_ok_le)
  with off have sp: "strpos + length piece = nat (lh_offset h)" by (simp add: piece_def)
  have len: "length piece + length enc + length rest \<le> n"
    using Cons.prems(2) by (simp add: piece_def enc_def rest_def)
  define pre2 where "pre2 = (pre @ piece) @ enc"
  define m where "m = n - length piece - length enc"
  have 1: "go_copy (pre @ replicate n 0) (length pre) piece = (pre @ piece) @ replicate (n - length piece) 0"
    using len by (simp only: go_copy_fill)
  have 2: "go_copy ((pre @ piece) @ replicate (n - length piece) 0) (length pre + length piece) enc =
      pre2 @ replicate m 0"
    using len go_copy_fill [of enc "n - length piece" "pre @ piece"] by (simp add: pre2_def m_def)
  have step: "toBytes_loop str (pre @ replicate n 0) (length pre) strpos (h # hs) =
      toBytes_loop str (pre2 @ replicate m 0) (length pre2) (nat (lh_offset h)) hs"
    using len 1 2 sp by (simp add: Let_def flip: piece_def enc_def) (simp add: pre2_def add.assoc)
  have "length rest \<le> m" using len by (simp add: m_def)
  from Cons.IH [OF ok this [unfolded rest_def], of pre2]
  obtain out pos sp where
    "toBytes_loop str (pre2 @ replicate m 0) (length pre2) (nat (lh_offset h)) hs = Inr (out, pos, sp)"
    "go_copy out pos (drop sp str) = pre2 @ rest @ replicate (m - length rest) 0"
    by (auto simp: rest_def)
  with step show ?case by (auto simp: pre2_def m_def piece_def enc_def rest_def add.assoc)
qed

lemma toBytes_writes: "writes new_encbuf w b \<Longrightarrow> toBytes w = Inr b"
proof -
  assume "writes new_encbuf w b"
  then have ok: "offsets_ok 0 (length (eb_str w)) (eb_lheads w)"
    and r: "render (eb_str w) 0 (eb_lheads w) = b" and sz: "nat (encbuf_size w) = length b"
    by (auto simp: writes_def new_encbuf_def encbuf_size_def)
  from toBytes_loop_render [OF ok, of "length b" "[]"] r
  show ?thesis by (auto simp: toBytes_def sz)
qed

lemma encbuf_reset_new: "encbuf_reset w = new_encbuf"
  by (cases w) (simp add: encbuf_reset_def new_encbuf_def)

theorem EncodeToBytes_correct:
  assumes "encodable t v" and "length (rlp_enc t v) < 2 ^ 63"
  shows "EncodeToBytes_with pooled t v = Inr (rlp_enc t v)"
proof -
  obtain w where "makeWriter t v new_encbuf = Inr w" "writes new_encbuf w (rlp_enc t v)"
    using makeWriter_writes [OF assms] by blast
  then show ?thesis by (simp add: EncodeToBytes_with_def encbuf_reset_new toBytes_writes)
qed

end
