(* ===== verification/Rlp_Decode.thy ===== *)
theory Rlp_Decode
  imports Rlp_Encode
begin

unbundle bit_operations_syntax

text \<open>
  The RLP decoder: \<open>src/gttc/rlp/decode.go\<close> (the \<open>Stream\<close> and the decoders that
  reflection builds from the target type) and the slice-based helpers of
  \<open>src/gttc/rlp/raw.go\<close>.

  A \<open>Stream\<close> operation takes the stream and returns the new stream with its result, so the
  state after a failed operation is kept, as in the code.  The stack of open lists has its
  top first.  Reading from the underlying \<open>bytes.Reader\<close> takes bytes off \<open>st_r\<close>.
  The element loop of a slice (\<open>decodeSliceElems\<close>) has no bound in the code; the model
  gives it fuel, one more than the bytes left in the reader, and \<open>OutOfFuel\<close> never arises
  on an encoded value (every element takes at least a byte).

  The theorems show that decoding is the inverse of encoding for every type, at any
  position inside enclosing lists, and that a stream never reads past the list it is in.
\<close>

section \<open>The stream\<close>

datatype kind = Byte | String | List

record listpos =
  lp_pos :: u64
  lp_size :: u64

text \<open>\<open>st_kind = None\<close> is the code's \<open>kind = -1\<close>: the next value's header is not read yet.\<close>

record Stream =
  st_r :: bytes
  st_remaining :: u64
  st_limited :: bool
  st_kind :: "kind option"
  st_size :: u64
  st_byteval :: byte
  st_kinderr :: "rlp_err option"
  st_stack :: "listpos list"

type_synonym 'a sop = "Stream \<Rightarrow> Stream \<times> (rlp_err + 'a)"

definition sbind :: "'a sop \<Rightarrow> ('a \<Rightarrow> 'b sop) \<Rightarrow> 'b sop" where
  "sbind m f s = (case m s of (s', Inl e) \<Rightarrow> (s', Inl e) | (s', Inr a) \<Rightarrow> f a s')"

definition sreturn :: "'a \<Rightarrow> 'a sop" where
  "sreturn a s = (s, Inr a)"

definition sfail :: "rlp_err \<Rightarrow> 'a sop" where
  "sfail e s = (s, Inl e)"

text \<open>\<open>Reset\<close> with a \<open>bytes.Reader\<close>: without an explicit limit the reader's length is it.\<close>

definition Stream_Reset :: "bytes \<Rightarrow> u64 \<Rightarrow> Stream \<Rightarrow> Stream" where
  "Stream_Reset r inputLimit s =
    s\<lparr>st_remaining := (if 0 < inputLimit then inputLimit else of_nat (length r)),
      st_limited := True, st_r := r, st_stack := [], st_size := 0, st_kind := None,
      st_kinderr := None\<rparr>"

definition new_Stream :: Stream where
  "new_Stream = \<lparr>st_r = [], st_remaining = 0, st_limited = False, st_kind = Some Byte,
     st_size = 0, st_byteval = 0, st_kinderr = None, st_stack = []\<rparr>"

definition NewStream :: "bytes \<Rightarrow> u64 \<Rightarrow> Stream" where
  "NewStream r inputLimit = Stream_Reset r inputLimit new_Stream"

definition NewListStream :: "bytes \<Rightarrow> u64 \<Rightarrow> Stream" where
  "NewListStream r len = (Stream_Reset r len new_Stream)\<lparr>st_kind := Some List, st_size := len\<rparr>"

section \<open>Reading\<close>

definition willRead :: "u64 \<Rightarrow> unit sop" where
  "willRead n s0 =
    (let s = s0\<lparr>st_kind := None\<rparr> in
     case st_stack s of
       [] \<Rightarrow>
         if st_limited s then
           (if st_remaining s < n then (s, Inl ErrValueTooLarge)
            else (s\<lparr>st_remaining := st_remaining s - n\<rparr>, Inr ()))
         else (s, Inr ())
     | tos # stk \<Rightarrow>
         if lp_size tos - lp_pos tos < n then (s, Inl ErrElemTooLarge)
         else
           (let s1 = s\<lparr>st_stack := tos\<lparr>lp_pos := lp_pos tos + n\<rparr> # stk\<rparr> in
            if st_limited s1 then
              (if st_remaining s1 < n then (s1, Inl ErrValueTooLarge)
               else (s1\<lparr>st_remaining := st_remaining s1 - n\<rparr>, Inr ()))
            else (s1, Inr ())))"

text \<open>\<open>readFull\<close> of a buffer of \<open>n\<close> bytes.\<close>

definition readFull :: "nat \<Rightarrow> bytes sop" where
  "readFull n =
    sbind (willRead (of_nat n)) (\<lambda>_ s.
      if n \<le> length (st_r s) then (s\<lparr>st_r := drop n (st_r s)\<rparr>, Inr (take n (st_r s)))
      else (s\<lparr>st_r := []\<rparr>, Inl IoUnexpectedEOF))"

definition readByte :: "byte sop" where
  "readByte =
    sbind (willRead 1) (\<lambda>_ s.
      case st_r s of [] \<Rightarrow> (s, Inl IoUnexpectedEOF) | b # bs \<Rightarrow> (s\<lparr>st_r := bs\<rparr>, Inr b))"

text \<open>
  \<open>readUint\<close> of \<open>size\<close> bytes; \<open>binary.BigEndian.Uint64\<close> of the zero-padded 8-byte buffer.
  The callers pass at most 8; beyond that the code's slice expression panics.
\<close>

definition readUint :: "byte \<Rightarrow> u64 sop" where
  "readUint sz =
    (if sz = 0 then (\<lambda>s. (s\<lparr>st_kind := None\<rparr>, Inr 0))
     else if sz = 1 then sbind readByte (\<lambda>b. sreturn (ucast b))
     else if 8 < sz then sfail IndexPanic
     else sbind (readFull (unat sz)) (\<lambda>buf.
       if hd buf = 0 then sfail ErrCanonSize else sreturn (of_nat (be_val buf))))"

text \<open>
  \<open>readKind\<close> returns kind, size and error together, and so does \<open>Kind\<close> store them: an
  error stays with the value ahead and every later call reports it again.
\<close>

definition readKind_size :: "kind \<Rightarrow> byte \<Rightarrow> Stream \<Rightarrow> Stream \<times> kind \<times> u64 \<times> rlp_err option" where
  "readKind_size k slen s =
    (case readUint slen s of
       (s1, Inl e) \<Rightarrow> (s1, k, 0, Some e)
     | (s1, Inr sz) \<Rightarrow> (s1, k, sz, if sz < 56 then Some ErrCanonSize else None))"

definition readKind :: "Stream \<Rightarrow> Stream \<times> kind \<times> u64 \<times> rlp_err option" where
  "readKind s =
    (case readByte s of
       (s1, Inl e) \<Rightarrow>
         (s1, Byte, 0,
          Some (if st_stack s1 = [] \<and> (e = IoUnexpectedEOF \<or> e = ErrValueTooLarge)
                then IoEOF else e))
     | (s1, Inr b) \<Rightarrow>
         (let s2 = s1\<lparr>st_byteval := 0\<rparr> in
          if b < 0x80 then (s2\<lparr>st_byteval := b\<rparr>, Byte, 0, None)
          else if b < 0xB8 then (s2, String, ucast (b - 0x80), None)
          else if b < 0xC0 then readKind_size String (b - 0xB7) s2
          else if b < 0xF8 then (s2, List, ucast (b - 0xC0), None)
          else readKind_size List (b - 0xF7) s2))"

definition kind_limit :: "Stream \<Rightarrow> u64 \<Rightarrow> rlp_err option" where
  "kind_limit s sz =
    (case st_stack s of
       [] \<Rightarrow> if st_limited s \<and> st_remaining s < sz then Some ErrValueTooLarge else None
     | tos # _ \<Rightarrow> if lp_size tos - lp_pos tos < sz then Some ErrElemTooLarge else None)"

definition Stream_Kind :: "(kind \<times> u64) sop" where
  "Stream_Kind s0 =
    (case st_kind s0 of
       Some k \<Rightarrow>
         (s0, (case st_kinderr s0 of None \<Rightarrow> Inr (k, st_size s0) | Some e \<Rightarrow> Inl e))
     | None \<Rightarrow>
         (let s = s0\<lparr>st_kinderr := None\<rparr> in
          if (case st_stack s of [] \<Rightarrow> False | tos # _ \<Rightarrow> lp_pos tos = lp_size tos)
          then (s, Inl EOL)
          else
            (case readKind s of (s1, k, sz, err) \<Rightarrow>
               (let s2 = s1\<lparr>st_kind := Some k, st_size := sz\<rparr>;
                    err2 = (case err of None \<Rightarrow> kind_limit s2 sz | Some e \<Rightarrow> Some e)
                in (s2\<lparr>st_kinderr := err2\<rparr>,
                    (case err2 of None \<Rightarrow> Inr (k, sz) | Some e \<Rightarrow> Inl e))))))"

definition Stream_Bytes :: "bytes sop" where
  "Stream_Bytes =
    sbind Stream_Kind (\<lambda>(k, sz).
      case k of
        Byte \<Rightarrow> (\<lambda>s. (s\<lparr>st_kind := None\<rparr>, Inr [st_byteval s]))
      | String \<Rightarrow>
          sbind (readFull (unat sz)) (\<lambda>b.
            if sz = 1 \<and> hd b < 128 then sfail ErrCanonSize else sreturn b)
      | List \<Rightarrow> sfail ErrExpectedString)"

definition Stream_Raw :: "bytes sop" where
  "Stream_Raw =
    sbind Stream_Kind (\<lambda>(k, sz).
      case k of
        Byte \<Rightarrow> (\<lambda>s. (s\<lparr>st_kind := None\<rparr>, Inr [st_byteval s]))
      | String \<Rightarrow> sbind (readFull (unat sz)) (\<lambda>b. sreturn (puthead 0x80 0xB7 sz @ b))
      | List \<Rightarrow> sbind (readFull (unat sz)) (\<lambda>b. sreturn (puthead 0xC0 0xF7 sz @ b)))"

definition Stream_uint :: "nat \<Rightarrow> u64 sop" where
  "Stream_uint maxbits =
    sbind Stream_Kind (\<lambda>(k, sz).
      case k of
        Byte \<Rightarrow>
          (\<lambda>s. if st_byteval s = 0 then (s, Inl ErrCanonInt)
               else (s\<lparr>st_kind := None\<rparr>, Inr (ucast (st_byteval s))))
      | String \<Rightarrow>
          if of_nat (maxbits div 8) < sz then sfail ErrUintOverflow
          else (\<lambda>s. case readUint (ucast sz) s of
                  (s1, Inl e) \<Rightarrow> (s1, Inl (if e = ErrCanonSize then ErrCanonInt else e))
                | (s1, Inr v) \<Rightarrow>
                    if 0 < sz \<and> v < 128 then (s1, Inl ErrCanonSize) else (s1, Inr v))
      | List \<Rightarrow> sfail ErrExpectedString)"

definition Stream_Bool :: "bool sop" where
  "Stream_Bool =
    sbind (Stream_uint 8) (\<lambda>num.
      if num = 0 then sreturn False
      else if num = 1 then sreturn True
      else sfail (ErrInvalidBool num))"

definition Stream_List :: "u64 sop" where
  "Stream_List =
    sbind Stream_Kind (\<lambda>(k, sz).
      if k \<noteq> List then sfail ErrExpectedList
      else (\<lambda>s. (s\<lparr>st_stack := \<lparr>lp_pos = 0, lp_size = sz\<rparr> # st_stack s,
                   st_kind := None, st_size := 0\<rparr>, Inr sz)))"

definition Stream_ListEnd :: "unit sop" where
  "Stream_ListEnd s =
    (case st_stack s of
       [] \<Rightarrow> (s, Inl ErrNotInList)
     | tos # stk \<Rightarrow>
         if lp_pos tos \<noteq> lp_size tos then (s, Inl ErrNotAtEOL)
         else
           (s\<lparr>st_stack := (case stk of
                            [] \<Rightarrow> []
                          | up # stk' \<Rightarrow> up\<lparr>lp_pos := lp_pos up + lp_size tos\<rparr> # stk'),
              st_kind := None, st_size := 0\<rparr>, Inr ()))"

section \<open>Decoders\<close>

definition wrapStreamError :: "rlp_err \<Rightarrow> rlp_err" where
  "wrapStreamError e =
    (case e of
       ErrCanonInt \<Rightarrow> DecodeError ''non-canonical integer (leading zero bytes)''
     | ErrCanonSize \<Rightarrow> DecodeError ''non-canonical size information''
     | ErrExpectedList \<Rightarrow> DecodeError ''expected input list''
     | ErrExpectedString \<Rightarrow> DecodeError ''expected input string or byte''
     | ErrUintOverflow \<Rightarrow> DecodeError ''input string too long''
     | ErrNotAtEOL \<Rightarrow> DecodeError ''input list has too many elements''
     | _ \<Rightarrow> e)"

definition wrapped :: "'a sop \<Rightarrow> 'a sop" where
  "wrapped m s = (case m s of (s', Inl e) \<Rightarrow> (s', Inl (wrapStreamError e)) | r \<Rightarrow> r)"

type_synonym gdecoder = "gval sop"

definition decodeRawValue :: gdecoder where
  "decodeRawValue = sbind Stream_Raw (\<lambda>r. sreturn (VRaw r))"

definition decodeUint :: "nat \<Rightarrow> gdecoder" where
  "decodeUint bits = sbind (wrapped (Stream_uint bits)) (\<lambda>n. sreturn (VUint n))"

definition decodeBool :: gdecoder where
  "decodeBool = sbind (wrapped Stream_Bool) (\<lambda>b. sreturn (VBool b))"

definition decodeString :: gdecoder where
  "decodeString = sbind (wrapped Stream_Bytes) (\<lambda>b. sreturn (VString b))"

definition decodeByteSlice :: gdecoder where
  "decodeByteSlice = sbind (wrapped Stream_Bytes) (\<lambda>b. sreturn (VBytes b))"

definition decodeBigInt :: gdecoder where
  "decodeBigInt =
    sbind (wrapped Stream_Bytes) (\<lambda>b.
      if 0 < length b \<and> hd b = 0 then sfail (wrapStreamError ErrCanonInt)
      else sreturn (VBig (Some (int (be_val b)))))"

definition decodeByteArray :: "nat \<Rightarrow> gdecoder" where
  "decodeByteArray vlen =
    sbind Stream_Kind (\<lambda>(k, sz).
      case k of
        Byte \<Rightarrow>
          if vlen = 0 then sfail (DecodeError ''input string too long'')
          else if 1 < vlen then sfail (DecodeError ''input string too short'')
          else (\<lambda>s. case Stream_uint 64 s of
                  (s1, Inl e) \<Rightarrow> (s1, Inr (VByteArray [0]))
                | (s1, Inr bv) \<Rightarrow> (s1, Inr (VByteArray [ucast bv])))
      | String \<Rightarrow>
          if of_nat vlen < sz then sfail (DecodeError ''input string too long'')
          else if sz < of_nat vlen then sfail (DecodeError ''input string too short'')
          else
            sbind (readFull vlen) (\<lambda>b.
              if sz = 1 \<and> hd b < 128 then sfail (wrapStreamError ErrCanonSize)
              else sreturn (VByteArray b))
      | List \<Rightarrow> sfail (wrapStreamError ErrExpectedString))"

text \<open>The element loop; it ends when the element decoder reports the end of the list.\<close>

primrec decodeSliceElems :: "nat \<Rightarrow> gdecoder \<Rightarrow> gval list sop" where
  "decodeSliceElems 0 elemdec s = (s, Inl OutOfFuel)"
| "decodeSliceElems (Suc fuel) elemdec s =
    (case elemdec s of
       (s1, Inl e) \<Rightarrow> if e = EOL then (s1, Inr []) else (s1, Inl e)
     | (s1, Inr v) \<Rightarrow>
         (case decodeSliceElems fuel elemdec s1 of
            (s2, Inl e) \<Rightarrow> (s2, Inl e)
          | (s2, Inr vs) \<Rightarrow> (s2, Inr (v # vs))))"

definition decodeListSlice :: "gdecoder \<Rightarrow> gdecoder" where
  "decodeListSlice elemdec =
    sbind (wrapped Stream_List) (\<lambda>sz.
      if sz = 0 then sbind Stream_ListEnd (\<lambda>_. sreturn (VList []))
      else (\<lambda>s. sbind (decodeSliceElems (Suc (length (st_r s))) elemdec) (\<lambda>vs.
             sbind Stream_ListEnd (\<lambda>_. sreturn (VList vs))) s))"

primrec decode_fields :: "gdecoder list \<Rightarrow> gval list sop" where
  "decode_fields [] s = (s, Inr [])"
| "decode_fields (f # fs) s =
    (case f s of
       (s1, Inl e) \<Rightarrow> (s1, Inl (if e = EOL then DecodeError ''too few elements'' else e))
     | (s1, Inr v) \<Rightarrow>
         (case decode_fields fs s1 of
            (s2, Inl e) \<Rightarrow> (s2, Inl e)
          | (s2, Inr vs) \<Rightarrow> (s2, Inr (v # vs))))"

definition makeStructDecoder :: "gdecoder list \<Rightarrow> gdecoder" where
  "makeStructDecoder fs =
    sbind (wrapped Stream_List) (\<lambda>_.
      sbind (decode_fields fs) (\<lambda>vs.
        sbind (wrapped Stream_ListEnd) (\<lambda>_. sreturn (VStruct vs))))"

definition makePtrDecoder :: "gdecoder \<Rightarrow> gdecoder" where
  "makePtrDecoder dec = sbind dec (\<lambda>v. sreturn (VPtr (Some v)))"

definition makeOptionalPtrDecoder :: "gdecoder \<Rightarrow> gdecoder" where
  "makeOptionalPtrDecoder dec s =
    (case Stream_Kind s of
       (s1, Inl e) \<Rightarrow> (s1\<lparr>st_kind := None\<rparr>, Inl e)
     | (s1, Inr (k, sz)) \<Rightarrow>
         if sz = 0 \<and> k \<noteq> Byte then (s1\<lparr>st_kind := None\<rparr>, Inr (VPtr None))
         else sbind dec (\<lambda>v. sreturn (VPtr (Some v))) s1)"

primrec makeDecoder :: "gtype \<Rightarrow> gdecoder" where
  "makeDecoder TRaw = decodeRawValue"
| "makeDecoder TBigInt = decodeBigInt"
| "makeDecoder (TUint n) = decodeUint n"
| "makeDecoder TBool = decodeBool"
| "makeDecoder TString = decodeString"
| "makeDecoder TBytes = decodeByteSlice"
| "makeDecoder (TByteArray n) = decodeByteArray n"
| "makeDecoder (TSlice t) = decodeListSlice (makeDecoder t)"
| "makeDecoder (TStruct ts) = makeStructDecoder (map makeDecoder ts)"
| "makeDecoder (TPtr t) = makePtrDecoder (makeDecoder t)"
| "makeDecoder (TPtrNil t) = makeOptionalPtrDecoder (makeDecoder t)"

definition DecodeBytes :: "gtype \<Rightarrow> bytes \<Rightarrow> rlp_err + gval" where
  "DecodeBytes t b =
    (case makeDecoder t (NewStream b (of_nat (length b))) of
       (s, Inl e) \<Rightarrow> Inl e
     | (s, Inr v) \<Rightarrow> if 0 < length (st_r s) then Inl ErrMoreThanOneValue else Inr v)"

lemma puthead_not_Nil [simp]: "puthead a b n \<noteq> []"
  by (simp add: puthead_def Let_def)

section \<open>Moving along the input\<close>

fun bump :: "nat \<Rightarrow> listpos list \<Rightarrow> listpos list" where
  "bump n [] = []"
| "bump n (t # ts) = t\<lparr>lp_pos := lp_pos t + of_nat n\<rparr> # ts"

text \<open>\<open>adv n s s'\<close>: from \<open>s\<close> to \<open>s'\<close> exactly \<open>n\<close> bytes were taken off the input.\<close>

definition adv :: "nat \<Rightarrow> Stream \<Rightarrow> Stream \<Rightarrow> bool" where
  "adv n s s' \<longleftrightarrow> st_r s' = drop n (st_r s) \<and> st_remaining s' = st_remaining s - of_nat n \<and>
     st_limited s' = st_limited s \<and> st_stack s' = bump n (st_stack s)"

text \<open>\<open>room n s\<close>: the reader, the input limit and the innermost list all have \<open>n\<close> bytes left.\<close>

definition room :: "nat \<Rightarrow> Stream \<Rightarrow> bool" where
  "room n s \<longleftrightarrow> n \<le> length (st_r s) \<and> n < 2 ^ 63 \<and> st_limited s \<and> n \<le> unat (st_remaining s) \<and>
     (case st_stack s of [] \<Rightarrow> True | t # _ \<Rightarrow> n \<le> unat (lp_size t - lp_pos t))"

definition fresh :: "Stream \<Rightarrow> bool" where
  "fresh s \<longleftrightarrow> st_kind s = None"

lemma adv_0: "st_r s' = st_r s \<Longrightarrow> st_remaining s' = st_remaining s \<Longrightarrow> st_limited s' = st_limited s \<Longrightarrow>
   st_stack s' = st_stack s \<Longrightarrow> adv 0 s s'"
  by (cases "st_stack s") (simp_all add: adv_def)

lemma bump_bump: "bump b (bump a ts) = bump (a + b) ts"
  by (cases ts) (simp_all add: algebra_simps)

lemma adv_trans: "adv a s s1 \<Longrightarrow> adv b s1 s2 \<Longrightarrow> adv (a + b) s s2"
  by (auto simp: adv_def bump_bump algebra_simps)

lemma room_mono: "room n s \<Longrightarrow> m \<le> n \<Longrightarrow> room m s"
  by (auto simp: room_def split: list.splits)

lemma room_adv:
  assumes "room (a + b) s" and "adv a s s1"
  shows "room b s1"
proof -
  have ua: "unat (of_nat a :: u64) = a" using assms(1) by (simp add: room_def unat_of_nat64)
  have rem: "unat (st_remaining s - of_nat a) = unat (st_remaining s) - a"
    using assms(1) by (subst unat_sub_le) (auto simp: room_def word_le_nat_alt ua)
  have top: "unat (lp_size t - (lp_pos t + of_nat a)) = unat (lp_size t - lp_pos t) - a"
    if "a + b \<le> unat (lp_size t - lp_pos t)" for t
  proof -
    have "lp_size t - (lp_pos t + of_nat a) = (lp_size t - lp_pos t) - of_nat a" by simp
    also have "unat \<dots> = unat (lp_size t - lp_pos t) - a"
      using that by (subst unat_sub_le) (auto simp: word_le_nat_alt ua)
    finally show ?thesis .
  qed
  show ?thesis
  proof (cases "st_stack s")
    case Nil
    with assms rem show ?thesis by (auto simp: room_def adv_def)
  next
    case (Cons t ts)
    with assms rem top [of t] show ?thesis by (auto simp: room_def adv_def)
  qed
qed

lemma room_kind [simp]: "room n (s\<lparr>st_kind := k\<rparr>) = room n s" "room n (s\<lparr>st_kinderr := e\<rparr>) = room n s"
  "room n (s\<lparr>st_size := z\<rparr>) = room n s" "room n (s\<lparr>st_byteval := b\<rparr>) = room n s"
  by (simp_all add: room_def)

lemma adv_kind [simp]: "adv n s (s'\<lparr>st_kind := k\<rparr>) = adv n s s'" "adv n s (s'\<lparr>st_kinderr := e\<rparr>) = adv n s s'"
  "adv n s (s'\<lparr>st_size := z\<rparr>) = adv n s s'" "adv n s (s'\<lparr>st_byteval := b\<rparr>) = adv n s s'"
  "adv n (s\<lparr>st_kinderr := e\<rparr>) s' = adv n s s'" "adv n (s\<lparr>st_kind := k\<rparr>) s' = adv n s s'"
  by (simp_all add: adv_def)

subsection \<open>Reads succeed where there is room\<close>

lemma willRead_room:
  assumes "room n s"
  shows "willRead (of_nat n) s =
    (s\<lparr>st_kind := None, st_stack := bump n (st_stack s), st_remaining := st_remaining s - of_nat n\<rparr>, Inr ())"
proof -
  have un: "unat (of_nat n :: u64) = n" using assms by (simp add: room_def unat_of_nat64)
  show ?thesis
    using assms by (cases "st_stack s") (auto simp: willRead_def room_def word_less_nat_alt un Let_def)
qed

lemma readFull_room:
  assumes "room n s"
  shows "\<exists>s'. readFull n s = (s', Inr (take n (st_r s))) \<and> adv n s s' \<and> fresh s'"
  using assms by (auto simp: readFull_def sbind_def willRead_room adv_def fresh_def room_def)

lemma readByte_room:
  assumes "room 1 s"
  shows "\<exists>s'. readByte s = (s', Inr (hd (st_r s))) \<and> adv 1 s s' \<and> fresh s'"
proof -
  have "st_r s \<noteq> []" using assms by (auto simp: room_def)
  with assms willRead_room [OF assms] show ?thesis
    by (cases "st_r s") (auto simp: readByte_def sbind_def adv_def fresh_def)
qed

lemma readUint_room:
  assumes "putint i = b" "1 < length b" "st_r s = b @ rest" "room (length b) s"
  shows "\<exists>s'. readUint (of_nat (length b)) s = (s', Inr i) \<and> adv (length b) s s' \<and> fresh s'"
proof -
  have len: "length b \<le> 8" using length_putint [of i] assms(1) by simp
  have nz: "i \<noteq> 0"
  proof
    assume "i = 0"
    then have "putint i = [0]" by (simp add: putint_small)
    with assms(1,2) show False by auto
  qed
  have un: "unat (of_nat (length b) :: byte) = length b"
    using len by (simp add: unat_of_nat take_bit_nat_eq_self)
  have cmp: "(of_nat (length b) :: byte) \<noteq> 0" "(of_nat (length b) :: byte) \<noteq> 1"
      "\<not> (8 :: byte) < of_nat (length b)"
    using assms(2) len by (auto simp add: word_unat_eq_iff un word_less_nat_alt)
  have hd: "hd b \<noteq> 0" using nz hd_be_bytes [of "unat i"] unat_gt_0 [of i] assms(1)
    by (simp add: putint_eq_be_bytes)
  have val: "(of_nat (be_val b) :: u64) = i"
  proof -
    have "be_val b = unat i" using putint_eq_be_bytes [OF nz] assms(1) be_val_be_bytes by metis
    then show ?thesis by simp
  qed
  obtain s' where "readFull (length b) s = (s', Inr b)" "adv (length b) s s'" "fresh s'"
    using readFull_room [OF assms(4)] assms(3) by auto
  then show ?thesis
    using cmp hd val by (auto simp: readUint_def un sbind_def sfail_def sreturn_def)
qed

subsection \<open>Headers\<close>

lemma unat_add_byte: "a + n < 256 \<Longrightarrow> unat (of_nat a + of_nat n :: byte) = a + n"
  by (simp add: unat_of_nat take_bit_nat_eq_self flip: of_nat_add)

lemma readKind_size_ok:
  assumes "56 \<le> n" "n < 2 ^ 63" "putint (of_nat n) = b" "st_r s = b @ rest" "room (length b) s"
  shows "\<exists>s'. readKind_size k (of_nat (length b)) s = (s', k, of_nat n, None) \<and> adv (length b) s s' \<and> fresh s'"
proof -
  have un: "unat (of_nat n :: u64) = n" using assms(2) by (simp add: unat_of_nat64)
  then have ge: "\<not> (of_nat n :: u64) < 56" using assms(1) by (simp add: word_less_nat_alt)
  show ?thesis
  proof (cases "length b = 1")
    case True
    then obtain x where x: "b = [x]" by (auto simp: length_Suc_conv)
    have nz: "(of_nat n :: u64) \<noteq> 0" using un assms(1) by auto
    have "be_val b = n" using assms(3) nz un by (simp add: putint_eq_be_bytes del: of_nat_unat) (metis be_val_be_bytes)
    with x have "unat x = n" by (simp add: be_val_def)
    moreover have "unat x < 256" using unsigned_less [of x] by simp
    ultimately have "(ucast x :: u64) = of_nat n"
      by (simp add: word_unat_eq_iff unsigned_ucast_eq un take_bit_nat_eq_self)
    moreover obtain s' where "readByte s = (s', Inr x)" "adv 1 s s'" "fresh s'"
      using readByte_room [of s] assms(4,5) x by auto
    ultimately show ?thesis
      using x ge by (auto simp: readKind_size_def readUint_def sbind_def sreturn_def)
  next
    case False
    then have "1 < length b" using length_putint [of "of_nat n"] assms(3) by auto
    from readUint_room [OF assms(3) this assms(4,5)] ge show ?thesis
      by (auto simp: readKind_size_def)
  qed
qed

lemma readKind_header:
  assumes tag: "k = String \<and> a = 0x80 \<and> l = 0xB7 \<or> k = List \<and> a = 0xC0 \<and> l = 0xF7"
    and n: "n < 2 ^ 63" and h: "puthead a l (of_nat n) = h" and r: "st_r s = h @ rest"
    and rm: "room (length h) s"
  shows "\<exists>s'. readKind s = (s', k, of_nat n, None) \<and> adv (length h) s s' \<and> fresh s'"
proof -
  have un: "unat (of_nat n :: u64) = n" using n by (simp add: unat_of_nat64)
  have small: "((of_nat n :: u64) < 56) = (n < 56)" using un by (simp add: word_less_nat_alt)
  have "h \<noteq> []" using h puthead_not_Nil by metis
  then have "room 1 s" using rm by (auto intro: room_mono simp: Suc_le_eq)
  from readByte_room [OF this] r \<open>h \<noteq> []\<close>
  obtain s1 where s1: "readByte s = (s1, Inr (hd h))" "adv 1 s s1" "fresh s1" by auto
  show ?thesis
  proof (cases "n < 56")
    case True
    have uc: "(ucast (of_nat n :: u64) :: byte) = of_nat n"
      using True by (simp add: ucast_u64_byte un del: of_nat_unat)
    have h1: "h = [a + of_nat n]" using h small True uc by (simp add: puthead_def)
    have bk: "ucast (of_nat n :: byte) = (of_nat n :: u64)"
      using True by (simp add: word_unat_eq_iff unsigned_ucast_eq un unat_of_nat take_bit_nat_eq_self)
    from tag show ?thesis
    proof
      assume t: "k = String \<and> a = 0x80 \<and> l = 0xB7"
      have u: "unat (0x80 + of_nat n :: byte) = 128 + n"
        using unat_add_byte [of 128 n] True by simp
      show ?thesis
        using t h1 s1 True u bk by (simp add: readKind_def Let_def word_less_nat_alt fresh_def)
    next
      assume t: "k = List \<and> a = 0xC0 \<and> l = 0xF7"
      have u: "unat (0xC0 + of_nat n :: byte) = 192 + n"
        using unat_add_byte [of 192 n] True by simp
      show ?thesis
        using t h1 s1 True u bk by (simp add: readKind_def Let_def word_less_nat_alt fresh_def)
    qed
  next
    case False
    define b where "b = putint (of_nat n)"
    have len: "1 \<le> length b" "length b \<le> 8" using length_putint by (simp_all add: b_def)
    then have bne: "b \<noteq> []" by auto
    have h2: "h = (l + of_nat (length b)) # b"
      using h small False by (simp add: puthead_def Let_def b_def)
    let ?s2 = "s1\<lparr>st_byteval := 0\<rparr>"
    have "room (length b) s1" using room_adv [of 1 "length b" s s1] rm s1(2) h2 by simp
    then have rm2: "room (length b) ?s2" by simp
    have r2: "st_r ?s2 = b @ rest" using s1(2) r h2 by (simp add: adv_def)
    obtain s' where s': "readKind_size k (of_nat (length b)) ?s2 = (s', k, of_nat n, None)"
        "adv (length b) s1 s'" "fresh s'"
      using readKind_size_ok [of n b ?s2 rest k] False n r2 rm2 by (auto simp: b_def adv_def)
    have adv: "adv (length h) s s'" using adv_trans [OF s1(2) s'(2)] h2 by simp
    from tag show ?thesis
    proof
      assume t: "k = String \<and> a = 0x80 \<and> l = 0xB7"
      have u: "unat (0xB7 + of_nat (length b) :: byte) = 183 + length b"
        using unat_add_byte [of 183 "length b"] len by simp
      show ?thesis
        using t h2 s1 s' adv len bne u by (simp add: readKind_def Let_def word_less_nat_alt)
    next
      assume t: "k = List \<and> a = 0xC0 \<and> l = 0xF7"
      have u: "unat (0xF7 + of_nat (length b) :: byte) = 247 + length b"
        using unat_add_byte [of 247 "length b"] len by simp
      show ?thesis
        using t h2 s1 s' adv len bne u by (simp add: readKind_def Let_def word_less_nat_alt)
    qed
  qed
qed

lemma not_at_end: "room n s \<Longrightarrow> 0 < n \<Longrightarrow>
   \<not> (case st_stack s of [] \<Rightarrow> False | tos # _ \<Rightarrow> lp_pos tos = lp_size tos)"
  by (auto simp: room_def split: list.splits)

lemma kind_limit_room: "room (unat sz) s \<Longrightarrow> kind_limit s sz = None"
  by (auto simp: kind_limit_def room_def word_less_nat_alt split: list.splits)

text \<open>\<open>Kind\<close> on a well-formed header, with room for the content behind it.\<close>

lemma Stream_Kind_header:
  assumes "k = String \<and> a = 0x80 \<and> l = 0xB7 \<or> k = List \<and> a = 0xC0 \<and> l = 0xF7"
    and n: "n < 2 ^ 63" and h: "puthead a l (of_nat n) = h" and r: "st_r s = h @ rest"
    and rm: "room (length h + n) s" and fr: "fresh s"
  shows "\<exists>s'. Stream_Kind s = (s', Inr (k, of_nat n)) \<and> adv (length h) s s' \<and>
    st_kind s' = Some k \<and> st_size s' = of_nat n \<and> st_kinderr s' = None"
proof -
  let ?s0 = "s\<lparr>st_kinderr := None\<rparr>"
  have "h \<noteq> []" using h puthead_not_Nil by metis
  have rm0: "room (length h) ?s0" using rm by (auto intro: room_mono)
  from readKind_header [OF assms(1) n h _ rm0] r obtain s1 where
    s1: "readKind ?s0 = (s1, k, of_nat n, None)" "adv (length h) s s1" by auto
  have "room (unat (of_nat n :: u64)) s1"
    using room_adv [OF rm s1(2)] n by (simp add: unat_of_nat64)
  then have "kind_limit (s1\<lparr>st_kind := Some k, st_size := of_nat n\<rparr>) (of_nat n) = None"
    by (intro kind_limit_room) simp
  with s1 fr not_at_end [OF rm] \<open>h \<noteq> []\<close> show ?thesis
    by (simp add: Stream_Kind_def fresh_def Let_def)
qed

lemma Stream_Kind_byte:
  assumes "b < 0x80" and r: "st_r s = b # rest" and rm: "room 1 s" and fr: "fresh s"
  shows "\<exists>s'. Stream_Kind s = (s', Inr (Byte, 0)) \<and> adv 1 s s' \<and>
    st_kind s' = Some Byte \<and> st_size s' = 0 \<and> st_kinderr s' = None \<and> st_byteval s' = b"
proof -
  let ?s0 = "s\<lparr>st_kinderr := None\<rparr>"
  obtain s1 where s1: "readByte ?s0 = (s1, Inr b)" "adv 1 s s1" "fresh s1"
    using readByte_room [of ?s0] rm r by auto
  then have rk: "readKind ?s0 = (s1\<lparr>st_byteval := b\<rparr>, Byte, 0, None)"
    using assms(1) by (simp add: readKind_def)
  have "room 0 s1" using room_adv [of 1 0 s s1] rm s1(2) by simp
  then have "kind_limit (s1\<lparr>st_byteval := b, st_kind := Some Byte, st_size := 0\<rparr>) 0 = None"
    by (intro kind_limit_room) simp
  with rk s1 fr not_at_end [OF rm] show ?thesis
    by (simp add: Stream_Kind_def fresh_def Let_def)
qed

section \<open>Decoding what was encoded\<close>

text \<open>
  The contract between an encoding and a decoder of one type: on a stream whose input
  starts with the encoding, with room for it, the decoder yields the value and moves the
  stream past it; at the end of a list it reports \<open>EOL\<close> and takes nothing.
\<close>

definition decodes :: "gdecoder \<Rightarrow> bytes \<Rightarrow> gval \<Rightarrow> bool" where
  "decodes dec b v \<longleftrightarrow>
    (\<forall>s rest. fresh s \<longrightarrow> st_r s = b @ rest \<longrightarrow> room (length b) s \<longrightarrow>
       (\<exists>s'. dec s = (s', Inr v) \<and> adv (length b) s s' \<and> fresh s'))"

definition at_end :: "Stream \<Rightarrow> bool" where
  "at_end s \<longleftrightarrow> fresh s \<and> (\<exists>t ts. st_stack s = t # ts \<and> lp_pos t = lp_size t)"

definition reports_end :: "gdecoder \<Rightarrow> bool" where
  "reports_end dec \<longleftrightarrow>
    (\<forall>s. at_end s \<longrightarrow> (\<exists>s'. dec s = (s', Inl EOL) \<and> adv 0 s s' \<and> fresh s'))"

lemma decodesI:
  "(\<And>s rest. fresh s \<Longrightarrow> st_r s = b @ rest \<Longrightarrow> room (length b) s \<Longrightarrow>
     \<exists>s'. dec s = (s', Inr v) \<and> adv (length b) s s' \<and> fresh s') \<Longrightarrow> decodes dec b v"
  by (simp add: decodes_def)

lemma decodesD:
  "decodes dec b v \<Longrightarrow> fresh s \<Longrightarrow> st_r s = b @ rest \<Longrightarrow> room (length b) s \<Longrightarrow>
   \<exists>s'. dec s = (s', Inr v) \<and> adv (length b) s s' \<and> fresh s'"
  by (simp add: decodes_def)

lemma Stream_Kind_end: "at_end s \<Longrightarrow> Stream_Kind s = (s\<lparr>st_kinderr := None\<rparr>, Inl EOL)"
  by (auto simp: at_end_def fresh_def Stream_Kind_def)

lemma adv_0_refl [simp]: "adv 0 s s"
  by (rule adv_0) simp_all

lemma end_state: "at_end s \<Longrightarrow> adv 0 s (s\<lparr>st_kinderr := None\<rparr>) \<and> fresh (s\<lparr>st_kinderr := None\<rparr>)"
  by (auto simp: at_end_def fresh_def intro: adv_0)

lemma reports_end_makeDecoder: "reports_end (makeDecoder t)"
proof (induction t)
  case TRaw
  then show ?case
    by (auto simp: reports_end_def decodeRawValue_def Stream_Raw_def sbind_def Stream_Kind_end end_state)
next
  case TBigInt
  then show ?case
    by (auto simp: reports_end_def decodeBigInt_def Stream_Bytes_def wrapped_def wrapStreamError_def
        sbind_def Stream_Kind_end end_state)
next
  case (TUint n)
  then show ?case
    by (auto simp: reports_end_def decodeUint_def Stream_uint_def wrapped_def wrapStreamError_def
        sbind_def Stream_Kind_end end_state)
next
  case TBool
  then show ?case
    by (auto simp: reports_end_def decodeBool_def Stream_Bool_def Stream_uint_def wrapped_def wrapStreamError_def
        sbind_def Stream_Kind_end end_state)
next
  case TString
  then show ?case
    by (auto simp: reports_end_def decodeString_def Stream_Bytes_def wrapped_def wrapStreamError_def
        sbind_def Stream_Kind_end end_state)
next
  case TBytes
  then show ?case
    by (auto simp: reports_end_def decodeByteSlice_def Stream_Bytes_def wrapped_def wrapStreamError_def
        sbind_def Stream_Kind_end end_state)
next
  case (TByteArray n)
  then show ?case
    by (auto simp: reports_end_def decodeByteArray_def sbind_def Stream_Kind_end end_state)
next
  case (TSlice t)
  then show ?case
    by (auto simp: reports_end_def decodeListSlice_def Stream_List_def wrapped_def wrapStreamError_def
        sbind_def Stream_Kind_end end_state)
next
  case (TStruct ts)
  then show ?case
    by (auto simp: reports_end_def makeStructDecoder_def Stream_List_def wrapped_def wrapStreamError_def
        sbind_def Stream_Kind_end end_state)
next
  case (TPtr t)
  then show ?case by (fastforce simp: reports_end_def makePtrDecoder_def sbind_def)
next
  case (TPtrNil t)
  then show ?case
    using end_state by (auto simp: reports_end_def makeOptionalPtrDecoder_def Stream_Kind_end fresh_def)
qed

subsection \<open>Strings\<close>

lemma enc_string_cases:
  obtains (single) x where "b = [x]" "x < 0x80" "enc_string b = [x]"
  | (header) "enc_string b = puthead 0x80 0xB7 (of_nat (length b)) @ b"
      "length b = 1 \<longrightarrow> \<not> hd b < 128"
proof (cases "length b = 1 \<and> hd b \<le> 0x7F")
  case True
  then obtain x where x: "b = [x]" by (cases b) auto
  have "x < 0x80" using True x by (simp add: word_le_nat_alt word_less_nat_alt)
  then show ?thesis using single [of x] x True by (simp add: enc_string_def)
next
  case False
  then have "\<not> hd b < 128" if "length b = 1"
    using that by (auto simp add: word_le_nat_alt word_less_nat_alt)
  then show ?thesis using header False by (auto simp: enc_string_def)
qed

lemma Stream_Bytes_enc_string:
  assumes "fresh s" "st_r s = enc_string b @ rest" "room (length (enc_string b)) s"
  shows "\<exists>s'. Stream_Bytes s = (s', Inr b) \<and> adv (length (enc_string b)) s s' \<and> fresh s'"
proof (cases rule: enc_string_cases [of b])
  case (single x)
  obtain s1 where "Stream_Kind s = (s1, Inr (Byte, 0))" "adv 1 s s1" "st_byteval s1 = x"
    using Stream_Kind_byte [of x s rest] assms single by auto
  with single show ?thesis by (simp add: Stream_Bytes_def sbind_def fresh_def)
next
  case header
  let ?h = "puthead 0x80 0xB7 (of_nat (length b))"
  have n: "length b < 2 ^ 63" using assms(3) header by (simp add: room_def)
  have un: "unat (of_nat (length b) :: u64) = length b" using n by (simp add: unat_of_nat64)
  obtain s1 where s1: "Stream_Kind s = (s1, Inr (String, of_nat (length b)))" "adv (length ?h) s s1"
    using Stream_Kind_header [of String "0x80" "0xB7" "length b" ?h s "b @ rest"] n assms header by auto
  have "room (length b) s1" using room_adv [of "length ?h" "length b" s s1] assms(3) header s1(2) by simp
  moreover have "st_r s1 = b @ rest" using s1(2) assms(2) header by (simp add: adv_def)
  ultimately obtain s2 where s2: "readFull (length b) s1 = (s2, Inr b)" "adv (length b) s1 s2" "fresh s2"
    using readFull_room [of "length b" s1] by auto
  have "\<not> (of_nat (length b) = (1 :: u64) \<and> hd b < 128)"
    using header un by (auto simp: word_unat_eq_iff)
  then show ?thesis
    using s1 s2 un header adv_trans [OF s1(2) s2(2)]
    by (auto simp: Stream_Bytes_def sbind_def sreturn_def sfail_def)
qed

lemma decodes_string: "decodes decodeString (enc_string b) (VString b)"
  by (rule decodesI, drule (2) Stream_Bytes_enc_string)
    (auto simp: decodeString_def wrapped_def sbind_def sreturn_def)

lemma decodes_bytes: "decodes decodeByteSlice (enc_string b) (VBytes b)"
  by (rule decodesI, drule (2) Stream_Bytes_enc_string)
    (auto simp: decodeByteSlice_def wrapped_def sbind_def sreturn_def)

lemma decodes_bigint: "0 \<le> i \<Longrightarrow> decodes decodeBigInt (enc_string (be_bytes (nat i))) (VBig (Some i))"
proof (rule decodesI, drule (2) Stream_Bytes_enc_string)
  fix s
  assume i: "0 \<le> i" and
    "\<exists>s'. Stream_Bytes s = (s', Inr (be_bytes (nat i))) \<and>
       adv (length (enc_string (be_bytes (nat i)))) s s' \<and> fresh s'"
  moreover have "\<not> (0 < length (be_bytes (nat i)) \<and> hd (be_bytes (nat i)) = 0)"
    using hd_be_bytes [of "nat i"] by auto
  ultimately show "\<exists>s'. decodeBigInt s = (s', Inr (VBig (Some i))) \<and>
       adv (length (enc_string (be_bytes (nat i)))) s s' \<and> fresh s'"
    by (auto simp: decodeBigInt_def wrapped_def sbind_def sreturn_def)
qed

subsection \<open>Integers and booleans\<close>

lemma Stream_uint_byte:
  assumes "fresh s" "st_r s = x # rest" "room 1 s" "x < 0x80" "x \<noteq> 0"
  shows "\<exists>s'. Stream_uint n s = (s', Inr (ucast x)) \<and> adv 1 s s' \<and> fresh s'"
proof -
  obtain s1 where "Stream_Kind s = (s1, Inr (Byte, 0))" "adv 1 s s1" "st_byteval s1 = x"
    using Stream_Kind_byte [of x s rest] assms by auto
  with assms(5) show ?thesis by (simp add: Stream_uint_def sbind_def fresh_def)
qed

lemma Stream_uint_header:
  assumes i: "128 \<le> unat i" and len: "length (putint i) \<le> n div 8" and n64: "n \<le> 64"
    and fr: "fresh s" and r: "st_r s = puthead 0x80 0xB7 (of_nat (length (putint i))) @ putint i @ rest"
    and rm: "room (length (puthead 0x80 0xB7 (of_nat (length (putint i)))) + length (putint i)) s"
  shows "\<exists>s'. Stream_uint n s = (s', Inr i) \<and>
    adv (length (puthead 0x80 0xB7 (of_nat (length (putint i)))) + length (putint i)) s s' \<and> fresh s'"
proof -
  define b where "b = putint i"
  define h where "h = puthead 0x80 0xB7 (of_nat (length b))"
  have lb: "1 \<le> length b" "length b \<le> 8" using length_putint by (simp_all add: b_def)
  have nz: "i \<noteq> 0" using i by auto
  have bv: "be_val b = unat i" using nz by (simp add: b_def putint_eq_be_bytes)
  have un: "unat (of_nat (length b) :: u64) = length b" using lb by (simp add: unat_of_nat64)
  have uc: "(ucast (of_nat (length b) :: u64) :: byte) = of_nat (length b)"
    using lb by (simp add: ucast_u64_byte un del: of_nat_unat)
  obtain s1 where s1: "Stream_Kind s = (s1, Inr (String, of_nat (length b)))" "adv (length h) s s1"
    using Stream_Kind_header [of String "0x80" "0xB7" "length b" h s "b @ rest"] lb fr r rm
    by (auto simp: h_def b_def)
  have rm1: "room (length b) s1" using room_adv [of "length h" "length b" s s1] rm s1(2)
    by (simp add: h_def b_def)
  have r1: "st_r s1 = b @ rest" using s1(2) r by (simp add: adv_def h_def b_def)
  have "\<exists>s2. readUint (of_nat (length b)) s1 = (s2, Inr i) \<and> adv (length b) s1 s2 \<and> fresh s2"
  proof (cases "length b = 1")
    case True
    then obtain x where x: "b = [x]" by (auto simp: length_Suc_conv)
    with bv have "unat x = unat i" by (simp add: be_val_def)
    moreover have "unat x < 256" using unsigned_less [of x] by simp
    ultimately have "(ucast x :: u64) = i"
      by (simp add: word_unat_eq_iff unsigned_ucast_eq take_bit_nat_eq_self)
    moreover obtain s2 where "readByte s1 = (s2, Inr x)" "adv 1 s1 s2" "fresh s2"
      using readByte_room [of s1] rm1 r1 x by auto
    ultimately show ?thesis using x by (auto simp: readUint_def sbind_def sreturn_def)
  next
    case False
    then show ?thesis using readUint_room [of i b s1 rest] lb r1 rm1 by (simp add: b_def)
  qed
  then obtain s2 where s2: "readUint (of_nat (length b)) s1 = (s2, Inr i)" "adv (length b) s1 s2" "fresh s2"
    by auto
  have "unat (of_nat (n div 8) :: u64) = n div 8" using n64 by (intro unat_of_nat64) simp
  then have ok: "\<not> (of_nat (n div 8) :: u64) < of_nat (length b)"
    using len un by (simp add: word_less_nat_alt b_def)
  have big: "\<not> i < 128" using i by (simp add: word_less_nat_alt)
  show ?thesis
    using s1 s2 ok uc big adv_trans [OF s1(2) s2(2)]
    by (simp add: Stream_uint_def sbind_def h_def b_def)
qed

lemma Stream_uint_zero:
  assumes "fresh s" "st_r s = 0x80 # rest" "room 1 s"
  shows "\<exists>s'. Stream_uint n s = (s', Inr 0) \<and> adv 1 s s' \<and> fresh s'"
proof -
  obtain s1 where "Stream_Kind s = (s1, Inr (String, 0))" "adv 1 s s1"
    using Stream_Kind_header [of String "0x80" "0xB7" 0 "[0x80]" s rest] assms
    by (auto simp: puthead_def)
  then show ?thesis by (simp add: Stream_uint_def sbind_def readUint_def fresh_def)
qed

lemma length_putint_bits: "unat i < 2 ^ n \<Longrightarrow> n mod 8 = 0 \<Longrightarrow> 0 < unat i \<Longrightarrow> length (putint i) \<le> n div 8"
proof -
  assume a: "unat i < 2 ^ n" "n mod 8 = 0" "0 < unat i"
  then have "n = 8 * (n div 8)" by auto
  then have "(2::nat) ^ n = (2 ^ 8) ^ (n div 8)" by (metis power_mult)
  then have "(2::nat) ^ n = 256 ^ (n div 8)" by simp
  with a show ?thesis
    by (metis length_be_bytes_le putint_eq_be_bytes unat_gt_0)
qed

lemma Stream_uint_enc:
  assumes "unat i < 2 ^ n" "n mod 8 = 0" "n \<le> 64"
    and "fresh s" "st_r s = enc_string (be_bytes (unat i)) @ rest"
      "room (length (enc_string (be_bytes (unat i)))) s"
  shows "\<exists>s'. Stream_uint n s = (s', Inr i) \<and> adv (length (enc_string (be_bytes (unat i)))) s s' \<and> fresh s'"
proof -
  consider "i = 0" | "0 < unat i" "unat i < 128" | "128 \<le> unat i"
    using unat_gt_0 [of i] by fastforce
  then show ?thesis
  proof cases
    case 1
    then show ?thesis using Stream_uint_zero [of s rest n] assms by (simp add: enc_string_Nil)
  next
    case 2
    define x where "x = (of_nat (unat i) :: byte)"
    have ux: "unat x = unat i" using 2 by (simp add: x_def unat_of_nat take_bit_nat_eq_self del: of_nat_unat)
    have e: "enc_string (be_bytes (unat i)) = [x]"
      using 2 ux by (simp add: be_bytes_small enc_string_def word_le_nat_alt x_def del: of_nat_unat)
    have "x \<noteq> 0" "x < 0x80" using ux 2 by (auto simp: word_less_nat_alt)
    moreover have "(ucast x :: u64) = i"
      using ux 2 by (simp add: word_unat_eq_iff unsigned_ucast_eq take_bit_nat_eq_self)
    ultimately show ?thesis using Stream_uint_byte [of s x rest n] assms e by simp
  next
    case 3
    then have nz: "i \<noteq> 0" by auto
    have "\<not> (length (putint i) = 1 \<and> hd (putint i) \<le> 0x7F)"
    proof
      assume one: "length (putint i) = 1 \<and> hd (putint i) \<le> 0x7F"
      then obtain x where x: "putint i = [x]" by (auto simp: length_Suc_conv)
      have "be_val (putint i) = unat i" using nz by (simp add: putint_eq_be_bytes)
      with x one 3 show False by (simp add: be_val_def word_le_nat_alt)
    qed
    then have e: "enc_string (be_bytes (unat i)) =
        puthead 0x80 0xB7 (of_nat (length (putint i))) @ putint i"
      using nz by (auto simp: enc_string_def putint_eq_be_bytes)
    have "length (putint i) \<le> n div 8" using length_putint_bits assms(1,2) 3 by auto
    with e Stream_uint_header [OF 3, of n s rest] assms show ?thesis by simp
  qed
qed

lemma decodes_uint:
  "unat i < 2 ^ n \<Longrightarrow> n mod 8 = 0 \<Longrightarrow> n \<le> 64 \<Longrightarrow>
   decodes (decodeUint n) (enc_string (be_bytes (unat i))) (VUint i)"
  by (rule decodesI, drule (5) Stream_uint_enc)
    (auto simp: decodeUint_def wrapped_def sbind_def sreturn_def)

lemma enc_bool: "enc_string (if b then [1] else []) = enc_string (be_bytes (unat (if b then 1 else 0 :: u64)))"
  by (simp add: be_bytes_small)

lemma decodes_bool: "decodes decodeBool (enc_string (if b then [1] else [])) (VBool b)"
proof (rule decodesI)
  fix s rest
  assume "fresh s" "st_r s = enc_string (if b then [1] else []) @ rest"
    "room (length (enc_string (if b then [1] else []))) s"
  then have "\<exists>s'. Stream_uint 8 s = (s', Inr (if b then 1 else 0)) \<and>
      adv (length (enc_string (if b then [1] else []))) s s' \<and> fresh s'"
    unfolding enc_bool by (intro Stream_uint_enc) auto
  then show "\<exists>s'. decodeBool s = (s', Inr (VBool b)) \<and>
      adv (length (enc_string (if b then [1] else []))) s s' \<and> fresh s'"
    by (auto simp: decodeBool_def Stream_Bool_def wrapped_def sbind_def sreturn_def)
qed

subsection \<open>Byte arrays and raw values\<close>

lemma decodes_byte_array:
  assumes "b \<noteq> [0]"
  shows "decodes (decodeByteArray (length b)) (enc_string b) (VByteArray b)"
proof (rule decodesI)
  fix s rest
  assume fr: "fresh s" and r: "st_r s = enc_string b @ rest" and rm: "room (length (enc_string b)) s"
  show "\<exists>s'. decodeByteArray (length b) s = (s', Inr (VByteArray b)) \<and>
      adv (length (enc_string b)) s s' \<and> fresh s'"
  proof (cases rule: enc_string_cases [of b])
    case (single x)
    obtain s1 where s1: "Stream_Kind s = (s1, Inr (Byte, 0))" "adv 1 s s1" "st_byteval s1 = x"
        "st_kind s1 = Some Byte" "st_size s1 = 0" "st_kinderr s1 = None"
      using Stream_Kind_byte [of x s rest] fr r rm single by auto
    have "Stream_Kind s1 = (s1, Inr (Byte, 0))" using s1 by (simp add: Stream_Kind_def)
    moreover have "x \<noteq> 0" using assms single by auto
    moreover have "(ucast (ucast x :: u64) :: byte) = x"
      by (rule ucast_up_ucast_id) (simp add: is_up)
    ultimately show ?thesis
      using s1 single by (simp add: decodeByteArray_def Stream_uint_def sbind_def fresh_def)
  next
    case header
    let ?h = "puthead 0x80 0xB7 (of_nat (length b))"
    have n: "length b < 2 ^ 63" using rm header by (simp add: room_def)
    have un: "unat (of_nat (length b) :: u64) = length b" using n by (simp add: unat_of_nat64)
    obtain s1 where s1: "Stream_Kind s = (s1, Inr (String, of_nat (length b)))" "adv (length ?h) s s1"
      using Stream_Kind_header [of String "0x80" "0xB7" "length b" ?h s "b @ rest"] n fr r rm header by auto
    have "room (length b) s1" using room_adv [of "length ?h" "length b" s s1] rm header s1(2) by simp
    moreover have "st_r s1 = b @ rest" using s1(2) r header by (simp add: adv_def)
    ultimately obtain s2 where s2: "readFull (length b) s1 = (s2, Inr b)" "adv (length b) s1 s2" "fresh s2"
      using readFull_room [of "length b" s1] by auto
    have "\<not> (of_nat (length b) = (1 :: u64) \<and> hd b < 128)"
      using header un by (auto simp: word_unat_eq_iff)
    then show ?thesis
      using s1 s2 header adv_trans [OF s1(2) s2(2)]
      by (auto simp: decodeByteArray_def sbind_def sreturn_def sfail_def)
  qed
qed

lemma Stream_Raw_header:
  assumes tag: "k = String \<and> a = 0x80 \<and> l = 0xB7 \<or> k = List \<and> a = 0xC0 \<and> l = 0xF7"
    and fr: "fresh s" and r: "st_r s = puthead a l (of_nat (length c)) @ c @ rest"
    and rm: "room (length (puthead a l (of_nat (length c))) + length c) s"
  shows "\<exists>s'. Stream_Raw s = (s', Inr (puthead a l (of_nat (length c)) @ c)) \<and>
    adv (length (puthead a l (of_nat (length c))) + length c) s s' \<and> fresh s'"
proof -
  let ?h = "puthead a l (of_nat (length c))"
  have n: "length c < 2 ^ 63" using rm by (simp add: room_def)
  have un: "unat (of_nat (length c) :: u64) = length c" using n by (simp add: unat_of_nat64)
  obtain s1 where s1: "Stream_Kind s = (s1, Inr (k, of_nat (length c)))" "adv (length ?h) s s1"
    using Stream_Kind_header [OF tag n refl r rm fr] by auto
  have "room (length c) s1" using room_adv [of "length ?h" "length c" s s1] rm s1(2) by simp
  moreover have "st_r s1 = c @ rest" using s1(2) r by (simp add: adv_def)
  ultimately obtain s2 where s2: "readFull (length c) s1 = (s2, Inr c)" "adv (length c) s1 s2" "fresh s2"
    using readFull_room [of "length c" s1] by auto
  show ?thesis
    using tag s1 s2 un adv_trans [OF s1(2) s2(2)]
    by (auto simp: Stream_Raw_def sbind_def sreturn_def)
qed

lemma decodes_raw:
  assumes "v = enc_string c \<or> v = enc_list c"
  shows "decodes decodeRawValue v (VRaw v)"
proof (rule decodesI)
  fix s rest
  assume fr: "fresh s" and r: "st_r s = v @ rest" and rm: "room (length v) s"
  have "\<exists>s'. Stream_Raw s = (s', Inr v) \<and> adv (length v) s s' \<and> fresh s'"
  proof (cases "v = enc_list c")
    case True
    then show ?thesis
      using Stream_Raw_header [of List "0xC0" "0xF7" s c rest] fr r rm by (simp add: enc_list_def)
  next
    case False
    with assms have v: "v = enc_string c" by simp
    show ?thesis
    proof (cases rule: enc_string_cases [of c])
      case (single x)
      obtain s1 where "Stream_Kind s = (s1, Inr (Byte, 0))" "adv 1 s s1" "st_byteval s1 = x"
        using Stream_Kind_byte [of x s rest] fr r rm single v by auto
      with single v show ?thesis by (simp add: Stream_Raw_def sbind_def fresh_def)
    next
      case header
      then show ?thesis
        using Stream_Raw_header [of String "0x80" "0xB7" s c rest] fr r rm v by simp
    qed
  qed
  then show "\<exists>s'. decodeRawValue s = (s', Inr (VRaw v)) \<and> adv (length v) s s' \<and> fresh s'"
    by (auto simp: decodeRawValue_def sbind_def sreturn_def)
qed

subsection \<open>Lists\<close>

lemma Stream_List_enc:
  assumes fr: "fresh s" and r: "st_r s = enc_list p @ rest" and rm: "room (length (enc_list p)) s"
  shows "\<exists>s1. Stream_List s = (s1, Inr (of_nat (length p))) \<and> fresh s1 \<and> st_r s1 = p @ rest \<and>
    room (length p) s1 \<and>
    st_remaining s1 = st_remaining s - of_nat (length (enc_list p) - length p) \<and>
    st_stack s1 = \<lparr>lp_pos = 0, lp_size = of_nat (length p)\<rparr> #
      bump (length (enc_list p) - length p) (st_stack s)"
proof -
  let ?h = "puthead 0xC0 0xF7 (of_nat (length p))"
  have n: "length p < 2 ^ 63" using rm by (simp add: room_def enc_list_def)
  have un: "unat (of_nat (length p) :: u64) = length p" using n by (simp add: unat_of_nat64)
  obtain s1 where s1: "Stream_Kind s = (s1, Inr (List, of_nat (length p)))" "adv (length ?h) s s1"
    using Stream_Kind_header [of List "0xC0" "0xF7" "length p" ?h s "p @ rest"] n fr r rm
    by (auto simp: enc_list_def)
  have "room (length p) s1" using room_adv [of "length ?h" "length p" s s1] rm s1(2) by (simp add: enc_list_def)
  with s1 r un show ?thesis
    by (auto simp: Stream_List_def sbind_def fresh_def adv_def enc_list_def room_def)
qed

lemma Stream_ListEnd_full:
  assumes "st_stack s = \<lparr>lp_pos = of_nat n, lp_size = of_nat n\<rparr> # stk"
  shows "Stream_ListEnd s =
    (s\<lparr>st_stack := bump n stk, st_kind := None, st_size := 0\<rparr>, Inr ())"
  using assms by (cases stk) (auto simp: Stream_ListEnd_def)

text \<open>What the element loop relies on, for any element type.\<close>

locale rlp_elem =
  fixes dec :: gdecoder and enc :: "gval \<Rightarrow> bytes" and ok :: "gval \<Rightarrow> bool"
  assumes dec_enc: "ok v \<Longrightarrow> decodes dec (enc v) v"
    and dec_end: "reports_end dec"
    and enc_nonempty: "ok v \<Longrightarrow> enc v \<noteq> []"
begin

lemma elems_decode:
  assumes "list_all ok vs" and "fresh s" and "st_r s = concat (map enc vs) @ rest"
    and "st_stack s = t # stk" and "lp_pos t + of_nat (length (concat (map enc vs))) = lp_size t"
    and "room (length (concat (map enc vs))) s" and "length vs < fuel"
  shows "\<exists>s'. decodeSliceElems fuel dec s = (s', Inr vs) \<and>
    adv (length (concat (map enc vs))) s s' \<and> fresh s'"
  using assms
proof (induction vs arbitrary: s t fuel)
  case Nil
  then have "at_end s" by (auto simp: at_end_def)
  then obtain s' where "dec s = (s', Inl EOL)" "adv 0 s s'" "fresh s'"
    using dec_end by (auto simp: reports_end_def)
  with Nil show ?case by (cases fuel) auto
next
  case (Cons v vs)
  let ?b = "enc v" and ?bs = "concat (map enc vs)"
  obtain fuel' where fuel: "fuel = Suc fuel'" using Cons.prems(7) by (cases fuel) auto
  have "room (length ?b) s" using Cons.prems(6) by (auto intro: room_mono)
  then obtain s1 where s1: "dec s = (s1, Inr v)" "adv (length ?b) s s1" "fresh s1"
    using decodesD [OF dec_enc [of v] Cons.prems(2), of "?bs @ rest"] Cons.prems(1,3) by auto
  have "\<exists>s'. decodeSliceElems fuel' dec s1 = (s', Inr vs) \<and> adv (length ?bs) s1 s' \<and> fresh s'"
  proof (rule Cons.IH)
    show "list_all ok vs" using Cons.prems(1) by simp
    show "fresh s1" by (rule s1(3))
    show "st_r s1 = ?bs @ rest" using s1(2) Cons.prems(3) by (simp add: adv_def)
    show "st_stack s1 = t\<lparr>lp_pos := lp_pos t + of_nat (length ?b)\<rparr> # stk"
      using s1(2) Cons.prems(4) by (simp add: adv_def)
    show "lp_pos (t\<lparr>lp_pos := lp_pos t + of_nat (length ?b)\<rparr>) + of_nat (length ?bs) =
        lp_size (t\<lparr>lp_pos := lp_pos t + of_nat (length ?b)\<rparr>)"
      using Cons.prems(5) by (simp add: algebra_simps)
    show "room (length ?bs) s1"
      using room_adv [of "length ?b" "length ?bs" s s1] Cons.prems(6) s1(2) by simp
    show "length vs < fuel'" using Cons.prems(7) fuel by simp
  qed
  then obtain s2 where "decodeSliceElems fuel' dec s1 = (s2, Inr vs)" "adv (length ?bs) s1 s2" "fresh s2"
    by auto
  with s1 fuel adv_trans [OF s1(2)] show ?case by auto
qed

lemma length_elems: "list_all ok vs \<Longrightarrow> length vs \<le> length (concat (map enc vs))"
proof (induction vs)
  case Nil
  then show ?case by simp
next
  case (Cons v vs)
  then have "enc v \<noteq> []" using enc_nonempty [of v] by simp
  then have "1 \<le> length (enc v)" by (cases "enc v") auto
  with Cons show ?case by simp
qed

text \<open>So a slice decodes, with the fuel the model gives its loop.\<close>

lemma slice_decodes:
  assumes all: "list_all ok vs"
  shows "decodes (decodeListSlice dec) (enc_list (concat (map enc vs))) (VList vs)"
proof (rule decodesI)
  fix s rest
  let ?p = "concat (map enc vs)"
  let ?h = "length (enc_list ?p) - length ?p"
  assume fr: "fresh s" and r: "st_r s = enc_list ?p @ rest" and rm: "room (length (enc_list ?p)) s"
  have split: "length (enc_list ?p) = ?h + length ?p" by (simp add: enc_list_def)
  obtain s1 where s1: "Stream_List s = (s1, Inr (of_nat (length ?p)))" "fresh s1" "st_r s1 = ?p @ rest"
      "room (length ?p) s1" "st_remaining s1 = st_remaining s - of_nat ?h"
      "st_stack s1 = \<lparr>lp_pos = 0, lp_size = of_nat (length ?p)\<rparr> # bump ?h (st_stack s)"
    using Stream_List_enc [OF fr r rm] by auto
  have lim: "st_limited s" "st_limited s1" using rm s1(4) by (simp_all add: room_def)
  have "\<exists>s2. decodeSliceElems (Suc (length (st_r s1))) dec s1 = (s2, Inr vs) \<and>
      adv (length ?p) s1 s2 \<and> fresh s2"
    using length_elems [OF all] s1
    by (intro elems_decode [OF all]) auto
  then obtain s2 where s2: "decodeSliceElems (Suc (length (st_r s1))) dec s1 = (s2, Inr vs)"
      "adv (length ?p) s1 s2" "fresh s2" by auto
  have fin: "adv (length (enc_list ?p)) s (u\<lparr>st_stack := bump (length ?p) (bump ?h (st_stack s)),
      st_kind := None, st_size := 0\<rparr>)" if "st_r u = rest" "st_remaining u = st_remaining s1 - of_nat (length ?p)"
      "st_limited u" for u
    using that r s1(5) lim split by (simp add: adv_def bump_bump)
  show "\<exists>s'. decodeListSlice dec s = (s', Inr (VList vs)) \<and> adv (length (enc_list ?p)) s s' \<and> fresh s'"
  proof (cases "length ?p = 0")
    case True
    then have "vs = []" using length_elems [OF all] by (metis le_zero_eq length_0_conv)
    then show ?thesis
      using s1 True fin [of s1] lim Stream_ListEnd_full [of s1 0]
      by (simp add: decodeListSlice_def wrapped_def sbind_def sreturn_def fresh_def)
  next
    case False
    have "length ?p < 2 ^ 64" using rm by (simp add: room_def enc_list_def)
    then have nz: "(of_nat (length ?p) :: u64) \<noteq> 0" using False unat_of_nat64 [of "length ?p"] by auto
    have stk: "st_stack s2 = \<lparr>lp_pos = of_nat (length ?p), lp_size = of_nat (length ?p)\<rparr> # bump ?h (st_stack s)"
      using s2(2) s1(6) by (simp add: adv_def)
    have "Stream_ListEnd s2 =
      (s2\<lparr>st_stack := bump (length ?p) (bump ?h (st_stack s)), st_kind := None, st_size := 0\<rparr>, Inr ())"
      using stk by (rule Stream_ListEnd_full)
    moreover have "st_r s2 = rest" "st_remaining s2 = st_remaining s1 - of_nat (length ?p)" "st_limited s2"
      using s2(2) s1(3) lim by (simp_all add: adv_def)
    ultimately show ?thesis
      using s1 s2 nz fin [of s2]
      by (simp add: decodeListSlice_def wrapped_def sbind_def sreturn_def fresh_def)
  qed
qed

end

subsection \<open>Structs\<close>

lemma fields_decode:
  assumes "list_all2 (\<lambda>p x. p x) (map ok ts) vs"
    and "\<And>t v. t \<in> set ts \<Longrightarrow> ok t v \<Longrightarrow> decodes (makeDecoder t) (rlp_enc t v) v"
    and "fresh s" and "st_r s = concat (map2 (\<lambda>f x. f x) (map rlp_enc ts) vs) @ rest"
    and "room (length (concat (map2 (\<lambda>f x. f x) (map rlp_enc ts) vs))) s"
  shows "\<exists>s'. decode_fields (map makeDecoder ts) s = (s', Inr vs) \<and>
    adv (length (concat (map2 (\<lambda>f x. f x) (map rlp_enc ts) vs))) s s' \<and> fresh s'"
  using assms
proof (induction ts arbitrary: vs s)
  case Nil
  then show ?case by simp
next
  case (Cons t ts)
  then obtain v ws where vs: "vs = v # ws" and v: "ok t v"
    and ws: "list_all2 (\<lambda>p x. p x) (map ok ts) ws"
    by (cases vs) auto
  let ?b = "rlp_enc t v" and ?bs = "concat (map2 (\<lambda>f x. f x) (map rlp_enc ts) ws)"
  have "room (length ?b) s" using Cons.prems(5) vs by (auto intro: room_mono)
  moreover have "decodes (makeDecoder t) ?b v" using Cons.prems(2) v by simp
  ultimately obtain s1 where s1: "makeDecoder t s = (s1, Inr v)" "adv (length ?b) s s1" "fresh s1"
    using decodesD [of _ ?b v s "?bs @ rest"] Cons.prems(3,4) vs by auto
  have "\<exists>s'. decode_fields (map makeDecoder ts) s1 = (s', Inr ws) \<and> adv (length ?bs) s1 s' \<and> fresh s'"
  proof (rule Cons.IH [OF ws])
    show "decodes (makeDecoder t) (rlp_enc t v) v" if "t \<in> set ts" "ok t v" for t v
      using Cons.prems(2) that by simp
    show "st_r s1 = ?bs @ rest" using s1(2) Cons.prems(4) vs by (simp add: adv_def)
    show "room (length ?bs) s1"
      using room_adv [of "length ?b" "length ?bs" s s1] Cons.prems(5) s1(2) vs by simp
  qed (rule s1(3))
  then obtain s2 where "decode_fields (map makeDecoder ts) s1 = (s2, Inr ws)"
      "adv (length ?bs) s1 s2" "fresh s2" by auto
  with s1 vs adv_trans [OF s1(2)] show ?case by auto
qed

lemma struct_decodes:
  assumes "list_all2 (\<lambda>p x. p x) (map ok ts) vs"
    and "\<And>t v. t \<in> set ts \<Longrightarrow> ok t v \<Longrightarrow> decodes (makeDecoder t) (rlp_enc t v) v"
  shows "decodes (makeStructDecoder (map makeDecoder ts))
    (enc_list (concat (map2 (\<lambda>f x. f x) (map rlp_enc ts) vs))) (VStruct vs)"
proof (rule decodesI)
  fix s rest
  let ?p = "concat (map2 (\<lambda>f x. f x) (map rlp_enc ts) vs)"
  let ?h = "length (enc_list ?p) - length ?p"
  assume fr: "fresh s" and r: "st_r s = enc_list ?p @ rest" and rm: "room (length (enc_list ?p)) s"
  have split: "length (enc_list ?p) = ?h + length ?p" by (simp add: enc_list_def)
  obtain s1 where s1: "Stream_List s = (s1, Inr (of_nat (length ?p)))" "fresh s1" "st_r s1 = ?p @ rest"
      "room (length ?p) s1" "st_remaining s1 = st_remaining s - of_nat ?h"
      "st_stack s1 = \<lparr>lp_pos = 0, lp_size = of_nat (length ?p)\<rparr> # bump ?h (st_stack s)"
    using Stream_List_enc [OF fr r rm] by auto
  have lim: "st_limited s" "st_limited s1" using rm s1(4) by (simp_all add: room_def)
  obtain s2 where s2: "decode_fields (map makeDecoder ts) s1 = (s2, Inr vs)"
      "adv (length ?p) s1 s2" "fresh s2"
    using fields_decode [OF assms s1(2,3,4)] by auto
  have stk: "st_stack s2 = \<lparr>lp_pos = of_nat (length ?p), lp_size = of_nat (length ?p)\<rparr> # bump ?h (st_stack s)"
    using s2(2) s1(6) by (simp add: adv_def)
  let ?s3 = "s2\<lparr>st_stack := bump (length ?p) (bump ?h (st_stack s)), st_kind := None, st_size := 0\<rparr>"
  have le: "Stream_ListEnd s2 = (?s3, Inr ())" using stk by (rule Stream_ListEnd_full)
  have "st_r s2 = rest" "st_remaining s2 = st_remaining s1 - of_nat (length ?p)" "st_limited s2"
    using s2(2) s1(3) lim by (simp_all add: adv_def)
  then have "adv (length (enc_list ?p)) s ?s3"
    using r s1(5) lim split by (simp add: adv_def bump_bump)
  with s1 s2 le show "\<exists>s'. makeStructDecoder (map makeDecoder ts) s = (s', Inr (VStruct vs)) \<and>
      adv (length (enc_list ?p)) s s' \<and> fresh s'"
    by (simp add: makeStructDecoder_def wrapped_def sbind_def sreturn_def fresh_def)
qed

subsection \<open>All types\<close>

text \<open>
  The values that survive a round trip.  Beyond being encodable: integers have one of Go's
  sizes; a big integer and a plain pointer are not nil (nil is encoded as zero and comes
  back as zero); a nil-tagged pointer does not point to a value with an empty encoding; a
  raw value is one RLP item; and a one-byte array is not \<open>[0]\<close> (see below).
\<close>

primrec decodable :: "gtype \<Rightarrow> gval \<Rightarrow> bool" where
  "decodable TRaw = (\<lambda>v. case v of VRaw b \<Rightarrow> \<exists>c. b = enc_string c \<or> b = enc_list c | _ \<Rightarrow> False)"
| "decodable TBigInt = (\<lambda>v. case v of VBig (Some i) \<Rightarrow> 0 \<le> i | _ \<Rightarrow> False)"
| "decodable (TUint n) =
    (\<lambda>v. case v of VUint i \<Rightarrow> unat i < 2 ^ n \<and> n mod 8 = 0 \<and> n \<le> 64 | _ \<Rightarrow> False)"
| "decodable TBool = (\<lambda>v. case v of VBool b \<Rightarrow> True | _ \<Rightarrow> False)"
| "decodable TString = (\<lambda>v. case v of VString b \<Rightarrow> True | _ \<Rightarrow> False)"
| "decodable TBytes = (\<lambda>v. case v of VBytes b \<Rightarrow> True | _ \<Rightarrow> False)"
| "decodable (TByteArray n) = (\<lambda>v. case v of VByteArray b \<Rightarrow> length b = n \<and> b \<noteq> [0] | _ \<Rightarrow> False)"
| "decodable (TSlice t) = (\<lambda>v. case v of VList vs \<Rightarrow> list_all (decodable t) vs | _ \<Rightarrow> False)"
| "decodable (TStruct ts) =
    (\<lambda>v. case v of VStruct vs \<Rightarrow> list_all2 (\<lambda>p x. p x) (map decodable ts) vs | _ \<Rightarrow> False)"
| "decodable (TPtr t) = (\<lambda>v. case v of VPtr (Some x) \<Rightarrow> decodable t x | _ \<Rightarrow> False)"
| "decodable (TPtrNil t) =
    (\<lambda>v. case v of
       VPtr None \<Rightarrow> encodable t (gzero t) \<and> rlp_enc (TPtrNil t) (VPtr None) \<in> {enc_string [], enc_list []}
     | VPtr (Some x) \<Rightarrow> decodable t x \<and> rlp_enc t x \<notin> {enc_string [], enc_list []}
     | _ \<Rightarrow> False)"

lemma decodable_encodable: "decodable t v \<Longrightarrow> encodable t v"
proof (induction t arbitrary: v)
  case (TStruct ts)
  then obtain vs where "v = VStruct vs" "list_all2 (\<lambda>p x. p x) (map decodable ts) vs"
    by (auto split: gval.splits)
  with TStruct.IH show ?case
    by (auto simp: list_all2_map1 elim!: list_all2_mono [rotated] intro: list.rel_mono_strong)
next
  case (TSlice t)
  then show ?case by (auto simp: list_all_iff split: gval.splits)
qed (auto split: gval.splits option.splits)

lemma enc_string_not_Nil [simp]: "enc_string b \<noteq> []"
  by (auto simp: enc_string_def)

lemma enc_list_not_Nil [simp]: "enc_list b \<noteq> []"
  by (simp add: enc_list_def)

lemma rlp_enc_not_Nil: "decodable t v \<Longrightarrow> rlp_enc t v \<noteq> []"
proof (induction t arbitrary: v)
  case (TPtrNil t)
  then show ?case by (auto split: gval.splits option.splits)
qed (auto split: gval.splits option.splits dest: sym)

lemma Stream_Kind_cached:
  "Stream_Kind s = (s1, Inr (k, sz)) \<Longrightarrow> st_kind s1 = Some k \<and> st_size s1 = sz \<and> st_kinderr s1 = None"
  by (auto simp: Stream_Kind_def Let_def split: option.splits prod.splits if_splits)

lemma Stream_Kind_again: "Stream_Kind s = (s1, Inr x) \<Longrightarrow> Stream_Kind s1 = (s1, Inr x)"
  using Stream_Kind_cached [of s s1 "fst x" "snd x"] by (auto simp: Stream_Kind_def)

text \<open>A decoder looks at the header first, so having looked already makes no difference.\<close>

lemma makeDecoder_peek: "Stream_Kind s = (s1, Inr x) \<Longrightarrow> makeDecoder t s1 = makeDecoder t s"
proof (induction t)
  case (TPtr t)
  then show ?case by (simp add: makePtrDecoder_def sbind_def)
next
  case (TPtrNil t)
  then show ?case using Stream_Kind_again [OF TPtrNil.prems] by (simp add: makeOptionalPtrDecoder_def)
qed (simp_all add: Stream_Kind_again sbind_def wrapped_def
      decodeRawValue_def Stream_Raw_def decodeBigInt_def Stream_Bytes_def decodeUint_def Stream_uint_def
      decodeBool_def Stream_Bool_def decodeString_def decodeByteSlice_def decodeByteArray_def
      decodeListSlice_def Stream_List_def makeStructDecoder_def)

text \<open>The encoding of a value is one RLP item.\<close>

lemma rlp_enc_item: "decodable t v \<Longrightarrow> \<exists>c. rlp_enc t v = enc_string c \<or> rlp_enc t v = enc_list c"
proof (induction t arbitrary: v)
  case (TPtrNil t)
  then show ?case by (auto split: gval.splits option.splits)
next
  case (TPtr t)
  then show ?case by (auto split: gval.splits option.splits)
qed (auto split: gval.splits option.splits)

lemma Stream_Kind_item:
  assumes "b = enc_string c \<or> b = enc_list c" and "fresh s" and "st_r s = b @ rest" and "room (length b) s"
  shows "\<exists>s1 k sz. Stream_Kind s = (s1, Inr (k, sz)) \<and>
    (sz = 0 \<and> k \<noteq> Byte \<longleftrightarrow> b = enc_string [] \<or> b = enc_list []) \<and>
    (b = enc_string [] \<or> b = enc_list [] \<longrightarrow> adv (length b) s s1)"
proof -
  have hdr: "\<exists>s1. Stream_Kind s = (s1, Inr (k, of_nat (length c))) \<and> adv (length (puthead a l (of_nat (length c)))) s s1"
    if "k = String \<and> a = 0x80 \<and> l = 0xB7 \<or> k = List \<and> a = 0xC0 \<and> l = 0xF7"
      "b = puthead a l (of_nat (length c)) @ c" for k a l
  proof -
    have "length c < 2 ^ 63" using assms(4) that(2) by (simp add: room_def)
    from Stream_Kind_header [OF that(1) this refl, of s "c @ rest"] assms that(2) show ?thesis by auto
  qed
  have len: "length c < 2 ^ 64"
    using assms(1,4) length_enc_string [of c] length_enc_list [of c] by (auto simp: room_def)
  then have z: "(of_nat (length c) = (0 :: u64)) = (c = [])"
    using unat_of_nat64 [of "length c"] by auto
  have sl: "enc_string [] = [0x80]" "enc_list [] = [0xC0]"
    by (simp_all add: enc_string_Nil enc_list_def puthead_def)
  have tag: "puthead 0x80 0xB7 (of_nat (length c)) @ c = enc_string [] \<longleftrightarrow> c = []"
      "puthead 0x80 0xB7 (of_nat (length c)) @ c \<noteq> enc_list [] \<or> c = []"
      "puthead 0xC0 0xF7 (of_nat (length c)) @ c = enc_list [] \<longleftrightarrow> c = []"
      "puthead 0xC0 0xF7 (of_nat (length c)) @ c \<noteq> enc_string [] \<or> c = []"
    by (auto simp: sl puthead_def Cons_eq_append_conv append_eq_Cons_conv)
  show ?thesis
  proof (cases "b = enc_list c")
    case True
    with hdr [of List "0xC0" "0xF7"] z tag show ?thesis
      by (auto simp: enc_list_def)
  next
    case False
    with assms(1) have b: "b = enc_string c" by simp
    show ?thesis
    proof (cases rule: enc_string_cases [of c])
      case (single x)
      obtain s1 where "Stream_Kind s = (s1, Inr (Byte, 0))"
        using Stream_Kind_byte [of x s rest] assms single b by auto
      moreover have "[x] \<noteq> enc_string [] \<and> [x] \<noteq> enc_list []"
        using single(2) by (auto simp: sl)
      ultimately show ?thesis using b single by auto
    next
      case header
      with b hdr [of String "0x80" "0xB7"] z tag show ?thesis by auto
    qed
  qed
qed

lemma optional_ptr_decodes:
  assumes ok: "decodable (TPtrNil t) v"
    and IH: "\<And>x. decodable t x \<Longrightarrow> decodes (makeDecoder t) (rlp_enc t x) x"
  shows "decodes (makeOptionalPtrDecoder (makeDecoder t)) (rlp_enc (TPtrNil t) v) v"
proof (rule decodesI)
  fix s rest
  let ?b = "rlp_enc (TPtrNil t) v"
  assume fr: "fresh s" and r: "st_r s = ?b @ rest" and rm: "room (length ?b) s"
  obtain c where c: "?b = enc_string c \<or> ?b = enc_list c" using rlp_enc_item [OF ok] by auto
  obtain s1 k sz where k: "Stream_Kind s = (s1, Inr (k, sz))"
      "sz = 0 \<and> k \<noteq> Byte \<longleftrightarrow> ?b = enc_string [] \<or> ?b = enc_list []"
      "?b = enc_string [] \<or> ?b = enc_list [] \<longrightarrow> adv (length ?b) s s1"
    using Stream_Kind_item [OF c fr r rm] by auto
  from ok obtain p where v: "v = VPtr p" by (cases v) auto
  show "\<exists>s'. makeOptionalPtrDecoder (makeDecoder t) s = (s', Inr v) \<and> adv (length ?b) s s' \<and> fresh s'"
  proof (cases p)
    case None
    then have "?b = enc_string [] \<or> ?b = enc_list []" using ok v by simp
    with k v None show ?thesis
      by (auto simp add: makeOptionalPtrDecoder_def fresh_def simp del: rlp_enc.simps)
  next
    case (Some x)
    with ok v have x: "decodable t x" "\<not> (?b = enc_string [] \<or> ?b = enc_list [])" "?b = rlp_enc t x" by auto
    obtain s2 where "makeDecoder t s = (s2, Inr x)" "adv (length ?b) s s2" "fresh s2"
      using decodesD [OF IH [OF x(1)] fr] r rm x(3) by auto
    with k x v Some makeDecoder_peek [OF k(1)] show ?thesis
      by (simp add: makeOptionalPtrDecoder_def sbind_def sreturn_def)
  qed
qed

text \<open>Every decoder inverts the encoding of its type.\<close>

lemma makeDecoder_decodes: "decodable t v \<Longrightarrow> decodes (makeDecoder t) (rlp_enc t v) v"
proof (induction t arbitrary: v)
  case TRaw
  then show ?case by (auto split: gval.splits intro: decodes_raw)
next
  case TBigInt
  then show ?case by (auto split: gval.splits option.splits intro: decodes_bigint)
next
  case (TUint n)
  then show ?case by (auto split: gval.splits intro: decodes_uint)
next
  case TBool
  then show ?case using decodes_bool [of True] decodes_bool [of False] by (auto split: gval.splits)
next
  case TString
  then show ?case by (auto split: gval.splits intro: decodes_string)
next
  case TBytes
  then show ?case by (auto split: gval.splits intro: decodes_bytes)
next
  case (TByteArray n)
  then show ?case using decodes_byte_array by (auto split: gval.splits)
next
  case (TSlice t)
  have "rlp_elem (makeDecoder t) (rlp_enc t) (decodable t)"
    by unfold_locales (auto intro: TSlice.IH reports_end_makeDecoder dest: rlp_enc_not_Nil)
  with TSlice.prems show ?case by (auto split: gval.splits intro: rlp_elem.slice_decodes)
next
  case (TStruct ts)
  then obtain vs where "v = VStruct vs" "list_all2 (\<lambda>p x. p x) (map decodable ts) vs"
    by (auto split: gval.splits)
  with TStruct.IH show ?case by (auto intro: struct_decodes)
next
  case (TPtr t)
  then obtain x where x: "v = VPtr (Some x)" "decodable t x" by (auto split: gval.splits option.splits)
  show ?case
  proof (rule decodesI)
    fix s rest
    assume "fresh s" "st_r s = rlp_enc (TPtr t) v @ rest" "room (length (rlp_enc (TPtr t) v)) s"
    with decodesD [OF TPtr.IH [OF x(2)]] x(1)
    show "\<exists>s'. makeDecoder (TPtr t) s = (s', Inr v) \<and> adv (length (rlp_enc (TPtr t) v)) s s' \<and> fresh s'"
      by (fastforce simp: makePtrDecoder_def sbind_def sreturn_def)
  qed
next
  case (TPtrNil t)
  then show ?case using optional_ptr_decodes [of t v] by simp
qed

interpretation codec: rlp_elem "makeDecoder t" "rlp_enc t" "decodable t" for t
  by unfold_locales (auto intro: makeDecoder_decodes reports_end_makeDecoder dest: rlp_enc_not_Nil)

lemma DecodeBytes_rlp_enc:
  assumes ok: "decodable t v" and len: "length (rlp_enc t v) < 2 ^ 63"
  shows "DecodeBytes t (rlp_enc t v) = Inr v"
proof -
  let ?b = "rlp_enc t v"
  let ?s = "NewStream ?b (of_nat (length ?b))"
  have "0 < length ?b" using rlp_enc_not_Nil [OF ok] by simp
  moreover have un: "unat (of_nat (length ?b) :: u64) = length ?b" using len by (simp add: unat_of_nat64)
  ultimately have "0 < (of_nat (length ?b) :: u64)" by (simp add: word_less_nat_alt)
  then have s: "st_r ?s = ?b" "fresh ?s" "st_stack ?s = []" "st_limited ?s" "st_remaining ?s = of_nat (length ?b)"
    by (simp_all add: NewStream_def Stream_Reset_def new_Stream_def fresh_def)
  then have "room (length ?b) ?s" using len un by (simp add: room_def)
  with decodesD [OF makeDecoder_decodes [OF ok] s(2), of "[]"] s obtain s' where
    "makeDecoder t ?s = (s', Inr v)" "adv (length ?b) ?s s'" by auto
  with s show ?thesis by (simp add: DecodeBytes_def adv_def)
qed


section \<open>One-byte arrays\<close>

text \<open>
  \<open>decodeByteArray\<close> reads a single byte with \<open>s.Uint()\<close> and drops its error.  For the
  byte 0 that call fails with \<open>ErrCanonInt\<close> before it re-arms the stream, so the header
  stays cached and the next value read is the same byte again.
\<close>

lemma decodeByteArray_stuck:
  assumes "st_kind s = Some Byte" and "st_kinderr s = None" and "st_byteval s = 0"
  shows "decodeByteArray 1 s = (s, Inr (VByteArray [0]))"
  using assms by (simp add: decodeByteArray_def sbind_def Stream_Kind_def Stream_uint_def)

lemma decodeSliceElems_stuck:
  assumes "st_kind s = Some Byte" and "st_kinderr s = None" and "st_byteval s = 0"
  shows "decodeSliceElems fuel (decodeByteArray 1) s = (s, Inl OutOfFuel)"
  using decodeByteArray_stuck [OF assms] by (induction fuel) auto

end
