(* ===== verification/Rlp_Raw.thy ===== *)
theory Rlp_Raw
  imports Rlp_Decode
begin

unbundle bit_operations_syntax

text \<open>
  The slice-based helpers of \<open>src/gttc/rlp/raw.go\<close>: splitting a byte slice into the first
  RLP value and the rest, and counting values.  The theorems show that they find exactly
  the items the encoder produced.
\<close>

section \<open>Definitions\<close>

text \<open>
  \<open>readSize\<close>: the switch over the number of size bytes builds
  \<open>b[0] << 8*(slen-1) | ... | b[slen-1]\<close>.
\<close>

definition readSize :: "bytes \<Rightarrow> byte \<Rightarrow> rlp_err + u64" where
  "readSize b slen =
    (if length b < unat slen then Inl IoUnexpectedEOF
     else
       (let s = foldl (\<lambda>a x. push_bit 8 a OR ucast x) (0 :: u64) (take (unat slen) b)
        in if s < 56 \<or> hd b = 0 then Inl ErrCanonSize else Inr s))"

definition raw_readKind :: "bytes \<Rightarrow> rlp_err + kind \<times> u64 \<times> u64" where
  "raw_readKind buf =
    (case buf of
       [] \<Rightarrow> Inl IoUnexpectedEOF
     | b # rest \<Rightarrow>
         bindR
           (if b < 0x80 then Inr (Byte, 0, 1)
            else if b < 0xB8 then
              (if ucast (b - 0x80) = (1 :: u64) \<and> 1 < length buf \<and> hd rest < 128
               then Inl ErrCanonSize else Inr (String, 1, ucast (b - 0x80)))
            else if b < 0xC0 then
              bindR (readSize rest (b - 0xB7)) (\<lambda>cs. Inr (String, ucast (b - 0xB7) + 1, cs))
            else if b < 0xF8 then Inr (List, 1, ucast (b - 0xC0))
            else bindR (readSize rest (b - 0xF7)) (\<lambda>cs. Inr (List, ucast (b - 0xF7) + 1, cs)))
           (\<lambda>(k, tagsize, contentsize).
              if of_nat (length buf) - tagsize < contentsize then Inl ErrValueTooLarge
              else Inr (k, tagsize, contentsize)))"

text \<open>The slice expressions of \<open>Split\<close> index with 64-bit unsigned sums.\<close>

definition Split :: "bytes \<Rightarrow> rlp_err + kind \<times> bytes \<times> bytes" where
  "Split b =
    bindR (raw_readKind b) (\<lambda>(k, ts, cs).
      if unat (ts + cs) \<le> length b \<and> unat ts \<le> unat (ts + cs)
      then Inr (k, take (unat (ts + cs) - unat ts) (drop (unat ts) b), drop (unat (ts + cs)) b)
      else Inl IndexPanic)"

definition SplitString :: "bytes \<Rightarrow> rlp_err + bytes \<times> bytes" where
  "SplitString b =
    bindR (Split b) (\<lambda>(k, content, rest).
      if k = List then Inl ErrExpectedString else Inr (content, rest))"

definition SplitList :: "bytes \<Rightarrow> rlp_err + bytes \<times> bytes" where
  "SplitList b =
    bindR (Split b) (\<lambda>(k, content, rest).
      if k \<noteq> List then Inl ErrExpectedList else Inr (content, rest))"

definition ListSize :: "u64 \<Rightarrow> u64" where
  "ListSize contentSize = of_nat (headsize contentSize) + contentSize"

text \<open>
  \<open>CountValues\<close>: every pass drops a header and its content, at least one byte.  A slice
  index past the end panics.
\<close>

function CountValues_from :: "nat \<Rightarrow> bytes \<Rightarrow> rlp_err + nat" where
  "CountValues_from i b =
    (if b = [] then Inr i
     else
       (case raw_readKind b of
          Inl e \<Rightarrow> Inl e
        | Inr (k, ts, cs) \<Rightarrow>
            if unat (ts + cs) = 0 \<or> length b < unat (ts + cs) then Inl IndexPanic
            else CountValues_from (Suc i) (drop (unat (ts + cs)) b)))"
  by pat_completeness auto
termination
  by (relation "measure (\<lambda>(i, b). length b)") auto

declare CountValues_from.simps [simp del]

definition CountValues :: "bytes \<Rightarrow> rlp_err + nat" where
  "CountValues b = CountValues_from 0 b"

section \<open>Reading headers back\<close>

lemma push_or_byte:
  fixes a :: u64 and x :: byte
  assumes "unat a < 256 ^ 7"
  shows "unat (push_bit 8 a OR ucast x :: u64) = unat a * 256 + unat x"
proof -
  have x: "unat x < 256" using unsigned_less [of x] by simp
  have "push_bit 8 a OR (ucast x :: u64) = push_bit 8 a + ucast x"
    by (intro disjunctive_add [symmetric]) (auto simp: bit_simps dest: bit_imp_le_length)
  moreover have "unat (push_bit 8 a) = unat a * 256"
    using assms by (simp add: push_bit_eq_mult unat_word_ariths)
  moreover have "unat (ucast x :: u64) = unat x"
    using x by (simp add: unsigned_ucast_eq take_bit_nat_eq_self)
  ultimately show ?thesis
    using assms x by (subst \<open>push_bit 8 a OR ucast x = push_bit 8 a + ucast x\<close>)
      (simp add: unat_add_less)
qed

lemma foldl_or_be_val:
  "length bs \<le> 8 \<Longrightarrow> unat (foldl (\<lambda>a x. push_bit 8 a OR ucast x) (0 :: u64) bs) = be_val bs"
proof (induction bs rule: rev_induct)
  case Nil
  then show ?case by simp
next
  case (snoc x bs)
  have "be_val bs < 256 ^ 7"
    using be_val_less [of bs] power_increasing [of "length bs" 7 "256 :: nat"] snoc.prems by simp
  with snoc show ?case by (simp add: push_or_byte)
qed

lemma readSize_putint:
  assumes "56 \<le> n" "n < 2 ^ 63"
  shows "readSize (putint (of_nat n) @ rest) (of_nat (length (putint (of_nat n)))) = Inr (of_nat n)"
proof -
  let ?p = "putint (of_nat n)"
  have un: "unat (of_nat n :: u64) = n" using assms by (simp add: unat_of_nat64)
  have nz: "(of_nat n :: u64) \<noteq> 0" using un assms(1) by (metis unat_0 not_numeral_le_zero)
  have len: "1 \<le> length ?p" "length ?p \<le> 8" using length_putint by simp_all
  then have ul: "unat (of_nat (length ?p) :: byte) = length ?p"
    by (simp add: unat_of_nat take_bit_nat_eq_self)
  have pb: "?p = be_bytes n" using putint_eq_be_bytes [OF nz] un by simp
  have "unat (foldl (\<lambda>a x. push_bit 8 a OR ucast x) (0 :: u64) ?p) = n"
    using foldl_or_be_val [OF len(2)] pb by simp
  then have "foldl (\<lambda>a x. push_bit 8 a OR ucast x) (0 :: u64) ?p = of_nat n"
    using un by (simp add: word_unat_eq_iff)
  moreover have "hd (?p @ rest) \<noteq> 0" using hd_be_bytes [of n] assms(1) pb len(1) by (cases ?p) auto
  moreover have "\<not> (of_nat n :: u64) < 56" using un assms(1) by (simp add: word_less_nat_alt)
  ultimately show ?thesis using ul by (simp add: readSize_def)
qed

text \<open>A header of the encoder is read back, unless it announces a single small byte.\<close>

lemma raw_readKind_header:
  assumes tag: "k = String \<and> a = 0x80 \<and> l = 0xB7 \<or> k = List \<and> a = 0xC0 \<and> l = 0xF7"
    and n: "length b < 2 ^ 62" and rest: "length rest < 2 ^ 62"
    and one: "k = String \<Longrightarrow> length b = 1 \<Longrightarrow> \<not> hd b < 128"
  shows "raw_readKind (puthead a l (of_nat (length b)) @ b @ rest) =
    Inr (k, of_nat (length (puthead a l (of_nat (length b)))), of_nat (length b))"
proof -
  let ?n = "length b"
  have un: "unat (of_nat ?n :: u64) = ?n" using n by (simp add: unat_of_nat64)
  have small: "((of_nat ?n :: u64) < 56) = (?n < 56)" using un by (simp add: word_less_nat_alt)
  have fits: "\<not> (of_nat (m + (?n + length rest)) - of_nat m :: u64) < of_nat ?n" for m
  proof -
    have "(of_nat (m + (?n + length rest)) - of_nat m :: u64) = of_nat (?n + length rest)" by simp
    moreover have "unat (of_nat (?n + length rest) :: u64) = ?n + length rest"
      using n rest by (simp add: unat_of_nat64 del: of_nat_add)
    ultimately show ?thesis using un by (simp add: word_less_nat_alt del: of_nat_add)
  qed
  show ?thesis
  proof (cases "?n < 56")
    case True
    define c where "c = a + (of_nat ?n :: byte)"
    have uc: "(ucast (of_nat ?n :: u64) :: byte) = of_nat ?n"
      using True by (simp add: ucast_u64_byte un del: of_nat_unat)
    have bk: "ucast (of_nat ?n :: byte) = (of_nat ?n :: u64)"
      using True by (simp add: word_unat_eq_iff unsigned_ucast_eq un unat_of_nat take_bit_nat_eq_self)
    have h: "puthead a l (of_nat ?n) = [c]" using small True uc by (simp add: puthead_def c_def)
    have n1: "((of_nat ?n :: u64) = 1) = (?n = 1)" using un by (metis of_nat_1 unat_1)
    have hb: "?n = 1 \<Longrightarrow> hd (b @ rest) = hd b" by (cases b) auto
    from tag show ?thesis
    proof
      assume t: "k = String \<and> a = 0x80 \<and> l = 0xB7"
      have u: "unat c = 128 + ?n" using unat_add_byte [of 128 ?n] True t by (simp add: c_def)
      have cs: "\<not> c < 0x80" "c < 0xB8" "c - 0x80 = of_nat ?n"
        using u True t by (simp_all add: word_less_nat_alt) (simp add: c_def)
      show ?thesis
        unfolding h using t cs bk fits [of 1] one n1 hb by (auto simp add: raw_readKind_def)
    next
      assume t: "k = List \<and> a = 0xC0 \<and> l = 0xF7"
      have u: "unat c = 192 + ?n" using unat_add_byte [of 192 ?n] True t by (simp add: c_def)
      have cs: "\<not> c < 0x80" "\<not> c < 0xB8" "\<not> c < 0xC0" "c < 0xF8" "c - 0xC0 = of_nat ?n"
        using u True t by (simp_all add: word_less_nat_alt) (simp add: c_def)
      show ?thesis
        unfolding h using t cs bk fits [of 1] by (simp add: raw_readKind_def)
    qed
  next
    case False
    define p where "p = putint (of_nat ?n)"
    define c where "c = l + (of_nat (length p) :: byte)"
    have len: "1 \<le> length p" "length p \<le> 8" using length_putint by (simp_all add: p_def)
    have h: "puthead a l (of_nat ?n) = c # p"
      using small False by (simp add: puthead_def Let_def p_def c_def)
    have rs: "readSize (p @ b @ rest) (of_nat (length p)) = Inr (of_nat ?n)"
      using readSize_putint [of ?n "b @ rest"] False n by (simp add: p_def)
    have bk: "ucast (of_nat (length p) :: byte) = (of_nat (length p) :: u64)"
      using len by (simp add: word_unat_eq_iff unsigned_ucast_eq unat_of_nat take_bit_nat_eq_self)
    from tag show ?thesis
    proof
      assume t: "k = String \<and> a = 0x80 \<and> l = 0xB7"
      have u: "unat c = 183 + length p" using unat_add_byte [of 183 "length p"] len t by (simp add: c_def)
      have cs: "\<not> c < 0x80" "\<not> c < 0xB8" "c < 0xC0" "c - 0xB7 = of_nat (length p)"
        using u len t by (auto simp add: word_less_nat_alt c_def)
      show ?thesis
        unfolding h using t cs bk rs fits [of "Suc (length p)"] by (simp add: raw_readKind_def ac_simps)
    next
      assume t: "k = List \<and> a = 0xC0 \<and> l = 0xF7"
      have u: "unat c = 247 + length p" using unat_add_byte [of 247 "length p"] len t by (simp add: c_def)
      have cs: "\<not> c < 0x80" "\<not> c < 0xB8" "\<not> c < 0xC0" "\<not> c < 0xF8" "c - 0xF7 = of_nat (length p)"
        using u len t by (auto simp add: word_less_nat_alt c_def)
      show ?thesis
        unfolding h using t cs bk rs fits [of "Suc (length p)"] by (simp add: raw_readKind_def ac_simps)
    qed
  qed
qed

section \<open>Splitting\<close>

text \<open>What \<open>Split\<close> does with a header, in terms of lengths.\<close>

lemma Split_header:
  assumes "raw_readKind (h @ b @ rest) = Inr (k, of_nat (length h), of_nat (length b))"
    and "length (h @ b) < 2 ^ 64"
  shows "Split (h @ b @ rest) = Inr (k, b, rest)"
proof -
  have l: "length h < 2 ^ 64" "length h + length b < 2 ^ 64" using assms(2) by simp_all
  have "unat (of_nat (length h) + of_nat (length b) :: u64) = length h + length b"
    unfolding of_nat_add [symmetric] using l by (intro unat_of_nat64) simp
  with assms(1) l show ?thesis by (simp add: Split_def unat_of_nat64)
qed

lemma length_puthead_le: "length (puthead a l n) \<le> 9"
  using length_putint [of n] by (simp add: puthead_def Let_def)

lemma raw_readKind_byte: "x < 0x80 \<Longrightarrow> length rest < 2 ^ 62 \<Longrightarrow> raw_readKind (x # rest) = Inr (Byte, 0, 1)"
proof -
  assume "x < 0x80" "length rest < 2 ^ 62"
  moreover have "unat (of_nat (length (x # rest)) :: u64) = Suc (length rest)"
    using \<open>length rest < 2 ^ 62\<close> by (subst unat_of_nat64) auto
  then have "(of_nat (length (x # rest)) :: u64) \<noteq> 0" by (metis Zero_not_Suc unat_0)
  ultimately show ?thesis by (simp add: raw_readKind_def del: of_nat_Suc)
qed

lemma Split_enc_string:
  assumes "length b < 2 ^ 62" "length rest < 2 ^ 62"
  shows "\<exists>k. Split (enc_string b @ rest) = Inr (k, b, rest) \<and> k \<noteq> List"
proof (cases b rule: enc_string_cases)
  case (single x)
  then show ?thesis using raw_readKind_byte [of x rest] assms by (simp add: Split_def)
next
  case header
  have "raw_readKind (puthead 0x80 0xB7 (of_nat (length b)) @ b @ rest) =
      Inr (String, of_nat (length (puthead 0x80 0xB7 (of_nat (length b)))), of_nat (length b))"
    using header(2) assms by (intro raw_readKind_header) auto
  then have "Split (puthead 0x80 0xB7 (of_nat (length b)) @ b @ rest) = Inr (String, b, rest)"
    using assms length_puthead_le [of "0x80" "0xB7" "of_nat (length b)"] by (intro Split_header) auto
  then show ?thesis using header(1) by simp
qed

lemma Split_enc_list:
  assumes "length b < 2 ^ 62" "length rest < 2 ^ 62"
  shows "Split (enc_list b @ rest) = Inr (List, b, rest)"
proof -
  have "raw_readKind (puthead 0xC0 0xF7 (of_nat (length b)) @ b @ rest) =
      Inr (List, of_nat (length (puthead 0xC0 0xF7 (of_nat (length b)))), of_nat (length b))"
    using assms by (intro raw_readKind_header) auto
  then have "Split (puthead 0xC0 0xF7 (of_nat (length b)) @ b @ rest) = Inr (List, b, rest)"
    using assms length_puthead_le [of "0xC0" "0xF7" "of_nat (length b)"] by (intro Split_header) auto
  then show ?thesis by (simp add: enc_list_def)
qed

lemma SplitString_enc_string:
  "length b < 2 ^ 62 \<Longrightarrow> length rest < 2 ^ 62 \<Longrightarrow> SplitString (enc_string b @ rest) = Inr (b, rest)"
  using Split_enc_string [of b rest] by (auto simp: SplitString_def)

lemma SplitString_enc_list:
  "length b < 2 ^ 62 \<Longrightarrow> length rest < 2 ^ 62 \<Longrightarrow> SplitString (enc_list b @ rest) = Inl ErrExpectedString"
  using Split_enc_list [of b rest] by (auto simp: SplitString_def)

lemma SplitList_enc_list:
  "length b < 2 ^ 62 \<Longrightarrow> length rest < 2 ^ 62 \<Longrightarrow> SplitList (enc_list b @ rest) = Inr (b, rest)"
  using Split_enc_list [of b rest] by (auto simp: SplitList_def)

lemma SplitList_enc_string:
  "length b < 2 ^ 62 \<Longrightarrow> length rest < 2 ^ 62 \<Longrightarrow> SplitList (enc_string b @ rest) = Inl ErrExpectedList"
  using Split_enc_string [of b rest] by (auto simp: SplitList_def)

text \<open>\<open>ListSize\<close> is the length of the encoded list.\<close>

lemma ListSize_enc_list:
  "length b < 2 ^ 62 \<Longrightarrow> unat (ListSize (of_nat (length b))) = length (enc_list b)"
proof -
  assume l: "length b < 2 ^ 62"
  have "ListSize (of_nat (length b)) = of_nat (length (enc_list b))"
    by (simp add: ListSize_def enc_list_def length_puthead)
  moreover have "length (enc_list b) < 2 ^ 64"
    using l length_puthead_le [of "0xC0" "0xF7" "of_nat (length b)"] by (simp add: enc_list_def)
  ultimately show ?thesis by (simp add: unat_of_nat64)
qed

section \<open>Counting values\<close>

text \<open>Where \<open>Split\<close> succeeds, \<open>CountValues\<close> makes one step to the same rest.\<close>

lemma CountValues_Split:
  assumes "Split b = Inr (k, c, rest)" "length rest < length b"
  shows "CountValues_from i b = CountValues_from (Suc i) rest"
proof -
  from assms(1) obtain ts cs where rk: "raw_readKind b = Inr (k, ts, cs)"
    and le: "unat (ts + cs) \<le> length b" and rest: "rest = drop (unat (ts + cs)) b"
    by (auto simp: Split_def bind_simps split: if_splits)
  have "unat (ts + cs) \<noteq> 0" "b \<noteq> []" using assms(2) rest by auto
  then show ?thesis using rk le rest by (simp add: CountValues_from.simps [of i b])
qed

definition rlp_item :: "bytes \<Rightarrow> bool" where
  "rlp_item b \<longleftrightarrow> (\<exists>c. b = enc_string c \<or> b = enc_list c)"

lemma CountValues_from_items:
  "list_all rlp_item bs \<Longrightarrow> length (concat bs) < 2 ^ 62 \<Longrightarrow>
   CountValues_from i (concat bs) = Inr (i + length bs)"
proof (induction bs arbitrary: i)
  case Nil
  then show ?case by (simp add: CountValues_from.simps)
next
  case (Cons b bs)
  then obtain c where c: "b = enc_string c \<or> b = enc_list c" by (auto simp: rlp_item_def)
  have "length c \<le> length b" using c length_enc_string length_enc_list by auto
  then have l: "length c < 2 ^ 62" "length (concat bs) < 2 ^ 62" using Cons.prems(2) by auto
  have "\<exists>k. Split (b @ concat bs) = Inr (k, c, concat bs)"
    using c Split_enc_string [OF l] Split_enc_list [OF l] by auto
  moreover have "b \<noteq> []" using c enc_string_not_Nil enc_list_not_Nil by metis
  ultimately have "CountValues_from i (b @ concat bs) = CountValues_from (Suc i) (concat bs)"
    using CountValues_Split by force
  with Cons l(2) show ?case by simp
qed

end
