(* ===== verification/Gttc_Common.thy ===== *)
theory Gttc_Common
  imports Rlp_Encode
begin

text \<open>
  Addresses, hashes and their text forms: \<open>src/gttc/common/types.go\<close>,
  \<open>src/gttc/common/bytes.go\<close> and \<open>src/gttc/common/hexutil\<close>, with the functions of the
  Go standard library that the consensus engine's transaction parser relies on
  (\<open>encoding/hex\<close>, \<open>strconv.Atoi\<close>, \<open>strings.Split\<close>, \<open>strings.Join\<close>, the \<open>%d\<close> verb).

  A Go string is a HOL \<open>string\<close> (a list of 8-bit characters); \<open>str_bytes\<close> and \<open>bytes_str\<close>
  are the two conversions between \<open>string\<close> and \<open>[]byte\<close>.  The round trips at the end are
  what the side-chain confirmation messages and the RPC layer depend on.
\<close>

unbundle bit_operations_syntax

section \<open>Strings and byte slices\<close>

definition str_bytes :: "string \<Rightarrow> bytes" where
  "str_bytes s = map of_char s"

definition bytes_str :: "bytes \<Rightarrow> string" where
  "bytes_str b = map (\<lambda>x. char_of (unat x)) b"

text \<open>The fixed-size arrays behind \<open>Hash\<close> and \<open>Address\<close>, most significant byte first.\<close>

primrec to_be :: "nat \<Rightarrow> nat \<Rightarrow> bytes" where
  "to_be 0 n = []"
| "to_be (Suc k) n = to_be k (n div 256) @ [of_nat n]"

definition HashLength :: nat where
  "HashLength = 32"

definition AddressLength :: nat where
  "AddressLength = 20"

definition Hash_Bytes :: "hash \<Rightarrow> bytes" where
  "Hash_Bytes h = to_be HashLength (unat h)"

definition Address_Bytes :: "address \<Rightarrow> bytes" where
  "Address_Bytes a = to_be AddressLength (unat a)"

text \<open>
  \<open>SetBytes\<close> on an array with \<open>n\<close> bytes: a longer argument is cropped from the left, a
  shorter one overwrites the end of the array and leaves its front.
\<close>

definition SetBytes :: "nat \<Rightarrow> bytes \<Rightarrow> bytes \<Rightarrow> bytes" where
  "SetBytes n old b =
    (let c = (if n < length b then drop (length b - n) b else b)
     in take (n - length c) old @ c)"

definition BytesToHash :: "bytes \<Rightarrow> hash" where
  "BytesToHash b = of_nat (be_val (SetBytes HashLength (replicate HashLength 0) b))"

definition BytesToAddress :: "bytes \<Rightarrow> address" where
  "BytesToAddress b = of_nat (be_val (SetBytes AddressLength (replicate AddressLength 0) b))"

section \<open>Hexadecimal text\<close>

definition hextable :: string where
  "hextable = ''0123456789abcdef''"

text \<open>\<open>hex.EncodeToString\<close>: two digits per byte.\<close>

definition hex_byte :: "byte \<Rightarrow> string" where
  "hex_byte b = [hextable ! unat (drop_bit 4 b), hextable ! unat (b AND 0x0F)]"

definition Bytes2Hex :: "bytes \<Rightarrow> string" where
  "Bytes2Hex d = concat (map hex_byte d)"

definition decodeNibble :: "char \<Rightarrow> u64" where
  "decodeNibble c =
    (let i = (of_char c :: byte) in
     if 0x30 \<le> i \<and> i \<le> 0x39 then ucast (i - 0x30)
     else if 0x41 \<le> i \<and> i \<le> 0x46 then ucast (i - 0x41 + 10)
     else if 0x61 \<le> i \<and> i \<le> 0x66 then ucast (i - 0x61 + 10)
     else NOT 0)"

definition badNibble :: u64 where
  "badNibble = NOT 0"

datatype hex_err =
  HexInvalidByte char
| HexErrLength
| ErrEmptyString
| ErrSyntax
| ErrMissingPrefix
| ErrOddLength
| ErrWrongSize nat nat

text \<open>
  \<open>hex.DecodeString\<close>: the bytes decoded before the first bad digit, and the error.  The
  library's digit test accepts the characters \<open>decodeNibble\<close> accepts.
\<close>

fun hex_DecodeString :: "string \<Rightarrow> bytes \<times> hex_err option" where
  "hex_DecodeString [] = ([], None)"
| "hex_DecodeString [c] =
    ([], Some (if decodeNibble c = badNibble then HexInvalidByte c else HexErrLength))"
| "hex_DecodeString (c # d # s) =
    (if decodeNibble c = badNibble then ([], Some (HexInvalidByte c))
     else if decodeNibble d = badNibble then ([], Some (HexInvalidByte d))
     else
       (let (bs, err) = hex_DecodeString s
        in ((push_bit 4 (ucast (decodeNibble c)) OR ucast (decodeNibble d)) # bs, err)))"

definition Hex2Bytes :: "string \<Rightarrow> bytes" where
  "Hex2Bytes str = fst (hex_DecodeString str)"

definition FromHex :: "string \<Rightarrow> bytes" where
  "FromHex s =
    (let s1 = (if 1 < length s \<and> (take 2 s = ''0x'' \<or> take 2 s = ''0X'') then drop 2 s else s);
         s2 = (if length s1 mod 2 = 1 then ''0'' @ s1 else s1)
     in Hex2Bytes s2)"

definition ToHex :: "bytes \<Rightarrow> string" where
  "ToHex b = (let hex = Bytes2Hex b in ''0x'' @ (if length hex = 0 then ''0'' else hex))"

definition HexToHash :: "string \<Rightarrow> hash" where
  "HexToHash s = BytesToHash (FromHex s)"

definition HexToAddress :: "string \<Rightarrow> address" where
  "HexToAddress s = BytesToAddress (FromHex s)"

definition hexutil_Encode :: "bytes \<Rightarrow> string" where
  "hexutil_Encode b = ''0x'' @ Bytes2Hex b"

definition Hash_Hex :: "hash \<Rightarrow> string" where
  "Hash_Hex h = hexutil_Encode (Hash_Bytes h)"

definition has0xPrefix :: "string \<Rightarrow> bool" where
  "has0xPrefix input \<longleftrightarrow>
    2 \<le> length input \<and> input ! 0 = CHR ''0'' \<and> (input ! 1 = CHR ''x'' \<or> input ! 1 = CHR ''X'')"

definition mapError :: "hex_err \<Rightarrow> hex_err" where
  "mapError err =
    (case err of HexInvalidByte _ \<Rightarrow> ErrSyntax | HexErrLength \<Rightarrow> ErrOddLength | _ \<Rightarrow> err)"

definition hexutil_Decode :: "string \<Rightarrow> bytes \<times> hex_err option" where
  "hexutil_Decode input =
    (if length input = 0 then ([], Some ErrEmptyString)
     else if \<not> has0xPrefix input then ([], Some ErrMissingPrefix)
     else
       (let (b, err) = hex_DecodeString (drop 2 input)
        in (b, map_option mapError err)))"

text \<open>\<open>checkText\<close> of \<open>hexutil/json.go\<close>.\<close>

definition checkText :: "string \<Rightarrow> bool \<Rightarrow> hex_err + string" where
  "checkText input wantPrefix =
    (if length input = 0 then Inr []
     else
       bindR
         (if has0xPrefix input then Inr (drop 2 input)
          else if wantPrefix then Inl ErrMissingPrefix else Inr input)
         (\<lambda>raw. if length raw mod 2 \<noteq> 0 then Inl ErrOddLength else Inr raw))"

text \<open>
  \<open>UnmarshalFixedText\<close> with \<open>n = len(out)\<close>: the new contents of \<open>out\<close>, which is only
  written once the whole input is known to be well formed.
\<close>

definition UnmarshalFixedText :: "nat \<Rightarrow> string \<Rightarrow> hex_err + bytes" where
  "UnmarshalFixedText n input =
    bindR (checkText input True) (\<lambda>raw.
      if length raw div 2 \<noteq> n then Inl (ErrWrongSize (length raw) (n * 2))
      else if \<exists>b \<in> set raw. decodeNibble b = badNibble then Inl ErrSyntax
      else Inr (fst (hex_DecodeString raw)))"

text \<open>The receiver is left alone when the text is rejected.\<close>

definition Hash_UnmarshalText :: "hash \<Rightarrow> string \<Rightarrow> hash \<times> hex_err option" where
  "Hash_UnmarshalText h input =
    (case UnmarshalFixedText HashLength input of
       Inl e \<Rightarrow> (h, Some e)
     | Inr b \<Rightarrow> (of_nat (be_val b), None))"

definition Address_UnmarshalText :: "address \<Rightarrow> string \<Rightarrow> address \<times> hex_err option" where
  "Address_UnmarshalText a input =
    (case UnmarshalFixedText AddressLength input of
       Inl e \<Rightarrow> (a, Some e)
     | Inr b \<Rightarrow> (of_nat (be_val b), None))"

text \<open>
  \<open>Address.Hex\<close>: the EIP-55 checksum upper-cases the letters whose nibble of the hash of
  the plain text is above 7.  The hash function is not part of this package and is an
  argument, \<open>keccak256\<close>.
\<close>

definition checksum_char :: "bytes \<Rightarrow> nat \<Rightarrow> char \<Rightarrow> char" where
  "checksum_char hash i c =
    (let hb = hash ! (i div 2);
         hashByte = (if i mod 2 = 0 then drop_bit 4 hb else hb AND 0xF)
     in if (0x39 :: byte) < of_char c \<and> 7 < hashByte
        then char_of (unat (of_char c - 32 :: byte)) else c)"

definition Address_Hex :: "(bytes \<Rightarrow> bytes) \<Rightarrow> address \<Rightarrow> string" where
  "Address_Hex keccak256 a =
    (let unchecksummed = Bytes2Hex (Address_Bytes a);
         hash = keccak256 (str_bytes unchecksummed)
     in ''0x'' @ map (\<lambda>(i, c). checksum_char hash i c) (enumerate 0 unchecksummed))"

definition hasHexPrefix :: "string \<Rightarrow> bool" where
  "hasHexPrefix str \<longleftrightarrow>
    2 \<le> length str \<and> str ! 0 = CHR ''0'' \<and> (str ! 1 = CHR ''x'' \<or> str ! 1 = CHR ''X'')"

definition isHexCharacter :: "char \<Rightarrow> bool" where
  "isHexCharacter ch \<longleftrightarrow>
    (let c = (of_char ch :: byte) in
     0x30 \<le> c \<and> c \<le> 0x39 \<or> 0x61 \<le> c \<and> c \<le> 0x66 \<or> 0x41 \<le> c \<and> c \<le> 0x46)"

definition isHex :: "string \<Rightarrow> bool" where
  "isHex str \<longleftrightarrow> length str mod 2 = 0 \<and> list_all isHexCharacter str"

definition IsHexAddress :: "string \<Rightarrow> bool" where
  "IsHexAddress s =
    (let s1 = (if hasHexPrefix s then drop 2 s else s)
     in length s1 = 2 * AddressLength \<and> isHex s1)"

definition RightPadBytes :: "bytes \<Rightarrow> nat \<Rightarrow> bytes" where
  "RightPadBytes sl l = (if l \<le> length sl then sl else sl @ replicate (l - length sl) 0)"

definition LeftPadBytes :: "bytes \<Rightarrow> nat \<Rightarrow> bytes" where
  "LeftPadBytes sl l = (if l \<le> length sl then sl else replicate (l - length sl) 0 @ sl)"

definition Hex2BytesFixed :: "string \<Rightarrow> nat \<Rightarrow> bytes" where
  "Hex2BytesFixed str flen =
    (let h = fst (hex_DecodeString str) in
     if length h = flen then h
     else if flen < length h then drop (length h - flen) h
     else replicate (flen - length h) 0 @ h)"

section \<open>Decimal text, splitting and joining\<close>

datatype num_err = NumErrSyntax | NumErrRange

text \<open>
  \<open>strconv.Atoi\<close> on a 64-bit platform: an optional sign and decimal digits.  The scan stops
  at the first bad character (value 0) or where the magnitude leaves 64 bits; a magnitude
  beyond the signed range gives the nearest bound and an error.
\<close>

fun ParseUint_loop :: "nat \<Rightarrow> string \<Rightarrow> nat \<times> num_err option" where
  "ParseUint_loop n [] = (n, None)"
| "ParseUint_loop n (c # s) =
    (if (of_char c :: nat) < 48 \<or> 57 < (of_char c :: nat) then (0, Some NumErrSyntax)
     else if 2 ^ 64 \<le> n * 10 + (of_char c - 48) then (2 ^ 64 - 1, Some NumErrRange)
     else ParseUint_loop (n * 10 + (of_char c - 48)) s)"

definition ParseUint :: "string \<Rightarrow> nat \<times> num_err option" where
  "ParseUint s = (if s = [] then (0, Some NumErrSyntax) else ParseUint_loop 0 s)"

definition Atoi :: "string \<Rightarrow> int \<times> num_err option" where
  "Atoi s =
    (let neg = (s \<noteq> [] \<and> hd s = CHR ''-'');
         s1 = (if s \<noteq> [] \<and> (hd s = CHR ''+'' \<or> hd s = CHR ''-'') then tl s else s);
         (un, err) = ParseUint s1
     in if err = Some NumErrSyntax then (0, err)
        else if \<not> neg \<and> 2 ^ 63 \<le> un then (2 ^ 63 - 1, Some NumErrRange)
        else if neg \<and> 2 ^ 63 < un then (- (2 ^ 63), Some NumErrRange)
        else (if neg then - int un else int un, None))"

text \<open>The \<open>%d\<close> verb on an unsigned value.\<close>

fun fmt_d :: "nat \<Rightarrow> string" where
  "fmt_d n = (if n < 10 then [char_of (48 + n)] else fmt_d (n div 10) @ [char_of (48 + n mod 10)])"

declare fmt_d.simps [simp del]

text \<open>\<open>strings.Split\<close> and \<open>strings.Join\<close> with a one-character separator.\<close>

fun strings_Split :: "char \<Rightarrow> string \<Rightarrow> string list" where
  "strings_Split sep [] = [[]]"
| "strings_Split sep (c # s) =
    (if c = sep then [] # strings_Split sep s
     else (case strings_Split sep s of [] \<Rightarrow> [[c]] | w # ws \<Rightarrow> (c # w) # ws))"

fun strings_Join :: "char \<Rightarrow> string list \<Rightarrow> string" where
  "strings_Join sep [] = []"
| "strings_Join sep [w] = w"
| "strings_Join sep (w # v # ws) = w @ sep # strings_Join sep (v # ws)"

section \<open>Round trips\<close>

lemma length_to_be [simp]: "length (to_be k n) = k"
  by (induction k arbitrary: n) auto

lemma be_val_to_be: "n < 256 ^ k \<Longrightarrow> be_val (to_be k n) = n"
proof (induction k arbitrary: n)
  case 0
  then show ?case by simp
next
  case (Suc k)
  then have "n div 256 < 256 ^ k" by (simp add: less_mult_imp_div_less mult.commute)
  then show ?case
    using Suc.IH [of "n div 256"] by (simp add: unat_of_nat take_bit_eq_mod)
qed

lemma to_be_be_val: "to_be (length b) (be_val b) = b"
proof (induction b rule: rev_induct)
  case Nil
  then show ?case by simp
next
  case (snoc x b)
  have x: "unat x < 256" using unsigned_less [of x] by simp
  then have "(of_nat (be_val b * 256 + unat x) :: byte) = x"
    by (simp add: word_unat_eq_iff unat_of_nat take_bit_eq_mod unat_word_ariths)
  with x snoc show ?case by simp
qed

lemma BytesToHash_Bytes [simp]: "BytesToHash (Hash_Bytes h) = h"
proof -
  have "unat h < 256 ^ 32" using unsigned_less [of h] by simp
  then show ?thesis
    by (simp add: BytesToHash_def Hash_Bytes_def SetBytes_def HashLength_def be_val_to_be)
qed

lemma BytesToAddress_Bytes [simp]: "BytesToAddress (Address_Bytes a) = a"
proof -
  have "unat a < 256 ^ 20" using unsigned_less [of a] by simp
  then show ?thesis
    by (simp add: BytesToAddress_def Address_Bytes_def SetBytes_def AddressLength_def be_val_to_be)
qed

lemma be_val_Hash_Bytes [simp]: "of_nat (be_val (Hash_Bytes h)) = h"
proof -
  have "unat h < 256 ^ 32" using unsigned_less [of h] by simp
  then show ?thesis by (simp add: Hash_Bytes_def HashLength_def be_val_to_be)
qed

lemma be_val_Address_Bytes [simp]: "of_nat (be_val (Address_Bytes a)) = a"
proof -
  have "unat a < 256 ^ 20" using unsigned_less [of a] by simp
  then show ?thesis by (simp add: Address_Bytes_def AddressLength_def be_val_to_be)
qed

lemma length_Hash_Bytes [simp]: "length (Hash_Bytes h) = 32"
  by (simp add: Hash_Bytes_def HashLength_def)

lemma length_Address_Bytes [simp]: "length (Address_Bytes a) = 20"
  by (simp add: Address_Bytes_def AddressLength_def)

lemma bytes_str_bytes [simp]: "bytes_str (str_bytes s) = s"
proof -
  have "char_of (unat (of_char c :: byte)) = c" for c
  proof -
    have "(of_char c :: byte) = of_nat (of_char c)" by (simp add: of_nat_of_char)
    moreover have "(of_char c :: nat) < 256" by simp
    ultimately show ?thesis by (simp add: unat_of_nat take_bit_nat_eq_self)
  qed
  then show ?thesis by (simp add: bytes_str_def str_bytes_def comp_def map_idI)
qed

lemma str_bytes_str [simp]: "str_bytes (bytes_str b) = b"
proof -
  have "(of_char (char_of (unat x)) :: byte) = x" for x :: byte
  proof -
    have "unat x < 256" using unsigned_less [of x] by simp
    have "(of_char (char_of (unat x)) :: byte) = of_nat (of_char (char_of (unat x)))"
      by (simp only: of_nat_of_char)
    also have "\<dots> = of_nat (unat x mod 256)" by (simp only: of_char_of)
    finally show ?thesis using \<open>unat x < 256\<close> by simp
  qed
  then show ?thesis by (simp add: bytes_str_def str_bytes_def comp_def map_idI)
qed

lemma nibble_table:
  "list_all (\<lambda>n. decodeNibble (hextable ! n) = of_nat n \<and> (n < 10 \<longrightarrow> \<not> (0x39 :: byte) < of_char (hextable ! n))) [0..<16]"
  "list_all (\<lambda>n. decodeNibble (char_of (unat (of_char (hextable ! n) - 32 :: byte))) = of_nat n) [10..<16]"
  by code_simp+

lemma decodeNibble_hextable: "n < 16 \<Longrightarrow> decodeNibble (hextable ! n) = of_nat n"
  using nibble_table(1) by (simp add: list_all_iff)

lemma decodeNibble_checksum: 
  assumes "n < 16"
  shows "decodeNibble (checksum_char h i (hextable ! n)) = of_nat n"
proof (cases "n < 10")
  case True
  then have "\<not> (0x39 :: byte) < of_char (hextable ! n)"
    using nibble_table(1) by (simp add: list_all_iff)
  then show ?thesis using assms by (simp add: checksum_char_def Let_def decodeNibble_hextable)
next
  case False
  then have "decodeNibble (char_of (unat (of_char (hextable ! n) - 32 :: byte))) = of_nat n"
    using nibble_table(2) assms unfolding list_all_iff set_upt by fastforce
  then show ?thesis using assms by (simp add: checksum_char_def Let_def decodeNibble_hextable)
qed

lemma nibble_not_bad: "n < 16 \<Longrightarrow> (of_nat n :: u64) \<noteq> badNibble"
proof
  assume "n < 16" "(of_nat n :: u64) = badNibble"
  then have "unat (of_nat n :: u64) = unat badNibble" by simp
  moreover have "unat badNibble = 2 ^ 64 - 1" by (simp add: badNibble_def unsigned_minus_1_eq_mask mask_eq_exp_minus_1)
  ultimately show False using \<open>n < 16\<close> by (simp add: unat_of_nat64)
qed

text \<open>The digits of a byte slice, as numbers; a text with these digits decodes to the slice.\<close>

definition nibbles :: "bytes \<Rightarrow> u64 list" where
  "nibbles bs = concat (map (\<lambda>b. [of_nat (unat b div 16), of_nat (unat b mod 16)]) bs)"

lemma join_nibbles:
  "push_bit 4 (ucast (of_nat (unat b div 16) :: u64)) OR ucast (of_nat (unat b mod 16) :: u64) = (b :: byte)"
proof -
  have b: "unat b < 256" using unsigned_less [of b] by simp
  have e: "(ucast (of_nat n :: u64) :: byte) = of_nat n" if "n < 256" for n
    using that by (simp add: word_unat_eq_iff unsigned_ucast_eq unat_of_nat take_bit_nat_eq_self)
  have "(of_nat (unat b div 16) :: byte) = drop_bit 4 b"
    using b by (simp add: word_unat_eq_iff unat_of_nat drop_bit_eq_div unat_div take_bit_nat_eq_self)
  moreover have "(of_nat (unat b mod 16) :: byte) = take_bit 4 b"
    using b by (simp add: word_unat_eq_iff unat_of_nat unat_mod take_bit_eq_mod)
  moreover have "push_bit 4 (drop_bit 4 b) OR take_bit 4 b = b"
    by (auto simp: bit_eq_iff bit_simps)
  ultimately show ?thesis using b by (simp add: e)
qed

lemma hex_DecodeString_nibbles:
  "map decodeNibble s = nibbles bs \<Longrightarrow> hex_DecodeString s = (bs, None)"
proof (induction bs arbitrary: s)
  case Nil
  then show ?case by (simp add: nibbles_def)
next
  case (Cons b bs)
  then obtain c d s' where s: "s = c # d # s'" "decodeNibble c = of_nat (unat b div 16)"
      "decodeNibble d = of_nat (unat b mod 16)" "map decodeNibble s' = nibbles bs"
    by (auto simp: nibbles_def Cons_eq_map_conv map_eq_Cons_conv)
  have "unat b < 256" using unsigned_less [of b] by simp
  then have "unat b div 16 < 16" "unat b mod 16 < 16" by auto
  with s Cons.IH [OF s(4)] show ?case
    using nibble_not_bad [of "unat b div 16"] nibble_not_bad [of "unat b mod 16"]
    by (simp add: join_nibbles)
qed

lemma hex_byte_table:
  "hex_byte b = [hextable ! (unat b div 16), hextable ! (unat b mod 16)]"
proof -
  have "b AND 0xF = take_bit 4 b" by (simp add: take_bit_eq_mask mask_eq_exp_minus_1)
  then show ?thesis
    by (simp add: hex_byte_def drop_bit_eq_div take_bit_eq_mod unat_div unat_mod)
qed

lemma nibbles_Bytes2Hex: "map decodeNibble (Bytes2Hex bs) = nibbles bs"
proof (induction bs)
  case Nil
  then show ?case by (simp add: Bytes2Hex_def nibbles_def)
next
  case (Cons b bs)
  have "unat b < 256" using unsigned_less [of b] by simp
  then have "unat b div 16 < 16" "unat b mod 16 < 16" by auto
  with Cons show ?case
    by (simp add: Bytes2Hex_def nibbles_def hex_byte_table decodeNibble_hextable)
qed

lemma Bytes2Hex_digits: "c \<in> set (Bytes2Hex bs) \<Longrightarrow> \<exists>n < 16. c = hextable ! n"
proof -
  assume "c \<in> set (Bytes2Hex bs)"
  then obtain b :: byte where "c = hextable ! (unat b div 16) \<or> c = hextable ! (unat b mod 16)"
    by (force simp: Bytes2Hex_def hex_byte_table)
  moreover have "unat b < 256" using unsigned_less [of b] by simp
  then have "unat b div 16 < 16" "unat b mod 16 < 16" by auto
  ultimately show ?thesis by blast
qed

lemma length_nibbles: "length (nibbles bs) = 2 * length bs"
  by (induction bs) (auto simp: nibbles_def)

lemma nibbles_checksum:
  "map decodeNibble (map (\<lambda>(i, c). checksum_char h i c) (enumerate k (Bytes2Hex bs))) = nibbles bs"
proof -
  have "map decodeNibble (map (\<lambda>(i, c). checksum_char h i c) (enumerate k s)) = map decodeNibble s"
    if "\<And>c. c \<in> set s \<Longrightarrow> \<exists>n < 16. c = hextable ! n" for s
    using that
  proof (induction s arbitrary: k)
    case (Cons c s)
    then obtain n where "n < 16" "c = hextable ! n" by (meson list.set_intros(1))
    with Cons show ?case by (simp add: decodeNibble_hextable decodeNibble_checksum)
  qed simp
  then show ?thesis using Bytes2Hex_digits nibbles_Bytes2Hex by metis
qed

text \<open>A \<open>0x\<close>-prefixed text with the digits of \<open>bs\<close> reads back as \<open>bs\<close>.\<close>

lemma FromHex_nibbles: "map decodeNibble s = nibbles bs \<Longrightarrow> FromHex (''0x'' @ s) = bs"
proof -
  assume s: "map decodeNibble s = nibbles bs"
  then have "length s = 2 * length bs" by (metis length_map length_nibbles)
  with hex_DecodeString_nibbles [OF s] show ?thesis by (simp add: FromHex_def Hex2Bytes_def)
qed

lemma HexToHash_Hex: "HexToHash (Hash_Hex h) = h"
  using FromHex_nibbles [OF nibbles_Bytes2Hex [of "Hash_Bytes h"]]
  by (simp add: HexToHash_def Hash_Hex_def hexutil_Encode_def)

lemma HexToAddress_Hex: "HexToAddress (Address_Hex keccak256 a) = a"
  using FromHex_nibbles [OF nibbles_checksum [of _ 0 "Address_Bytes a"]]
  by (simp add: HexToAddress_def Address_Hex_def Let_def)

lemma hexutil_Decode_Encode: "hexutil_Decode (hexutil_Encode b) = (b, None)"
  using hex_DecodeString_nibbles [OF nibbles_Bytes2Hex [of b]]
  by (simp add: hexutil_Decode_def hexutil_Encode_def has0xPrefix_def)

lemma UnmarshalFixedText_nibbles:
  assumes "map decodeNibble s = nibbles bs"
  shows "UnmarshalFixedText (length bs) (''0x'' @ s) = Inr bs"
proof -
  have l: "length s = 2 * length bs" using assms by (metis length_map length_nibbles)
  have "decodeNibble c \<noteq> badNibble" if "c \<in> set s" for c
  proof -
    have "decodeNibble c \<in> set (nibbles bs)" using that assms by (metis image_eqI list.set_map)
    then obtain b where "decodeNibble c = of_nat (unat b div 16) \<or> decodeNibble c = of_nat (unat (b :: byte) mod 16)"
      by (auto simp: nibbles_def)
    moreover have "unat b < 256" using unsigned_less [of b] by simp
    then have "unat b div 16 < 16" "unat b mod 16 < 16" by auto
    ultimately show ?thesis using nibble_not_bad by metis
  qed
  with l hex_DecodeString_nibbles [OF assms] show ?thesis
    by (auto simp add: UnmarshalFixedText_def checkText_def has0xPrefix_def)
qed

lemma Hash_UnmarshalText_Hex: "Hash_UnmarshalText h0 (Hash_Hex h) = (h, None)"
  using UnmarshalFixedText_nibbles [OF nibbles_Bytes2Hex [of "Hash_Bytes h"]]
  by (simp add: Hash_UnmarshalText_def Hash_Hex_def hexutil_Encode_def HashLength_def)

lemma Address_UnmarshalText_Hex: "Address_UnmarshalText a0 (Address_Hex keccak256 a) = (a, None)"
  using UnmarshalFixedText_nibbles [OF nibbles_checksum [of _ 0 "Address_Bytes a"]]
  by (simp add: Address_UnmarshalText_def Address_Hex_def AddressLength_def Let_def)

lemma ParseUint_loop_digit:
  "d < 10 \<Longrightarrow> n * 10 + d < 2 ^ 64 \<Longrightarrow>
   ParseUint_loop n (char_of (48 + d) # s) = ParseUint_loop (n * 10 + d) s"
  by (simp add: of_char_of)

lemma ParseUint_loop_append:
  "n < 2 ^ 64 \<Longrightarrow> ParseUint_loop 0 (fmt_d n @ s) = ParseUint_loop n s"
proof (induction n arbitrary: s rule: fmt_d.induct)
  case (1 n)
  show ?case
  proof (cases "n < 10")
    case True
    then show ?thesis using ParseUint_loop_digit [of n 0 s] by (simp add: fmt_d.simps [of n])
  next
    case False
    have e: "n div 10 * 10 + n mod 10 = n" by simp
    have "n div 10 < 2 ^ 64" using 1(2) by simp
    with 1 False e show ?thesis
      using ParseUint_loop_digit [of "n mod 10" "n div 10" s]
      by (simp add: fmt_d.simps [of n] del: ParseUint_loop.simps)
  qed
qed

lemma fmt_d_not_Nil [simp]: "fmt_d n \<noteq> []"
  by (subst fmt_d.simps) simp

lemma fmt_d_digits: "c \<in> set (fmt_d n) \<Longrightarrow> 48 \<le> (of_char c :: nat) \<and> (of_char c :: nat) \<le> 57"
proof (induction n rule: fmt_d.induct)
  case (1 n)
  show ?case
  proof (cases "n < 10")
    case True
    with 1 show ?thesis by (simp add: fmt_d.simps [of n])
  next
    case False
    have "n mod 10 < 10" by simp
    with 1 False show ?thesis by (auto simp add: fmt_d.simps [of n])
  qed
qed

lemma fmt_d_no_char:
  assumes "(of_char c :: nat) < 48 \<or> 57 < (of_char c :: nat)"
  shows "c \<notin> set (fmt_d n)"
  using assms fmt_d_digits [of c n] by auto

text \<open>\<open>strconv.Atoi\<close> reads back what \<open>%d\<close> prints, for every value an \<open>int\<close> can hold.\<close>

lemma Atoi_fmt_d: "n < 2 ^ 63 \<Longrightarrow> Atoi (fmt_d n) = (int n, None)"
proof -
  assume n: "n < 2 ^ 63"
  have "hd (fmt_d n) \<noteq> CHR ''-''" "hd (fmt_d n) \<noteq> CHR ''+''"
    using fmt_d_digits [OF hd_in_set [OF fmt_d_not_Nil], of n] by auto
  moreover have "ParseUint (fmt_d n) = (n, None)"
    using ParseUint_loop_append [of n "[]"] n by (simp add: ParseUint_def)
  ultimately show ?thesis using n by (simp add: Atoi_def Let_def)
qed

lemma strings_Split_not_Nil [simp]: "strings_Split sep s \<noteq> []"
  by (cases s) (auto split: list.splits)

lemma strings_Split_no_sep: "sep \<notin> set w \<Longrightarrow> strings_Split sep w = [w]"
  by (induction w) auto

lemma strings_Split_append:
  "sep \<notin> set w \<Longrightarrow> strings_Split sep (w @ sep # s) = w # strings_Split sep s"
  by (induction w) auto

text \<open>Splitting a joined list gives the list back when no word holds the separator.\<close>

lemma strings_Split_Join:
  "ws \<noteq> [] \<Longrightarrow> \<forall>w \<in> set ws. sep \<notin> set w \<Longrightarrow> strings_Split sep (strings_Join sep ws) = ws"
  by (induction sep ws rule: strings_Join.induct) (auto simp: strings_Split_no_sep strings_Split_append)

lemma strings_Join_Split: "strings_Join sep (strings_Split sep s) = s"
proof (induction s)
  case (Cons c s)
  obtain w ws where "strings_Split sep s = w # ws" using strings_Split_not_Nil by (meson list.exhaust)
  with Cons show ?case by (cases ws) auto
qed simp

lemma strings_Join_Cons: "ws \<noteq> [] \<Longrightarrow> strings_Join sep (w # ws) = w @ sep # strings_Join sep ws"
  by (cases ws) auto

lemma Hash_Hex_no_colon: "CHR '':'' \<notin> set (Hash_Hex h)"
proof
  assume "CHR '':'' \<in> set (Hash_Hex h)"
  then have "CHR '':'' \<in> set (Bytes2Hex (Hash_Bytes h))" by (simp add: Hash_Hex_def hexutil_Encode_def)
  then obtain n where n: "n < 16" "CHR '':'' = hextable ! n" using Bytes2Hex_digits by blast
  then have "decodeNibble (CHR '':'') = of_nat n" by (simp add: decodeNibble_hextable)
  moreover have "decodeNibble (CHR '':'') = badNibble" by code_simp
  ultimately show False using nibble_not_bad [OF n(1)] by simp
qed

end
