(* ===== verification/Alien_Types.thy ===== *)
theory Alien_Types
  imports Rlp_Raw Gttc_Common
begin

text \<open>
  The data of the delegated-proof-of-stake engine \<open>src/gttc/consensus/alien\<close>: its
  configuration (\<open>src/gttc/params/config.go\<close>), the block header
  (\<open>src/gttc/core/types/block.go\<close>), the records a block carries in \<open>header.Extra\<close>
  (\<open>custom_tx.go\<close>) with their RLP form on both sides of the Trantor fork, and the errors.

  Record fields are named after the Go fields with a short prefix per type.  \<open>*big.Int\<close>
  fields that no code mutates are integers; the stakes and proposals that the snapshot
  updates in place are references, see the theory of the snapshot.
\<close>

section \<open>Errors\<close>

text \<open>The engine's error values, the library errors it passes on, run-time panics, and
  \<open>NoReturn\<close> for a call that runs forever.\<close>

datatype alien_err =
    errUnknownBlock
  | errMissingVanity
  | errMissingSignature
  | errInvalidMixDigest
  | errInvalidUncleHash
  | ErrInvalidTimestamp
  | errInvalidVotingChain
  | errUnauthorized
  | errPunishedMissing
  | errWaitTransactions
  | errUnclesNotAllowed
  | errCreateSignerQueueNotAllowed
  | errInvalidSignerQueue
  | errSignerQueueEmpty
  | errGetLastLoopInfoFail
  | errInvalidNeighborSigner
  | errIncorrectTallyCount
  | errNotSideChain
  | errMCRPCClientEmpty
  | errMCPeriodMissing
  | ErrUnknownAncestor
  | ErrFutureBlock
  | ErrRlp rlp_err
  | ErrCrypto
  | ErrDatabase
  | ErrRPC
  | ErrNum num_err
  | PanicNil
  | PanicIndex
  | PanicDivide
  | NoReturn

section \<open>Configuration\<close>

record AlienConfig =
  cfg_Period :: u64
  cfg_Epoch :: u64
  cfg_MaxSignerCount :: u64
  cfg_MinVoterBalance :: int
  cfg_GenesisTimestamp :: u64
  cfg_SelfVoteSigners :: "address list"
  cfg_SideChain :: bool
  cfg_MCRPCClient :: bool
  cfg_TrantorBlock :: "int option"
  cfg_TerminusBlock :: "int option"

definition isForked :: "int option \<Rightarrow> int option \<Rightarrow> bool" where
  "isForked s head = (case (s, head) of (Some f, Some h) \<Rightarrow> f \<le> h | _ \<Rightarrow> False)"

definition IsTrantor :: "AlienConfig \<Rightarrow> int \<Rightarrow> bool" where
  "IsTrantor a num = isForked (cfg_TrantorBlock a) (Some num)"

definition IsTerminus :: "AlienConfig \<Rightarrow> int \<Rightarrow> bool" where
  "IsTerminus a num = isForked (cfg_TerminusBlock a) (Some num)"

text \<open>\<open>big.Int.Uint64\<close> and \<open>Int64\<close> take the low 64 bits of the magnitude.\<close>

definition Uint64 :: "int \<Rightarrow> u64" where
  "Uint64 i = of_int \<bar>i\<bar>"

definition Int64 :: "int \<Rightarrow> int" where
  "Int64 i = (let v = sint (of_int \<bar>i\<bar> :: u64) in if i < 0 then - v else v)"

section \<open>Headers\<close>

text \<open>
  \<open>types.Header\<close>.  \<open>Number\<close> is the only pointer the engine tests for nil; \<open>hNumber\<close> is the
  dereference, used by the code that runs after that test.
\<close>

record Header =
  h_ParentHash :: hash
  h_UncleHash :: hash
  h_Coinbase :: address
  h_Root :: hash
  h_TxHash :: hash
  h_ReceiptHash :: hash
  h_Bloom :: bytes
  h_Difficulty :: int
  h_Number :: "int option"
  h_GasLimit :: u64
  h_GasUsed :: u64
  h_Time :: int
  h_Extra :: bytes
  h_MixDigest :: hash
  h_Nonce :: bytes

definition hNumber :: "Header \<Rightarrow> int" where
  "hNumber h = (case h_Number h of Some n \<Rightarrow> n | None \<Rightarrow> 0)"

definition extraVanity :: nat where
  "extraVanity = 32"

definition extraSeal :: nat where
  "extraSeal = 65"

text \<open>\<open>header.Extra[extraVanity:len(header.Extra)-extraSeal]\<close>, which panics on a short slice.\<close>

definition extra_payload :: "Header \<Rightarrow> alien_err + bytes" where
  "extra_payload h =
    (let n = length (h_Extra h) in
     if extraVanity + extraSeal \<le> n
     then Inr (take (n - extraSeal - extraVanity) (drop extraVanity (h_Extra h)))
     else Inl PanicIndex)"

section \<open>What a block carries\<close>

record Vote =
  v_Voter :: address
  v_Candidate :: address
  v_Stake :: int

record Confirmation =
  c_Signer :: address
  c_BlockNumber :: int

record Declare =
  d_ProposalHash :: hash
  d_Declarer :: address
  d_Decision :: bool

record Proposal =
  p_Hash :: hash
  p_ValidationLoopCnt :: u64
  p_ProposalType :: u64
  p_Proposer :: address
  p_Candidate :: address
  p_MinerRewardPerThousand :: u64
  p_SCHash :: hash
  p_SCBlockCountPerPeriod :: u64
  p_SCBlockRewardPerPeriod :: u64
  p_Declares :: "Declare list"
  p_ReceivedNumber :: int

record SCConfirmation =
  scc_Hash :: hash
  scc_Coinbase :: address
  scc_Number :: u64
  scc_LoopInfo :: "string list"

record SCSetCoinbase =
  scs_Hash :: hash
  scs_Signer :: address
  scs_Coinbase :: address

record HeaderExtra =
  he_CurrentBlockConfirmations :: "Confirmation list"
  he_CurrentBlockVotes :: "Vote list"
  he_CurrentBlockProposals :: "Proposal list"
  he_CurrentBlockDeclares :: "Declare list"
  he_ModifyPredecessorVotes :: "Vote list"
  he_LoopStartTime :: u64
  he_SignerQueue :: "address list"
  he_SignerMissing :: "address list"
  he_ConfirmedBlockNumber :: u64
  he_SideChainConfirmations :: "SCConfirmation list"
  he_SideChainSetCoinbases :: "SCSetCoinbase list"

record HeaderExtraBeforeTrantor =
  hb_CurrentBlockConfirmations :: "Confirmation list"
  hb_CurrentBlockVotes :: "Vote list"
  hb_CurrentBlockProposals :: "Proposal list"
  hb_CurrentBlockDeclares :: "Declare list"
  hb_ModifyPredecessorVotes :: "Vote list"
  hb_LoopStartTime :: u64
  hb_SignerQueue :: "address list"
  hb_SignerMissing :: "address list"
  hb_ConfirmedBlockNumber :: u64

definition new_HeaderExtra :: HeaderExtra where
  "new_HeaderExtra = \<lparr>he_CurrentBlockConfirmations = [], he_CurrentBlockVotes = [],
    he_CurrentBlockProposals = [], he_CurrentBlockDeclares = [], he_ModifyPredecessorVotes = [],
    he_LoopStartTime = 0, he_SignerQueue = [], he_SignerMissing = [], he_ConfirmedBlockNumber = 0,
    he_SideChainConfirmations = [], he_SideChainSetCoinbases = []\<rparr>"

definition copyToBeforeTrantor :: "HeaderExtra \<Rightarrow> HeaderExtraBeforeTrantor" where
  "copyToBeforeTrantor val = \<lparr>
    hb_CurrentBlockConfirmations = he_CurrentBlockConfirmations val,
    hb_CurrentBlockVotes = he_CurrentBlockVotes val,
    hb_CurrentBlockProposals = he_CurrentBlockProposals val,
    hb_CurrentBlockDeclares = he_CurrentBlockDeclares val,
    hb_ModifyPredecessorVotes = he_ModifyPredecessorVotes val,
    hb_LoopStartTime = he_LoopStartTime val,
    hb_SignerQueue = he_SignerQueue val,
    hb_SignerMissing = he_SignerMissing val,
    hb_ConfirmedBlockNumber = he_ConfirmedBlockNumber val\<rparr>"

definition copyFromBeforeTrantor :: "HeaderExtra \<Rightarrow> HeaderExtraBeforeTrantor \<Rightarrow> HeaderExtra" where
  "copyFromBeforeTrantor val b = val\<lparr>
    he_CurrentBlockConfirmations := hb_CurrentBlockConfirmations b,
    he_CurrentBlockVotes := hb_CurrentBlockVotes b,
    he_CurrentBlockProposals := hb_CurrentBlockProposals b,
    he_CurrentBlockDeclares := hb_CurrentBlockDeclares b,
    he_ModifyPredecessorVotes := hb_ModifyPredecessorVotes b,
    he_LoopStartTime := hb_LoopStartTime b,
    he_SignerQueue := hb_SignerQueue b,
    he_SignerMissing := hb_SignerMissing b,
    he_ConfirmedBlockNumber := hb_ConfirmedBlockNumber b,
    he_SideChainConfirmations := [],
    he_SideChainSetCoinbases := []\<rparr>"

section \<open>The RLP view of the records\<close>

text \<open>
  The codec works by reflection over the Go types.  \<open>t_X\<close> is the type descriptor of the
  struct \<open>X\<close>, \<open>to_X\<close> the field values the encoder reads from it and \<open>of_X\<close> the struct the
  decoder fills.
\<close>

abbreviation t_Address :: gtype where
  "t_Address \<equiv> TByteArray 20"

abbreviation t_Hash :: gtype where
  "t_Hash \<equiv> TByteArray 32"

abbreviation t_u64 :: gtype where
  "t_u64 \<equiv> TUint 64"

definition of_Address :: "gval \<Rightarrow> address" where
  "of_Address v = (case v of VByteArray b \<Rightarrow> of_nat (be_val b) | _ \<Rightarrow> 0)"

definition of_Hash :: "gval \<Rightarrow> hash" where
  "of_Hash v = (case v of VByteArray b \<Rightarrow> of_nat (be_val b) | _ \<Rightarrow> 0)"

definition of_u64 :: "gval \<Rightarrow> u64" where
  "of_u64 v = (case v of VUint i \<Rightarrow> i | _ \<Rightarrow> 0)"

definition of_big :: "gval \<Rightarrow> int" where
  "of_big v = (case v of VBig (Some i) \<Rightarrow> i | _ \<Rightarrow> 0)"

definition of_bool_val :: "gval \<Rightarrow> bool" where
  "of_bool_val v = (case v of VBool b \<Rightarrow> b | _ \<Rightarrow> False)"

definition of_string_val :: "gval \<Rightarrow> string" where
  "of_string_val v = (case v of VString b \<Rightarrow> bytes_str b | _ \<Rightarrow> [])"

definition of_list :: "(gval \<Rightarrow> 'a) \<Rightarrow> gval \<Rightarrow> 'a list" where
  "of_list f v = (case v of VList vs \<Rightarrow> map f vs | _ \<Rightarrow> [])"

definition of_ptr :: "(gval \<Rightarrow> 'a) \<Rightarrow> gval \<Rightarrow> 'a" where
  "of_ptr f v = (case v of VPtr (Some x) \<Rightarrow> f x | _ \<Rightarrow> f v)"

definition struct_field :: "gval \<Rightarrow> nat \<Rightarrow> gval" where
  "struct_field v i = (case v of VStruct vs \<Rightarrow> if i < length vs then vs ! i else VList [] | _ \<Rightarrow> VList [])"

definition to_Address :: "address \<Rightarrow> gval" where
  "to_Address a = VByteArray (Address_Bytes a)"

definition to_Hash :: "hash \<Rightarrow> gval" where
  "to_Hash h = VByteArray (Hash_Bytes h)"

definition t_Vote :: gtype where
  "t_Vote = TStruct [t_Address, t_Address, TBigInt]"

definition to_Vote :: "Vote \<Rightarrow> gval" where
  "to_Vote v = VStruct [to_Address (v_Voter v), to_Address (v_Candidate v), VBig (Some (v_Stake v))]"

definition of_Vote :: "gval \<Rightarrow> Vote" where
  "of_Vote g = \<lparr>v_Voter = of_Address (struct_field g 0), v_Candidate = of_Address (struct_field g 1),
    v_Stake = of_big (struct_field g 2)\<rparr>"

definition t_Confirmation :: gtype where
  "t_Confirmation = TStruct [t_Address, TBigInt]"

definition to_Confirmation :: "Confirmation \<Rightarrow> gval" where
  "to_Confirmation c = VStruct [to_Address (c_Signer c), VBig (Some (c_BlockNumber c))]"

definition of_Confirmation :: "gval \<Rightarrow> Confirmation" where
  "of_Confirmation g = \<lparr>c_Signer = of_Address (struct_field g 0), c_BlockNumber = of_big (struct_field g 1)\<rparr>"

definition t_Declare :: gtype where
  "t_Declare = TStruct [t_Hash, t_Address, TBool]"

definition to_Declare :: "Declare \<Rightarrow> gval" where
  "to_Declare d = VStruct [to_Hash (d_ProposalHash d), to_Address (d_Declarer d), VBool (d_Decision d)]"

definition of_Declare :: "gval \<Rightarrow> Declare" where
  "of_Declare g = \<lparr>d_ProposalHash = of_Hash (struct_field g 0), d_Declarer = of_Address (struct_field g 1),
    d_Decision = of_bool_val (struct_field g 2)\<rparr>"

definition t_Proposal :: gtype where
  "t_Proposal = TStruct [t_Hash, t_u64, t_u64, t_Address, t_Address, t_u64, t_Hash, t_u64, t_u64,
    TSlice (TPtr t_Declare), TBigInt]"

definition to_Proposal :: "Proposal \<Rightarrow> gval" where
  "to_Proposal p = VStruct [to_Hash (p_Hash p), VUint (p_ValidationLoopCnt p), VUint (p_ProposalType p),
    to_Address (p_Proposer p), to_Address (p_Candidate p), VUint (p_MinerRewardPerThousand p),
    to_Hash (p_SCHash p), VUint (p_SCBlockCountPerPeriod p), VUint (p_SCBlockRewardPerPeriod p),
    VList (map (\<lambda>d. VPtr (Some (to_Declare d))) (p_Declares p)), VBig (Some (p_ReceivedNumber p))]"

definition of_Proposal :: "gval \<Rightarrow> Proposal" where
  "of_Proposal g = \<lparr>p_Hash = of_Hash (struct_field g 0), p_ValidationLoopCnt = of_u64 (struct_field g 1),
    p_ProposalType = of_u64 (struct_field g 2), p_Proposer = of_Address (struct_field g 3),
    p_Candidate = of_Address (struct_field g 4), p_MinerRewardPerThousand = of_u64 (struct_field g 5),
    p_SCHash = of_Hash (struct_field g 6), p_SCBlockCountPerPeriod = of_u64 (struct_field g 7),
    p_SCBlockRewardPerPeriod = of_u64 (struct_field g 8),
    p_Declares = of_list (of_ptr of_Declare) (struct_field g 9),
    p_ReceivedNumber = of_big (struct_field g 10)\<rparr>"

definition t_SCConfirmation :: gtype where
  "t_SCConfirmation = TStruct [t_Hash, t_Address, t_u64, TSlice TString]"

definition to_SCConfirmation :: "SCConfirmation \<Rightarrow> gval" where
  "to_SCConfirmation s = VStruct [to_Hash (scc_Hash s), to_Address (scc_Coinbase s), VUint (scc_Number s),
    VList (map (\<lambda>w. VString (str_bytes w)) (scc_LoopInfo s))]"

definition of_SCConfirmation :: "gval \<Rightarrow> SCConfirmation" where
  "of_SCConfirmation g = \<lparr>scc_Hash = of_Hash (struct_field g 0), scc_Coinbase = of_Address (struct_field g 1),
    scc_Number = of_u64 (struct_field g 2), scc_LoopInfo = of_list of_string_val (struct_field g 3)\<rparr>"

definition t_SCSetCoinbase :: gtype where
  "t_SCSetCoinbase = TStruct [t_Hash, t_Address, t_Address]"

definition to_SCSetCoinbase :: "SCSetCoinbase \<Rightarrow> gval" where
  "to_SCSetCoinbase s = VStruct [to_Hash (scs_Hash s), to_Address (scs_Signer s), to_Address (scs_Coinbase s)]"

definition of_SCSetCoinbase :: "gval \<Rightarrow> SCSetCoinbase" where
  "of_SCSetCoinbase g = \<lparr>scs_Hash = of_Hash (struct_field g 0), scs_Signer = of_Address (struct_field g 1),
    scs_Coinbase = of_Address (struct_field g 2)\<rparr>"

definition t_HeaderExtraBeforeTrantor :: gtype where
  "t_HeaderExtraBeforeTrantor = TStruct [TSlice t_Confirmation, TSlice t_Vote, TSlice t_Proposal,
    TSlice t_Declare, TSlice t_Vote, t_u64, TSlice t_Address, TSlice t_Address, t_u64]"

definition to_HeaderExtraBeforeTrantor :: "HeaderExtraBeforeTrantor \<Rightarrow> gval" where
  "to_HeaderExtraBeforeTrantor b = VStruct [VList (map to_Confirmation (hb_CurrentBlockConfirmations b)),
    VList (map to_Vote (hb_CurrentBlockVotes b)), VList (map to_Proposal (hb_CurrentBlockProposals b)),
    VList (map to_Declare (hb_CurrentBlockDeclares b)), VList (map to_Vote (hb_ModifyPredecessorVotes b)),
    VUint (hb_LoopStartTime b), VList (map to_Address (hb_SignerQueue b)),
    VList (map to_Address (hb_SignerMissing b)), VUint (hb_ConfirmedBlockNumber b)]"

definition of_HeaderExtraBeforeTrantor :: "gval \<Rightarrow> HeaderExtraBeforeTrantor" where
  "of_HeaderExtraBeforeTrantor g = \<lparr>
    hb_CurrentBlockConfirmations = of_list of_Confirmation (struct_field g 0),
    hb_CurrentBlockVotes = of_list of_Vote (struct_field g 1),
    hb_CurrentBlockProposals = of_list of_Proposal (struct_field g 2),
    hb_CurrentBlockDeclares = of_list of_Declare (struct_field g 3),
    hb_ModifyPredecessorVotes = of_list of_Vote (struct_field g 4),
    hb_LoopStartTime = of_u64 (struct_field g 5),
    hb_SignerQueue = of_list of_Address (struct_field g 6),
    hb_SignerMissing = of_list of_Address (struct_field g 7),
    hb_ConfirmedBlockNumber = of_u64 (struct_field g 8)\<rparr>"

definition t_HeaderExtra :: gtype where
  "t_HeaderExtra = TStruct [TSlice t_Confirmation, TSlice t_Vote, TSlice t_Proposal,
    TSlice t_Declare, TSlice t_Vote, t_u64, TSlice t_Address, TSlice t_Address, t_u64,
    TSlice t_SCConfirmation, TSlice t_SCSetCoinbase]"

definition to_HeaderExtra :: "HeaderExtra \<Rightarrow> gval" where
  "to_HeaderExtra b = VStruct [VList (map to_Confirmation (he_CurrentBlockConfirmations b)),
    VList (map to_Vote (he_CurrentBlockVotes b)), VList (map to_Proposal (he_CurrentBlockProposals b)),
    VList (map to_Declare (he_CurrentBlockDeclares b)), VList (map to_Vote (he_ModifyPredecessorVotes b)),
    VUint (he_LoopStartTime b), VList (map to_Address (he_SignerQueue b)),
    VList (map to_Address (he_SignerMissing b)), VUint (he_ConfirmedBlockNumber b),
    VList (map to_SCConfirmation (he_SideChainConfirmations b)),
    VList (map to_SCSetCoinbase (he_SideChainSetCoinbases b))]"

definition of_HeaderExtra :: "gval \<Rightarrow> HeaderExtra" where
  "of_HeaderExtra g = \<lparr>
    he_CurrentBlockConfirmations = of_list of_Confirmation (struct_field g 0),
    he_CurrentBlockVotes = of_list of_Vote (struct_field g 1),
    he_CurrentBlockProposals = of_list of_Proposal (struct_field g 2),
    he_CurrentBlockDeclares = of_list of_Declare (struct_field g 3),
    he_ModifyPredecessorVotes = of_list of_Vote (struct_field g 4),
    he_LoopStartTime = of_u64 (struct_field g 5),
    he_SignerQueue = of_list of_Address (struct_field g 6),
    he_SignerMissing = of_list of_Address (struct_field g 7),
    he_ConfirmedBlockNumber = of_u64 (struct_field g 8),
    he_SideChainConfirmations = of_list of_SCConfirmation (struct_field g 9),
    he_SideChainSetCoinbases = of_list of_SCSetCoinbase (struct_field g 10)\<rparr>"

section \<open>The header-extra codec\<close>

definition encodeHeaderExtra :: "AlienConfig \<Rightarrow> int \<Rightarrow> HeaderExtra \<Rightarrow> alien_err + bytes" where
  "encodeHeaderExtra config number val =
    (case (if IsTrantor config number
           then EncodeToBytes t_HeaderExtra (to_HeaderExtra val)
           else EncodeToBytes t_HeaderExtraBeforeTrantor (to_HeaderExtraBeforeTrantor (copyToBeforeTrantor val))) of
       Inl e \<Rightarrow> Inl (ErrRlp e)
     | Inr b \<Rightarrow> Inr b)"

text \<open>
  \<open>decodeHeaderExtra\<close> fills \<open>*val\<close>.  Every caller passes a zero value and drops it on an
  error, so the model returns the error alone in that case.
\<close>

definition decodeHeaderExtra :: "AlienConfig \<Rightarrow> int \<Rightarrow> bytes \<Rightarrow> HeaderExtra \<Rightarrow> alien_err + HeaderExtra" where
  "decodeHeaderExtra config number b val =
    (if IsTrantor config number
     then (case DecodeBytes t_HeaderExtra b of
             Inl e \<Rightarrow> Inl (ErrRlp e)
           | Inr g \<Rightarrow> Inr (of_HeaderExtra g))
     else (case DecodeBytes t_HeaderExtraBeforeTrantor b of
             Inl e \<Rightarrow> Inl (ErrRlp e)
           | Inr g \<Rightarrow> Inr (copyFromBeforeTrantor val (of_HeaderExtraBeforeTrantor g))))"

section \<open>Round trip of the header extra\<close>

named_theorems rlp_view \<open>reading back the RLP view of a record, and that the decoder accepts it\<close>

lemma of_scalars [rlp_view]:
  "of_Address (to_Address a) = a" "of_Hash (to_Hash h) = h" "of_u64 (VUint i) = i"
  "of_big (VBig (Some n)) = n" "of_bool_val (VBool b) = b" "of_string_val (VString (str_bytes w)) = w"
  "of_ptr f (VPtr (Some x)) = f x" "of_list f (VList vs) = map f vs"
  by (simp_all add: of_Address_def to_Address_def of_Hash_def to_Hash_def of_u64_def of_big_def
      of_bool_val_def of_string_val_def of_ptr_def of_list_def)

lemma struct_field_VStruct [rlp_view]: "i < length vs \<Longrightarrow> struct_field (VStruct vs) i = vs ! i"
  by (simp add: struct_field_def)

lemma decodable_scalars [rlp_view]:
  "decodable t_Address (to_Address a)" "decodable t_Hash (to_Hash h)" "decodable t_u64 (VUint i)"
proof -
  have "Address_Bytes a \<noteq> [0]" "Hash_Bytes h \<noteq> [0]"
    by (metis length_Address_Bytes length_Cons list.size(3) n_not_Suc_n numeral_eq_one_iff One_nat_def semiring_norm(85),
        metis length_Hash_Bytes length_Cons list.size(3) One_nat_def numeral_eq_one_iff semiring_norm(85))
  then show "decodable t_Address (to_Address a)" "decodable t_Hash (to_Hash h)" "decodable t_u64 (VUint i)"
    using unat_less_64 [of i] by (simp_all add: to_Address_def to_Hash_def)
qed

lemma of_Vote [rlp_view]: "of_Vote (to_Vote v) = v"
  by (simp add: of_Vote_def to_Vote_def rlp_view)

lemma of_Confirmation [rlp_view]: "of_Confirmation (to_Confirmation v) = v"
  by (simp add: of_Confirmation_def to_Confirmation_def rlp_view)

lemma of_Declare [rlp_view]: "of_Declare (to_Declare v) = v"
  by (simp add: of_Declare_def to_Declare_def rlp_view)

lemma of_Proposal [rlp_view]: "of_Proposal (to_Proposal v) = v"
  by (simp add: of_Proposal_def to_Proposal_def rlp_view comp_def)

lemma of_SCConfirmation [rlp_view]: "of_SCConfirmation (to_SCConfirmation v) = v"
  by (simp add: of_SCConfirmation_def to_SCConfirmation_def rlp_view comp_def)

lemma of_SCSetCoinbase [rlp_view]: "of_SCSetCoinbase (to_SCSetCoinbase v) = v"
  by (simp add: of_SCSetCoinbase_def to_SCSetCoinbase_def rlp_view)

lemma of_HeaderExtra [rlp_view]: "of_HeaderExtra (to_HeaderExtra v) = v"
  by (simp add: of_HeaderExtra_def to_HeaderExtra_def rlp_view comp_def)

lemma of_HeaderExtraBeforeTrantor [rlp_view]: "of_HeaderExtraBeforeTrantor (to_HeaderExtraBeforeTrantor v) = v"
  by (simp add: of_HeaderExtraBeforeTrantor_def to_HeaderExtraBeforeTrantor_def rlp_view comp_def)

text \<open>The codec takes no negative big integer; everything else a block may carry is accepted.\<close>

definition extra_ok :: "HeaderExtra \<Rightarrow> bool" where
  "extra_ok val \<longleftrightarrow>
    list_all (\<lambda>v. 0 \<le> v_Stake v) (he_CurrentBlockVotes val) \<and>
    list_all (\<lambda>v. 0 \<le> v_Stake v) (he_ModifyPredecessorVotes val) \<and>
    list_all (\<lambda>c. 0 \<le> c_BlockNumber c) (he_CurrentBlockConfirmations val) \<and>
    list_all (\<lambda>p. 0 \<le> p_ReceivedNumber p) (he_CurrentBlockProposals val)"

lemma decodable_Vote [rlp_view]: "decodable t_Vote (to_Vote v) \<longleftrightarrow> 0 \<le> v_Stake v"
  by (simp add: t_Vote_def to_Vote_def rlp_view del: decodable.simps(3,7))

lemma decodable_Confirmation [rlp_view]: "decodable t_Confirmation (to_Confirmation v) \<longleftrightarrow> 0 \<le> c_BlockNumber v"
  by (simp add: t_Confirmation_def to_Confirmation_def rlp_view del: decodable.simps(3,7))

lemma decodable_Declare [rlp_view]: "decodable t_Declare (to_Declare v)"
  by (simp add: t_Declare_def to_Declare_def rlp_view del: decodable.simps(3,7))

lemma decodable_Proposal [rlp_view]: "decodable t_Proposal (to_Proposal v) \<longleftrightarrow> 0 \<le> p_ReceivedNumber v"
  by (simp add: t_Proposal_def to_Proposal_def rlp_view list_all_iff del: decodable.simps(3,7))

lemma decodable_SCConfirmation [rlp_view]: "decodable t_SCConfirmation (to_SCConfirmation v)"
  by (simp add: t_SCConfirmation_def to_SCConfirmation_def rlp_view list_all_iff del: decodable.simps(3,7))

lemma decodable_SCSetCoinbase [rlp_view]: "decodable t_SCSetCoinbase (to_SCSetCoinbase v)"
  by (simp add: t_SCSetCoinbase_def to_SCSetCoinbase_def rlp_view del: decodable.simps(3,7))

lemma decodable_HeaderExtra: "extra_ok val \<Longrightarrow> decodable t_HeaderExtra (to_HeaderExtra val)"
  by (simp add: extra_ok_def t_HeaderExtra_def to_HeaderExtra_def rlp_view list_all_iff
      del: decodable.simps(3,7))

lemma decodable_HeaderExtraBeforeTrantor:
  "extra_ok val \<Longrightarrow>
   decodable t_HeaderExtraBeforeTrantor (to_HeaderExtraBeforeTrantor (copyToBeforeTrantor val))"
  by (simp add: extra_ok_def t_HeaderExtraBeforeTrantor_def to_HeaderExtraBeforeTrantor_def
      copyToBeforeTrantor_def rlp_view list_all_iff del: decodable.simps(3,7))

text \<open>The bytes the codec must produce, and the record a reader gets: before the fork the two side-chain lists are dropped.\<close>

definition extra_bytes :: "AlienConfig \<Rightarrow> int \<Rightarrow> HeaderExtra \<Rightarrow> bytes" where
  "extra_bytes config number val =
    (if IsTrantor config number then rlp_enc t_HeaderExtra (to_HeaderExtra val)
     else rlp_enc t_HeaderExtraBeforeTrantor (to_HeaderExtraBeforeTrantor (copyToBeforeTrantor val)))"

definition extra_visible :: "AlienConfig \<Rightarrow> int \<Rightarrow> HeaderExtra \<Rightarrow> HeaderExtra" where
  "extra_visible config number val =
    (if IsTrantor config number then val
     else val\<lparr>he_SideChainConfirmations := [], he_SideChainSetCoinbases := []\<rparr>)"

lemma encodeHeaderExtra_bytes:
  assumes "extra_ok val" "length (extra_bytes config number val) < 2 ^ 63"
  shows "encodeHeaderExtra config number val = Inr (extra_bytes config number val)"
  using assms
    EncodeToBytes_correct [OF decodable_encodable [OF decodable_HeaderExtra [OF assms(1)]]]
    EncodeToBytes_correct [OF decodable_encodable [OF decodable_HeaderExtraBeforeTrantor [OF assms(1)]]]
  by (auto simp: encodeHeaderExtra_def extra_bytes_def EncodeToBytes_def)

lemma decodeHeaderExtra_bytes:
  assumes "extra_ok val" "length (extra_bytes config number val) < 2 ^ 63"
  shows "decodeHeaderExtra config number (extra_bytes config number val) new_HeaderExtra =
    Inr (extra_visible config number val)"
  using assms
    DecodeBytes_rlp_enc [OF decodable_HeaderExtra [OF assms(1)]]
    DecodeBytes_rlp_enc [OF decodable_HeaderExtraBeforeTrantor [OF assms(1)]]
  by (auto simp: decodeHeaderExtra_def extra_bytes_def extra_visible_def rlp_view
      copyFromBeforeTrantor_def copyToBeforeTrantor_def new_HeaderExtra_def)

lemma extra_payload_split:
  "length v = extraVanity \<Longrightarrow> length sg = extraSeal \<Longrightarrow> h_Extra h = v @ b @ sg \<Longrightarrow> extra_payload h = Inr b"
  by (simp add: extra_payload_def Let_def)

end
