(* ===== verification/Alien_Snapshot.thy ===== *)
theory Alien_Snapshot
  imports Alien_Types
begin

text \<open>
  The voting snapshot of \<open>src/gttc/consensus/alien/snapshot.go\<close>: its state, its
  construction and copying, the votes and the tally, the expiry of votes, the punishment
  of absent signers, the confirmations of blocks, and the questions the engine asks of it.

  Stakes are \<open>*big.Int\<close> cells that the code updates in place and may share, so the state
  carries them explicitly: \<open>s_ints\<close> holds the cells, and \<open>Tally\<close> and the \<open>Stake\<close> of a vote
  are indices into it.  \<open>s_props\<close> does the same for the \<open>*Proposal\<close> values.  Every other
  pointer in the snapshot is never written through and is represented by its target.  A nil
  dereference, an index out of range or a division by zero is a \<open>Panic\<close> value.
\<close>

section \<open>State\<close>

record SVote =
  sv_Voter :: address
  sv_Candidate :: address
  sv_Stake :: nat

record SCRecord =
  scr_Record :: "(u64, SCConfirmation list) gomap"
  scr_LastConfirmedNumber :: u64
  scr_MaxHeaderNumber :: u64
  scr_CountPerPeriod :: u64
  scr_RewardPerPeriod :: u64

type_synonym SCReward = "(u64, (address, u64) gomap) gomap"

record Snapshot =
  s_config :: AlienConfig
  s_LCRS :: u64
  s_Period :: u64
  s_Number :: u64
  s_ConfirmedNumber :: u64
  s_Hash :: hash
  s_HistoryHash :: "hash list"
  s_Signers :: "address list"
  s_Votes :: "(address, SVote) gomap"
  s_Tally :: "(address, nat) gomap"
  s_Voters :: "(address, int) gomap"
  s_Candidates :: "(address, u64) gomap"
  s_Punished :: "(address, u64) gomap"
  s_Confirmations :: "(u64, address list) gomap"
  s_Proposals :: "(hash, nat) gomap"
  s_HeaderTime :: u64
  s_LoopStartTime :: u64
  s_SCCoinbase :: "(address, (hash, address) gomap) gomap"
  s_SCConfirmation :: "(hash, SCRecord) gomap"
  s_SCAllReward :: "(hash, SCReward) gomap"
  s_ints :: "int list"
  s_props :: "Proposal list"

definition defaultFullCredit :: u64 where "defaultFullCredit = 1000"
definition missingPublishCredit :: u64 where "missingPublishCredit = 100"
definition signRewardCredit :: u64 where "signRewardCredit = 10"
definition autoRewardCredit :: u64 where "autoRewardCredit = 1"
definition minCalSignerQueueCredit :: u64 where "minCalSignerQueueCredit = 300"
definition candidateStateNormal :: u64 where "candidateStateNormal = 1"
definition candidateMaxLen :: nat where "candidateMaxLen = 500"

section \<open>Cells\<close>

definition deref :: "Snapshot \<Rightarrow> nat \<Rightarrow> int" where
  "deref s r = s_ints s ! r"

definition set_int :: "nat \<Rightarrow> int \<Rightarrow> Snapshot \<Rightarrow> Snapshot" where
  "set_int r v s = s\<lparr>s_ints := (s_ints s)[r := v]\<rparr>"

definition new_int :: "int \<Rightarrow> Snapshot \<Rightarrow> nat \<times> Snapshot" where
  "new_int v s = (length (s_ints s), s\<lparr>s_ints := s_ints s @ [v]\<rparr>)"

text \<open>
  \<open>s.Tally[c].Add(s.Tally[c], x)\<close> and \<open>Sub\<close>: an update in place of the cell that the map
  holds for \<open>c\<close>; a missing entry is a nil pointer.
\<close>

definition tally_add :: "address \<Rightarrow> int \<Rightarrow> Snapshot \<Rightarrow> alien_err + Snapshot" where
  "tally_add c x s =
    (case mget (s_Tally s) c of
       None \<Rightarrow> Inl PanicNil
     | Some r \<Rightarrow> Inr (set_int r (deref s r + x) s))"

definition tally_sub :: "address \<Rightarrow> int \<Rightarrow> Snapshot \<Rightarrow> alien_err + Snapshot" where
  "tally_sub c x s =
    (case mget (s_Tally s) c of
       None \<Rightarrow> Inl PanicNil
     | Some r \<Rightarrow> Inr (set_int r (deref s r - x) s))"

section \<open>Construction and copying\<close>

definition newSnapshot_vote :: "Snapshot \<Rightarrow> Vote \<Rightarrow> Snapshot" where
  "newSnapshot_vote s vote =
    (let (r, s) = new_int (v_Stake vote) s;
         s = s\<lparr>s_Votes := mput (v_Voter vote)
               \<lparr>sv_Voter = v_Voter vote, sv_Candidate = v_Candidate vote, sv_Stake = r\<rparr> (s_Votes s)\<rparr>;
         s = (if mhas (s_Tally s) (v_Candidate vote) then s
              else (let (t, s) = new_int 0 s in s\<lparr>s_Tally := mput (v_Candidate vote) t (s_Tally s)\<rparr>));
         s = (case mget (s_Tally s) (v_Candidate vote) of
                Some t \<Rightarrow> set_int t (deref s t + v_Stake vote) s | None \<Rightarrow> s);
         s = s\<lparr>s_Voters := mput (v_Voter vote) 0 (s_Voters s)\<rparr>
     in s\<lparr>s_Candidates := mput (v_Voter vote) candidateStateNormal (s_Candidates s)\<rparr>)"

text \<open>\<open>newSnapshot\<close>; \<open>now\<close> is the clock reading \<open>uint64(time.Now().Unix())\<close>.\<close>

definition newSnapshot :: "u64 \<Rightarrow> AlienConfig \<Rightarrow> hash \<Rightarrow> Vote list \<Rightarrow> u64 \<Rightarrow> alien_err + Snapshot" where
  "newSnapshot now config hash votes lcrs =
    (let s = \<lparr>s_config = config, s_LCRS = lcrs, s_Period = cfg_Period config, s_Number = 0,
           s_ConfirmedNumber = 0, s_Hash = hash, s_HistoryHash = [hash], s_Signers = [],
           s_Votes = [], s_Tally = [], s_Voters = [], s_Candidates = [], s_Punished = [],
           s_Confirmations = [], s_Proposals = [], s_HeaderTime = now - 1,
           s_LoopStartTime = cfg_GenesisTimestamp config, s_SCCoinbase = [], s_SCConfirmation = [],
           s_SCAllReward = [], s_ints = [], s_props = []\<rparr>;
         s = foldl newSnapshot_vote s votes;
         n = nat (sint (cfg_MaxSignerCount config));
         self = cfg_SelfVoteSigners config
     in if 0 < n \<and> self = [] then Inl PanicDivide
        else Inr (s\<lparr>s_Signers := map (\<lambda>i. self ! (i mod length self)) [0..<n]\<rparr>))"

definition Proposal_copy :: "Proposal \<Rightarrow> Proposal" where
  "Proposal_copy p = \<lparr>p_Hash = p_Hash p, p_ValidationLoopCnt = p_ValidationLoopCnt p,
    p_ProposalType = p_ProposalType p, p_Proposer = p_Proposer p, p_Candidate = p_Candidate p,
    p_MinerRewardPerThousand = p_MinerRewardPerThousand p, p_SCHash = p_SCHash p,
    p_SCBlockCountPerPeriod = p_SCBlockCountPerPeriod p,
    p_SCBlockRewardPerPeriod = p_SCBlockRewardPerPeriod p, p_Declares = p_Declares p,
    p_ReceivedNumber = p_ReceivedNumber p\<rparr>"

text \<open>
  \<open>copy\<close> gives every vote and every tally entry a cell of its own and every proposal an
  object of its own; the maps of values are rebuilt entry by entry.
\<close>

definition Snapshot_copy :: "Snapshot \<Rightarrow> Snapshot" where
  "Snapshot_copy s = s\<lparr>
    s_Votes := map (\<lambda>(i, k, v). (k, \<lparr>sv_Voter = sv_Voter v, sv_Candidate = sv_Candidate v, sv_Stake = i\<rparr>))
                 (enumerate 0 (s_Votes s)),
    s_Tally := map (\<lambda>(i, k, r). (k, i)) (enumerate (length (s_Votes s)) (s_Tally s)),
    s_Proposals := map (\<lambda>(i, k, r). (k, i)) (enumerate 0 (s_Proposals s)),
    s_ints := map (\<lambda>(k, v). deref s (sv_Stake v)) (s_Votes s) @ map (\<lambda>(k, r). deref s r) (s_Tally s),
    s_props := map (\<lambda>(k, r). Proposal_copy (s_props s ! r)) (s_Proposals s)\<rparr>"

section \<open>Votes\<close>

text \<open>
  One round of \<open>updateSnapshotByVotes\<close>.  The decoded stake is one cell, \<open>r\<close>; the branch for
  a candidate without a tally stores that very cell in the tally and then in the vote.
\<close>

definition updateSnapshotByVote :: "bool \<Rightarrow> int \<Rightarrow> Snapshot \<Rightarrow> Vote \<Rightarrow> alien_err + Snapshot" where
  "updateSnapshotByVote candidateNeedPD headerNumber s vote =
    (let (r, s) = new_int (v_Stake vote) s in
     bindR
       (case mget (s_Votes s) (v_Voter vote) of
          Some lastVote \<Rightarrow> tally_sub (sv_Candidate lastVote) (deref s (sv_Stake lastVote)) s
        | None \<Rightarrow> Inr s)
       (\<lambda>s. bindR
         (if mhas (s_Tally s) (v_Candidate vote) then tally_add (v_Candidate vote) (deref s r) s
          else
            (let s = s\<lparr>s_Tally := mput (v_Candidate vote) r (s_Tally s)\<rparr> in
             Inr (if candidateNeedPD then s
                  else s\<lparr>s_Candidates := mput (v_Candidate vote) candidateStateNormal (s_Candidates s)\<rparr>)))
         (\<lambda>s. Inr (s\<lparr>
            s_Votes := mput (v_Voter vote)
              \<lparr>sv_Voter = v_Voter vote, sv_Candidate = v_Candidate vote, sv_Stake = r\<rparr> (s_Votes s),
            s_Voters := mput (v_Voter vote) headerNumber (s_Voters s)\<rparr>))))"

definition updateSnapshotByVotes :: "bool \<Rightarrow> Vote list \<Rightarrow> int \<Rightarrow> Snapshot \<Rightarrow> alien_err + Snapshot" where
  "updateSnapshotByVotes candidateNeedPD votes headerNumber s =
    foldR (updateSnapshotByVote candidateNeedPD headerNumber) s votes"

definition updateSnapshotByMPVote :: "Snapshot \<Rightarrow> Vote \<Rightarrow> alien_err + Snapshot" where
  "updateSnapshotByMPVote s txVote =
    (let (r, s) = new_int (v_Stake txVote) s in
     case mget (s_Votes s) (v_Voter txVote) of
       None \<Rightarrow> Inr s
     | Some lastVote \<Rightarrow>
         bindR (tally_sub (sv_Candidate lastVote) (deref s (sv_Stake lastVote)) s) (\<lambda>s.
         bindR (tally_add (sv_Candidate lastVote) (deref s r) s) (\<lambda>s.
         Inr (s\<lparr>s_Votes := mput (v_Voter txVote)
           \<lparr>sv_Voter = v_Voter txVote, sv_Candidate = sv_Candidate lastVote, sv_Stake = r\<rparr> (s_Votes s)\<rparr>))))"

definition updateSnapshotByMPVotes :: "Vote list \<Rightarrow> Snapshot \<Rightarrow> alien_err + Snapshot" where
  "updateSnapshotByMPVotes votes s = foldR updateSnapshotByMPVote s votes"

section \<open>The tally check\<close>

text \<open>\<open>verifyTallyCnt\<close>: recount the votes into a fresh map and compare every tally entry.\<close>

definition tallyTarget_step :: "Snapshot \<Rightarrow> (address, int) gomap \<Rightarrow> address \<times> SVote \<Rightarrow> (address, int) gomap" where
  "tallyTarget_step s target kv =
    (let v = snd kv; stake = deref s (sv_Stake v) in
     case mget target (sv_Candidate v) of
       Some t \<Rightarrow> mput (sv_Candidate v) (t + stake) target
     | None \<Rightarrow> mput (sv_Candidate v) stake target)"

definition verifyTallyCnt :: "Snapshot \<Rightarrow> alien_err + unit" where
  "verifyTallyCnt s =
    (let tallyTarget = foldl (tallyTarget_step s) [] (s_Votes s) in
     if list_all (\<lambda>(address, r). mget tallyTarget address = Some (deref s r)) (s_Tally s)
     then Inr () else Inl errIncorrectTallyCount)"

section \<open>Expiry\<close>

definition expired_of :: "Snapshot \<Rightarrow> address \<times> int \<Rightarrow> SVote list" where
  "expired_of s vn =
    (if cfg_Epoch (s_config s) < s_Number s - Uint64 (snd vn)
     then (case mget (s_Votes s) (fst vn) of Some v \<Rightarrow> [v] | None \<Rightarrow> []) else [])"

definition expiredVotes :: "Snapshot \<Rightarrow> SVote list" where
  "expiredVotes s = concat (map (expired_of s) (s_Voters s))"

definition removeExpiredVote :: "Snapshot \<Rightarrow> SVote \<Rightarrow> alien_err + Snapshot" where
  "removeExpiredVote s expiredVote =
    bindR (tally_sub (sv_Candidate expiredVote) (deref s (sv_Stake expiredVote)) s) (\<lambda>s.
      (case mget (s_Tally s) (sv_Candidate expiredVote) of
         None \<Rightarrow> Inl PanicNil
       | Some r \<Rightarrow>
           (let s = (if deref s r = 0 then s\<lparr>s_Tally := mdel (sv_Candidate expiredVote) (s_Tally s)\<rparr> else s)
            in Inr (s\<lparr>s_Votes := mdel (sv_Voter expiredVote) (s_Votes s),
                      s_Voters := mdel (sv_Voter expiredVote) (s_Voters s)\<rparr>))))"

definition removeZeroTally :: "Snapshot \<Rightarrow> address \<times> nat \<Rightarrow> Snapshot" where
  "removeZeroTally s kv =
    (if deref s (snd kv) \<le> 0
     then s\<lparr>s_SCCoinbase := (if mhas (s_SCCoinbase s) (fst kv) then mdel (fst kv) (s_SCCoinbase s) else s_SCCoinbase s),
            s_Tally := mdel (fst kv) (s_Tally s)\<rparr>
     else s)"

definition updateSnapshotForExpired :: "Snapshot \<Rightarrow> alien_err + Snapshot" where
  "updateSnapshotForExpired s =
    (let ex = expiredVotes s in
     bindR
       (if cfg_MaxSignerCount (s_config s) \<le> of_int (int (length (s_Voters s)) - int (length ex))
        then foldR removeExpiredVote s ex else Inr s)
       (\<lambda>s. let s = foldl (\<lambda>s blockNumber.
                 if cfg_MaxSignerCount (s_config s) < s_Number s - blockNumber
                 then s\<lparr>s_Confirmations := mdel blockNumber (s_Confirmations s)\<rparr> else s)
                 s (mkeys (s_Confirmations s))
            in Inr (foldl removeZeroTally s (s_Tally s))))"

section \<open>Confirmations and punishment\<close>

definition addConfirmation :: "(u64, address list) gomap \<Rightarrow> Confirmation \<Rightarrow> (u64, address list) gomap" where
  "addConfirmation m c =
    (let n = Uint64 (c_BlockNumber c);
         m = (if mhas m n then m else mput n [] m);
         confirmers = (case mget m n of Some l \<Rightarrow> l | None \<Rightarrow> [])
     in if c_Signer c \<in> set confirmers then m else mput n (confirmers @ [c_Signer c]) m)"

definition updateSnapshotByConfirmations :: "Confirmation list \<Rightarrow> Snapshot \<Rightarrow> Snapshot" where
  "updateSnapshotByConfirmations confirmations s =
    s\<lparr>s_Confirmations := foldl addConfirmation (s_Confirmations s) confirmations\<rparr>"

definition punishMissing :: "(address, u64) gomap \<Rightarrow> address \<Rightarrow> (address, u64) gomap" where
  "punishMissing m a =
    (case mget m a of
       Some c \<Rightarrow> mput a (c + missingPublishCredit) m
     | None \<Rightarrow> mput a missingPublishCredit m)"

definition reducePunish :: "u64 \<Rightarrow> (address, u64) gomap \<Rightarrow> address \<Rightarrow> (address, u64) gomap" where
  "reducePunish credit m a =
    (case mget m a of
       None \<Rightarrow> m
     | Some c \<Rightarrow> if credit < c then mput a (c - credit) m else mdel a m)"

definition updateSnapshotForPunish :: "address list \<Rightarrow> int \<Rightarrow> address \<Rightarrow> Snapshot \<Rightarrow> Snapshot" where
  "updateSnapshotForPunish signerMissing headerNumber coinbase s =
    (let m = foldl punishMissing (s_Punished s) signerMissing;
         m = reducePunish signRewardCredit m coinbase
     in s\<lparr>s_Punished := foldl (reducePunish autoRewardCredit) m (mkeys m)\<rparr>)"

section \<open>Questions\<close>

text \<open>
  \<open>inturn\<close>: a 64-bit unsigned quotient converted to \<open>int\<close> and reduced modulo the number of
  signers; Go's \<open>%\<close> takes the sign of the dividend, and a negative index panics.
\<close>

definition inturn :: "Snapshot \<Rightarrow> address \<Rightarrow> u64 \<Rightarrow> alien_err + bool" where
  "inturn s signer headerTime =
    (if cfg_Period (s_config s) = 0 \<or> s_Signers s = [] then Inl PanicDivide
     else
       (let q = sint ((headerTime - s_LoopStartTime s) div cfg_Period (s_config s));
            n = int (length (s_Signers s));
            loopIndex = (if 0 \<le> q then q mod n else - ((- q) mod n))
        in if n \<le> loopIndex then Inr False
           else if loopIndex < 0 then Inl PanicIndex
           else Inr (s_Signers s ! nat loopIndex = signer)))"

definition isVoter :: "Snapshot \<Rightarrow> address \<Rightarrow> bool" where
  "isVoter s a = mhas (s_Voters s) a"

definition isCandidate :: "Snapshot \<Rightarrow> address \<Rightarrow> bool" where
  "isCandidate s a = mhas (s_Candidates s) a"

text \<open>
  \<open>getLastConfirmedBlockNumber\<close>: the downward loop over 64-bit block numbers, at most
  \<open>MaxSignerCount*2/3\<close> rounds; the bound \<open>Number - MaxSignerCount*2/3 + 1\<close> may wrap.
\<close>

function lastConfirmed_loop :: "(u64, address list) gomap \<Rightarrow> u64 \<Rightarrow> u64 \<Rightarrow> u64 \<Rightarrow> u64" where
  "lastConfirmed_loop m need low i =
    (if low < i then
       (case mget m i of
          Some confirmers \<Rightarrow>
            if sint need < int (length confirmers) then i else lastConfirmed_loop m need low (i - 1)
        | None \<Rightarrow> lastConfirmed_loop m need low (i - 1))
     else i)"
  by pat_completeness auto
termination
proof (relation "measure (\<lambda>(m, need, low, i). unat i)")
  show "wf (measure (\<lambda>(m :: (u64, address list) gomap, need :: u64, low :: u64, i :: u64). unat i))" by simp
qed (auto simp: word_less_nat_alt unat_gt_0 intro!: measure_unat)

declare lastConfirmed_loop.simps [simp del]

definition getLastConfirmedBlockNumber :: "Snapshot \<Rightarrow> Confirmation list \<Rightarrow> int" where
  "getLastConfirmedBlockNumber s confirmations =
    (let m = foldl addConfirmation (s_Confirmations s) confirmations;
         need = cfg_MaxSignerCount (s_config s) * 2 div 3
     in sint (lastConfirmed_loop m need (s_Number s - need + 1) (s_Number s)))"

text \<open>
  \<open>calculateVoteReward\<close>: the voters of \<open>coinbase\<close> share \<open>votersReward\<close> in proportion to
  their stake.  \<open>big.Int.Div\<close> is Euclidean division and panics on a zero divisor.
\<close>

definition go_div :: "int \<Rightarrow> int \<Rightarrow> int" where
  "go_div a b = (if 0 < b then a div b else - (a div - b))"

definition calculateVoteReward :: "Snapshot \<Rightarrow> address \<Rightarrow> int \<Rightarrow> alien_err + (address, int) gomap" where
  "calculateVoteReward s coinbase votersReward =
    (let mine = filter (\<lambda>(voter, vote). sv_Candidate vote = coinbase) (s_Votes s);
         rewards = map (\<lambda>(voter, vote). (voter, deref s (sv_Stake vote))) mine;
         allStake = (\<Sum>(voter, stake) \<leftarrow> rewards. stake)
     in if rewards \<noteq> [] \<and> allStake = 0 then Inl PanicDivide
        else Inr (map (\<lambda>(voter, stake). (voter, go_div (stake * votersReward) allStake)) rewards))"

end
