(* ===== verification/Alien_Ledger.thy ===== *)
theory Alien_Ledger
  imports Alien_Snapshot
begin

text \<open>
  The votes and the tally of a snapshot as a ledger: the invariant that the tally of every
  candidate is the sum of its votes, how each operation of the snapshot keeps or breaks it,
  what the check \<open>verifyTallyCnt\<close> decides, and what \<open>copy\<close> preserves.
\<close>

section \<open>The ledger invariant\<close>

text \<open>
  \<open>votesum s c\<close> is what the votes give to candidate \<open>c\<close>; the tally should hold exactly that.
  \<open>refs_ok\<close> says that the maps have distinct keys and point into the cells, \<open>unshared\<close> that
  no tally cell is used twice or by a vote, \<open>tally_exact\<close> that every tally entry is the sum
  of its votes, and \<open>backed\<close> that every vote's candidate has a tally entry, so that the
  updates in place find a cell.
\<close>

definition votesum :: "Snapshot \<Rightarrow> address \<Rightarrow> int" where
  "votesum s c = msum (\<lambda>k v. if sv_Candidate v = c then deref s (sv_Stake v) else 0) (s_Votes s)"

definition refs_ok :: "Snapshot \<Rightarrow> bool" where
  "refs_ok s \<longleftrightarrow>
    distinct (mkeys (s_Votes s)) \<and> distinct (mkeys (s_Tally s)) \<and> distinct (mkeys (s_Voters s)) \<and>
    (\<forall>v \<in> snd ` set (s_Votes s). sv_Stake v < length (s_ints s)) \<and>
    (\<forall>r \<in> snd ` set (s_Tally s). r < length (s_ints s))"

definition unshared :: "Snapshot \<Rightarrow> bool" where
  "unshared s \<longleftrightarrow>
    distinct (map snd (s_Tally s)) \<and> sv_Stake ` snd ` set (s_Votes s) \<inter> snd ` set (s_Tally s) = {}"

definition tally_exact :: "Snapshot \<Rightarrow> bool" where
  "tally_exact s \<longleftrightarrow> (\<forall>(c, r) \<in> set (s_Tally s). deref s r = votesum s c)"

definition backed :: "Snapshot \<Rightarrow> bool" where
  "backed s \<longleftrightarrow> sv_Candidate ` snd ` set (s_Votes s) \<subseteq> fst ` set (s_Tally s)"

definition ledger :: "Snapshot \<Rightarrow> bool" where
  "ledger s \<longleftrightarrow> refs_ok s \<and> unshared s \<and> tally_exact s \<and> backed s"

lemmas ledger_defs = ledger_def refs_ok_def unshared_def tally_exact_def backed_def

text \<open>The contributions to a candidate, with the stakes read from given cells.\<close>

abbreviation contrib :: "int list \<Rightarrow> address \<Rightarrow> address \<Rightarrow> SVote \<Rightarrow> int" where
  "contrib h c k v \<equiv> (if sv_Candidate v = c then h ! sv_Stake v else 0)"

lemma votesum_contrib: "votesum s c = msum (contrib (s_ints s) c) (s_Votes s)"
  unfolding votesum_def deref_def ..

lemma set_mput: "set (AList.update k v m) \<subseteq> insert (k, v) (set m)"
  by (induction m) auto

lemma snd_mput: "x \<in> snd ` set (AList.update k v m) \<Longrightarrow> x = v \<or> x \<in> snd ` set m"
  using set_mput [of k v m] by force

lemma mem_map_of: "distinct (map fst m) \<Longrightarrow> (k, v) \<in> set m \<longleftrightarrow> map_of m k = Some v"
  by (meson map_of_SomeD map_of_is_SomeI)

lemma map_of_inj:
  assumes "distinct (map snd m)" "map_of m a = Some r" "map_of m b = Some q"
  shows "(q = r) = (b = a)"
proof -
  have "inj_on snd (set m)" using assms(1) by (simp add: distinct_map)
  moreover have "(a, r) \<in> set m" "(b, q) \<in> set m" using assms by (simp_all add: map_of_SomeD)
  ultimately have "q = r \<Longrightarrow> (b, q) = (a, r)" by (metis inj_onD snd_conv)
  with assms show ?thesis by auto
qed

lemma map_of_snd: "map_of m a = Some r \<Longrightarrow> r \<in> snd ` set m"
  by (metis imageI map_of_SomeD snd_conv)

text \<open>Writing a cell that no vote uses does not change the votes.\<close>

lemma msum_contrib_update:
  "\<forall>v \<in> snd ` set m. sv_Stake v \<noteq> r \<Longrightarrow> msum (contrib (h[r := x]) c) m = msum (contrib h c) m"
  by (rule msum_cong) (auto simp: nth_list_update_neq image_iff)

lemma msum_contrib_append:
  "\<forall>v \<in> snd ` set m. sv_Stake v < length h \<Longrightarrow> msum (contrib (h @ xs) c) m = msum (contrib h c) m"
  by (rule msum_cong) (auto simp: nth_append)

text \<open>
  The effect of one ballot on a ledger: the voter's previous stake leaves its candidate,
  the new stake \<open>x\<close> in a fresh cell goes to \<open>c\<close>.  All three vote operations are instances.
\<close>

definition recast :: "address \<Rightarrow> address \<Rightarrow> int \<Rightarrow> Snapshot \<Rightarrow> Snapshot" where
  "recast voter c x s =
    (let r = length (s_ints s);
         h = s_ints s @ [x];
         h1 = (case mget (s_Votes s) voter of
                 None \<Rightarrow> h
               | Some v \<Rightarrow> (case mget (s_Tally s) (sv_Candidate v) of
                   None \<Rightarrow> h | Some t \<Rightarrow> h[t := h ! t - h ! sv_Stake v]));
         h2 = (case mget (s_Tally s) c of None \<Rightarrow> h1 | Some t \<Rightarrow> h1[t := h1 ! t + x])
     in s\<lparr>s_ints := h2, s_Votes := mput voter \<lparr>sv_Voter = voter, sv_Candidate = c, sv_Stake = r\<rparr> (s_Votes s)\<rparr>)"

lemma ledger_recast:
  assumes L: "ledger s" and c: "c \<in> fst ` set (s_Tally s)"
  shows "ledger (recast voter c x s)"
proof -
  let ?V = "s_Votes s" and ?T = "s_Tally s"
  let ?r = "length (s_ints s)" and ?h = "s_ints s @ [x]"
  let ?V' = "mput voter \<lparr>sv_Voter = voter, sv_Candidate = c, sv_Stake = ?r\<rparr> ?V"
  define s' where "s' = recast voter c x s"
  have dV: "distinct (mkeys ?V)" and dT: "distinct (mkeys ?T)" and dr: "distinct (map snd ?T)"
    and V: "\<forall>v \<in> snd ` set ?V. sv_Stake v < ?r" and T: "\<forall>r \<in> snd ` set ?T. r < ?r"
    and I: "sv_Stake ` snd ` set ?V \<inter> snd ` set ?T = {}"
    and B: "sv_Candidate ` snd ` set ?V \<subseteq> fst ` set ?T"
    using L by (simp_all add: ledger_defs)
  have dis: "sv_Stake v \<noteq> r" if "v \<in> snd ` set ?V" "r \<in> snd ` set ?T" for v r
    using I that by (metis disjoint_iff imageI)
  have bk: "sv_Candidate v \<in> fst ` set ?T" if "v \<in> snd ` set ?V" for v
    using B that by blast
  obtain tc where tc: "mget ?T c = Some tc" using c dT by (metis map_of_eq_None_iff not_None_eq)
  have s'V: "s_Votes s' = ?V'" and s'T: "s_Tally s' = ?T" and s'o: "s_Voters s' = s_Voters s"
    and len: "length (s_ints s') = Suc ?r"
    by (auto simp: s'_def recast_def Let_def split: option.splits)
  have V': "sv_Stake v = ?r \<and> sv_Candidate v = c \<or> v \<in> snd ` set ?V" if "v \<in> snd ` set ?V'" for v
    using snd_mput [OF that] by auto
  have old: "sv_Stake v < ?r" if "v \<in> snd ` set ?V" for v using V that by blast
  define d where "d a = (case mget ?V voter of None \<Rightarrow> 0 | Some v \<Rightarrow> contrib (s_ints s) a voter v)" for a
  have cells: "s_ints s' ! r = s_ints s ! r - d a + (if a = c then x else 0)" if "mget ?T a = Some r" for a r
  proof -
    have inj: "mget ?T b = Some q \<Longrightarrow> (q = r) = (b = a)" for b q
      using map_of_inj [OF dr that] by blast
    have rl: "r < ?r" using T map_of_snd [OF that] by blast
    show ?thesis
    proof (cases "mget ?V voter")
      case None
      then show ?thesis using tc inj [OF tc] rl
        by (auto simp: s'_def recast_def Let_def d_def nth_append nth_list_update)
    next
      case (Some v)
      then have vin: "v \<in> snd ` set ?V" by (simp add: map_of_snd)
      then obtain q where q: "mget ?T (sv_Candidate v) = Some q"
        using bk [OF vin] by (metis map_of_eq_None_iff not_None_eq)
      have "tc < ?r" "q < ?r" using T map_of_snd [OF tc] map_of_snd [OF q] by blast+
      then show ?thesis using Some tc q inj [OF tc] inj [OF q] rl old [OF vin]
        by (auto simp: s'_def recast_def Let_def d_def nth_append nth_list_update)
    qed
  qed
  have untouched: "s_ints s' ! i = ?h ! i" if "i \<notin> snd ` set ?T" for i
  proof -
    have ne: "q \<noteq> i" if "mget ?T b = Some q" for b q
      using map_of_snd [OF that] \<open>i \<notin> snd ` set ?T\<close> by blast
    show ?thesis
      by (auto simp: s'_def recast_def Let_def nth_list_update_neq ne split: option.splits)
  qed
  have new: "s_ints s' ! ?r = x" using untouched [of ?r] T by (force simp: nth_append)
  have keep: "s_ints s' ! sv_Stake v = s_ints s ! sv_Stake v" if "v \<in> snd ` set ?V" for v
    using untouched [of "sv_Stake v"] dis [OF that] old [OF that] by (auto simp: nth_append)
  have "msum (contrib (s_ints s') a) ?V = msum (contrib (s_ints s) a) ?V" for a
    using keep by (intro msum_cong) (metis imageI snd_conv)
  moreover have "(case mget ?V voter of None \<Rightarrow> 0 | Some w \<Rightarrow> contrib (s_ints s') a voter w) = d a" for a
    using keep by (auto simp: d_def split: option.splits) (metis imageI map_of_SomeD snd_conv)
  ultimately have sum: "votesum s' a = votesum s a - d a + (if a = c then x else 0)" for a
    using new by (simp add: votesum_contrib s'V msum_mput [OF dV])
  have "tally_exact s'"
    unfolding tally_exact_def
  proof clarify
    fix a r
    assume "(a, r) \<in> set (s_Tally s')"
    then have r: "mget ?T a = Some r" using dT s'T by simp
    have "s_ints s ! r = votesum s a" using L r by (auto simp: ledger_defs deref_def dest!: map_of_SomeD)
    then show "deref s' r = votesum s' a" using cells [OF r] sum [of a] by (simp add: deref_def)
  qed
  moreover have "refs_ok s'"
  proof -
    have "sv_Stake v < Suc ?r" if "v \<in> snd ` set ?V'" for v
      using V' [OF that] old [of v] less_SucI lessI by metis
    moreover have "r < Suc ?r" if "r \<in> snd ` set ?T" for r using T that less_SucI by blast
    moreover have "distinct (mkeys (s_Voters s))" using L by (simp add: ledger_defs)
    ultimately show ?thesis using dV dT by (simp add: refs_ok_def s'V s'T s'o len)
  qed
  moreover have "unshared s'"
  proof -
    have "sv_Stake v \<noteq> r" if "v \<in> snd ` set ?V'" "r \<in> snd ` set ?T" for v r
      using V' [OF that(1)] T dis that(2) by (metis nat_neq_iff)
    then show ?thesis using dr by (auto simp: unshared_def s'V s'T)
  qed
  moreover have "backed s'" using V' bk c s'V s'T by (auto simp: backed_def)
  ultimately show ?thesis by (simp add: ledger_def s'_def)
qed

text \<open>A ballot for a candidate that already has a tally is a \<open>recast\<close>.\<close>

lemma tally_entry: "ledger s \<Longrightarrow> mget (s_Votes s) voter = Some v \<Longrightarrow> \<exists>q. mget (s_Tally s) (sv_Candidate v) = Some q"
proof -
  assume "ledger s" "mget (s_Votes s) voter = Some v"
  then have "sv_Candidate v \<in> fst ` set (s_Tally s)"
    unfolding ledger_def backed_def using map_of_snd by fastforce
  then show ?thesis by (metis map_of_eq_None_iff not_None_eq)
qed

lemma Tally_ref_less: "ledger s \<Longrightarrow> mget (s_Tally s) c = Some r \<Longrightarrow> r < length (s_ints s)"
  using map_of_snd unfolding ledger_def refs_ok_def by fast

lemma updateSnapshotByVote_recast:
  assumes "ledger s" "v_Candidate vote \<in> fst ` set (s_Tally s)"
  shows "updateSnapshotByVote pd n s vote =
    Inr ((recast (v_Voter vote) (v_Candidate vote) (v_Stake vote) s)
           \<lparr>s_Voters := mput (v_Voter vote) n (s_Voters s)\<rparr>)"
proof -
  obtain t where t: "mget (s_Tally s) (v_Candidate vote) = Some t"
    using assms(2) by (metis map_of_eq_None_iff not_None_eq)
  have tl: "t < length (s_ints s)" using Tally_ref_less [OF assms(1) t] .
  show ?thesis
  proof (cases "mget (s_Votes s) (v_Voter vote)")
    case None
    then show ?thesis using t tl
      by (simp add: updateSnapshotByVote_def new_int_def mhas_def tally_add_def set_int_def deref_def
          recast_def Let_def nth_append)
  next
    case (Some v)
    then obtain q where q: "mget (s_Tally s) (sv_Candidate v) = Some q" using tally_entry [OF assms(1)] by blast
    have ql: "q < length (s_ints s)" using Tally_ref_less [OF assms(1) q] .
    show ?thesis using Some t tl q ql
      by (simp add: updateSnapshotByVote_def new_int_def mhas_def tally_add_def tally_sub_def set_int_def
          deref_def recast_def Let_def nth_append nth_list_update)
  qed
qed

lemma updateSnapshotByMPVote_recast:
  assumes "ledger s" "mget (s_Votes s) (v_Voter vote) = Some v"
  shows "updateSnapshotByMPVote s vote = Inr (recast (v_Voter vote) (sv_Candidate v) (v_Stake vote) s)"
proof -
  obtain q where q: "mget (s_Tally s) (sv_Candidate v) = Some q" using tally_entry [OF assms] by blast
  have ql: "q < length (s_ints s)" using Tally_ref_less [OF assms(1) q] .
  show ?thesis using assms(2) q ql
    by (simp add: updateSnapshotByMPVote_def new_int_def tally_add_def tally_sub_def set_int_def
        deref_def recast_def Let_def nth_append nth_list_update)
qed

lemma ledger_Voters [simp]: "ledger s \<Longrightarrow> distinct (mkeys m) \<Longrightarrow> ledger (s\<lparr>s_Voters := m\<rparr>)"
  by (simp add: ledger_defs votesum_contrib deref_def cong del: if_weak_cong)

lemma ledger_new_int:
  assumes "ledger s"
  shows "ledger (s\<lparr>s_ints := s_ints s @ [x]\<rparr>)"
proof -
  let ?s = "s\<lparr>s_ints := s_ints s @ [x]\<rparr>"
  have b: "\<forall>v \<in> snd ` set (s_Votes s). sv_Stake v < length (s_ints s)"
    "\<forall>r \<in> snd ` set (s_Tally s). r < length (s_ints s)"
    using assms by (simp_all add: ledger_defs)
  have "votesum ?s c = votesum s c" for c
    using msum_contrib_append [OF b(1)] by (simp add: votesum_contrib cong del: if_weak_cong)
  moreover have "deref ?s r = deref s r" if "(c, r) \<in> set (s_Tally s)" for c r
    using b(2) that by (force simp: deref_def nth_append)
  ultimately have "tally_exact ?s" using assms by (auto simp: ledger_def tally_exact_def)
  with assms b show ?thesis by (auto simp: ledger_def refs_ok_def unshared_def backed_def less_SucI)
qed

section \<open>Batches of ballots\<close>

text \<open>
  The contract of a loop over ballots: on a ledger an admissible ballot is processed without
  an error or panic, gives a ledger again and leaves the other ballots admissible.  Then a
  whole batch does.
\<close>

locale ballot_step =
  fixes step :: "Snapshot \<Rightarrow> 'b \<Rightarrow> alien_err + Snapshot" and admissible :: "Snapshot \<Rightarrow> 'b \<Rightarrow> bool"
  assumes step_ok: "ledger s \<Longrightarrow> admissible s x \<Longrightarrow> \<exists>s'. step s x = Inr s'"
    and step_ledger: "ledger s \<Longrightarrow> admissible s x \<Longrightarrow> step s x = Inr s' \<Longrightarrow> ledger s'"
    and step_admissible: "ledger s \<Longrightarrow> admissible s x \<Longrightarrow> step s x = Inr s' \<Longrightarrow> admissible s y \<Longrightarrow> admissible s' y"
begin

lemma batch:
  "ledger s \<Longrightarrow> list_all (admissible s) xs \<Longrightarrow>
   \<exists>s'. foldR step s xs = Inr s' \<and> ledger s' \<and> (\<forall>y. admissible s y \<longrightarrow> admissible s' y)"
proof (induction xs arbitrary: s)
  case Nil
  then show ?case by simp
next
  case (Cons x xs)
  then have L: "ledger s" and x: "admissible s x" and xs: "list_all (admissible s) xs" by simp_all
  obtain s1 where s1: "step s x = Inr s1" using step_ok [OF L x] by blast
  have L1: "ledger s1" using step_ledger [OF L x s1] .
  have "list_all (admissible s1) xs"
    using xs step_admissible [OF L x s1] by (simp add: list_all_iff)
  with Cons.IH [OF L1] obtain s2 where
    "foldR step s1 xs = Inr s2" "ledger s2" "\<forall>y. admissible s1 y \<longrightarrow> admissible s2 y" by blast
  with s1 show ?case using step_admissible [OF L x s1] by simp
qed

end

definition has_tally :: "Snapshot \<Rightarrow> Vote \<Rightarrow> bool" where
  "has_tally s vote \<longleftrightarrow> v_Candidate vote \<in> fst ` set (s_Tally s)"

lemma recast_fields [simp]:
  "s_Tally (recast a c x s) = s_Tally s" "s_Voters (recast a c x s) = s_Voters s"
  "s_config (recast a c x s) = s_config s" "s_Candidates (recast a c x s) = s_Candidates s"
  by (simp_all add: recast_def Let_def)

interpretation votes: ballot_step "updateSnapshotByVote pd n" has_tally for pd n
proof
  fix s :: Snapshot and vote s' y
  assume L: "ledger s" and t: "has_tally s vote"
  note e = updateSnapshotByVote_recast [OF L t [unfolded has_tally_def]]
  show "\<exists>s'. updateSnapshotByVote pd n s vote = Inr s'" using e by simp
  assume "updateSnapshotByVote pd n s vote = Inr s'"
  then have s': "s' = (recast (v_Voter vote) (v_Candidate vote) (v_Stake vote) s)
           \<lparr>s_Voters := mput (v_Voter vote) n (s_Voters s)\<rparr>" using e by simp
  have "distinct (mkeys (s_Voters s))" using L by (simp add: ledger_defs)
  then show "ledger s'" using s' ledger_recast [OF L] t by (simp add: has_tally_def)
  assume "has_tally s y"
  then show "has_tally s' y" using s' by (simp add: has_tally_def)
qed

interpretation mpvotes: ballot_step updateSnapshotByMPVote "\<lambda>s vote. True"
proof
  fix s :: Snapshot and vote s'
  assume L: "ledger s"
  show "\<exists>s'. updateSnapshotByMPVote s vote = Inr s'"
    using updateSnapshotByMPVote_recast [OF L] 
    by (cases "mget (s_Votes s) (v_Voter vote)") (auto simp: updateSnapshotByMPVote_def new_int_def)
  assume s': "updateSnapshotByMPVote s vote = Inr s'"
  show "ledger s'"
  proof (cases "mget (s_Votes s) (v_Voter vote)")
    case None
    then show ?thesis using s' ledger_new_int [OF L, of "v_Stake vote"] by (simp add: updateSnapshotByMPVote_def new_int_def)
  next
    case (Some v)
    obtain q where "mget (s_Tally s) (sv_Candidate v) = Some q" using tally_entry [OF L Some] by blast
    then have "sv_Candidate v \<in> fst ` set (s_Tally s)" by (metis domI dom_map_of_conv_image_fst)
    then show ?thesis using ledger_recast [OF L] updateSnapshotByMPVote_recast [OF L Some] s' by simp
  qed
qed simp

section \<open>The tally check decides exactness\<close>

lemma tallyTarget_lookup:
  "mget (foldl (tallyTarget_step s) t vs) c =
    (if c \<in> sv_Candidate ` snd ` set vs \<or> mget t c \<noteq> None
     then Some ((case mget t c of None \<Rightarrow> 0 | Some x \<Rightarrow> x) + msum (contrib (s_ints s) c) vs)
     else None)"
proof (induction vs arbitrary: t)
  case Nil
  then show ?case by auto
next
  case (Cons kv vs)
  obtain k v where kv: "kv = (k, v)" by force
  show ?case
  proof (cases "sv_Candidate v = c")
    case True
    then show ?thesis
      using Cons.IH [of "tallyTarget_step s t kv"] kv
      by (auto simp: tallyTarget_step_def Let_def deref_def gomap_simps split: option.splits)
  next
    case False
    then have "mget (tallyTarget_step s t kv) c = mget t c"
      using kv by (auto simp: tallyTarget_step_def Let_def gomap_simps split: option.splits)
    then show ?thesis using Cons.IH [of "tallyTarget_step s t kv"] kv False by auto
  qed
qed

lemma verifyTallyCnt_iff:
  "verifyTallyCnt s = Inr () \<longleftrightarrow>
    (\<forall>(c, r) \<in> set (s_Tally s). c \<in> sv_Candidate ` snd ` set (s_Votes s) \<and> deref s r = votesum s c)"
proof -
  have "mget (foldl (tallyTarget_step s) [] (s_Votes s)) c = Some (deref s r) \<longleftrightarrow>
      c \<in> sv_Candidate ` snd ` set (s_Votes s) \<and> deref s r = votesum s c" for c r
    unfolding tallyTarget_lookup votesum_contrib by auto
  then show ?thesis by (simp add: verifyTallyCnt_def Let_def list_all_iff)
qed

lemma verifyTallyCnt_error: "verifyTallyCnt s \<noteq> Inr () \<longleftrightarrow> verifyTallyCnt s = Inl errIncorrectTallyCount"
  by (simp add: verifyTallyCnt_def Let_def)

lemma votesum_unvoted: "c \<notin> sv_Candidate ` snd ` set (s_Votes s) \<Longrightarrow> votesum s c = 0"
proof -
  assume "c \<notin> sv_Candidate ` snd ` set (s_Votes s)"
  then have "votesum s c = msum (\<lambda>k v. 0) (s_Votes s)"
    unfolding votesum_def by (intro msum_cong) force
  also have "\<dots> = 0" by (simp add: msum_def case_prod_beta')
  finally show ?thesis .
qed

lemma verifyTallyCnt_ok:
  assumes "tally_exact s" "\<forall>r \<in> snd ` set (s_Tally s). 0 < deref s r"
  shows "verifyTallyCnt s = Inr ()"
  unfolding verifyTallyCnt_iff
proof clarify
  fix c r
  assume r: "(c, r) \<in> set (s_Tally s)"
  then have e: "deref s r = votesum s c" using assms(1) by (auto simp: tally_exact_def)
  moreover have "0 < deref s r" using assms(2) r by force
  ultimately show "c \<in> sv_Candidate ` snd ` set (s_Votes s) \<and> deref s r = votesum s c"
    using votesum_unvoted by fastforce
qed

section \<open>Copying\<close>

text \<open>What the outside can read of the votes and of the tally.\<close>

definition vote_view :: "Snapshot \<Rightarrow> address \<Rightarrow> (address \<times> address \<times> int) option" where
  "vote_view s a = map_option (\<lambda>v. (sv_Voter v, sv_Candidate v, deref s (sv_Stake v))) (mget (s_Votes s) a)"

definition tally_view :: "Snapshot \<Rightarrow> address \<Rightarrow> int option" where
  "tally_view s c = map_option (deref s) (mget (s_Tally s) c)"

definition proposal_view :: "Snapshot \<Rightarrow> hash \<Rightarrow> Proposal option" where
  "proposal_view s h = map_option (\<lambda>r. s_props s ! r) (mget (s_Proposals s) h)"

lemma Proposal_copy_id [simp]: "Proposal_copy p = p"
  by (simp add: Proposal_copy_def)

text \<open>Renumbering the references of a map into consecutive cells.\<close>

lemma map_of_renumber:
  assumes "\<And>i. i < length m \<Longrightarrow> G (F (snd (m ! i)) (n + i)) = H (snd (m ! i))"
  shows "map_option G (map_of (map (\<lambda>(i, k, v). (k, F v i)) (enumerate n m)) a) = map_option H (map_of m a)"
  using assms
proof (induction m arbitrary: n)
  case Nil
  then show ?case by simp
next
  case (Cons kv m)
  obtain k v where kv: "kv = (k, v)" by force
  have "G (F (snd (m ! i)) (Suc n + i)) = H (snd (m ! i))" if "i < length m" for i
    using Cons.prems [of "Suc i"] that by simp
  with Cons.IH [of "Suc n"] Cons.prems [of 0] kv show ?case by simp
qed

lemma deref_fun: "deref s = (!) (s_ints s)"
  by (rule ext) (simp add: deref_def)

lemma copy_fields:
  "s_Votes (Snapshot_copy s) =
    map (\<lambda>(i, k, v). (k, \<lparr>sv_Voter = sv_Voter v, sv_Candidate = sv_Candidate v, sv_Stake = i\<rparr>)) (enumerate 0 (s_Votes s))"
  "s_Tally (Snapshot_copy s) = map (\<lambda>(i, k, r). (k, i)) (enumerate (length (s_Votes s)) (s_Tally s))"
  "s_Proposals (Snapshot_copy s) = map (\<lambda>(i, k, r). (k, i)) (enumerate 0 (s_Proposals s))"
  "s_ints (Snapshot_copy s) =
    map (\<lambda>(k, v). deref s (sv_Stake v)) (s_Votes s) @ map (\<lambda>(k, r). deref s r) (s_Tally s)"
  "s_props (Snapshot_copy s) = map (\<lambda>(k, r). s_props s ! r) (s_Proposals s)"
  by (simp_all add: Snapshot_copy_def)

lemma copy_vote_view: "vote_view (Snapshot_copy s) a = vote_view s a"
  unfolding vote_view_def copy_fields(1)
  by (rule map_of_renumber) (simp add: deref_fun copy_fields(4) nth_append case_prod_beta')

lemma copy_tally_view: "tally_view (Snapshot_copy s) c = tally_view s c"
  unfolding tally_view_def copy_fields(2)
  by (rule map_of_renumber) (simp add: deref_fun copy_fields(4) nth_append case_prod_beta')

lemma copy_proposal_view: "proposal_view (Snapshot_copy s) h = proposal_view s h"
  unfolding proposal_view_def copy_fields(3)
  by (rule map_of_renumber) (simp add: copy_fields(5) case_prod_beta')

text \<open>The copy shares no cell, whatever the original shared.\<close>

lemma mkeys_renumber: "map fst (map (\<lambda>(i, k, v). (k, F v i)) (enumerate n m)) = map fst m"
  by (induction m arbitrary: n) auto

lemma refs_renumber: "map snd (map (\<lambda>(i, k, v). (k, i)) (enumerate n m)) = [n..<n + length m]"
  by (induction m arbitrary: n) (auto simp: upt_conv_Cons simp del: upt_Suc)

lemma stakes_renumber:
  "map (sv_Stake \<circ> snd) (map (\<lambda>(i, k, v). (k, \<lparr>sv_Voter = sv_Voter v, sv_Candidate = sv_Candidate v, sv_Stake = i\<rparr>))
     (enumerate n m)) = [n..<n + length m]"
  by (induction m arbitrary: n) (auto simp: upt_conv_Cons simp del: upt_Suc)

lemma cands_renumber:
  "map (sv_Candidate \<circ> snd) (map (\<lambda>(i, k, v). (k, \<lparr>sv_Voter = sv_Voter v, sv_Candidate = sv_Candidate v, sv_Stake = i\<rparr>))
     (enumerate n m)) = map (sv_Candidate \<circ> snd) m"
  by (induction m arbitrary: n) auto

lemma msum_renumber:
  assumes "\<And>i. i < length m \<Longrightarrow> h ! (n + i) = g ! sv_Stake (snd (m ! i))"
  shows "msum (contrib h c) (map (\<lambda>(i, k, v). (k, \<lparr>sv_Voter = sv_Voter v, sv_Candidate = sv_Candidate v, sv_Stake = i\<rparr>))
     (enumerate n m)) = msum (contrib g c) m"
  using assms
proof (induction m arbitrary: n)
  case Nil
  then show ?case by simp
next
  case (Cons kv m)
  obtain k v where kv: "kv = (k, v)" by force
  have "h ! (Suc n + i) = g ! sv_Stake (snd (m ! i))" if "i < length m" for i
    using Cons.prems [of "Suc i"] that by simp
  with Cons.IH [of "Suc n"] Cons.prems [of 0] kv show ?case by simp
qed

lemma copy_votesum: "votesum (Snapshot_copy s) c = votesum s c"
  unfolding votesum_contrib copy_fields(1)
  by (rule msum_renumber) (simp add: copy_fields(4) deref_def nth_append case_prod_beta')

lemma copy_stakes: "sv_Stake ` snd ` set (s_Votes (Snapshot_copy s)) = {0..<length (s_Votes s)}"
proof -
  have "sv_Stake ` snd ` set (s_Votes (Snapshot_copy s)) = set (map (sv_Stake \<circ> snd) (s_Votes (Snapshot_copy s)))"
    by (simp add: image_comp)
  then show ?thesis unfolding copy_fields(1) stakes_renumber by simp
qed

lemma copy_cands: "sv_Candidate ` snd ` set (s_Votes (Snapshot_copy s)) = sv_Candidate ` snd ` set (s_Votes s)"
proof -
  have e: "sv_Candidate ` snd ` set m = set (map (sv_Candidate \<circ> snd) m)" for m :: "(address, SVote) gomap"
    by (simp add: image_comp)
  show ?thesis unfolding e copy_fields(1) cands_renumber ..
qed

lemma copy_tally_refs: "map snd (s_Tally (Snapshot_copy s)) = [length (s_Votes s)..<length (s_Votes s) + length (s_Tally s)]"
  unfolding copy_fields(2) by (rule refs_renumber)

lemma copy_keys:
  "mkeys (s_Votes (Snapshot_copy s)) = mkeys (s_Votes s)"
  "mkeys (s_Tally (Snapshot_copy s)) = mkeys (s_Tally s)"
  unfolding copy_fields by (rule mkeys_renumber)+

lemma copy_tally_ref_set:
  "snd ` set (s_Tally (Snapshot_copy s)) = {length (s_Votes s)..<length (s_Votes s) + length (s_Tally s)}"
  unfolding list.set_map [symmetric] copy_tally_refs by simp

lemma copy_unshared: "unshared (Snapshot_copy s)"
  unfolding unshared_def copy_tally_refs copy_stakes copy_tally_ref_set by auto

lemma copy_tally_exact:
  assumes "distinct (mkeys (s_Tally s))" "tally_exact s"
  shows "tally_exact (Snapshot_copy s)"
  unfolding tally_exact_def
proof clarify
  fix c r
  assume r: "(c, r) \<in> set (s_Tally (Snapshot_copy s))"
  then have "tally_view (Snapshot_copy s) c = Some (deref (Snapshot_copy s) r)"
    using mem_map_of [of "s_Tally (Snapshot_copy s)" c r] assms(1) by (simp only: tally_view_def copy_keys option.map)
  then obtain q where q: "mget (s_Tally s) c = Some q" "deref s q = deref (Snapshot_copy s) r"
    unfolding copy_tally_view by (auto simp: tally_view_def)
  have "deref s q = votesum s c"
    using assms(2) map_of_SomeD [OF q(1)] unfolding tally_exact_def by fast
  with q show "deref (Snapshot_copy s) r = votesum (Snapshot_copy s) c" by (simp add: copy_votesum)
qed

lemma copy_ledger:
  assumes "refs_ok s" "tally_exact s" "backed s"
  shows "ledger (Snapshot_copy s)"
proof -
  have "fst ` set (s_Tally (Snapshot_copy s)) = fst ` set (s_Tally s)"
    using copy_keys(2) by (metis list.set_map)
  then have "backed (Snapshot_copy s)" using assms(3) by (simp add: backed_def copy_cands)
  moreover have "refs_ok (Snapshot_copy s)"
  proof -
    have "s_Voters (Snapshot_copy s) = s_Voters s" by (simp add: Snapshot_copy_def)
    moreover have "length (s_ints (Snapshot_copy s)) = length (s_Votes s) + length (s_Tally s)"
      by (simp add: copy_fields)
    moreover have "sv_Stake v < length (s_Votes s) + length (s_Tally s)"
      if "v \<in> snd ` set (s_Votes (Snapshot_copy s))" for v
      using copy_stakes [of s] imageI [OF that, of sv_Stake] by simp
    moreover have "r < length (s_Votes s) + length (s_Tally s)"
      if "r \<in> snd ` set (s_Tally (Snapshot_copy s))" for r
      using that unfolding copy_tally_ref_set by simp
    ultimately show ?thesis using assms(1) unfolding refs_ok_def copy_keys by simp
  qed
  ultimately show ?thesis
    using assms copy_unshared copy_tally_exact by (simp add: ledger_def refs_ok_def)
qed

section \<open>Expiry\<close>

text \<open>Votes filed under their voter, with a positive stake: what voting transactions create.\<close>

definition live :: "Snapshot \<Rightarrow> bool" where
  "live s \<longleftrightarrow> (\<forall>(k, v) \<in> set (s_Votes s). sv_Voter v = k \<and> 0 < deref s (sv_Stake v))"

lemma set_mdel: "set (AList.delete k m) = {p \<in> set m. fst p \<noteq> k}"
  by (auto simp: AList.delete_eq)

lemma votesum_pos:
  assumes "live s" "(k, v) \<in> set (s_Votes s)"
  shows "0 < votesum s (sv_Candidate v)"
proof -
  let ?f = "\<lambda>k w. if sv_Candidate w = sv_Candidate v then deref s (sv_Stake w) else 0"
  have nn: "0 \<le> ?f a w" if "(a, w) \<in> set (s_Votes s)" for a w
    using assms(1) that by (auto simp: live_def intro: less_imp_le)
  obtain xs ys where split: "s_Votes s = xs @ (k, v) # ys" using assms(2) by (meson split_list)
  have "0 \<le> msum ?f xs" "0 \<le> msum ?f ys" using nn split by (auto intro!: msum_nonneg)
  moreover have "0 < ?f k v" using assms by (auto simp: live_def)
  moreover have "votesum s (sv_Candidate v) = msum ?f xs + ?f k v + msum ?f ys"
    by (simp add: votesum_def split msum_def)
  ultimately show ?thesis by linarith
qed

lemma live_tally_pos:
  assumes "ledger s" "live s" "c \<in> sv_Candidate ` snd ` set (s_Votes s)" "(c, r) \<in> set (s_Tally s)"
  shows "0 < deref s r"
proof -
  obtain k v where "(k, v) \<in> set (s_Votes s)" "sv_Candidate v = c" using assms(3) by auto
  then have "0 < votesum s c" using votesum_pos [OF assms(2)] by blast
  moreover have "deref s r = votesum s c"
    using assms(1,4) unfolding ledger_def tally_exact_def by fast
  ultimately show ?thesis by simp
qed

lemma ledgerD:
  assumes "ledger s"
  shows "distinct (mkeys (s_Votes s))" "distinct (mkeys (s_Tally s))" "distinct (mkeys (s_Voters s))"
    "distinct (map snd (s_Tally s))"
    "v \<in> snd ` set (s_Votes s) \<Longrightarrow> sv_Stake v < length (s_ints s)"
    "r \<in> snd ` set (s_Tally s) \<Longrightarrow> r < length (s_ints s)"
    "v \<in> snd ` set (s_Votes s) \<Longrightarrow> sv_Stake v \<notin> snd ` set (s_Tally s)"
    "(c, r) \<in> set (s_Tally s) \<Longrightarrow> deref s r = votesum s c"
    "v \<in> snd ` set (s_Votes s) \<Longrightarrow> sv_Candidate v \<in> fst ` set (s_Tally s)"
  using assms unfolding ledger_def refs_ok_def unshared_def tally_exact_def backed_def by fast+

lemma ledgerI:
  assumes "distinct (mkeys (s_Votes s))" "distinct (mkeys (s_Tally s))" "distinct (mkeys (s_Voters s))"
    "distinct (map snd (s_Tally s))"
    "\<And>k v. (k, v) \<in> set (s_Votes s) \<Longrightarrow>
       sv_Stake v < length (s_ints s) \<and> sv_Stake v \<notin> snd ` set (s_Tally s) \<and> sv_Candidate v \<in> fst ` set (s_Tally s)"
    "\<And>c r. (c, r) \<in> set (s_Tally s) \<Longrightarrow> r < length (s_ints s) \<and> deref s r = votesum s c"
  shows "ledger s"
proof -
  have v: "sv_Stake v < length (s_ints s)" "sv_Stake v \<notin> snd ` set (s_Tally s)"
      "sv_Candidate v \<in> fst ` set (s_Tally s)" if v: "v \<in> snd ` set (s_Votes s)" for v
  proof -
    obtain k where "(k, v) \<in> set (s_Votes s)" using v by (metis imageE prod.collapse)
    then show "sv_Stake v < length (s_ints s)" "sv_Stake v \<notin> snd ` set (s_Tally s)"
      "sv_Candidate v \<in> fst ` set (s_Tally s)" using assms(5) by blast+
  qed
  have r: "r < length (s_ints s)" if "r \<in> snd ` set (s_Tally s)" for r using that assms(6) by auto
  have "refs_ok s" unfolding refs_ok_def using assms(1-3) v(1) r by blast
  moreover have "unshared s" unfolding unshared_def using assms(4) v(2) by blast
  moreover have "tally_exact s" unfolding tally_exact_def using assms(6) by blast
  moreover have "backed s" unfolding backed_def using v(3) by blast
  ultimately show ?thesis by (simp add: ledger_def)
qed

text \<open>Deleting tally entries that no vote needs keeps the invariants.\<close>

lemma ledger_drop_tally:
  assumes "ledger s" "c \<notin> sv_Candidate ` snd ` set (s_Votes s)"
  shows "ledger (s\<lparr>s_Tally := mdel c (s_Tally s)\<rparr>)"
proof -
  let ?s = "s\<lparr>s_Tally := mdel c (s_Tally s)\<rparr>"
  have same: "votesum ?s a = votesum s a" "deref ?s r = deref s r" for a r
    by (simp_all add: votesum_contrib deref_def cong del: if_weak_cong)
  have sub: "set (mdel c (s_Tally s)) \<subseteq> set (s_Tally s)" by (auto simp: set_mdel)
  have "distinct (map snd (mdel c (s_Tally s)))"
    using ledgerD(4) [OF assms(1)] by (simp add: AList.delete_eq distinct_map_filter)
  then show ?thesis
  proof (intro ledgerI, goal_cases)
    case (5 k v)
    then have "v \<in> snd ` set (s_Votes s)" by force
    moreover have "sv_Candidate v \<noteq> c" using assms(2) calculation by blast
    moreover have "snd ` set (mdel c (s_Tally s)) \<subseteq> snd ` set (s_Tally s)" using sub by blast
    ultimately show ?case using ledgerD(5,7,9) [OF assms(1), of v] by (simp add: gomap_simps) blast
  next
    case (6 a r)
    then have "(a, r) \<in> set (s_Tally s)" using sub by auto
    then show ?case using ledgerD(6) [OF assms(1), of r] ledgerD(8) [OF assms(1)] same by force
  qed (use ledgerD [OF assms(1)] in simp_all)
qed

lemma live_drop_tally: "live (s\<lparr>s_Tally := m\<rparr>) = live s"
  by (simp add: live_def deref_def)

text \<open>Withdrawing a vote: its stake leaves the tally cell and the vote leaves the map.\<close>

definition retract :: "address \<Rightarrow> SVote \<Rightarrow> nat \<Rightarrow> Snapshot \<Rightarrow> Snapshot" where
  "retract k v t s =
    s\<lparr>s_ints := (s_ints s)[t := deref s t - deref s (sv_Stake v)], s_Votes := mdel k (s_Votes s),
      s_Voters := mdel k (s_Voters s)\<rparr>"

lemma retract_ledger:
  assumes L: "ledger s" and v: "mget (s_Votes s) k = Some v" and t: "mget (s_Tally s) (sv_Candidate v) = Some t"
  shows "ledger (retract k v t s)"
    and "w \<in> snd ` set (s_Votes s) \<Longrightarrow> deref (retract k v t s) (sv_Stake w) = deref s (sv_Stake w)"
proof -
  let ?V = "s_Votes s" and ?T = "s_Tally s" and ?s = "retract k v t s"
  note D = ledgerD [OF L]
  have tT: "t \<in> snd ` set ?T" using map_of_snd [OF t] .
  have keep: "deref ?s (sv_Stake w) = deref s (sv_Stake w)" if "w \<in> snd ` set ?V" for w
  proof -
    have "sv_Stake w \<noteq> t" using D(7) [OF that] tT by metis
    then show ?thesis by (simp add: deref_def retract_def)
  qed
  show "w \<in> snd ` set (s_Votes s) \<Longrightarrow> deref ?s (sv_Stake w) = deref s (sv_Stake w)" by (rule keep)
  have sub: "set (mdel k ?V) \<subseteq> set ?V" by (auto simp: set_mdel)
  have sum: "votesum ?s c = votesum s c - (if sv_Candidate v = c then deref s (sv_Stake v) else 0)" for c
  proof -
    let ?f = "\<lambda>j w. if sv_Candidate w = c then deref s (sv_Stake w) else 0"
    have "deref ?s (sv_Stake w) = deref s (sv_Stake w)" if "(j, w) \<in> set (mdel k ?V)" for j w
      using keep [of w] sub that by (metis imageI snd_conv subsetD)
    then have "votesum ?s c = msum ?f (mdel k ?V)"
      unfolding votesum_def by (simp add: retract_def) (rule msum_cong, simp add: retract_def)
    then show ?thesis using v by (simp add: msum_mdel [OF D(1)] votesum_def)
  qed
  have cell: "deref ?s r = deref s r - (if c = sv_Candidate v then deref s (sv_Stake v) else 0)"
    if "mget ?T c = Some r" for c r
  proof -
    have "(t = r) = (sv_Candidate v = c)" using map_of_inj [OF D(4) that t] .
    then show ?thesis using D(6) [OF tT] by (auto simp: deref_def retract_def nth_list_update)
  qed
  show "ledger ?s"
  proof (rule ledgerI, goal_cases)
    case (5 j w)
    then have "w \<in> snd ` set ?V" using sub by (force simp: retract_def)
    then show ?case using D(5,7,9) by (simp add: retract_def)
  next
    case (6 c r)
    then have r: "(c, r) \<in> set ?T" by (simp add: retract_def)
    then have "mget ?T c = Some r" using D(2) by simp
    then have "deref ?s r = votesum ?s c" using cell sum [of c] D(8) [OF r] by auto
    moreover have "r < length (s_ints s)" using D(6) [of r] r by force
    ultimately show ?case by (simp add: retract_def)
  qed (use D in \<open>simp_all add: retract_def\<close>)
qed

lemma live_retract:
  assumes "ledger s" "live s" "mget (s_Votes s) k = Some v" "mget (s_Tally s) (sv_Candidate v) = Some t"
  shows "live (retract k v t s)"
  unfolding live_def
proof clarify
  fix a w
  assume "(a, w) \<in> set (s_Votes (retract k v t s))"
  then have aw: "(a, w) \<in> set (s_Votes s)" by (simp add: retract_def set_mdel)
  then have "deref (retract k v t s) (sv_Stake w) = deref s (sv_Stake w)"
    using retract_ledger(2) [OF assms(1,3,4), of w] by force
  then show "sv_Voter w = a \<and> 0 < deref (retract k v t s) (sv_Stake w)"
    using assms(2) aw by (auto simp: live_def)
qed

lemma removeExpiredVote_ok:
  assumes L: "ledger s" and l: "live s" and v: "mget (s_Votes s) k = Some v"
  shows "\<exists>s'. removeExpiredVote s v = Inr s' \<and> ledger s' \<and> live s' \<and>
    s_Votes s' = mdel k (s_Votes s) \<and> s_config s' = s_config s \<and> s_Confirmations s' = s_Confirmations s"
proof -
  have k: "sv_Voter v = k" using l map_of_SomeD [OF v] by (auto simp: live_def)
  obtain t where t: "mget (s_Tally s) (sv_Candidate v) = Some t" using tally_entry [OF L v] by blast
  let ?s = "retract k v t s"
  let ?d = "?s\<lparr>s_Tally := mdel (sv_Candidate v) (s_Tally ?s)\<rparr>"
  have L': "ledger ?s" using retract_ledger(1) [OF L v t] .
  have l': "live ?s" using live_retract [OF L l v t] .
  have tt: "t < length (s_ints s)" using Tally_ref_less [OF L t] .
  have e: "removeExpiredVote s v = Inr (if deref ?s t = 0 then ?d else ?s)"
    using t tt by (simp add: removeExpiredVote_def tally_sub_def set_int_def deref_def retract_def Let_def k)
  have "ledger ?d" if "deref ?s t = 0"
  proof (rule ledger_drop_tally [OF L'], rule notI)
    assume "sv_Candidate v \<in> sv_Candidate ` snd ` set (s_Votes ?s)"
    moreover have "(sv_Candidate v, t) \<in> set (s_Tally ?s)" using map_of_SomeD [OF t] by (simp add: retract_def)
    ultimately show False using live_tally_pos [OF L' l'] that by force
  qed
  with L' l' e show ?thesis by (auto simp: live_drop_tally retract_def)
qed

lemma removeExpiredVotes_ok:
  "ledger s \<Longrightarrow> live s \<Longrightarrow> distinct (map sv_Voter vs) \<Longrightarrow> \<forall>v \<in> set vs. mget (s_Votes s) (sv_Voter v) = Some v \<Longrightarrow>
   \<exists>s'. foldR removeExpiredVote s vs = Inr s' \<and> ledger s' \<and> live s' \<and>
     mget (s_Votes s') = (mget (s_Votes s)) |` (- sv_Voter ` set vs)"
proof (induction vs arbitrary: s)
  case Nil
  then show ?case by simp
next
  case (Cons v vs)
  then have v: "mget (s_Votes s) (sv_Voter v) = Some v" by simp
  obtain s1 where s1: "removeExpiredVote s v = Inr s1" "ledger s1" "live s1"
      "s_Votes s1 = mdel (sv_Voter v) (s_Votes s)"
    using removeExpiredVote_ok [OF Cons.prems(1,2) v] by blast
  have "mget (s_Votes s1) (sv_Voter w) = Some w" if "w \<in> set vs" for w
  proof -
    have "sv_Voter w \<noteq> sv_Voter v" using Cons.prems(3) that by (metis distinct.simps(2) image_eqI list.set_map list.simps(9))
    then show ?thesis using Cons.prems(4) that s1(4) by (simp add: gomap_simps)
  qed
  then obtain s2 where s2: "foldR removeExpiredVote s1 vs = Inr s2" "ledger s2" "live s2"
      "mget (s_Votes s2) = (mget (s_Votes s1)) |` (- sv_Voter ` set vs)"
    using Cons.IH [OF s1(2,3)] Cons.prems(3) by (metis distinct.simps(2) list.simps(9))
  have "mget (s_Votes s2) = (mget (s_Votes s)) |` (- sv_Voter ` set (v # vs))"
    unfolding s2(4) s1(4) mget_mdel by (auto simp: restrict_map_def fun_eq_iff)
  with s1(1) s2 show ?case by simp
qed

lemma expired_of_voter:
  assumes "live s" "v \<in> set (expired_of s p)"
  shows "mget (s_Votes s) (sv_Voter v) = Some v" "sv_Voter v = fst p"
proof -
  have "mget (s_Votes s) (fst p) = Some v"
    using assms(2) unfolding expired_of_def
    by (cases "mget (s_Votes s) (fst p)"; cases "cfg_Epoch (s_config s) < s_Number s - Uint64 (snd p)")
      (simp_all only: if_True if_False option.case list.set insert_iff empty_iff, blast)
  moreover have "sv_Voter v = fst p"
    using assms(1) map_of_SomeD [OF calculation] unfolding live_def by fast
  ultimately show "mget (s_Votes s) (sv_Voter v) = Some v" "sv_Voter v = fst p" by simp_all
qed

lemma expiredVotes_present:
  assumes "live s" "distinct (mkeys (s_Voters s))"
  shows "distinct (map sv_Voter (expiredVotes s))"
    and "v \<in> set (expiredVotes s) \<Longrightarrow> mget (s_Votes s) (sv_Voter v) = Some v"
proof -
  show "v \<in> set (expiredVotes s) \<Longrightarrow> mget (s_Votes s) (sv_Voter v) = Some v"
    using expired_of_voter(1) [OF assms(1)] unfolding expiredVotes_def by fastforce
  have one: "distinct (map sv_Voter (expired_of s p))" for p
    by (simp add: expired_of_def split: option.splits)
  have "distinct (map sv_Voter (concat (map (expired_of s) m)))" if "distinct (mkeys m)" for m
    using that
  proof (induction m)
    case (Cons p m)
    have "sv_Voter v \<noteq> sv_Voter w" if v: "v \<in> set (expired_of s p)" and w: "w \<in> set (concat (map (expired_of s) m))" for v w
    proof -
      obtain q where "q \<in> set m" "w \<in> set (expired_of s q)" using w by auto
      then have "sv_Voter w \<in> fst ` set m" using expired_of_voter(2) [OF assms(1)] by simp
      moreover have "sv_Voter v \<notin> fst ` set m" using Cons.prems expired_of_voter(2) [OF assms(1) v] by simp
      ultimately show ?thesis by metis
    qed
    then have "sv_Voter ` set (expired_of s p) \<inter> sv_Voter ` set (concat (map (expired_of s) m)) = {}" by blast
    with Cons one [of p] show ?case by (simp only: list.map concat.simps map_append distinct_append list.set_map) simp
  qed simp
  from this [OF assms(2)] show "distinct (map sv_Voter (expiredVotes s))"
    unfolding expiredVotes_def .
qed

text \<open>The last loop removes the entries that hold nothing; votes and invariants stay.\<close>

lemma removeZeroTally_fold:
  "s_Tally (foldl removeZeroTally s ps) =
     filter (\<lambda>p. \<forall>q \<in> set ps. fst q = fst p \<longrightarrow> 0 < deref s (snd q)) (s_Tally s) \<and>
   s_Votes (foldl removeZeroTally s ps) = s_Votes s \<and> s_Voters (foldl removeZeroTally s ps) = s_Voters s \<and>
   s_ints (foldl removeZeroTally s ps) = s_ints s"
proof (induction ps arbitrary: s)
  case Nil
  then show ?case by simp
next
  case (Cons q ps)
  have "s_Tally (removeZeroTally s q) = filter (\<lambda>p. fst q = fst p \<longrightarrow> 0 < deref s (snd q)) (s_Tally s)"
    by (auto simp: removeZeroTally_def AList.delete_eq case_prod_beta' intro!: filter_cong)
  moreover have "deref (removeZeroTally s q) = deref s" "s_Votes (removeZeroTally s q) = s_Votes s"
    "s_Voters (removeZeroTally s q) = s_Voters s" "s_ints (removeZeroTally s q) = s_ints s"
    by (auto simp: removeZeroTally_def deref_fun)
  ultimately show ?case using Cons.IH [of "removeZeroTally s q"]
    by (auto intro!: filter_cong)
qed

lemma ledger_filter_tally:
  assumes "ledger s" "\<And>c r. (c, r) \<in> set (s_Tally s) \<Longrightarrow> c \<in> sv_Candidate ` snd ` set (s_Votes s) \<Longrightarrow> P (c, r)"
  shows "ledger (s\<lparr>s_Tally := filter P (s_Tally s)\<rparr>)"
proof -
  let ?s = "s\<lparr>s_Tally := filter P (s_Tally s)\<rparr>"
  note D = ledgerD [OF assms(1)]
  have same: "votesum ?s a = votesum s a" "deref ?s r = deref s r" for a r
    by (simp_all add: votesum_contrib deref_def cong del: if_weak_cong)
  show ?thesis
  proof (rule ledgerI, goal_cases)
    case (5 k v)
    then have v: "v \<in> snd ` set (s_Votes s)" by force
    obtain r where r: "(sv_Candidate v, r) \<in> set (s_Tally s)" using D(9) [OF v] by force
    then have "sv_Candidate v \<in> fst ` set (filter P (s_Tally s))" using assms(2) [OF r] v by force
    moreover have "snd ` set (filter P (s_Tally s)) \<subseteq> snd ` set (s_Tally s)" by auto
    ultimately show ?case using D(5,7) [OF v] by (simp, blast)
  next
    case (6 c r)
    then have "(c, r) \<in> set (s_Tally s)" by simp
    then show ?case using D(6) [of r] D(8) same by force
  qed (use D in \<open>simp_all add: distinct_map_filter\<close>)
qed

text \<open>Only these four fields matter for the invariants.\<close>

lemma ledger_cong:
  assumes "s_Tally s' = s_Tally s" "s_Votes s' = s_Votes s" "s_Voters s' = s_Voters s" "s_ints s' = s_ints s"
  shows "ledger s' = ledger s" "live s' = live s"
proof -
  have "votesum s' c = votesum s c" "deref s' r = deref s r" for c r
    using assms by (simp_all add: votesum_contrib deref_def cong del: if_weak_cong)
  then show "ledger s' = ledger s" "live s' = live s"
    using assms by (simp_all add: ledger_defs live_def)
qed

lemma removeZeroTally_all:
  assumes "ledger s" "live s"
  defines "s' \<equiv> foldl removeZeroTally s (s_Tally s)"
  shows "ledger s'" "live s'" "\<forall>r \<in> snd ` set (s_Tally s'). 0 < deref s' r" "s_Votes s' = s_Votes s"
    "tally_view s' c = (case tally_view s c of Some x \<Rightarrow> if 0 < x then Some x else None | None \<Rightarrow> None)"
proof -
  let ?P = "\<lambda>p. 0 < deref s (snd p)"
  note D = ledgerD [OF assms(1)]
  note F = removeZeroTally_fold [of s "s_Tally s", folded s'_def]
  have "(\<forall>q \<in> set (s_Tally s). fst q = fst p \<longrightarrow> ?P q) = ?P p" if "p \<in> set (s_Tally s)" for p
    using D(2) that by (metis eq_key_imp_eq_value prod.collapse)
  then have T: "s_Tally s' = filter ?P (s_Tally s)" using F by (simp cong: filter_cong)
  have "ledger (s\<lparr>s_Tally := filter ?P (s_Tally s)\<rparr>)"
    using live_tally_pos [OF assms(1,2)] by (intro ledger_filter_tally [OF assms(1)]) simp
  then show "ledger s'" using ledger_cong(1) [of s' "s\<lparr>s_Tally := filter ?P (s_Tally s)\<rparr>"] T F by simp
  show "live s'" using ledger_cong(2) [of s' "s\<lparr>s_Tally := filter ?P (s_Tally s)\<rparr>"] T F assms(2)
    by (simp add: live_drop_tally)
  show "\<forall>r \<in> snd ` set (s_Tally s'). 0 < deref s' r" using T F by (auto simp: deref_def)
  show "s_Votes s' = s_Votes s" using F by simp
  show "tally_view s' c = (case tally_view s c of Some x \<Rightarrow> if 0 < x then Some x else None | None \<Rightarrow> None)"
  proof (cases "mget (s_Tally s) c")
    case None
    then have "mget (s_Tally s') c = None" using T by (auto simp: map_of_eq_None_iff)
    with None show ?thesis by (simp add: tally_view_def)
  next
    case (Some r)
    have "distinct (mkeys (s_Tally s'))" using T D(2) by (simp add: distinct_map_filter)
    then have "mget (s_Tally s') c = (if 0 < deref s r then Some r else None)"
      using mem_map_of [of "s_Tally s'" c r] mem_map_of [OF D(2), of c] Some T
      by (cases "mget (s_Tally s') c") (auto dest!: map_of_SomeD)
    moreover have "deref s' r = deref s r" using F by (simp add: deref_def)
    ultimately show ?thesis using Some by (simp add: tally_view_def)
  qed
qed

lemma dropConfirmations_fields:
  fixes s :: Snapshot
  defines "f \<equiv> \<lambda>s :: Snapshot. \<lambda>n. if cfg_MaxSignerCount (s_config s) < s_Number s - n
     then s\<lparr>s_Confirmations := mdel n (s_Confirmations s)\<rparr> else s"
  shows "s_Tally (foldl f s ns) = s_Tally s" "s_Votes (foldl f s ns) = s_Votes s"
    "s_Voters (foldl f s ns) = s_Voters s" "s_ints (foldl f s ns) = s_ints s"
    "s_config (foldl f s ns) = s_config s" "s_Number (foldl f s ns) = s_Number s"
    "s_Confirmations (foldl f s ns) =
       filter (\<lambda>p. fst p \<in> set ns \<longrightarrow> \<not> cfg_MaxSignerCount (s_config s) < s_Number s - fst p) (s_Confirmations s)"
proof -
  have "s_Tally (foldl f s ns) = s_Tally s \<and> s_Votes (foldl f s ns) = s_Votes s \<and>
    s_Voters (foldl f s ns) = s_Voters s \<and> s_ints (foldl f s ns) = s_ints s \<and>
    s_config (foldl f s ns) = s_config s \<and> s_Number (foldl f s ns) = s_Number s \<and>
    s_Confirmations (foldl f s ns) =
       filter (\<lambda>p. fst p \<in> set ns \<longrightarrow> \<not> cfg_MaxSignerCount (s_config s) < s_Number s - fst p) (s_Confirmations s)"
  proof (induction ns arbitrary: s)
    case (Cons n ns)
    have "s_Tally (f s n) = s_Tally s" "s_Votes (f s n) = s_Votes s" "s_Voters (f s n) = s_Voters s"
      "s_ints (f s n) = s_ints s" "s_config (f s n) = s_config s" "s_Number (f s n) = s_Number s"
      by (auto simp: f_def)
    moreover have "s_Confirmations (f s n) =
        filter (\<lambda>p. fst p = n \<longrightarrow> \<not> cfg_MaxSignerCount (s_config s) < s_Number s - n) (s_Confirmations s)"
      by (auto simp: f_def AList.delete_eq case_prod_beta' intro!: filter_cong)
    ultimately show ?case using Cons.IH [of "f s n"] by (auto intro!: filter_cong)
  qed simp
  then show "s_Tally (foldl f s ns) = s_Tally s" "s_Votes (foldl f s ns) = s_Votes s"
    "s_Voters (foldl f s ns) = s_Voters s" "s_ints (foldl f s ns) = s_ints s"
    "s_config (foldl f s ns) = s_config s" "s_Number (foldl f s ns) = s_Number s"
    "s_Confirmations (foldl f s ns) =
       filter (\<lambda>p. fst p \<in> set ns \<longrightarrow> \<not> cfg_MaxSignerCount (s_config s) < s_Number s - fst p) (s_Confirmations s)"
    by blast+
qed

lemma updateSnapshotForExpired_ok:
  assumes "ledger s" "live s"
  shows "\<exists>s'. updateSnapshotForExpired s = Inr s' \<and> ledger s' \<and> live s' \<and> verifyTallyCnt s' = Inr () \<and>
    mget (s_Votes s') =
      (if cfg_MaxSignerCount (s_config s) \<le> of_int (int (length (s_Voters s)) - int (length (expiredVotes s)))
       then (mget (s_Votes s)) |` (- sv_Voter ` set (expiredVotes s)) else mget (s_Votes s))"
proof -
  let ?clear = "\<lambda>s. foldl (\<lambda>s :: Snapshot. \<lambda>n. if cfg_MaxSignerCount (s_config s) < s_Number s - n
     then s\<lparr>s_Confirmations := mdel n (s_Confirmations s)\<rparr> else s) s (mkeys (s_Confirmations s))"
  have fin: "\<exists>s'. Inr (foldl removeZeroTally (?clear s1) (s_Tally (?clear s1))) = (Inr s' :: alien_err + Snapshot) \<and>
      ledger s' \<and> live s' \<and> verifyTallyCnt s' = Inr () \<and> s_Votes s' = s_Votes s1"
    if "ledger s1" "live s1" for s1
  proof -
    have "ledger (?clear s1)" "live (?clear s1)"
      using that ledger_cong [of "?clear s1" s1] by (simp_all add: dropConfirmations_fields)
    note Z = removeZeroTally_all(1-4) [OF this]
    then show ?thesis
      using verifyTallyCnt_ok [of "foldl removeZeroTally (?clear s1) (s_Tally (?clear s1))"]
      by (simp add: ledger_def dropConfirmations_fields)
  qed
  have "\<forall>v \<in> set (expiredVotes s). mget (s_Votes s) (sv_Voter v) = Some v"
    using expiredVotes_present(2) [OF assms(2) ledgerD(3) [OF assms(1)]] by blast
  from removeExpiredVotes_ok [OF assms expiredVotes_present(1) [OF assms(2) ledgerD(3) [OF assms(1)]] this]
  obtain s1 where s1: "foldR removeExpiredVote s (expiredVotes s) = Inr s1" "ledger s1" "live s1"
      "mget (s_Votes s1) = (mget (s_Votes s)) |` (- sv_Voter ` set (expiredVotes s))" by blast
  show ?thesis
  proof (cases "cfg_MaxSignerCount (s_config s) \<le> of_int (int (length (s_Voters s)) - int (length (expiredVotes s)))")
    case True
    then show ?thesis using s1 fin [OF s1(2,3)] by (auto simp: updateSnapshotForExpired_def Let_def)
  next
    case False
    then show ?thesis using fin [OF assms] by (auto simp: updateSnapshotForExpired_def Let_def)
  qed
qed

section \<open>The first vote for a new candidate\<close>

text \<open>
  The branch without a tally entry stores the stake's own cell in the tally.  The numbers
  are right afterwards, but the cell is shared, so the invariant for further updates in
  place is lost until the snapshot is copied.
\<close>

lemma ledger_unvoted: "ledger s \<Longrightarrow> c \<notin> fst ` set (s_Tally s) \<Longrightarrow> c \<notin> sv_Candidate ` snd ` set (s_Votes s)"
  unfolding ledger_def backed_def by blast

lemma vote_new_candidate:
  assumes L: "ledger s" and c: "v_Candidate vote \<notin> fst ` set (s_Tally s)"
  shows "\<exists>s'. updateSnapshotByVote pd n s vote = Inr s' \<and> refs_ok s' \<and> tally_exact s' \<and> backed s' \<and> \<not> unshared s'"
proof -
  let ?V = "s_Votes s" and ?T = "s_Tally s" and ?r = "length (s_ints s)" and ?c = "v_Candidate vote"
  let ?k = "v_Voter vote" and ?x = "v_Stake vote"
  let ?w = "\<lparr>sv_Voter = ?k, sv_Candidate = ?c, sv_Stake = ?r\<rparr>"
  note D = ledgerD [OF L]
  have Tc: "mget ?T ?c = None" using c by (simp add: map_of_eq_None_iff)
  define h where "h = (case mget ?V ?k of None \<Rightarrow> s_ints s @ [?x]
    | Some v \<Rightarrow> (case mget ?T (sv_Candidate v) of None \<Rightarrow> s_ints s @ [?x]
        | Some q \<Rightarrow> (s_ints s @ [?x])[q := s_ints s ! q - s_ints s ! sv_Stake v]))"
  define s' where "s' = s\<lparr>s_ints := h, s_Tally := mput ?c ?r ?T,
    s_Candidates := (if pd then s_Candidates s else mput ?c candidateStateNormal (s_Candidates s)),
    s_Votes := mput ?k ?w ?V, s_Voters := mput ?k n (s_Voters s)\<rparr>"
  have e: "updateSnapshotByVote pd n s vote = Inr s'"
  proof (cases "mget ?V ?k")
    case None
    then show ?thesis using Tc
      by (simp add: updateSnapshotByVote_def new_int_def mhas_def s'_def h_def Let_def)
  next
    case (Some v)
    then obtain q where q: "mget ?T (sv_Candidate v) = Some q" using tally_entry [OF L] by blast
    have "q < ?r" "sv_Stake v < ?r" using Tally_ref_less [OF L q] D(5) [OF map_of_snd [OF Some]] by simp_all
    then show ?thesis using Some Tc q
      by (simp add: updateSnapshotByVote_def new_int_def mhas_def s'_def h_def Let_def tally_sub_def
          set_int_def deref_def nth_append)
  qed
  have s'V: "s_Votes s' = mput ?k ?w ?V" and s'i: "s_ints s' = h" by (simp_all add: s'_def)
  have len: "length h = Suc ?r" by (simp add: h_def split: option.splits)
  define d where "d a = (case mget ?V ?k of None \<Rightarrow> 0 | Some v \<Rightarrow> contrib (s_ints s) a ?k v)" for a
  have cells: "h ! r = s_ints s ! r - d a" if "mget ?T a = Some r" for a r
  proof -
    have rl: "r < ?r" using Tally_ref_less [OF L that] .
    show ?thesis
    proof (cases "mget ?V ?k")
      case None
      then show ?thesis using rl by (simp add: h_def d_def nth_append)
    next
      case (Some v)
      then obtain q where q: "mget ?T (sv_Candidate v) = Some q" using tally_entry [OF L] by blast
      have "q < ?r" using Tally_ref_less [OF L q] .
      then show ?thesis using Some q map_of_inj [OF D(4) that q] rl
        by (auto simp: h_def d_def nth_append nth_list_update)
    qed
  qed
  have untouched: "h ! i = (s_ints s @ [?x]) ! i" if "i \<notin> snd ` set ?T" for i
  proof -
    have "q \<noteq> i" if "mget ?T b = Some q" for b q using map_of_snd [OF that] \<open>i \<notin> snd ` set ?T\<close> by blast
    then show ?thesis by (auto simp: h_def nth_list_update_neq split: option.splits)
  qed
  have new: "h ! ?r = ?x" using untouched [of ?r] D(6) [of ?r] by auto
  have keep: "h ! sv_Stake v = s_ints s ! sv_Stake v" if "v \<in> snd ` set ?V" for v
    using untouched [OF D(7) [OF that]] D(5) [OF that] by (simp add: nth_append)
  have sum: "votesum s' a = votesum s a - d a + (if a = ?c then ?x else 0)" for a
  proof -
    have "votesum s' a = msum (contrib h a) (mput ?k ?w ?V)" unfolding votesum_contrib s'V s'i ..
    also have "\<dots> = msum (contrib h a) ?V - (case mget ?V ?k of None \<Rightarrow> 0 | Some v \<Rightarrow> contrib h a ?k v)
        + contrib h a ?k ?w" by (rule msum_mput [OF D(1)])
    also have "msum (contrib h a) ?V = votesum s a"
      unfolding votesum_contrib using keep by (intro msum_cong) (metis imageI snd_conv)
    also have "(case mget ?V ?k of None \<Rightarrow> 0 | Some v \<Rightarrow> contrib h a ?k v) = d a"
      using keep by (auto simp: d_def map_of_snd split: option.splits)
    finally show ?thesis using new by simp
  qed
  have unv: "?c \<notin> sv_Candidate ` snd ` set ?V" using ledger_unvoted [OF L c] .
  have c0: "votesum s ?c = 0" using votesum_unvoted [OF unv] .
  have dc: "d ?c = 0"
  proof (cases "mget ?V ?k")
    case (Some v)
    then have "sv_Candidate v \<noteq> ?c" using unv map_of_snd [OF Some] by (metis imageI)
    with Some show ?thesis by (simp add: d_def)
  qed (simp add: d_def)
  have "tally_exact s'"
    unfolding tally_exact_def
  proof clarify
    fix a r
    assume "(a, r) \<in> set (s_Tally s')"
    then have ar: "a = ?c \<and> r = ?r \<or> (a, r) \<in> set ?T"
      using set_mput [of ?c ?r ?T] by (auto simp: s'_def)
    then show "deref s' r = votesum s' a"
    proof
      assume "a = ?c \<and> r = ?r"
      then show ?thesis using new sum [of ?c] c0 dc by (simp add: deref_def s'_def)
    next
      assume m: "(a, r) \<in> set ?T"
      then have "a \<noteq> ?c" using c by force
      moreover have "s_ints s ! r = votesum s a" using D(8) [OF m] by (simp add: deref_def)
      ultimately show ?thesis using cells [of a r] sum [of a] m D(2) by (simp add: deref_def s'_def)
    qed
  qed
  moreover have "refs_ok s'"
  proof -
    have "sv_Stake v < Suc ?r" if "v \<in> snd ` set (mput ?k ?w ?V)" for v
      using snd_mput [OF that] D(5) [of v] by (metis SVote.select_convs(3) less_SucI lessI)
    moreover have "r < Suc ?r" if "r \<in> snd ` set (mput ?c ?r ?T)" for r
      using snd_mput [OF that] D(6) [of r] by (metis less_SucI lessI)
    ultimately show ?thesis using D(1-3) len by (simp add: refs_ok_def s'_def)
  qed
  moreover have "backed s'"
  proof -
    have "sv_Candidate v \<in> insert ?c (fst ` set ?T)" if "v \<in> snd ` set (mput ?k ?w ?V)" for v
      using snd_mput [OF that] D(9) [of v] by (metis SVote.select_convs(2) insertCI)
    then show ?thesis by (auto simp: backed_def s'_def gomap_simps)
  qed
  moreover have "\<not> unshared s'"
  proof -
    have "?w \<in> snd ` set (s_Votes s')" "?r \<in> snd ` set (s_Tally s')"
      using map_of_snd [of "s_Votes s'" ?k ?w] map_of_snd [of "s_Tally s'" ?c ?r] by (simp_all add: s'_def gomap_simps)
    then have "?r \<in> sv_Stake ` snd ` set (s_Votes s') \<inter> snd ` set (s_Tally s')" by force
    then show ?thesis unfolding unshared_def by blast
  qed
  ultimately show ?thesis using e by blast
qed

text \<open>
  A second vote for that candidate in the same block then adds its stake to the first
  voter's stake as well, and the recount of the votes no longer agrees with the tally.
\<close>

lemma two_votes_new_candidate:
  assumes L: "ledger s" and c: "c \<notin> fst ` set (s_Tally s)" and v: "v1 \<noteq> v2"
    and n1: "v1 \<notin> fst ` set (s_Votes s)" and n2: "v2 \<notin> fst ` set (s_Votes s)" and y: "y \<noteq> 0"
  shows "\<exists>s'. updateSnapshotByVotes pd [\<lparr>v_Voter = v1, v_Candidate = c, v_Stake = x\<rparr>,
      \<lparr>v_Voter = v2, v_Candidate = c, v_Stake = y\<rparr>] n s = Inr s' \<and>
    vote_view s' v1 = Some (v1, c, x + y) \<and> verifyTallyCnt s' = Inl errIncorrectTallyCount"
proof -
  let ?r = "length (s_ints s)"
  note D = ledgerD [OF L]
  have Tc: "mget (s_Tally s) c = None" and V1: "mget (s_Votes s) v1 = None" and V2: "mget (s_Votes s) v2 = None"
    using c n1 n2 by (simp_all add: map_of_eq_None_iff)
  define s' where "s' = s\<lparr>s_ints := s_ints s @ [x + y, y], s_Tally := mput c ?r (s_Tally s),
    s_Candidates := (if pd then s_Candidates s else mput c candidateStateNormal (s_Candidates s)),
    s_Votes := mput v2 \<lparr>sv_Voter = v2, sv_Candidate = c, sv_Stake = Suc ?r\<rparr>
      (mput v1 \<lparr>sv_Voter = v1, sv_Candidate = c, sv_Stake = ?r\<rparr> (s_Votes s)),
    s_Voters := mput v2 n (mput v1 n (s_Voters s))\<rparr>"
  have e: "updateSnapshotByVotes pd [\<lparr>v_Voter = v1, v_Candidate = c, v_Stake = x\<rparr>,
      \<lparr>v_Voter = v2, v_Candidate = c, v_Stake = y\<rparr>] n s = Inr s'"
    using Tc V1 V2 v
    by (simp add: updateSnapshotByVotes_def updateSnapshotByVote_def new_int_def mhas_def gomap_simps
        tally_add_def set_int_def deref_def nth_append list_update_append s'_def Let_def)
  have V0: "msum (contrib (s_ints s @ [x + y, y]) c) (s_Votes s) = 0"
  proof -
    have "\<forall>w \<in> snd ` set (s_Votes s). sv_Stake w < ?r" using D(5) by blast
    from msum_contrib_append [OF this] show ?thesis
      using votesum_unvoted [OF ledger_unvoted [OF L c]] unfolding votesum_contrib by simp
  qed
  have "votesum s' c = x + y + y"
  proof -
    let ?h = "s_ints s @ [x + y, y]"
    let ?w1 = "\<lparr>sv_Voter = v1, sv_Candidate = c, sv_Stake = ?r\<rparr>" and ?w2 = "\<lparr>sv_Voter = v2, sv_Candidate = c, sv_Stake = Suc ?r\<rparr>"
    let ?V1 = "mput v1 ?w1 (s_Votes s)"
    have "s_ints s' = ?h" "s_Votes s' = mput v2 ?w2 ?V1" by (simp_all add: s'_def)
    then have "votesum s' c = msum (contrib ?h c) (mput v2 ?w2 ?V1)" unfolding votesum_contrib by metis
    also have "\<dots> = msum (contrib ?h c) ?V1 + contrib ?h c v2 ?w2"
      using V2 v D(1) by (subst msum_mput) (simp_all add: gomap_simps)
    also have "msum (contrib ?h c) ?V1 = msum (contrib ?h c) (s_Votes s) + contrib ?h c v1 ?w1"
      using V1 D(1) by (subst msum_mput) simp_all
    finally show ?thesis using V0 by (simp add: nth_append)
  qed
  moreover have "(c, ?r) \<in> set (s_Tally s')"
    by (rule map_of_SomeD) (simp add: s'_def gomap_simps)
  moreover have "deref s' ?r = x + y" by (simp add: deref_def s'_def nth_append)
  ultimately have "verifyTallyCnt s' \<noteq> Inr ()" unfolding verifyTallyCnt_iff using y by fastforce
  moreover have "vote_view s' v1 = Some (v1, c, x + y)"
    using v by (simp add: vote_view_def s'_def gomap_simps deref_def nth_append)
  ultimately show ?thesis using e verifyTallyCnt_error by blast
qed

section \<open>A voter without a tally\<close>

text \<open>
  When the stake of the only voter of a candidate falls to zero, the expiry step deletes the
  tally entry but keeps the vote.  The next change of that voter's balance dereferences the
  missing entry.
\<close>

lemma MPVote_unbacked:
  "mget (s_Votes s) (v_Voter vote) = Some v \<Longrightarrow> mget (s_Tally s) (sv_Candidate v) = None \<Longrightarrow>
   updateSnapshotByMPVote s vote = Inl PanicNil"
  by (simp add: updateSnapshotByMPVote_def new_int_def tally_sub_def)

lemma spent_voter_panics:
  assumes "newSnapshot now cfg h [\<lparr>v_Voter = a, v_Candidate = a, v_Stake = x\<rparr>] lcrs = Inr s"
  shows "\<exists>s1 s2.
    updateSnapshotByMPVotes [\<lparr>v_Voter = a, v_Candidate = 0, v_Stake = 0\<rparr>] s = Inr s1 \<and>
    updateSnapshotForExpired s1 = Inr s2 \<and> verifyTallyCnt s2 = Inr () \<and>
    updateSnapshotByMPVotes [\<lparr>v_Voter = a, v_Candidate = 0, v_Stake = y\<rparr>] (Snapshot_copy s2) = Inl PanicNil"
proof -
  have s: "s_Votes s = [(a, \<lparr>sv_Voter = a, sv_Candidate = a, sv_Stake = 0\<rparr>)]" "s_Tally s = [(a, 1)]"
    "s_ints s = [x, x]" "s_Voters s = [(a, 0)]" "s_Number s = 0" "s_Confirmations s = []" "s_SCCoinbase s = []"
    using assms
    by (auto simp: newSnapshot_def newSnapshot_vote_def new_int_def set_int_def deref_def mhas_def Let_def
        split: if_splits)
  let ?v = "\<lparr>sv_Voter = a, sv_Candidate = a, sv_Stake = 2\<rparr>"
  let ?s1 = "s\<lparr>s_ints := [x, 0, 0], s_Votes := [(a, ?v)]\<rparr>"
  have 1: "updateSnapshotByMPVotes [\<lparr>v_Voter = a, v_Candidate = 0, v_Stake = 0\<rparr>] s = Inr ?s1"
    by (simp add: updateSnapshotByMPVotes_def updateSnapshotByMPVote_def new_int_def tally_sub_def tally_add_def
        set_int_def deref_def s)
  have "\<not> cfg_Epoch (s_config s) < 0" by (simp add: word_less_nat_alt)
  then have "expiredVotes ?s1 = []" by (simp add: expiredVotes_def expired_of_def s Uint64_def)
  then have 2: "updateSnapshotForExpired ?s1 = Inr (?s1\<lparr>s_Tally := []\<rparr>)"
    by (simp add: updateSnapshotForExpired_def Let_def s removeZeroTally_def deref_def mhas_def)
  have 3: "verifyTallyCnt (?s1\<lparr>s_Tally := []\<rparr>) = Inr ()" by (simp add: verifyTallyCnt_def Let_def)
  have "updateSnapshotByMPVote (Snapshot_copy (?s1\<lparr>s_Tally := []\<rparr>)) \<lparr>v_Voter = a, v_Candidate = 0, v_Stake = y\<rparr> = Inl PanicNil"
    by (rule MPVote_unbacked) (simp_all add: copy_fields)
  with 1 2 3 show ?thesis by (auto simp: updateSnapshotByMPVotes_def)
qed

section \<open>The genesis snapshot\<close>

lemma mput_new: "k \<notin> fst ` set m \<Longrightarrow> mput k v m = m @ [(k, v)]"
  by (induction m) auto

lemma newSnapshot_vote_ledger:
  assumes L: "ledger s" and k: "v_Voter vote \<notin> fst ` set (s_Votes s)"
  shows "ledger (newSnapshot_vote s vote)"
    "fst ` set (s_Votes (newSnapshot_vote s vote)) = insert (v_Voter vote) (fst ` set (s_Votes s))"
proof -
  let ?k = "v_Voter vote" and ?c = "v_Candidate vote" and ?x = "v_Stake vote" and ?r = "length (s_ints s)"
  let ?w = "\<lparr>sv_Voter = ?k, sv_Candidate = ?c, sv_Stake = ?r\<rparr>"
  note D = ledgerD [OF L]
  have K: "mget (s_Votes s) ?k = None" using k by (simp add: map_of_eq_None_iff)
  show keys: "fst ` set (s_Votes (newSnapshot_vote s vote)) = insert ?k (fst ` set (s_Votes s))"
    by (auto simp: newSnapshot_vote_def new_int_def set_int_def Let_def gomap_simps split: option.splits)
  show "ledger (newSnapshot_vote s vote)"
  proof (cases "mget (s_Tally s) ?c")
    case (Some q)
    have "q < ?r" using Tally_ref_less [OF L Some] .
    then have f: "s_Tally (newSnapshot_vote s vote) = s_Tally (recast ?k ?c ?x s)"
      "s_Votes (newSnapshot_vote s vote) = s_Votes (recast ?k ?c ?x s)"
      "s_ints (newSnapshot_vote s vote) = s_ints (recast ?k ?c ?x s)"
      "s_Voters (newSnapshot_vote s vote) = mput ?k 0 (s_Voters s)"
      using Some K by (simp_all add: newSnapshot_vote_def new_int_def set_int_def deref_def mhas_def recast_def
          Let_def nth_append)
    have "?c \<in> fst ` set (s_Tally s)" using Some by (metis domI dom_map_of_conv_image_fst)
    then have "ledger ((recast ?k ?c ?x s)\<lparr>s_Voters := mput ?k 0 (s_Voters s)\<rparr>)"
      using ledger_recast [OF L] D(3) by simp
    then show ?thesis
      using ledger_cong(1) [of "newSnapshot_vote s vote" "(recast ?k ?c ?x s)\<lparr>s_Voters := mput ?k 0 (s_Voters s)\<rparr>"] f
      by simp
  next
    case None
    let ?h = "s_ints s @ [?x, ?x]"
    have f: "s_Tally (newSnapshot_vote s vote) = mput ?c (Suc ?r) (s_Tally s)"
      "s_Votes (newSnapshot_vote s vote) = mput ?k ?w (s_Votes s)"
      "s_ints (newSnapshot_vote s vote) = ?h"
      "s_Voters (newSnapshot_vote s vote) = mput ?k 0 (s_Voters s)"
      using None K by (simp_all add: newSnapshot_vote_def new_int_def set_int_def deref_def mhas_def
          Let_def nth_append gomap_simps list_update_append)
    have c: "?c \<notin> fst ` set (s_Tally s)" using None by (simp add: map_of_eq_None_iff)
    have sum: "votesum (newSnapshot_vote s vote) a = votesum s a + (if a = ?c then ?x else 0)" for a
    proof -
      have "votesum (newSnapshot_vote s vote) a = msum (contrib ?h a) (mput ?k ?w (s_Votes s))"
        unfolding votesum_contrib f ..
      also have "\<dots> = msum (contrib ?h a) (s_Votes s) + contrib ?h a ?k ?w"
        using K by (subst msum_mput [OF D(1)]) simp
      also have "msum (contrib ?h a) (s_Votes s) = votesum s a"
        unfolding votesum_contrib using D(5) by (intro msum_contrib_append) blast
      finally show ?thesis by (simp add: nth_append)
    qed
    show ?thesis
    proof (rule ledgerI, goal_cases)
      case 4
      have "Suc ?r \<notin> snd ` set (s_Tally s)" using D(6) [of "Suc ?r"] by auto
      moreover have "map snd (mput ?c (Suc ?r) (s_Tally s)) = map snd (s_Tally s) @ [Suc ?r]"
        using c by (simp add: mput_new)
      ultimately show ?case using D(4) f by simp
    next
      case (5 j w)
      then have w: "w = ?w \<or> w \<in> snd ` set (s_Votes s)"
        using set_mput [of ?k ?w "s_Votes s"] f by force
      have T: "snd ` set (mput ?c (Suc ?r) (s_Tally s)) \<subseteq> insert (Suc ?r) (snd ` set (s_Tally s))"
        using snd_mput [of _ ?c "Suc ?r" "s_Tally s"] by (intro subsetI) (metis insertCI)
      from w show ?case
      proof
        assume "w = ?w"
        moreover have "?r \<notin> snd ` set (s_Tally s)" using D(6) [of ?r] by blast
        then have "?r \<notin> snd ` set (mput ?c (Suc ?r) (s_Tally s))" by (intro contra_subsetD [OF T]) simp
        ultimately show ?thesis using f by (simp add: gomap_simps)
      next
        assume v: "w \<in> snd ` set (s_Votes s)"
        have "sv_Stake w \<notin> snd ` set (mput ?c (Suc ?r) (s_Tally s))"
          using D(5,7) [OF v] by (intro contra_subsetD [OF T]) simp
        then show ?thesis using D(5,9) [OF v] f by (simp add: gomap_simps)
      qed
    next
      case (6 a q)
      then have "a = ?c \<and> q = Suc ?r \<or> (a, q) \<in> set (s_Tally s)"
        using set_mput [of ?c "Suc ?r" "s_Tally s"] f by auto
      then show ?case
      proof
        assume "a = ?c \<and> q = Suc ?r"
        then show ?thesis using sum [of ?c] votesum_unvoted [OF ledger_unvoted [OF L c]] f
          by (simp add: deref_def nth_append)
      next
        assume m: "(a, q) \<in> set (s_Tally s)"
        then have "q < ?r" "a \<noteq> ?c" using D(6) [of q] c by force+
        then show ?thesis using sum [of a] D(8) [OF m] f by (simp add: deref_def nth_append)
      qed
    qed (use D f in simp_all)
  qed
qed

lemma newSnapshot_votes_ledger:
  "ledger s \<Longrightarrow> distinct (map v_Voter votes) \<Longrightarrow> v_Voter ` set votes \<inter> fst ` set (s_Votes s) = {} \<Longrightarrow>
   ledger (foldl newSnapshot_vote s votes)"
proof (induction votes arbitrary: s)
  case Nil
  then show ?case by simp
next
  case (Cons vote votes)
  then have "v_Voter vote \<notin> fst ` set (s_Votes s)" by simp
  note N = newSnapshot_vote_ledger [OF Cons.prems(1) this]
  have "v_Voter ` set votes \<inter> fst ` set (s_Votes (newSnapshot_vote s vote)) = {}"
    using Cons.prems(2,3) N(2) by auto
  then show ?case using Cons.IH [OF N(1)] Cons.prems(2) by simp
qed

lemma ledger_empty: "s_Votes s = [] \<Longrightarrow> s_Tally s = [] \<Longrightarrow> s_Voters s = [] \<Longrightarrow> ledger s"
  by (rule ledgerI) simp_all

lemma newSnapshot_ledger:
  assumes "distinct (map v_Voter votes)" "newSnapshot now cfg h votes lcrs = Inr s"
  shows "ledger s"
proof -
  have "ledger (s\<lparr>s_Signers := g\<rparr>) = ledger s" for s :: Snapshot and g
    by (rule ledger_cong(1)) simp_all
  with assms newSnapshot_votes_ledger [OF ledger_empty assms(1)] show ?thesis
    by (auto simp: newSnapshot_def Let_def split: if_splits)
qed

section \<open>Ballots with a positive stake\<close>

lemma recast_untouched:
  assumes "i \<notin> snd ` set (s_Tally s)"
  shows "deref (recast voter c x s) i = (s_ints s @ [x]) ! i"
proof -
  have ne: "q \<noteq> i" if "mget (s_Tally s) b = Some q" for b q using map_of_snd [OF that] assms by blast
  show ?thesis by (auto simp: recast_def Let_def deref_def nth_list_update_neq ne split: option.splits)
qed

lemma live_recast:
  assumes L: "ledger s" and l: "live s" and x: "0 < x"
  shows "live (recast voter c x s)"
  unfolding live_def
proof clarify
  fix a w
  let ?r = "length (s_ints s)"
  assume "(a, w) \<in> set (s_Votes (recast voter c x s))"
  then have "(a, w) \<in> set (mput voter \<lparr>sv_Voter = voter, sv_Candidate = c, sv_Stake = ?r\<rparr> (s_Votes s))"
    by (simp add: recast_def Let_def)
  from subsetD [OF set_mput this]
  consider "a = voter" "w = \<lparr>sv_Voter = voter, sv_Candidate = c, sv_Stake = ?r\<rparr>" | "(a, w) \<in> set (s_Votes s)"
    by (elim insertE) simp_all
  then show "sv_Voter w = a \<and> 0 < deref (recast voter c x s) (sv_Stake w)"
  proof cases
    case 1
    have "?r \<notin> snd ` set (s_Tally s)" using ledgerD(6) [OF L, of ?r] by blast
    then show ?thesis using 1 x by (simp add: recast_untouched)
  next
    case 2
    then have v: "w \<in> snd ` set (s_Votes s)" by force
    have "deref (recast voter c x s) (sv_Stake w) = deref s (sv_Stake w)"
      using ledgerD(5,7) [OF L v] recast_untouched by (simp add: nth_append deref_def)
    then show ?thesis using l 2 by (auto simp: live_def)
  qed
qed

text \<open>
  The extended contract: a ballot with a positive stake keeps every vote positive and filed
  under its voter, and no ballot removes a tally entry.
\<close>

locale live_ballot_step = ballot_step step admissible
  for step :: "Snapshot \<Rightarrow> 'b \<Rightarrow> alien_err + Snapshot" and admissible :: "Snapshot \<Rightarrow> 'b \<Rightarrow> bool" +
  fixes stake :: "'b \<Rightarrow> int"
  assumes step_live: "ledger s \<Longrightarrow> live s \<Longrightarrow> admissible s x \<Longrightarrow> 0 < stake x \<Longrightarrow> step s x = Inr s' \<Longrightarrow> live s'"
    and step_tally: "ledger s \<Longrightarrow> admissible s x \<Longrightarrow> step s x = Inr s' \<Longrightarrow> s_Tally s' = s_Tally s"
begin

lemma batch_live:
  "ledger s \<Longrightarrow> live s \<Longrightarrow> list_all (\<lambda>x. admissible s x \<and> 0 < stake x) xs \<Longrightarrow>
   \<exists>s'. foldR step s xs = Inr s' \<and> ledger s' \<and> live s' \<and> s_Tally s' = s_Tally s"
proof (induction xs arbitrary: s)
  case Nil
  then show ?case by simp
next
  case (Cons x xs)
  then have L: "ledger s" and l: "live s" and x: "admissible s x" "0 < stake x"
    and xs: "list_all (\<lambda>x. admissible s x \<and> 0 < stake x) xs" by simp_all
  obtain s1 where s1: "step s x = Inr s1" using step_ok [OF L x(1)] by blast
  have "list_all (\<lambda>x. admissible s1 x \<and> 0 < stake x) xs"
    using xs step_admissible [OF L x(1) s1] by (simp add: list_all_iff)
  with Cons.IH [OF step_ledger [OF L x(1) s1] step_live [OF L l x s1]] s1 step_tally [OF L x(1) s1]
  show ?case by simp
qed

end

interpretation votes: live_ballot_step "updateSnapshotByVote pd n" has_tally v_Stake for pd n
proof
  fix s :: Snapshot and vote s'
  assume L: "ledger s" and t: "has_tally s vote" and s1: "updateSnapshotByVote pd n s vote = Inr s'"
  then have s': "s' = (recast (v_Voter vote) (v_Candidate vote) (v_Stake vote) s)
           \<lparr>s_Voters := mput (v_Voter vote) n (s_Voters s)\<rparr>"
    using updateSnapshotByVote_recast [OF L t [unfolded has_tally_def]] by simp
  then show "s_Tally s' = s_Tally s" by simp
  assume "live s" "0 < v_Stake vote"
  from live_recast [OF L this, of "v_Voter vote" "v_Candidate vote"] s' show "live s'"
    by (simp add: live_def deref_def)
qed

interpretation mpvotes: live_ballot_step updateSnapshotByMPVote "\<lambda>s vote. True" v_Stake
proof
  fix s :: Snapshot and vote s'
  assume L: "ledger s" and s1: "updateSnapshotByMPVote s vote = Inr s'"
  show "s_Tally s' = s_Tally s"
    using s1 updateSnapshotByMPVote_recast [OF L]
    by (cases "mget (s_Votes s) (v_Voter vote)") (auto simp: updateSnapshotByMPVote_def new_int_def)
  assume l: "live s" and p: "0 < v_Stake vote"
  show "live s'"
  proof (cases "mget (s_Votes s) (v_Voter vote)")
    case None
    then have "s' = s\<lparr>s_ints := s_ints s @ [v_Stake vote]\<rparr>" using s1 by (simp add: updateSnapshotByMPVote_def new_int_def)
    moreover have "deref (s\<lparr>s_ints := s_ints s @ [v_Stake vote]\<rparr>) (sv_Stake w) = deref s (sv_Stake w)"
      if "(a, w) \<in> set (s_Votes s)" for a w
      using ledgerD(5) [OF L, of w] that by (force simp: deref_def nth_append)
    ultimately show ?thesis using l by (fastforce simp: live_def)
  next
    case (Some v)
    then have "s' = recast (v_Voter vote) (sv_Candidate v) (v_Stake vote) s"
      using s1 updateSnapshotByMPVote_recast [OF L Some] by simp
    then show ?thesis using live_recast [OF L l p] by simp
  qed
qed

lemma copy_live: "live s \<Longrightarrow> distinct (mkeys (s_Votes s)) \<Longrightarrow> live (Snapshot_copy s)"
  unfolding live_def
proof clarify
  fix a w
  assume l: "\<forall>(k, v) \<in> set (s_Votes s). sv_Voter v = k \<and> 0 < deref s (sv_Stake v)" and d: "distinct (mkeys (s_Votes s))"
    and "(a, w) \<in> set (s_Votes (Snapshot_copy s))"
  then have "mget (s_Votes (Snapshot_copy s)) a = Some w" using copy_keys by simp
  then have "vote_view (Snapshot_copy s) a = Some (sv_Voter w, sv_Candidate w, deref (Snapshot_copy s) (sv_Stake w))"
    by (simp add: vote_view_def)
  then have "vote_view s a = Some (sv_Voter w, sv_Candidate w, deref (Snapshot_copy s) (sv_Stake w))"
    by (simp add: copy_vote_view)
  then show "sv_Voter w = a \<and> 0 < deref (Snapshot_copy s) (sv_Stake w)"
    using l by (fastforce simp: vote_view_def dest!: map_of_SomeD)
qed

end
