(* ===== verification/Alien_Proposal.thy ===== *)
theory Alien_Proposal
  imports Alien_Ledger
begin

text \<open>
  Proposals of the voting snapshot (\<open>src/gttc/consensus/alien/snapshot.go\<close>): how a block's
  proposals and declarations enter the snapshot, and how a proposal is decided.  The engine's
  package variables \<open>candidateNeedPD\<close> and \<open>minerRewardPerThousand\<close> are an argument and, since
  \<open>calculateProposalResult\<close> writes it, a threaded value.
\<close>

section \<open>Definitions\<close>

definition proposalTypeCandidateAdd :: u64 where "proposalTypeCandidateAdd = 1"
definition proposalTypeCandidateRemove :: u64 where "proposalTypeCandidateRemove = 2"
definition proposalTypeMinerRewardDistributionModify :: u64 where "proposalTypeMinerRewardDistributionModify = 3"
definition proposalTypeSideChainAdd :: u64 where "proposalTypeSideChainAdd = 4"
definition proposalTypeSideChainRemove :: u64 where "proposalTypeSideChainRemove = 5"

definition zero_Proposal :: Proposal where
  "zero_Proposal = \<lparr>p_Hash = 0, p_ValidationLoopCnt = 0, p_ProposalType = 0, p_Proposer = 0, p_Candidate = 0,
    p_MinerRewardPerThousand = 0, p_SCHash = 0, p_SCBlockCountPerPeriod = 0, p_SCBlockRewardPerPeriod = 0,
    p_Declares = [], p_ReceivedNumber = 0\<rparr>"

text \<open>
  The \<open>range\<close> loop has one variable \<open>proposal\<close> for all its rounds (the language rule before
  Go 1.22), and the map stores its address: one object, \<open>r\<close>, that every round overwrites.
\<close>

definition updateSnapshotByProposal :: "nat \<Rightarrow> int \<Rightarrow> Snapshot \<Rightarrow> Proposal \<Rightarrow> Snapshot" where
  "updateSnapshotByProposal r headerNumber s proposal =
    (let p = proposal\<lparr>p_ReceivedNumber := headerNumber\<rparr>
     in s\<lparr>s_props := (s_props s)[r := p], s_Proposals := mput (p_Hash p) r (s_Proposals s)\<rparr>)"

definition updateSnapshotByProposals :: "Proposal list \<Rightarrow> int \<Rightarrow> Snapshot \<Rightarrow> Snapshot" where
  "updateSnapshotByProposals proposals headerNumber s =
    foldl (updateSnapshotByProposal (length (s_props s)) headerNumber)
      (s\<lparr>s_props := s_props s @ [zero_Proposal]\<rparr>) proposals"

text \<open>The last block at which a declaration for the proposal counts; 64-bit arithmetic.\<close>

definition proposal_end :: "Snapshot \<Rightarrow> Proposal \<Rightarrow> u64" where
  "proposal_end s p = Uint64 (p_ReceivedNumber p) + p_ValidationLoopCnt p * cfg_MaxSignerCount (s_config s)"

definition updateSnapshotByDeclare :: "int \<Rightarrow> Snapshot \<Rightarrow> Declare \<Rightarrow> Snapshot" where
  "updateSnapshotByDeclare headerNumber s declare =
    (case mget (s_Proposals s) (d_ProposalHash declare) of
       None \<Rightarrow> s
     | Some r \<Rightarrow>
         (let proposal = s_props s ! r in
          if proposal_end s proposal < Uint64 headerNumber \<or> \<not> isCandidate s (d_Declarer declare) then s
          else if d_Declarer declare \<in> d_Declarer ` set (p_Declares proposal) then s
          else s\<lparr>s_props := (s_props s)[r := proposal\<lparr>p_Declares := p_Declares proposal @
            [\<lparr>d_ProposalHash = d_ProposalHash declare, d_Declarer = d_Declarer declare,
              d_Decision = d_Decision declare\<rparr>]\<rparr>]\<rparr>))"

definition updateSnapshotByDeclares :: "Declare list \<Rightarrow> int \<Rightarrow> Snapshot \<Rightarrow> Snapshot" where
  "updateSnapshotByDeclares declares headerNumber s = foldl (updateSnapshotByDeclare headerNumber) s declares"

definition judegmentStake :: "Snapshot \<Rightarrow> int" where
  "judegmentStake s = (\<Sum>(c, r) \<leftarrow> s_Tally s. deref s r) * 2 div 3"

definition yesDeclareStake :: "Snapshot \<Rightarrow> Proposal \<Rightarrow> int" where
  "yesDeclareStake s proposal =
    foldl (\<lambda>acc d. if d_Decision d
      then (case mget (s_Tally s) (d_Declarer d) of Some r \<Rightarrow> acc + deref s r | None \<Rightarrow> acc)
      else acc) 0 (p_Declares proposal)"

text \<open>The effect of an accepted proposal, on the snapshot and on \<open>minerRewardPerThousand\<close>.\<close>

definition enactProposal :: "bool \<Rightarrow> Proposal \<Rightarrow> Snapshot \<times> u64 \<Rightarrow> Snapshot \<times> u64" where
  "enactProposal candidateNeedPD p sm =
    (let (s, mrpt) = sm in
     if p_ProposalType p = proposalTypeCandidateAdd then
       (if candidateNeedPD then s\<lparr>s_Candidates := mput (p_Candidate p) candidateStateNormal (s_Candidates s)\<rparr> else s, mrpt)
     else if p_ProposalType p = proposalTypeCandidateRemove then
       (if mhas (s_Candidates s) (p_Candidate p) \<and> candidateNeedPD
        then s\<lparr>s_Candidates := mdel (p_Candidate p) (s_Candidates s)\<rparr> else s, mrpt)
     else if p_ProposalType p = proposalTypeMinerRewardDistributionModify then (s, p_MinerRewardPerThousand p)
     else if p_ProposalType p = proposalTypeSideChainAdd then
       (if mhas (s_SCConfirmation s) (p_SCHash p) then s
        else s\<lparr>s_SCConfirmation := mput (p_SCHash p)
          \<lparr>scr_Record = [], scr_LastConfirmedNumber = 0, scr_MaxHeaderNumber = 0,
           scr_CountPerPeriod = p_SCBlockCountPerPeriod p, scr_RewardPerPeriod = p_SCBlockRewardPerPeriod p\<rparr>
          (s_SCConfirmation s)\<rparr>, mrpt)
     else if p_ProposalType p = proposalTypeSideChainRemove then
       (if mhas (s_SCConfirmation s) (p_SCHash p)
        then s\<lparr>s_SCConfirmation := mdel (p_SCHash p) (s_SCConfirmation s)\<rparr> else s, mrpt)
     else (s, mrpt))"

definition decideProposal :: "bool \<Rightarrow> int \<Rightarrow> Snapshot \<times> u64 \<Rightarrow> hash \<times> nat \<Rightarrow> Snapshot \<times> u64" where
  "decideProposal candidateNeedPD headerNumber sm kv =
    (let (s, mrpt) = sm; proposal = s_props s ! snd kv in
     if proposal_end s proposal + 1 = Uint64 headerNumber then
       (if judegmentStake s < yesDeclareStake s proposal
        then enactProposal candidateNeedPD proposal (s, mrpt)
        else (s\<lparr>s_Proposals := mdel (fst kv) (s_Proposals s)\<rparr>, mrpt))
     else (s, mrpt))"

definition calculateProposalResult :: "bool \<Rightarrow> int \<Rightarrow> Snapshot \<times> u64 \<Rightarrow> Snapshot \<times> u64" where
  "calculateProposalResult candidateNeedPD headerNumber sm =
    foldl (decideProposal candidateNeedPD headerNumber) sm (s_Proposals (fst sm))"

section \<open>What a block's proposals leave in the snapshot\<close>

lemma byProposal_fields [simp]:
  "length (s_props (updateSnapshotByProposal r n s p)) = length (s_props s)"
  "s_Proposals (updateSnapshotByProposal r n s p) = mput (p_Hash p) r (s_Proposals s)"
  "s_props (updateSnapshotByProposal r n s p) = (s_props s)[r := p\<lparr>p_ReceivedNumber := n\<rparr>]"
  by (simp_all add: updateSnapshotByProposal_def Let_def)

lemma byProposals_fold:
  "length (s_props (foldl (updateSnapshotByProposal r n) s ps)) = length (s_props s) \<and>
   mget (s_Proposals (foldl (updateSnapshotByProposal r n) s ps)) h =
     (if h \<in> p_Hash ` set ps then Some r else mget (s_Proposals s) h) \<and>
   s_props (foldl (updateSnapshotByProposal r n) s ps) =
     (if ps = [] then s_props s else (s_props s)[r := (last ps)\<lparr>p_ReceivedNumber := n\<rparr>])"
  by (induction ps arbitrary: s) (auto simp: gomap_simps)

lemma byProposals_view:
  assumes "p \<in> set ps"
  shows "proposal_view (updateSnapshotByProposals ps n s) (p_Hash p) = Some ((last ps)\<lparr>p_ReceivedNumber := n\<rparr>)"
  using assms byProposals_fold [of "length (s_props s)" n "s\<lparr>s_props := s_props s @ [zero_Proposal]\<rparr>" ps "p_Hash p"]
  by (auto simp: proposal_view_def updateSnapshotByProposals_def)

definition props_ok :: "Snapshot \<Rightarrow> bool" where
  "props_ok s \<longleftrightarrow> distinct (mkeys (s_Proposals s)) \<and> (\<forall>r \<in> snd ` set (s_Proposals s). r < length (s_props s))"

lemma byProposals_view_other:
  assumes "h \<notin> p_Hash ` set ps" "props_ok s"
  shows "proposal_view (updateSnapshotByProposals ps n s) h = proposal_view s h"
proof (cases "mget (s_Proposals s) h")
  case None
  then show ?thesis
    using assms(1) byProposals_fold [of "length (s_props s)" n "s\<lparr>s_props := s_props s @ [zero_Proposal]\<rparr>" ps h]
    by (simp add: proposal_view_def updateSnapshotByProposals_def)
next
  case (Some r)
  then have "r < length (s_props s)" using assms(2) map_of_snd [OF Some] unfolding props_ok_def by blast
  then show ?thesis
    using Some assms(1) byProposals_fold [of "length (s_props s)" n "s\<lparr>s_props := s_props s @ [zero_Proposal]\<rparr>" ps h]
    by (simp add: proposal_view_def updateSnapshotByProposals_def nth_append)
qed

lemma props_ok_put:
  assumes "props_ok s" "r < length ps" "length (s_props s) \<le> length ps"
  shows "props_ok (s\<lparr>s_props := ps, s_Proposals := mput h r (s_Proposals s)\<rparr>)"
  using assms snd_mput [of _ h r "s_Proposals s"] by (fastforce simp: props_ok_def)

lemma byProposals_ok:
  assumes "props_ok s"
  shows "props_ok (updateSnapshotByProposals ps n s)"
proof -
  let ?I = "\<lambda>t. props_ok t \<and> length (s_props t) = Suc (length (s_props s))"
  have "?I (foldl (updateSnapshotByProposal (length (s_props s)) n) (s\<lparr>s_props := s_props s @ [zero_Proposal]\<rparr>) ps)"
  proof (rule foldl_invariant)
    show "?I (s\<lparr>s_props := s_props s @ [zero_Proposal]\<rparr>)" using assms by (auto simp: props_ok_def)
  next
    fix t p assume "?I t"
    then show "?I (updateSnapshotByProposal (length (s_props s)) n t p)"
      by (auto simp: updateSnapshotByProposal_def Let_def intro!: props_ok_put)
  qed
  then show ?thesis by (simp add: updateSnapshotByProposals_def)
qed

section \<open>Declarations\<close>

text \<open>Nobody declares twice for one proposal, and a declaration is never changed once made.\<close>

definition one_each :: "Snapshot \<Rightarrow> bool" where
  "one_each s \<longleftrightarrow> (\<forall>p \<in> set (s_props s). distinct (map d_Declarer (p_Declares p)))"

lemma byDeclare_one_each: "one_each s \<Longrightarrow> one_each (updateSnapshotByDeclare n s d)"
proof (cases "mget (s_Proposals s) (d_ProposalHash d)")
  case None
  then show "one_each s \<Longrightarrow> ?thesis" by (simp add: updateSnapshotByDeclare_def)
next
  case (Some r)
  assume o: "one_each s"
  show ?thesis
  proof (cases "r < length (s_props s)")
    case True
    then have "distinct (map d_Declarer (p_Declares (s_props s ! r)))" using o by (auto simp: one_each_def)
    moreover have "p \<in> set ((s_props s)[r := x]) \<Longrightarrow> p = x \<or> p \<in> set (s_props s)" for p x
      using set_update_subset_insert [of "s_props s" r x] by blast
    ultimately show ?thesis using o Some
      by (fastforce simp: updateSnapshotByDeclare_def Let_def one_each_def)
  next
    case False
    then show ?thesis using o Some by (auto simp: updateSnapshotByDeclare_def Let_def one_each_def list_update_beyond)
  qed
qed

lemma byDeclares_one_each: "one_each s \<Longrightarrow> one_each (updateSnapshotByDeclares ds n s)"
  unfolding updateSnapshotByDeclares_def by (rule foldl_invariant) (auto intro: byDeclare_one_each)

text \<open>
  The declarations a proposal collects: those of candidates that arrive in time, the first of
  each declarer.
\<close>

definition in_time :: "Snapshot \<Rightarrow> int \<Rightarrow> Proposal \<Rightarrow> Declare \<Rightarrow> bool" where
  "in_time s n p d \<longleftrightarrow> \<not> proposal_end s p < Uint64 n \<and> isCandidate s (d_Declarer d)"

definition first_of_each :: "Declare list \<Rightarrow> Declare \<Rightarrow> Declare list" where
  "first_of_each ds d = (if d_Declarer d \<in> d_Declarer ` set ds then ds else ds @ [d])"

lemma byDeclare_keeps [simp]:
  "s_Proposals (updateSnapshotByDeclare n s d) = s_Proposals s"
  "s_config (updateSnapshotByDeclare n s d) = s_config s"
  "s_Candidates (updateSnapshotByDeclare n s d) = s_Candidates s"
  "length (s_props (updateSnapshotByDeclare n s d)) = length (s_props s)"
  by (simp_all add: updateSnapshotByDeclare_def Let_def split: option.splits)

lemma byDeclare_view:
  assumes ok: "props_ok s" "distinct (map snd (s_Proposals s))"
  shows "proposal_view (updateSnapshotByDeclare n s d) h =
    map_option (\<lambda>p. if d_ProposalHash d = h \<and> in_time s n p d
      then p\<lparr>p_Declares := first_of_each (p_Declares p) d\<rparr> else p) (proposal_view s h)"
proof (cases "mget (s_Proposals s) (d_ProposalHash d)")
  case None
  then show ?thesis
    by (cases "d_ProposalHash d = h") (auto simp: updateSnapshotByDeclare_def proposal_view_def option.map_comp comp_def)
next
  case (Some r)
  then have r: "r < length (s_props s)" using ok(1) map_of_snd [OF Some] unfolding props_ok_def by blast
  show ?thesis
  proof (cases "d_ProposalHash d = h")
    case True
    then show ?thesis using Some r
      by (auto simp: updateSnapshotByDeclare_def proposal_view_def Let_def in_time_def first_of_each_def)
  next
    case False
    have "q \<noteq> r" if q: "mget (s_Proposals s) h = Some q" for q
      using map_of_inj [OF ok(2) q] Some False by blast
    then show ?thesis using Some False
      by (cases "mget (s_Proposals s) h") (auto simp: updateSnapshotByDeclare_def proposal_view_def Let_def)
  qed
qed

lemma byDeclare_ok: "props_ok s \<Longrightarrow> props_ok (updateSnapshotByDeclare n s d)"
  by (simp add: props_ok_def)

lemma in_time_cong:
  "s_config s = s_config t \<Longrightarrow> s_Candidates s = s_Candidates t \<Longrightarrow> in_time s n (p\<lparr>p_Declares := ds\<rparr>) d = in_time t n p d"
  by (simp add: in_time_def proposal_end_def isCandidate_def)

lemma byDeclares_view:
  assumes "props_ok s" "distinct (map snd (s_Proposals s))"
  shows "proposal_view (updateSnapshotByDeclares ds n s) h =
    map_option (\<lambda>p. p\<lparr>p_Declares := foldl first_of_each (p_Declares p)
      (filter (\<lambda>d. d_ProposalHash d = h \<and> in_time s n p d) ds)\<rparr>) (proposal_view s h)"
  using assms unfolding updateSnapshotByDeclares_def
proof (induction ds arbitrary: s)
  case Nil
  show ?case by (cases "proposal_view s h") simp_all
next
  case (Cons d ds)
  have "in_time (updateSnapshotByDeclare n s d) n p e = in_time s n p e" for p e
    by (simp add: in_time_def proposal_end_def isCandidate_def)
  moreover have "in_time s n (p\<lparr>p_Declares := x\<rparr>) e = in_time s n p e" for p e x
    by (simp add: in_time_def proposal_end_def)
  ultimately show ?case using Cons.IH [of "updateSnapshotByDeclare n s d"] Cons.prems
    by (cases "proposal_view s h") (auto simp: byDeclare_ok byDeclare_view)
qed

section \<open>Decisions\<close>

text \<open>
  A proposal falls due in the block after its last one.  What decides it (the tally and the
  declarations) is not touched by enacting others, so all decisions of a block are taken on
  the state at its start, in any order of the map.
\<close>

definition due :: "Snapshot \<Rightarrow> int \<Rightarrow> nat \<Rightarrow> bool" where
  "due s n r \<longleftrightarrow> proposal_end s (s_props s ! r) + 1 = Uint64 n"

definition accepted :: "Snapshot \<Rightarrow> nat \<Rightarrow> bool" where
  "accepted s r \<longleftrightarrow> judegmentStake s < yesDeclareStake s (s_props s ! r)"

lemma enactProposal_keeps:
  "enactProposal pd p (s, m) = (t, m') \<Longrightarrow> s_props t = s_props s \<and> s_config t = s_config s \<and> s_Tally t = s_Tally s \<and>
   s_ints t = s_ints s \<and> s_Proposals t = s_Proposals s"
  by (auto simp: enactProposal_def Let_def split: if_splits)

lemma due_cong: "s_props t = s_props s \<Longrightarrow> s_config t = s_config s \<Longrightarrow> due t n r = due s n r"
  by (simp add: due_def proposal_end_def)

lemma accepted_cong:
  "s_props t = s_props s \<Longrightarrow> s_Tally t = s_Tally s \<Longrightarrow> s_ints t = s_ints s \<Longrightarrow> accepted t r = accepted s r"
  unfolding accepted_def judegmentStake_def yesDeclareStake_def deref_def by (simp cong del: if_weak_cong option.case_cong_weak)

definition enact_step :: "bool \<Rightarrow> Snapshot \<Rightarrow> Snapshot \<times> u64 \<Rightarrow> hash \<times> nat \<Rightarrow> Snapshot \<times> u64" where
  "enact_step pd s sm kv = enactProposal pd (s_props s ! snd kv) sm"

lemma enact_Proposals: "enactProposal pd p (s\<lparr>s_Proposals := q\<rparr>, m) =
    (let (t, m') = enactProposal pd p (s, m) in (t\<lparr>s_Proposals := q\<rparr>, m'))"
  by (simp add: enactProposal_def Let_def)

lemma decide_fold:
  assumes "s_props t = s_props s" "s_config t = s_config s" "s_Tally t = s_Tally s" "s_ints t = s_ints s"
  shows "foldl (decideProposal pd n) (t, m) kvs =
    (let (u, m') = foldl (enact_step pd s) (t, m) (filter (\<lambda>(h, r). due s n r \<and> accepted s r) kvs)
     in (u\<lparr>s_Proposals := foldl (\<lambda>q (h, r). if due s n r \<and> \<not> accepted s r then mdel h q else q) (s_Proposals t) kvs\<rparr>, m'))"
  using assms
proof (induction kvs arbitrary: t m)
  case Nil
  then show ?case by simp
next
  case (Cons kv kvs)
  obtain h r where kv: "kv = (h, r)" by force
  have cg: "due t n r = due s n r" "accepted t r = accepted s r"
    by (rule due_cong [OF Cons.prems(1,2)], rule accepted_cong [OF Cons.prems(1,3,4)])
  have d: "decideProposal pd n (t, m) kv = (if due s n r then (if accepted s r
      then enactProposal pd (s_props s ! r) (t, m) else (t\<lparr>s_Proposals := mdel h (s_Proposals t)\<rparr>, m)) else (t, m))"
    using cg Cons.prems(1) kv by (simp add: decideProposal_def due_def accepted_def Let_def)
  consider (enact) "due s n r" "accepted s r" | (drop) "due s n r" "\<not> accepted s r" | (wait) "\<not> due s n r" by blast
  then show ?case
  proof cases
    case enact
    obtain t' m' where e: "enactProposal pd (s_props s ! r) (t, m) = (t', m')" by force
    with enactProposal_keeps [OF e] Cons enact d kv show ?thesis by (simp add: enact_step_def)
  next
    case drop
    have "foldl (enact_step pd s) (t\<lparr>s_Proposals := q\<rparr>, m) xs =
        (let (u, m') = foldl (enact_step pd s) (t, m) xs in (u\<lparr>s_Proposals := q\<rparr>, m'))" for q t m xs
      by (induction xs arbitrary: t m) (auto simp: enact_step_def enact_Proposals split: prod.splits)
    with drop Cons d kv show ?thesis by (simp split: prod.splits)
  next
    case wait
    with Cons d kv show ?thesis by simp
  qed
qed

lemma mdel_fold_filter:
  assumes "distinct (mkeys m)"
  shows "foldl (\<lambda>q (h, r). if P r then mdel h q else q) m m = filter (\<lambda>(h, r). \<not> P r) m"
proof -
  have g: "foldl (\<lambda>q (h, r). if P r then mdel h q else q) q kvs =
      filter (\<lambda>(h, r). h \<notin> fst ` {kv \<in> set kvs. P (snd kv)}) q" for q kvs
  proof (induction kvs arbitrary: q)
    case Nil
    then show ?case by (simp add: case_prod_beta')
  next
    case (Cons kv kvs)
    then show ?case
      by (cases kv) (auto simp: AList.delete_eq case_prod_beta' image_iff intro!: filter_cong)
  qed
  have "fst kv \<notin> fst ` {kv \<in> set m. P (snd kv)} \<longleftrightarrow> \<not> P (snd kv)" if "kv \<in> set m" for kv
    using assms that eq_key_imp_eq_value [OF assms, of "fst kv" "snd kv"] by (auto simp: image_iff)
  then show ?thesis unfolding g unfolding case_prod_beta' by (intro filter_cong refl) blast
qed

lemma calculateProposalResult_decisions:
  assumes "distinct (mkeys (s_Proposals s))"
  shows "calculateProposalResult pd n (s, m) =
    (let (u, m') = foldl (enact_step pd s) (s, m) (filter (\<lambda>(h, r). due s n r \<and> accepted s r) (s_Proposals s))
     in (u\<lparr>s_Proposals := filter (\<lambda>(h, r). \<not> (due s n r \<and> \<not> accepted s r)) (s_Proposals s)\<rparr>, m'))"
  using mdel_fold_filter [OF assms, of "\<lambda>r. due s n r \<and> \<not> accepted s r"]
  by (simp add: calculateProposalResult_def decide_fold case_prod_beta')

end
