(* ===== verification/Alien_SideChain.thy ===== *)
theory Alien_SideChain
  imports Alien_Proposal
begin

text \<open>
  Side chains in the voting snapshot (\<open>src/gttc/consensus/alien/snapshot.go\<close>): the coinbases
  that main-chain signers register, the confirmations side chains send, the confirmed number
  of a side chain and the rewards it earns.

  The loops \<open>for i := a; i <= b; i++\<close> over \<open>uint64\<close> do not end when \<open>b\<close> is the largest value;
  \<open>u64_loop\<close> is such a loop, \<open>None\<close> when it runs forever, and \<open>run_loop\<close> turns that into
  \<open>NoReturn\<close>.
\<close>

section \<open>Loops over block numbers\<close>

partial_function (option) u64_loop ::
  "('s \<Rightarrow> u64 \<Rightarrow> alien_err + 's) \<Rightarrow> u64 \<Rightarrow> u64 \<Rightarrow> 's \<Rightarrow> (alien_err + 's) option" where
  "u64_loop f i b s =
    (if i \<le> b
     then (case f s i of Inl e \<Rightarrow> Some (Inl e) | Inr s' \<Rightarrow> u64_loop f (i + 1) b s')
     else Some (Inr s))"

definition run_loop :: "('s \<Rightarrow> u64 \<Rightarrow> alien_err + 's) \<Rightarrow> u64 \<Rightarrow> u64 \<Rightarrow> 's \<Rightarrow> alien_err + 's" where
  "run_loop f i b s = (case u64_loop f i b s of None \<Rightarrow> Inl NoReturn | Some r \<Rightarrow> r)"

section \<open>Coinbases\<close>

definition setSCCoinbase :: "Snapshot \<Rightarrow> SCSetCoinbase \<Rightarrow> Snapshot" where
  "setSCCoinbase s scc =
    (let m = (case mget (s_SCCoinbase s) (scs_Signer scc) of Some m \<Rightarrow> m | None \<Rightarrow> [])
     in s\<lparr>s_SCCoinbase := mput (scs_Signer scc) (mput (scs_Hash scc) (scs_Coinbase scc) m) (s_SCCoinbase s)\<rparr>)"

definition updateSnapshotBySetSCCoinbase :: "SCSetCoinbase list \<Rightarrow> Snapshot \<Rightarrow> Snapshot" where
  "updateSnapshotBySetSCCoinbase scCoinbases s = foldl setSCCoinbase s scCoinbases"

definition isSideChainCoinbase :: "Snapshot \<Rightarrow> hash \<Rightarrow> address \<Rightarrow> bool" where
  "isSideChainCoinbase s sc addr = list_ex (\<lambda>(signer, m). mget m sc = Some addr) (s_SCCoinbase s)"

section \<open>Confirmations\<close>

definition SCConfirmation_copy :: "SCConfirmation \<Rightarrow> SCConfirmation" where
  "SCConfirmation_copy s = \<lparr>scc_Hash = scc_Hash s, scc_Coinbase = scc_Coinbase s, scc_Number = scc_Number s,
    scc_LoopInfo = scc_LoopInfo s\<rparr>"

definition addSCConfirm :: "Snapshot \<Rightarrow> SCConfirmation \<Rightarrow> Snapshot" where
  "addSCConfirm s scc =
    (if isSideChainCoinbase s (scc_Hash scc) (scc_Coinbase scc) then
       (case mget (s_SCConfirmation s) (scc_Hash scc) of
          Some rec \<Rightarrow>
            (if scr_LastConfirmedNumber rec < scc_Number scc then
               (let old = (case mget (scr_Record rec) (scc_Number scc) of Some l \<Rightarrow> l | None \<Rightarrow> []);
                    rec = rec\<lparr>scr_Record := mput (scc_Number scc) (old @ [SCConfirmation_copy scc]) (scr_Record rec)\<rparr>;
                    rec = (if scr_MaxHeaderNumber rec < scc_Number scc
                           then rec\<lparr>scr_MaxHeaderNumber := scc_Number scc\<rparr> else rec)
                in s\<lparr>s_SCConfirmation := mput (scc_Hash scc) rec (s_SCConfirmation s)\<rparr>)
             else s)
        | None \<Rightarrow> s)
     else s)"

text \<open>
  \<open>calculateConfirmedNumber\<close>, first loop: who confirmed which loop info.  The inner maps
  \<open>map[common.Address]bool\<close> are only used as sets and are lists without duplicates.
\<close>

type_synonym recordMap = "(string, address list) gomap"

definition confirmRecord :: "int \<Rightarrow> u64 \<times> recordMap \<Rightarrow> SCConfirmation \<Rightarrow> alien_err + u64 \<times> recordMap" where
  "confirmRecord minConfirmedSignerCount st scConfirm =
    (let (confirmedNumber, m) = st; info = scc_LoopInfo scConfirm in
     if minConfirmedSignerCount * 2 \<le> int (length info) then
       (let key = strings_Join (CHR '':'') info;
            m = (if mhas m key then m else mput key [] m);
            who = (case mget m key of Some l \<Rightarrow> l | None \<Rightarrow> [])
        in if scc_Coinbase scConfirm \<in> set who then Inr (confirmedNumber, m)
           else
             (let who = who @ [scc_Coinbase scConfirm]; m = mput key who m in
              if minConfirmedSignerCount \<le> int (length who) then
                (if length info < 2 then Inl PanicIndex
                 else
                   (let (headerNum, err) = Atoi (info ! (length info - 2)) in
                    if err = None \<and> confirmedNumber < of_int headerNum
                    then Inr (of_int headerNum, m) else Inr (confirmedNumber, m)))
              else Inr (confirmedNumber, m)))
     else Inr (confirmedNumber, m))"

definition confirmNumber :: "SCRecord \<Rightarrow> int \<Rightarrow> u64 \<times> recordMap \<Rightarrow> u64 \<Rightarrow> alien_err + u64 \<times> recordMap" where
  "confirmNumber rec minConfirmedSignerCount st i =
    (case mget (scr_Record rec) i of
       Some l \<Rightarrow> foldR (confirmRecord minConfirmedSignerCount) st l
     | None \<Rightarrow> Inr st)"

text \<open>Second loop: the pairs number, coinbase of every sufficiently confirmed loop info.\<close>

fun coinbasePairs :: "(u64, address) gomap \<Rightarrow> string list \<Rightarrow> (u64, address) gomap" where
  "coinbasePairs m (n # c # infos) =
    (let (number, err) = Atoi n
     in coinbasePairs (if err \<noteq> None then m else mput (of_int number) (HexToAddress c) m) infos)"
| "coinbasePairs m infos = m"

definition confirmedCoinbases :: "int \<Rightarrow> recordMap \<Rightarrow> (u64, address) gomap" where
  "confirmedCoinbases minConfirmedSignerCount m =
    foldl (\<lambda>cc (info, who). if minConfirmedSignerCount \<le> int (length who)
      then coinbasePairs cc (strings_Split (CHR '':'') info) else cc) [] m"

definition calculateConfirmedNumber :: "SCRecord \<Rightarrow> int \<Rightarrow> alien_err + u64 \<times> (u64, address) gomap" where
  "calculateConfirmedNumber rec minConfirmedSignerCount =
    bindR (run_loop (confirmNumber rec minConfirmedSignerCount) (scr_LastConfirmedNumber rec + 1)
             (scr_MaxHeaderNumber rec) (scr_LastConfirmedNumber rec, []))
      (\<lambda>(confirmedNumber, m). Inr (confirmedNumber, confirmedCoinbases minConfirmedSignerCount m))"

section \<open>Rewards of a period\<close>

definition scMaxCountPerPeriod :: u64 where "scMaxCountPerPeriod = 6"
definition scRewardDelayLoopCount :: u64 where "scRewardDelayLoopCount = 2"
definition scRewardExpiredLoopCount :: u64 where "scRewardExpiredLoopCount = scRewardDelayLoopCount + 4"

definition SCCurrentBlockReward :: "(u64, (u64, u64) gomap) gomap" where
  "SCCurrentBlockReward =
    [(1, [(1, 100)]),
     (2, [(1, 30), (2, 70)]),
     (3, [(1, 15), (2, 30), (3, 55)]),
     (4, [(1, 5), (2, 15), (3, 30), (4, 50)]),
     (5, [(1, 5), (2, 10), (3, 15), (4, 25), (5, 45)]),
     (6, [(1, 1), (2, 4), (3, 10), (4, 15), (5, 25), (6, 45)])]"

definition calculateCurrentBlockReward :: "u64 \<Rightarrow> u64 \<Rightarrow> u64" where
  "calculateCurrentBlockReward currentCount periodCount =
    (let p = (if scMaxCountPerPeriod < periodCount then scMaxCountPerPeriod else periodCount) in
     case mget SCCurrentBlockReward p of
       Some m \<Rightarrow> (case mget m currentCount of Some v \<Rightarrow> v | None \<Rightarrow> 0)
     | None \<Rightarrow> 0)"

text \<open>The rewards of one confirmed block: the count of consecutive blocks of one coinbase.\<close>

definition rewardBlock :: "(u64, address) gomap \<Rightarrow> u64 \<Rightarrow> address \<times> u64 \<times> (address, u64) gomap \<Rightarrow> u64
    \<Rightarrow> alien_err + address \<times> u64 \<times> (address, u64) gomap" where
  "rewardBlock confirmedCoinbase countPerPeriod st n =
    (let (lastSCCoinbase, currentSCCoinbaseCount, rewards) = st in
     case mget confirmedCoinbase n of
       None \<Rightarrow> Inr st
     | Some scCoinbase \<Rightarrow>
         (let cnt = (if lastSCCoinbase \<noteq> scCoinbase then 1 else currentSCCoinbaseCount + 1);
              rw = calculateCurrentBlockReward cnt countPerPeriod
          in Inr (scCoinbase, cnt,
               (case mget rewards scCoinbase of
                  None \<Rightarrow> mput scCoinbase rw rewards
                | Some old \<Rightarrow> mput scCoinbase (old + rw) rewards))))"

text \<open>The body of the loop over the side chains in \<open>updateSCConfirmation\<close>.\<close>

definition updateSCConfirmation_chain :: "u64 \<Rightarrow> Snapshot \<Rightarrow> hash \<times> SCRecord \<Rightarrow> alien_err + Snapshot" where
  "updateSCConfirmation_chain hn s kv =
    (let (scHash, record') = kv;
         minConfirmedSignerCount = sint (2 * cfg_MaxSignerCount (s_config s) div 3);
         sca = (case mget (s_SCAllReward s) scHash of Some m \<Rightarrow> m | None \<Rightarrow> []);
         rewards = (case mget sca hn of Some m \<Rightarrow> m | None \<Rightarrow> []);
         lcn = scr_LastConfirmedNumber record'
     in bindR (calculateConfirmedNumber record' minConfirmedSignerCount) (\<lambda>(confirmedNumber, confirmedCoinbase).
        bindR
          (if lcn < confirmedNumber then
             bindR (run_loop (rewardBlock confirmedCoinbase (scr_CountPerPeriod record')) (lcn + 1) confirmedNumber
                      (0, 0, rewards)) (\<lambda>(_, _, rewards).
             bindR (run_loop (\<lambda>m i. Inr (mdel i m)) (lcn + 1) confirmedNumber (scr_Record record')) (\<lambda>m.
             Inr (rewards, record'\<lparr>scr_Record := m, scr_LastConfirmedNumber := confirmedNumber\<rparr>)))
           else Inr (rewards, record'))
          (\<lambda>(rewards, record').
             let sca = (if rewards = [] then mdel hn sca else mput hn rewards sca)
             in Inr (s\<lparr>s_SCAllReward := mput scHash sca (s_SCAllReward s),
                       s_SCConfirmation := mput scHash record' (s_SCConfirmation s)\<rparr>))))"

definition expireSCReward :: "u64 \<Rightarrow> Snapshot \<Rightarrow> hash \<Rightarrow> Snapshot" where
  "expireSCReward hn s scHash =
    (case mget (s_SCAllReward s) scHash of
       None \<Rightarrow> s
     | Some sca \<Rightarrow>
         (let sca = filter (\<lambda>(number, r).
                \<not> number < hn - scRewardExpiredLoopCount * cfg_MaxSignerCount (s_config s)) sca
          in s\<lparr>s_SCAllReward := (if sca = [] then mdel scHash (s_SCAllReward s)
                                 else mput scHash sca (s_SCAllReward s))\<rparr>))"

definition updateSCConfirmation :: "int \<Rightarrow> Snapshot \<Rightarrow> alien_err + Snapshot" where
  "updateSCConfirmation headerNumber s =
    bindR (foldR (updateSCConfirmation_chain (Uint64 headerNumber)) s (s_SCConfirmation s))
      (\<lambda>s. Inr (foldl (expireSCReward (Uint64 headerNumber)) s (mkeys (s_SCAllReward s))))"

definition updateSnapshotBySCConfirm :: "SCConfirmation list \<Rightarrow> int \<Rightarrow> Snapshot \<Rightarrow> alien_err + Snapshot" where
  "updateSnapshotBySCConfirm scConfirmations headerNumber s =
    (let s = foldl addSCConfirm s scConfirmations; M = cfg_MaxSignerCount (s_config s) in
     if M = 0 then Inl PanicDivide
     else if (Uint64 headerNumber + 1) mod M = 0 then updateSCConfirmation headerNumber s
     else Inr s)"

section \<open>Payment\<close>

text \<open>
  \<open>calculateSCReward\<close>: \<open>scre * confirmation.RewardPerPeriod\<close> is a 64-bit product, the rest is
  exact; the result before the fork is the nil map.
\<close>

definition singleReward :: "int \<Rightarrow> int \<Rightarrow> u64 \<Rightarrow> u64 \<Rightarrow> int" where
  "singleReward minerReward scRewardSum rewardPerPeriod scre =
    uint (scre * rewardPerPeriod) div scRewardSum * minerReward"

definition addReward :: "(address, int) gomap \<Rightarrow> address \<Rightarrow> int \<Rightarrow> (address, int) gomap" where
  "addReward rewards addr x =
    (case mget rewards addr of Some old \<Rightarrow> mput addr (old + x) rewards | None \<Rightarrow> mput addr x rewards)"

definition scRewardSum :: "Snapshot \<Rightarrow> int" where
  "scRewardSum s =
    (let sm = (\<Sum>(h, rec) \<leftarrow> s_SCConfirmation s. uint (scr_RewardPerPeriod rec))
     in if Uint64 sm < 1000 then 1000 else sm)"

definition calculateSCReward :: "Snapshot \<Rightarrow> int \<Rightarrow> (address, int) gomap" where
  "calculateSCReward s minerReward =
    (if IsTrantor (s_config s) (uint (s_Number s)) then
       foldl (\<lambda>rewards (scHash, scReward).
         case mget scReward (s_Number s - scRewardDelayLoopCount * cfg_MaxSignerCount (s_config s)) of
           None \<Rightarrow> rewards
         | Some reward \<Rightarrow>
             (case mget (s_SCConfirmation s) scHash of
                None \<Rightarrow> rewards
              | Some confirmation \<Rightarrow>
                  foldl (\<lambda>rewards (addr, scre).
                    addReward rewards addr
                      (singleReward minerReward (scRewardSum s) (scr_RewardPerPeriod confirmation) scre))
                    rewards reward))
         [] (s_SCAllReward s)
     else [])"

section \<open>The loops return\<close>

lemma unat_Suc64: "i \<noteq> - 1 \<Longrightarrow> unat (i + 1) = Suc (unat i)" for i :: u64
  using unatSuc [of i] by (auto simp: add.commute eq_neg_iff_add_eq_0)

definition u64_range :: "u64 \<Rightarrow> u64 \<Rightarrow> u64 list" where
  "u64_range i b = map of_nat [unat i..<Suc (unat b)]"

lemma u64_range_rec:
  assumes "b \<noteq> - 1"
  shows "u64_range i b = (if i \<le> b then i # u64_range (i + 1) b else [])"
proof (cases "i \<le> b")
  case True
  have "i \<noteq> - 1" using True assms word_n1_ge [of b] by (metis order_antisym)
  then have "unat (i + 1) = Suc (unat i)" by (rule unat_Suc64)
  then show ?thesis using True
    by (simp add: u64_range_def upt_conv_Cons word_le_nat_alt del: upt_Suc)
next
  case False
  then show ?thesis by (simp add: u64_range_def word_le_nat_alt del: upt_Suc)
qed

lemma u64_loop_foldR:
  assumes "b \<noteq> - 1"
  shows "u64_loop f i b s = Some (foldR f s (u64_range i b))"
proof (induction "Suc (unat b) - unat i" arbitrary: i s)
  case 0
  then have "\<not> i \<le> b" by (simp add: word_le_nat_alt)
  then show ?case using u64_range_rec [OF assms, of i] by (simp add: u64_loop.simps [of f i b s])
next
  case (Suc n)
  then have ib: "i \<le> b" by (simp add: word_le_nat_alt)
  then have "i \<noteq> - 1" using assms word_n1_ge [of b] by (metis order_antisym)
  then have "unat (i + 1) = Suc (unat i)" by (rule unat_Suc64)
  then have "n = Suc (unat b) - unat (i + 1)" using Suc.hyps(2) by simp
  then have "u64_loop f (i + 1) b s' = Some (foldR f s' (u64_range (i + 1) b))" for s' by (rule Suc.hyps(1))
  then show ?case using ib u64_range_rec [OF assms, of i]
    by (cases "f s i") (simp_all add: u64_loop.simps [of f i b s])
qed

lemma run_loop_foldR: "b \<noteq> - 1 \<Longrightarrow> run_loop f i b s = foldR f s (u64_range i b)"
  by (simp add: run_loop_def u64_loop_foldR)

text \<open>With the largest bound the loop ends only in an error of its body.\<close>

lemma u64_loop_max_error:
  assumes "u64_loop f i b s = Some r"
  shows "b = - 1 \<longrightarrow> (\<exists>s i. f s i = r \<and> isl r)"
  using _ assms
proof (rule u64_loop.raw_induct [where P = "\<lambda>f i b s r. b = - 1 \<longrightarrow> (\<exists>s i. f s i = r \<and> isl r)"])
  fix u f s r and i b :: u64
  assume ih: "\<And>f i b s r. u f i b s = Some r \<Longrightarrow> b = - 1 \<longrightarrow> (\<exists>s i. f s i = r \<and> isl r)"
    and eq: "(if i \<le> b then (case f s i of Inl e \<Rightarrow> Some (Inl e) | Inr s' \<Rightarrow> u f (i + 1) b s') else Some (Inr s)) = Some r"
  show "b = - 1 \<longrightarrow> (\<exists>s i. f s i = r \<and> isl r)"
  proof
    assume b: "b = - 1"
    then have ib: "i \<le> b" using word_n1_ge [of i] by blast
    show "\<exists>s i. f s i = r \<and> isl r"
    proof (cases "f s i")
      case (Inl e)
      then have "r = Inl e" using eq ib by simp
      with Inl have "f s i = r \<and> isl r" by simp
      then show ?thesis by blast
    next
      case (Inr s')
      then have "u f (i + 1) b s' = Some r" using eq ib by simp
      from ih [OF this] b show ?thesis by blast
    qed
  qed
qed

lemma run_loop_max: "(\<And>s i. \<not> isl (f s i)) \<Longrightarrow> run_loop f i (- 1) s = Inl NoReturn"
  using u64_loop_max_error [of f i "- 1" s] by (cases "u64_loop f i (- 1) s") (auto simp: run_loop_def)

section \<open>The confirmed number\<close>

lemma confirmRecord_total: "1 \<le> n \<Longrightarrow> \<not> isl (confirmRecord n st c)"
  by (auto simp: confirmRecord_def Let_def split: prod.splits)

lemma not_isl_conv: "\<not> isl r \<longleftrightarrow> (\<exists>x. r = Inr x)"
  by (cases r) auto

lemma foldR_total: "(\<And>s x. \<not> isl (f s x)) \<Longrightarrow> \<not> isl (foldR f s xs)"
proof (induction xs arbitrary: s)
  case (Cons x xs)
  then show ?case by (cases "f s x") (use Cons.prems [of s x] in auto)
qed simp

lemma confirmNumber_total: "1 \<le> n \<Longrightarrow> \<not> isl (confirmNumber rec n st i)"
  by (auto simp: confirmNumber_def confirmRecord_total foldR_total split: option.splits)

lemma calculateConfirmedNumber_returns:
  assumes "1 \<le> n" "scr_MaxHeaderNumber rec \<noteq> - 1"
  shows "\<exists>c m. calculateConfirmedNumber rec n = Inr (c, confirmedCoinbases n m) \<and>
    foldR (confirmNumber rec n) (scr_LastConfirmedNumber rec, [])
      (u64_range (scr_LastConfirmedNumber rec + 1) (scr_MaxHeaderNumber rec)) = Inr (c, m)"
proof -
  have "\<not> isl (foldR (confirmNumber rec n) (scr_LastConfirmedNumber rec, [])
      (u64_range (scr_LastConfirmedNumber rec + 1) (scr_MaxHeaderNumber rec)))"
    by (rule foldR_total) (rule confirmNumber_total [OF assms(1)])
  then show ?thesis using assms(2)
    by (auto simp: calculateConfirmedNumber_def run_loop_foldR not_isl_conv)
qed

lemma calculateConfirmedNumber_hangs:
  "1 \<le> n \<Longrightarrow> scr_MaxHeaderNumber rec = - 1 \<Longrightarrow> calculateConfirmedNumber rec n = Inl NoReturn"
  by (simp add: calculateConfirmedNumber_def run_loop_max confirmNumber_total)


text \<open>
  Why a number is confirmed: enough different coinbases reported one loop info, whose last
  block is that number.
\<close>

definition reported :: "SCRecord \<Rightarrow> string \<Rightarrow> address \<Rightarrow> bool" where
  "reported rec key w \<longleftrightarrow> (\<exists>l \<in> snd ` set (scr_Record rec). \<exists>c \<in> set l.
     scc_Coinbase c = w \<and> strings_Join (CHR '':'') (scc_LoopInfo c) = key)"

definition evidence :: "SCRecord \<Rightarrow> recordMap \<Rightarrow> bool" where
  "evidence rec m \<longleftrightarrow> (\<forall>key who. mget m key = Some who \<longrightarrow> distinct who \<and> (\<forall>w \<in> set who. reported rec key w))"

definition justified :: "SCRecord \<Rightarrow> int \<Rightarrow> recordMap \<Rightarrow> u64 \<Rightarrow> bool" where
  "justified rec n m cn \<longleftrightarrow> cn = scr_LastConfirmedNumber rec \<or>
     (\<exists>info who i. mget m (strings_Join (CHR '':'') info) = Some who \<and> n \<le> int (length who) \<and> 2 \<le> length info \<and>
        Atoi (info ! (length info - 2)) = (i, None) \<and> cn = of_int i)"

definition grows :: "recordMap \<Rightarrow> recordMap \<Rightarrow> bool" where
  "grows m m' \<longleftrightarrow> (\<forall>key who. mget m key = Some who \<longrightarrow> (\<exists>who'. mget m' key = Some who' \<and> length who \<le> length who'))"

lemma justified_grows: "justified rec n m cn \<Longrightarrow> grows m m' \<Longrightarrow> justified rec n m' cn"
proof -
  assume j: "justified rec n m cn" and g: "grows m m'"
  have "\<exists>who'. mget m' key = Some who' \<and> n \<le> int (length who')" if "mget m key = Some who" "n \<le> int (length who)" for key who
    using g that unfolding grows_def by force
  with j show ?thesis unfolding justified_def by blast
qed

text \<open>One record: the map after it, and the confirmed number.\<close>

definition credit :: "recordMap \<Rightarrow> SCConfirmation \<Rightarrow> recordMap" where
  "credit m c =
    (let key = strings_Join (CHR '':'') (scc_LoopInfo c);
         who = (case mget m key of Some l \<Rightarrow> l | None \<Rightarrow> [])
     in if mhas m key \<and> scc_Coinbase c \<in> set who then m else mput key (who @ [scc_Coinbase c])
          (if mhas m key then m else mput key [] m))"

lemma credit_grows: "grows m (credit m c)"
  by (auto simp: grows_def credit_def Let_def mhas_def gomap_simps split: option.splits)

lemma credit_evidence:
  assumes "evidence rec m" "c \<in> set l" "l \<in> snd ` set (scr_Record rec)"
  shows "evidence rec (credit m c)"
proof -
  have "reported rec (strings_Join (CHR '':'') (scc_LoopInfo c)) (scc_Coinbase c)"
    using assms(2,3) unfolding reported_def by blast
  then show ?thesis using assms(1)
    by (auto simp: evidence_def credit_def Let_def mhas_def gomap_simps split: option.splits)
qed

lemma confirmRecord_cases:
  assumes "confirmRecord n (cn, m) c = Inr (cn', m')"
  shows "(cn' = cn \<and> m' = m) \<or> (m' = credit m c \<and> (cn' = cn \<or>
     (\<exists>who i. mget m' (strings_Join (CHR '':'') (scc_LoopInfo c)) = Some who \<and> n \<le> int (length who) \<and>
        2 \<le> length (scc_LoopInfo c) \<and> Atoi (scc_LoopInfo c ! (length (scc_LoopInfo c) - 2)) = (i, None) \<and>
        cn' = of_int i \<and> cn < cn')))"
proof -
  let ?key = "strings_Join (CHR '':'') (scc_LoopInfo c)"
  obtain i err where at: "Atoi (scc_LoopInfo c ! (length (scc_LoopInfo c) - 2)) = (i, err)" by force
  show ?thesis
  proof (cases "mget m ?key")
    case None
    then show ?thesis using assms at
      by (auto simp: confirmRecord_def credit_def Let_def mhas_def gomap_simps split: if_splits)
  next
    case (Some who)
    then show ?thesis using assms at
      by (auto simp: confirmRecord_def credit_def Let_def mhas_def gomap_simps split: if_splits)
  qed
qed

definition confirm_inv :: "SCRecord \<Rightarrow> int \<Rightarrow> u64 \<times> recordMap \<Rightarrow> bool" where
  "confirm_inv rec n st \<longleftrightarrow> evidence rec (snd st) \<and> justified rec n (snd st) (fst st) \<and>
     scr_LastConfirmedNumber rec \<le> fst st"

lemma confirmRecord_inv:
  assumes "confirm_inv rec n st" "confirmRecord n st c = Inr st'" "c \<in> set l" "l \<in> snd ` set (scr_Record rec)"
  shows "confirm_inv rec n st'"
proof -
  obtain cn m cn' m' where st: "st = (cn, m)" "st' = (cn', m')" by fastforce
  have inv: "evidence rec m" "justified rec n m cn" "scr_LastConfirmedNumber rec \<le> cn"
    using assms(1) st by (simp_all add: confirm_inv_def)
  have g: "justified rec n (credit m c) cn" using inv(2) credit_grows by (rule justified_grows)
  have e: "evidence rec (credit m c)" using inv(1) assms(3,4) by (rule credit_evidence)
  from confirmRecord_cases [of n cn m c cn' m'] assms(2) st
  consider "cn' = cn" "m' = m" | "m' = credit m c" "cn' = cn"
    | "m' = credit m c" "cn < cn'" "justified rec n m' cn'"
    unfolding justified_def by blast
  then show ?thesis by cases (use inv g e st in \<open>auto simp: confirm_inv_def\<close>)
qed

lemma confirmNumber_inv:
  assumes "confirm_inv rec n st" "confirmNumber rec n st i = Inr st'"
  shows "confirm_inv rec n st'"
proof (cases "mget (scr_Record rec) i")
  case None
  then show ?thesis using assms by (simp add: confirmNumber_def)
next
  case (Some l)
  then have f: "foldR (confirmRecord n) st l = Inr st'" using assms(2) by (simp add: confirmNumber_def)
  show ?thesis using f assms(1)
    by (rule foldR_invariant) (rule confirmRecord_inv, assumption+, rule map_of_snd [OF Some])
qed

lemma calculateConfirmedNumber_justified:
  assumes "scr_MaxHeaderNumber rec \<noteq> - 1" "calculateConfirmedNumber rec n = Inr (cn, cc)"
  shows "\<exists>m. confirm_inv rec n (cn, m) \<and> cc = confirmedCoinbases n m"
proof -
  obtain m where f: "foldR (confirmNumber rec n) (scr_LastConfirmedNumber rec, [])
      (u64_range (scr_LastConfirmedNumber rec + 1) (scr_MaxHeaderNumber rec)) = Inr (cn, m)"
    and cc: "cc = confirmedCoinbases n m"
    using assms by (auto simp: calculateConfirmedNumber_def run_loop_foldR bind_simps)
  have "confirm_inv rec n (scr_LastConfirmedNumber rec, [])"
    by (simp add: confirm_inv_def evidence_def justified_def)
  with f have "confirm_inv rec n (cn, m)" by (rule foldR_invariant) (rule confirmNumber_inv)
  with cc show ?thesis by blast
qed

section \<open>The reward table\<close>

lemma reward_rows:
  assumes "1 \<le> p"
  shows "(\<Sum>k \<leftarrow> [1..<Suc (min (unat p) 6)]. calculateCurrentBlockReward (of_nat k) p) = 100"
proof (cases "6 < p")
  case True
  then have "min (unat p) 6 = 6" by (simp add: word_less_nat_alt)
  then show ?thesis using True
    by (simp add: calculateCurrentBlockReward_def scMaxCountPerPeriod_def SCCurrentBlockReward_def upt_rec)
next
  case False
  then have "unat p \<le> 6" "1 \<le> unat p" using assms by (simp_all add: word_less_nat_alt word_le_nat_alt)
  then have "unat p \<in> {1, 2, 3, 4, 5, 6}" by auto
  then have "p \<in> {1, 2, 3, 4, 5, 6}"
    by (elim insertE) (auto simp: word_unat_eq_iff)
  then show ?thesis
    by (elim insertE)
      (simp_all add: calculateCurrentBlockReward_def scMaxCountPerPeriod_def SCCurrentBlockReward_def upt_rec)
qed

section \<open>The amount paid\<close>

text \<open>The whole score of a period, 100, in a chain with \<open>r\<close> per thousand of the reward.\<close>

lemma singleReward_full:
  assumes "r \<le> 1000"
  shows "singleReward mr 1000 r 100 = uint r div 10 * mr"
proof -
  have "unat r \<le> 1000" using assms by (simp add: word_le_nat_alt)
  then have "unat (100 * r) = 100 * unat r" by (simp add: unat_word_ariths)
  then have "uint (100 * r) = 100 * uint r" by (metis of_nat_mult of_nat_numeral uint_nat)
  then show ?thesis by (simp add: singleReward_def)
qed

end
