(* ===== verification/Alien_Queue.thy ===== *)
theory Alien_Queue
  imports Alien_SideChain
begin

text \<open>
  The signer queue (\<open>src/gttc/consensus/alien/signer_queue.go\<close>) and the trimming of the
  candidate list that uses the same ranking (\<open>snapshot.go\<close>).  \<open>sort.Sort\<close> is an argument of
  the definitions, one function per slice type, with the contract \<open>go_sort\<close>; the theorems
  show that the outcome of the tally ranking does not depend on the algorithm or on the
  iteration order of the maps, what a queue contains, and where its construction panics.
\<close>

section \<open>Definitions\<close>

record TallyItem =
  ti_addr :: address
  ti_stake :: int

record SignerItem =
  si_addr :: address
  si_hash :: hash

definition TallySlice_Less :: "TallyItem \<Rightarrow> TallyItem \<Rightarrow> bool" where
  "TallySlice_Less x y \<longleftrightarrow>
    (if ti_stake y < ti_stake x then True
     else if ti_stake x < ti_stake y then False
     else ti_addr y < ti_addr x)"

definition SignerSlice_Less :: "SignerItem \<Rightarrow> SignerItem \<Rightarrow> bool" where
  "SignerSlice_Less x y \<longleftrightarrow> si_hash y < si_hash x"

definition creditWeight :: "Snapshot \<Rightarrow> address \<Rightarrow> u64" where
  "creditWeight s a =
    (case mget (s_Punished s) a of
       Some p \<Rightarrow>
         (if defaultFullCredit - minCalSignerQueueCredit < p then minCalSignerQueueCredit
          else defaultFullCredit - p)
     | None \<Rightarrow> defaultFullCredit)"

definition buildTallySlice :: "bool \<Rightarrow> Snapshot \<Rightarrow> TallyItem list" where
  "buildTallySlice candidateNeedPD s =
    concat (map (\<lambda>(a, r).
      if \<not> candidateNeedPD \<or> isCandidate s a
      then [\<lparr>ti_addr = a, ti_stake = deref s r * sint (creditWeight s a)\<rparr>] else []) (s_Tally s))"

text \<open>
  \<open>SignerItem{tallyItem.addr, s.HistoryHash[len(s.HistoryHash)-1-i]}\<close> for the items of a slice:
  the index is negative, a panic, when the history is shorter than the slice.
\<close>

fun history_items :: "hash list \<Rightarrow> nat \<Rightarrow> address list \<Rightarrow> alien_err + SignerItem list" where
  "history_items hist i [] = Inr []"
| "history_items hist i (a # as) =
    (if i < length hist then
       bindR (history_items hist (Suc i) as) (\<lambda>rest.
         Inr (\<lparr>si_addr = a, si_hash = hist ! (length hist - 1 - i)\<rparr> # rest))
     else Inl PanicIndex)"

definition defaultOfficialMaxSignerCount :: nat where "defaultOfficialMaxSignerCount = 21"
definition defaultOfficialFirstLevelCount :: nat where "defaultOfficialFirstLevelCount = 10"
definition defaultOfficialSecondLevelCount :: nat where "defaultOfficialSecondLevelCount = 20"
definition defaultOfficialThirdLevelCount :: nat where "defaultOfficialThirdLevelCount = 30"

text \<open>The selection from the ranked tally, official branch and plain branch.\<close>

definition selectSigners ::
  "(SignerItem list \<Rightarrow> SignerItem list) \<Rightarrow> hash list \<Rightarrow> int \<Rightarrow> TallyItem list \<Rightarrow> alien_err + SignerItem list" where
  "selectSigners sortS hist maxSignerCount tallySlice =
    (let addrs = map ti_addr tallySlice;
         queueLength = (if int (length tallySlice) < maxSignerCount then int (length tallySlice) else maxSignerCount)
     in if queueLength = int defaultOfficialMaxSignerCount \<and> defaultOfficialThirdLevelCount < length tallySlice then
          bindR (history_items hist 0 (take defaultOfficialFirstLevelCount addrs)) (\<lambda>l1.
          bindR (history_items hist 0 (take (defaultOfficialSecondLevelCount - defaultOfficialFirstLevelCount)
                   (drop defaultOfficialFirstLevelCount addrs))) (\<lambda>l2.
          bindR (history_items hist 0 (take (defaultOfficialThirdLevelCount - defaultOfficialSecondLevelCount)
                   (drop defaultOfficialSecondLevelCount addrs))) (\<lambda>l3.
          bindR (history_items hist 0 (drop defaultOfficialThirdLevelCount addrs)) (\<lambda>l4.
          Inr (l1 @ take 6 (sortS l2) @ take 4 (sortS l3) @ [hd (sortS l4)])))))
        else if queueLength < 0 then Inl PanicIndex
        else history_items hist 0 (take (nat queueLength) addrs))"

definition createSignerQueue ::
  "(TallyItem list \<Rightarrow> TallyItem list) \<Rightarrow> (SignerItem list \<Rightarrow> SignerItem list) \<Rightarrow> bool \<Rightarrow> Snapshot
   \<Rightarrow> alien_err + address list" where
  "createSignerQueue sortT sortS candidateNeedPD s =
    (let M = cfg_MaxSignerCount (s_config s); hist = s_HistoryHash s in
     if M = 0 then Inl PanicDivide
     else if (s_Number s + 1) mod M \<noteq> 0 then Inl errCreateSignerQueueNotAllowed
     else if hist = [] then Inl PanicIndex
     else if s_Hash s \<noteq> last hist then Inl errCreateSignerQueueNotAllowed
     else if M * s_LCRS s = 0 then Inl PanicDivide
     else
       bindR
         (if (s_Number s + 1) mod (M * s_LCRS s) = 0
          then selectSigners sortS hist (sint M) (sortT (buildTallySlice candidateNeedPD s))
          else history_items hist 0 (s_Signers s))
         (\<lambda>signerSlice.
            let sorted = sortS signerSlice in
            if sorted = [] then Inl errSignerQueueEmpty
            else Inr (map (\<lambda>i. si_addr (sorted ! (i mod length sorted))) [0..<nat (sint M)])))"

definition verifySignerQueue ::
  "(TallyItem list \<Rightarrow> TallyItem list) \<Rightarrow> (SignerItem list \<Rightarrow> SignerItem list) \<Rightarrow> bool \<Rightarrow> Snapshot
   \<Rightarrow> address list \<Rightarrow> alien_err + unit" where
  "verifySignerQueue sortT sortS candidateNeedPD s signerQueue =
    (if sint (cfg_MaxSignerCount (s_config s)) < int (length signerQueue) then Inl errInvalidSignerQueue
     else
       bindR (createSignerQueue sortT sortS candidateNeedPD s) (\<lambda>sq.
         if length sq = 0 \<or> length sq \<noteq> length signerQueue then Inl errInvalidSignerQueue
         else if signerQueue \<noteq> sq then Inl errInvalidSignerQueue
         else Inr ()))"

definition removeExtraCandidate :: "(TallyItem list \<Rightarrow> TallyItem list) \<Rightarrow> bool \<Rightarrow> Snapshot \<Rightarrow> Snapshot" where
  "removeExtraCandidate sortT candidateNeedPD s =
    (let tallySlice = sortT (buildTallySlice candidateNeedPD s) in
     if candidateMaxLen < length tallySlice then
       foldl (\<lambda>s item. s\<lparr>
           s_SCCoinbase := (if mhas (s_SCCoinbase s) (ti_addr item) then mdel (ti_addr item) (s_SCCoinbase s)
                            else s_SCCoinbase s),
           s_Candidates := mdel (ti_addr item) (s_Candidates s)\<rparr>) s (drop candidateMaxLen tallySlice)
     else s)"

section \<open>The sorting contracts\<close>

lemma TallySlice_Less_asym: "TallySlice_Less x y \<Longrightarrow> \<not> TallySlice_Less y x"
  by (auto simp: TallySlice_Less_def split: if_splits)

lemma TallySlice_Less_neg_trans: "\<not> TallySlice_Less y x \<Longrightarrow> \<not> TallySlice_Less z y \<Longrightarrow> \<not> TallySlice_Less z x"
  by (auto simp: TallySlice_Less_def split: if_splits)

lemma TallySlice_Less_total: "ti_addr x \<noteq> ti_addr y \<Longrightarrow> TallySlice_Less x y \<or> TallySlice_Less y x"
  by (auto simp: TallySlice_Less_def)

lemma SignerSlice_Less_asym: "SignerSlice_Less x y \<Longrightarrow> \<not> SignerSlice_Less y x"
  by (auto simp: SignerSlice_Less_def)

lemma SignerSlice_Less_neg_trans: "\<not> SignerSlice_Less y x \<Longrightarrow> \<not> SignerSlice_Less z y \<Longrightarrow> \<not> SignerSlice_Less z x"
  by (auto simp: SignerSlice_Less_def)

interpretation tally_sort: go_sort TallySlice_Less "sort_less TallySlice_Less"
  by (rule go_sort_sort_less) (rule TallySlice_Less_asym TallySlice_Less_neg_trans; assumption)+

interpretation signer_sort: go_sort SignerSlice_Less "sort_less SignerSlice_Less"
  by (rule go_sort_sort_less) (rule SignerSlice_Less_asym SignerSlice_Less_neg_trans; assumption)+

section \<open>Pairing with the block history\<close>

lemma history_items_ok:
  "i + length as \<le> length hist \<Longrightarrow>
   history_items hist i as =
     Inr (map (\<lambda>j. \<lparr>si_addr = as ! j, si_hash = hist ! (length hist - 1 - (i + j))\<rparr>) [0..<length as])"
proof (induction as arbitrary: i)
  case Nil
  then show ?case by simp
next
  case (Cons a as)
  then show ?case by (simp add: upt_conv_Cons map_Suc_upt [symmetric] del: upt_Suc map_Suc_upt)
qed

lemma history_items_panic:
  "length hist < i + length as \<Longrightarrow> as \<noteq> [] \<Longrightarrow> history_items hist i as = Inl PanicIndex"
proof (induction as arbitrary: i)
  case Nil
  then show ?case by simp
next
  case (Cons a as)
  show ?case
  proof (cases "as = []")
    case True
    with Cons.prems show ?thesis by simp
  next
    case False
    with Cons.IH [of "Suc i"] Cons.prems show ?thesis by simp
  qed
qed

lemma history_items_cases:
  obtains "history_items hist 0 as = Inl PanicIndex" "length hist < length as"
  | items where "history_items hist 0 as = Inr items" "length as \<le> length hist" "map si_addr items = as"
      "map si_hash items = map (\<lambda>j. hist ! (length hist - Suc j)) [0..<length as]"
proof (cases "length as \<le> length hist")
  case True
  then have "0 + length as \<le> length hist" by simp
  from that(2) [OF history_items_ok [OF this] True] show ?thesis by (simp add: comp_def map_nth)
next
  case False
  then show ?thesis using history_items_panic [of hist 0 as] by (cases "as = []") (simp_all add: that(1))
qed

lemma distinct_history:
  assumes "distinct hist" "n \<le> length hist"
  shows "distinct (map (\<lambda>j. hist ! (length hist - Suc j)) [0..<n])"
  using assms by (auto simp: distinct_map inj_on_def nth_eq_iff_index_eq)

section \<open>Verification of a queue\<close>

lemma verifySignerQueue_iff:
  "verifySignerQueue sortT sortS pd s q = Inr () \<longleftrightarrow>
   q \<noteq> [] \<and> int (length q) \<le> sint (cfg_MaxSignerCount (s_config s)) \<and> createSignerQueue sortT sortS pd s = Inr q"
  by (auto simp: verifySignerQueue_def bind_simps split: if_splits)

section \<open>The outcome does not depend on the algorithm or the map order\<close>

lemma concat_map_singles: "concat (map (\<lambda>x. if P x then [f x] else []) xs) = map f (filter P xs)"
  by (induction xs) auto

lemma buildTallySlice_filter:
  "buildTallySlice pd s = map (\<lambda>(a, r). \<lparr>ti_addr = a, ti_stake = deref s r * sint (creditWeight s a)\<rparr>)
     (filter (\<lambda>(a, r). \<not> pd \<or> isCandidate s a) (s_Tally s))"
  unfolding buildTallySlice_def case_prod_beta' by (rule concat_map_singles)

lemma buildTallySlice_addrs:
  "map ti_addr (buildTallySlice pd s) = filter (\<lambda>a. \<not> pd \<or> isCandidate s a) (mkeys (s_Tally s))"
  by (simp add: buildTallySlice_filter case_prod_beta' comp_def filter_map)

lemma buildTallySlice_perm:
  assumes "mset t = mset (s_Tally s)"
  shows "mset (buildTallySlice pd (s\<lparr>s_Tally := t\<rparr>)) = mset (buildTallySlice pd s)"
  using assms by (simp add: buildTallySlice_filter deref_def creditWeight_def isCandidate_def)

lemma tally_rank_unique:
  assumes srt: "go_sort TallySlice_Less f" "go_sort TallySlice_Less g"
    and m: "mset xs = mset ys" and d: "distinct (map ti_addr xs)"
  shows "f xs = g ys"
proof (rule ordered_perm_unique [of _ _ TallySlice_Less])
  show "mset (f xs) = mset (g ys)" using m by (simp add: go_sort.srt_mset [OF srt(1)] go_sort.srt_mset [OF srt(2)])
  show "sorted_wrt (\<lambda>x y. \<not> TallySlice_Less y x) (f xs)" by (rule go_sort.srt_ordered [OF srt(1)])
  show "sorted_wrt (\<lambda>x y. \<not> TallySlice_Less y x) (g ys)" by (rule go_sort.srt_ordered [OF srt(2)])
  show "TallySlice_Less x y \<or> TallySlice_Less y x" if "x \<in> set (f xs)" "y \<in> set (f xs)" "x \<noteq> y" for x y
    using that d by (intro TallySlice_Less_total) (auto simp: go_sort.srt_set [OF srt(1)] distinct_map inj_on_def)
qed (rule TallySlice_Less_asym)

lemma signer_rank_unique:
  assumes srt: "go_sort SignerSlice_Less f" "go_sort SignerSlice_Less g" and d: "distinct (map si_hash xs)"
  shows "f xs = g xs"
proof (rule ordered_perm_unique [of _ _ SignerSlice_Less])
  show "mset (f xs) = mset (g xs)" by (simp add: go_sort.srt_mset [OF srt(1)] go_sort.srt_mset [OF srt(2)])
  show "sorted_wrt (\<lambda>x y. \<not> SignerSlice_Less y x) (f xs)" by (rule go_sort.srt_ordered [OF srt(1)])
  show "sorted_wrt (\<lambda>x y. \<not> SignerSlice_Less y x) (g xs)" by (rule go_sort.srt_ordered [OF srt(2)])
  show "SignerSlice_Less x y \<or> SignerSlice_Less y x" if "x \<in> set (f xs)" "y \<in> set (f xs)" "x \<noteq> y" for x y
  proof -
    have "si_hash x \<noteq> si_hash y" using that d by (auto simp: go_sort.srt_set [OF srt(1)] distinct_map inj_on_def)
    then show ?thesis by (auto simp: SignerSlice_Less_def)
  qed
qed (rule SignerSlice_Less_asym)

text \<open>The branch without levels: at most thirty ranked candidates, or a queue of another length than 21.\<close>

definition plain :: "int \<Rightarrow> nat \<Rightarrow> bool" where
  "plain M n \<longleftrightarrow> \<not> (M = int defaultOfficialMaxSignerCount \<and> defaultOfficialThirdLevelCount < n)"

lemma selectSigners_plain:
  assumes "plain M (length ts)" "0 \<le> M"
  shows "selectSigners sortS hist M ts = history_items hist 0 (take (nat M) (map ti_addr ts))"
  using assms by (auto simp: selectSigners_def Let_def plain_def defaultOfficialMaxSignerCount_def
      defaultOfficialThirdLevelCount_def)

lemma createSignerQueue_deterministic:
  assumes T: "go_sort TallySlice_Less sortT" "go_sort TallySlice_Less sortT'"
    and S: "go_sort SignerSlice_Less sortS" "go_sort SignerSlice_Less sortS'"
    and t: "mset t = mset (s_Tally s)" "distinct (mkeys (s_Tally s))" and h: "distinct (s_HistoryHash s)"
    and M: "0 \<le> sint (cfg_MaxSignerCount (s_config s))"
      "plain (sint (cfg_MaxSignerCount (s_config s))) (length (buildTallySlice pd s))"
  shows "createSignerQueue sortT sortS pd s = createSignerQueue sortT' sortS' pd (s\<lparr>s_Tally := t\<rparr>)"
proof -
  let ?M = "sint (cfg_MaxSignerCount (s_config s))" and ?s' = "s\<lparr>s_Tally := t\<rparr>"
  have r: "sortT (buildTallySlice pd s) = sortT' (buildTallySlice pd ?s')"
    using t by (intro tally_rank_unique [OF T]) (simp_all add: buildTallySlice_perm buildTallySlice_addrs)
  have len: "length (sortT' (buildTallySlice pd ?s')) = length (buildTallySlice pd s)"
    using r go_sort.srt_length [OF T(1), of "buildTallySlice pd s"] by simp
  have sel: "selectSigners f (s_HistoryHash s) ?M (sortT' (buildTallySlice pd ?s')) =
      history_items (s_HistoryHash s) 0 (take (nat ?M) (map ti_addr (sortT' (buildTallySlice pd ?s'))))" for f
    using M len by (intro selectSigners_plain) simp_all
  have srt: "sortS items = sortS' items" if "history_items (s_HistoryHash s) 0 as = Inr items" for as items
    using that by (cases rule: history_items_cases [of "s_HistoryHash s" as])
      (auto intro!: signer_rank_unique [OF S] distinct_history [OF h])
  show ?thesis
    by (cases "history_items (s_HistoryHash s) 0 (take (nat ?M) (map ti_addr (sortT' (buildTallySlice pd ?s'))))";
        cases "history_items (s_HistoryHash s) 0 (s_Signers s)")
      (simp_all add: createSignerQueue_def Let_def r sel srt)
qed

section \<open>Who is in the queue\<close>

lemma set_cycle:
  assumes "xs \<noteq> []" "length xs \<le> n"
  shows "set (map (\<lambda>i. f (xs ! (i mod length xs))) [0..<n]) = f ` set xs"
proof
  show "set (map (\<lambda>i. f (xs ! (i mod length xs))) [0..<n]) \<subseteq> f ` set xs" using assms(1) by auto
next
  have "f (xs ! j) \<in> set (map (\<lambda>i. f (xs ! (i mod length xs))) [0..<n])" if "j < length xs" for j
    using that assms(2) by (auto simp: image_iff intro!: bexI [of _ j])
  then show "f ` set xs \<subseteq> set (map (\<lambda>i. f (xs ! (i mod length xs))) [0..<n])"
    by (force simp: in_set_conv_nth)
qed

text \<open>When a new queue is due: the last block of a loop, with its hash at the end of the history.\<close>

definition queue_due :: "Snapshot \<Rightarrow> bool" where
  "queue_due s \<longleftrightarrow> cfg_MaxSignerCount (s_config s) * s_LCRS s \<noteq> 0 \<and>
     (s_Number s + 1) mod cfg_MaxSignerCount (s_config s) = 0 \<and> s_HistoryHash s \<noteq> [] \<and> s_Hash s = last (s_HistoryHash s)"

definition reelection :: "Snapshot \<Rightarrow> bool" where
  "reelection s \<longleftrightarrow> (s_Number s + 1) mod (cfg_MaxSignerCount (s_config s) * s_LCRS s) = 0"

lemma createSignerQueue_due:
  "queue_due s \<Longrightarrow> createSignerQueue sortT sortS pd s =
    bindR (if reelection s then selectSigners sortS (s_HistoryHash s) (sint (cfg_MaxSignerCount (s_config s)))
             (sortT (buildTallySlice pd s)) else history_items (s_HistoryHash s) 0 (s_Signers s))
      (\<lambda>sel. if sortS sel = [] then Inl errSignerQueueEmpty
         else Inr (map (\<lambda>i. si_addr (sortS sel ! (i mod length (sortS sel))))
                [0..<nat (sint (cfg_MaxSignerCount (s_config s)))]))"
  unfolding createSignerQueue_def queue_due_def reelection_def Let_def by auto

lemma createSignerQueue_not_due:
  assumes "createSignerQueue sortT sortS pd s = Inr q"
  shows "queue_due s"
  using assms by (auto simp: createSignerQueue_def queue_due_def Let_def split: if_splits)

lemma createSignerQueue_plain:
  assumes S: "go_sort SignerSlice_Less sortS" and T: "go_sort TallySlice_Less sortT"
    and due: "queue_due s" "reelection s"
    and M: "M = sint (cfg_MaxSignerCount (s_config s))" "0 < M"
    and n: "buildTallySlice pd s \<noteq> []" "plain M (length (buildTallySlice pd s))"
      "length (take (nat M) (buildTallySlice pd s)) \<le> length (s_HistoryHash s)"
  shows "\<exists>q. createSignerQueue sortT sortS pd s = Inr q \<and> length q = nat M \<and>
    set q = set (take (nat M) (map ti_addr (sortT (buildTallySlice pd s))))"
proof -
  let ?ts = "sortT (buildTallySlice pd s)"
  let ?as = "take (nat M) (map ti_addr ?ts)"
  have len: "length ?ts = length (buildTallySlice pd s)" by (rule go_sort.srt_length [OF T])
  have sel: "selectSigners sortS (s_HistoryHash s) M ?ts = history_items (s_HistoryHash s) 0 ?as"
    using M(2) n(2) len by (intro selectSigners_plain) simp_all
  have l: "length ?as \<le> length (s_HistoryHash s)" using n(3) len by simp
  obtain items where it: "history_items (s_HistoryHash s) 0 ?as = Inr items" "map si_addr items = ?as"
    using l by (cases rule: history_items_cases [of "s_HistoryHash s" ?as]) auto
  have "?as \<noteq> []" using n(1) M(2) len by (metis length_0_conv length_map nat_0_iff not_le take_eq_Nil)
  then have "items \<noteq> []" using it(2) by auto
  then have ne: "sortS items \<noteq> []" using go_sort.srt_length [OF S, of items] by auto
  have "length (sortS items) = length ?as" using it(2) go_sort.srt_length [OF S, of items] by (metis length_map)
  then have "length (sortS items) \<le> nat M" by simp
  then have "set (map (\<lambda>i. si_addr (sortS items ! (i mod length (sortS items)))) [0..<nat M]) = si_addr ` set (sortS items)"
    by (rule set_cycle [OF ne])
  also have "\<dots> = set ?as" using it(2) go_sort.srt_set [OF S, of items] by (metis list.set_map)
  finally show ?thesis using createSignerQueue_due [OF due(1)] due(2) M(1) sel it(1) ne by simp
qed

section \<open>Twenty-one signers from more than thirty candidates\<close>

text \<open>
  With the levels, the candidates ranked below thirty are paired with the history one by one:
  more of them than there are hashes is an index out of range.
\<close>

lemma official_branch:
  assumes "defaultOfficialThirdLevelCount < length ts"
  shows "selectSigners sortS hist 21 ts =
    (let addrs = map ti_addr ts in
     bindR (history_items hist 0 (take 10 addrs)) (\<lambda>l1.
     bindR (history_items hist 0 (take 10 (drop 10 addrs))) (\<lambda>l2.
     bindR (history_items hist 0 (take 10 (drop 20 addrs))) (\<lambda>l3.
     bindR (history_items hist 0 (drop 30 addrs)) (\<lambda>l4.
     Inr (l1 @ take 6 (sortS l2) @ take 4 (sortS l3) @ [hd (sortS l4)]))))))"
  using assms by (simp add: selectSigners_def Let_def defaultOfficialMaxSignerCount_def defaultOfficialThirdLevelCount_def
      defaultOfficialFirstLevelCount_def defaultOfficialSecondLevelCount_def)

lemma official_panic:
  assumes "defaultOfficialThirdLevelCount + length hist < length ts"
  shows "selectSigners sortS hist 21 ts = Inl PanicIndex"
proof -
  have "history_items hist 0 (drop 30 (map ti_addr ts)) = Inl PanicIndex"
    using assms by (intro history_items_panic) (auto simp: defaultOfficialThirdLevelCount_def)
  moreover have "history_items hist 0 as = Inl PanicIndex \<or> (\<exists>l. history_items hist 0 as = Inr l)" for as
    by (cases rule: history_items_cases [of hist as]) auto
  ultimately show ?thesis using assms
    by (subst official_branch) (auto simp: Let_def bind_simps)
qed

lemma createSignerQueue_panic:
  assumes T: "go_sort TallySlice_Less sortT" and "queue_due s" "reelection s"
    and "sint (cfg_MaxSignerCount (s_config s)) = 21"
    and "30 + length (s_HistoryHash s) < length (buildTallySlice pd s)"
  shows "createSignerQueue sortT sortS pd s = Inl PanicIndex"
  using assms(2-5) by (simp add: createSignerQueue_due official_panic go_sort.srt_length [OF T] defaultOfficialThirdLevelCount_def)

text \<open>
  Otherwise the first ten and the chosen of the next ten carry hashes from the same ten blocks,
  so there are ties, which \<open>Less\<close> does not break.
\<close>

lemma sorted_addrs:
  assumes "go_sort SignerSlice_Less sortS"
  shows "mset (map si_addr (sortS l)) = mset (map si_addr l)" "set (map si_hash (sortS l)) = set (map si_hash l)"
    "length (sortS l) = length l"
  using go_sort.srt_mset [OF assms, of l] go_sort.srt_set [OF assms, of l] go_sort.srt_length [OF assms, of l]
  by simp_all

lemma sorted_take:
  assumes "go_sort SignerSlice_Less sortS" "distinct (map si_addr l)"
  shows "distinct (map si_addr (take n (sortS l)))" "set (map si_addr (take n (sortS l))) \<subseteq> set (map si_addr l)"
proof -
  have "distinct (map si_addr (sortS l))" using assms mset_eq_imp_distinct_iff [OF sorted_addrs(1) [OF assms(1)]] by blast
  then show "distinct (map si_addr (take n (sortS l)))" unfolding take_map [symmetric] by (rule distinct_take)
  have "set (map si_addr (sortS l)) = set (map si_addr l)" by (rule mset_eq_setD [OF sorted_addrs(1) [OF assms(1)]])
  then show "set (map si_addr (take n (sortS l))) \<subseteq> set (map si_addr l)"
    unfolding take_map [symmetric] using set_take_subset by metis
qed

lemma segments: "xs = take 10 xs @ take 10 (drop 10 xs) @ take 10 (drop 20 xs) @ drop 30 xs"
proof -
  have "drop 10 (drop 10 xs) = drop 20 xs" "drop 10 (drop 20 xs) = drop 30 xs" by simp_all
  then show ?thesis by (metis append_take_drop_id)
qed

lemma official_selection:
  assumes S: "go_sort SignerSlice_Less sortS"
    and n: "30 < length ts" and sel: "selectSigners sortS hist 21 ts = Inr items" and d: "distinct (map ti_addr ts)"
  shows "length items = 21 \<and> distinct (map si_addr items) \<and> set (map si_addr items) \<subseteq> set (map ti_addr ts) \<and>
    \<not> distinct (map si_hash items)"
proof -
  let ?as = "map ti_addr ts" and ?h = "\<lambda>n. map (\<lambda>j. hist ! (length hist - Suc j)) [0..<n]"
  from sel n obtain l1 l2 l3 l4 where
    h1: "history_items hist 0 (take 10 ?as) = Inr l1" and
    h2: "history_items hist 0 (take 10 (drop 10 ?as)) = Inr l2" and
    h3: "history_items hist 0 (take 10 (drop 20 ?as)) = Inr l3" and
    h4: "history_items hist 0 (drop 30 ?as) = Inr l4" and
    items: "items = l1 @ take 6 (sortS l2) @ take 4 (sortS l3) @ [hd (sortS l4)]"
    by (subst (asm) official_branch) (auto simp: Let_def bind_simps defaultOfficialThirdLevelCount_def)
  have a1: "map si_addr l1 = take 10 ?as" "map si_hash l1 = ?h 10"
    using h1 n by (cases rule: history_items_cases [of hist "take 10 ?as"]; simp)+
  have a2: "map si_addr l2 = take 10 (drop 10 ?as)" "map si_hash l2 = ?h 10"
    using h2 n by (cases rule: history_items_cases [of hist "take 10 (drop 10 ?as)"]; simp)+
  have a3: "map si_addr l3 = take 10 (drop 20 ?as)"
    using h3 by (cases rule: history_items_cases [of hist "take 10 (drop 20 ?as)"]) simp_all
  have a4: "map si_addr l4 = drop 30 ?as"
    using h4 by (cases rule: history_items_cases [of hist "drop 30 ?as"]) simp_all
  have dd: "distinct (take 10 ?as @ take 10 (drop 10 ?as) @ take 10 (drop 20 ?as) @ drop 30 ?as)"
    using d segments [of ?as] by simp
  have len: "length l1 = 10" "length l2 = 10" "length l3 = 10" "l4 \<noteq> []"
    using arg_cong [OF a1(1), of length] arg_cong [OF a2(1), of length] arg_cong [OF a3, of length]
      arg_cong [OF a4, of length] n by auto
  have ne4: "sortS l4 \<noteq> []" using len(4) sorted_addrs(3) [OF S, of l4] by auto
  then have hd4: "[hd (sortS l4)] = take 1 (sortS l4)" by (cases "sortS l4") simp_all
  note it = items [unfolded hd4]
  have b: "distinct (map si_addr l2)" "distinct (map si_addr l3)" "distinct (map si_addr l4)"
    using dd a2(1) a3 a4 by simp_all
  note t2 = sorted_take [OF S b(1), of 6] and t3 = sorted_take [OF S b(2), of 4] and t4 = sorted_take [OF S b(3), of 1]
  have sub: "set (map si_addr items) \<subseteq> set (take 10 ?as @ take 10 (drop 10 ?as) @ take 10 (drop 20 ?as) @ drop 30 ?as)"
    using a1(1) a2(1) a3 a4 t2(2) t3(2) t4(2) it by (metis Un_mono map_append order_refl set_append)
  have "distinct (map si_addr l1 @ map si_addr (take 6 (sortS l2)) @ map si_addr (take 4 (sortS l3)) @ map si_addr (take 1 (sortS l4)))"
    using dd t2 t3 t4 unfolding a1(1) a2(1) a3 a4 distinct_append set_append by blast
  then have dist: "distinct (map si_addr items)" unfolding it by simp
  have "length items = 21" unfolding it using len ne4 sorted_addrs(3) [OF S] by (cases "sortS l4") simp_all
  moreover have "\<not> distinct (map si_hash items)"
  proof -
    obtain x xs where x: "sortS l2 = x # xs" using len(2) sorted_addrs(3) [OF S, of l2] by (cases "sortS l2") auto
    then have "si_hash x \<in> set (map si_hash l1)"
      using sorted_addrs(2) [OF S, of l2] a1(2) a2(2) by (metis list.set_intros(1) list.simps(9))
    then show ?thesis unfolding it x by auto
  qed
  ultimately show ?thesis using dist sub segments [of ?as] by metis
qed

text \<open>
  The order of tied signers is the order in which they reach \<open>sort.Sort\<close> for one algorithm that
  meets its contract, and the reverse for another.
\<close>

definition unstable_sort :: "SignerItem list \<Rightarrow> SignerItem list" where
  "unstable_sort xs = sort_less SignerSlice_Less (rev xs)"

interpretation unstable: go_sort SignerSlice_Less unstable_sort
proof
  show "mset (unstable_sort xs) = mset xs" for xs by (simp add: unstable_sort_def mset_sort_less)
  show "sorted_wrt (\<lambda>x y. \<not> SignerSlice_Less y x) (unstable_sort xs)" for xs
    unfolding unstable_sort_def by (rule signer_sort.srt_ordered)
qed

lemma filter_insert_less:
  "filter (\<lambda>y. si_hash y = h) (insert_less SignerSlice_Less x ys) = filter (\<lambda>y. si_hash y = h) (x # ys)"
  by (induction ys) (auto simp: SignerSlice_Less_def)

lemma filter_sort_less: "filter (\<lambda>y. si_hash y = h) (sort_less SignerSlice_Less xs) = filter (\<lambda>y. si_hash y = h) xs"
  by (induction xs) (simp_all add: filter_insert_less)

lemma tied_sorts_differ:
  assumes d: "distinct (map si_addr xs)" "\<not> distinct (map si_hash xs)"
  shows "map si_addr (sort_less SignerSlice_Less xs) \<noteq> map si_addr (unstable_sort xs)"
proof
  assume eq: "map si_addr (sort_less SignerSlice_Less xs) = map si_addr (unstable_sort xs)"
  have inj: "inj_on si_addr (set xs)" using d(1) by (simp add: distinct_map)
  have "sort_less SignerSlice_Less xs = unstable_sort xs"
    using eq by (rule map_inj_on) (simp add: inj)
  then have pal: "filter (\<lambda>y. si_hash y = h) xs = rev (filter (\<lambda>y. si_hash y = h) xs)" for h
    by (metis filter_sort_less rev_filter unstable_sort_def)
  from d(2) obtain i j where ij: "i < length xs" "j < length xs" "i \<noteq> j" "si_hash (xs ! i) = si_hash (xs ! j)"
    by (auto simp: distinct_conv_nth)
  let ?x = "xs ! i"
  let ?f = "filter (\<lambda>y. si_hash y = si_hash ?x) xs"
  have dx: "distinct xs" using d(1) by (simp add: distinct_map)
  then have dist: "distinct ?f" by simp
  have "{?x, xs ! j} \<subseteq> set ?f" using ij by auto
  then have "card {?x, xs ! j} \<le> card (set ?f)" by (intro card_mono) simp_all
  moreover have "?x \<noteq> xs ! j" using ij dx by (simp add: nth_eq_iff_index_eq)
  ultimately have len: "2 \<le> length ?f" using distinct_card [OF dist] by simp
  have "rev ?f ! 0 = ?f ! (length ?f - 1)" using len by (subst rev_nth) auto
  then have "?f ! 0 = ?f ! (length ?f - 1)" using pal [of "si_hash ?x"] by metis
  moreover have "0 < length ?f" "length ?f - 1 < length ?f" "0 \<noteq> length ?f - 1" using len by linarith+
  ultimately show False using nth_eq_iff_index_eq [OF dist] by blast
qed

lemma createSignerQueue_ambiguous:
  assumes T: "go_sort TallySlice_Less sortT" and due: "queue_due s" "reelection s"
    and M: "sint (cfg_MaxSignerCount (s_config s)) = 21"
    and n: "30 < length (buildTallySlice pd s)" and d: "distinct (mkeys (s_Tally s))" "distinct (s_HistoryHash s)"
    and q: "createSignerQueue sortT (sort_less SignerSlice_Less) pd s = Inr q"
  shows "\<exists>q'. createSignerQueue sortT unstable_sort pd s = Inr q' \<and> q' \<noteq> q"
proof -
  let ?ts = "sortT (buildTallySlice pd s)" and ?S = "sort_less SignerSlice_Less"
  have len: "30 < length ?ts" using n go_sort.srt_length [OF T, of "buildTallySlice pd s"] by simp
  have dt: "distinct (map ti_addr ?ts)"
  proof -
    have "mset (map ti_addr ?ts) = mset (map ti_addr (buildTallySlice pd s))"
      using go_sort.srt_mset [OF T, of "buildTallySlice pd s"] by simp
    then show ?thesis using d(1) by (metis buildTallySlice_addrs distinct_filter mset_eq_imp_distinct_iff)
  qed
  obtain items where it: "selectSigners ?S (s_HistoryHash s) 21 ?ts = Inr items"
    using q createSignerQueue_due [OF due(1), of sortT ?S pd] due(2) M by (auto simp: bind_simps)
  note o = official_selection [OF signer_sort.go_sort_axioms len it dt]
  have same: "?S l = unstable_sort l" if "history_items (s_HistoryHash s) 0 as = Inr l" for as l
    using that d(2) by (cases rule: history_items_cases [of "s_HistoryHash s" as])
      (auto intro!: signer_rank_unique [OF signer_sort.go_sort_axioms unstable.go_sort_axioms] distinct_history)
  have it': "selectSigners unstable_sort (s_HistoryHash s) 21 ?ts = Inr items"
    using it len by (subst (asm) official_branch, simp add: defaultOfficialThirdLevelCount_def, subst official_branch)
      (auto simp: Let_def bind_simps defaultOfficialThirdLevelCount_def same)
  have cyc: "map (\<lambda>i. si_addr (xs ! (i mod length xs))) [0..<21] = map si_addr xs" if "length xs = 21" for xs
    using that by (intro nth_equalityI) simp_all
  have l: "length (?S items) = 21" "length (unstable_sort items) = 21" using o by simp_all
  then have ne: "?S items \<noteq> []" "unstable_sort items \<noteq> []" by (metis list.size(3) zero_neq_numeral)+
  have "q = map si_addr (?S items)"
    using q it ne cyc [OF l(1)] l(1) createSignerQueue_due [OF due(1), of sortT ?S pd] due(2) M by simp
  moreover have "createSignerQueue sortT unstable_sort pd s = Inr (map si_addr (unstable_sort items))"
    using it' ne cyc [OF l(2)] l(2) createSignerQueue_due [OF due(1), of sortT unstable_sort pd] due(2) M by simp
  ultimately show ?thesis using tied_sorts_differ [of items] o by auto
qed

end
