(* ===== verification/Alien_Apply.thy ===== *)
theory Alien_Apply
  imports Alien_Queue
begin

text \<open>
  \<open>Snapshot.apply\<close> (\<open>src/gttc/consensus/alien/snapshot.go\<close>): how a batch of headers turns a
  snapshot into the next one.  Arguments stand for what the function calls outside the
  package: \<open>recover\<close> for the signer of a header (\<open>ecrecover\<close> of \<open>alien.go\<close>, modelled in the
  theory of the engine), \<open>hashf\<close> for \<open>header.Hash()\<close>, \<open>sortT\<close> for \<open>sort.Sort\<close> on a tally slice.
  The pair \<open>(snap, mrpt)\<close> is the snapshot with the package variable \<open>minerRewardPerThousand\<close>.
\<close>

section \<open>Definitions\<close>

text \<open>\<open>HistoryHash\<close> keeps the hashes of two loops; a slice expression out of range panics.\<close>

definition pushHistory :: "u64 \<Rightarrow> hash \<Rightarrow> hash list \<Rightarrow> alien_err + hash list" where
  "pushHistory maxSignerCount h hist =
    (let m2 = sint (maxSignerCount * 2) in
     if m2 \<le> int (length hist)
     then (if m2 < 1 then Inl PanicIndex else Inr (take (nat m2 - 1) (drop 1 hist) @ [h]))
     else Inr (hist @ [h]))"

definition applyHeader ::
  "(Header \<Rightarrow> alien_err + address) \<Rightarrow> (Header \<Rightarrow> hash) \<Rightarrow> (TallyItem list \<Rightarrow> TallyItem list) \<Rightarrow> bool \<Rightarrow> AlienConfig
   \<Rightarrow> Snapshot \<times> u64 \<Rightarrow> Header \<Rightarrow> alien_err + Snapshot \<times> u64" where
  "applyHeader recover hashf sortT candidateNeedPD config sm header =
    (let (snap, mrpt) = sm in
     bindR (recover header) (\<lambda>coinbase.
     if coinbase \<noteq> h_Coinbase header then Inl errUnauthorized
     else
       bindR (extra_payload header) (\<lambda>payload.
       bindR (decodeHeaderExtra config (hNumber header) payload new_HeaderExtra) (\<lambda>headerExtra.
       let snap = snap\<lparr>s_HeaderTime := Uint64 (h_Time header), s_LoopStartTime := he_LoopStartTime headerExtra,
             s_Signers := he_SignerQueue headerExtra, s_ConfirmedNumber := he_ConfirmedBlockNumber headerExtra\<rparr>
       in
       bindR (pushHistory (cfg_MaxSignerCount config) (hashf header) (s_HistoryHash snap)) (\<lambda>hist.
       let snap = updateSnapshotByConfirmations (he_CurrentBlockConfirmations headerExtra) (snap\<lparr>s_HistoryHash := hist\<rparr>)
       in
       bindR (updateSnapshotByVotes candidateNeedPD (he_CurrentBlockVotes headerExtra) (hNumber header) snap) (\<lambda>snap.
       bindR (updateSnapshotByMPVotes (he_ModifyPredecessorVotes headerExtra) snap) (\<lambda>snap.
       let snap = updateSnapshotForPunish (he_SignerMissing headerExtra) (hNumber header) (h_Coinbase header) snap;
           snap = updateSnapshotByProposals (he_CurrentBlockProposals headerExtra) (hNumber header) snap;
           snap = updateSnapshotByDeclares (he_CurrentBlockDeclares headerExtra) (hNumber header) snap;
           snap = (if s_Period snap = 0 \<and> IsTrantor (s_config snap) (hNumber header)
                   then snap\<lparr>s_Period := cfg_Period (s_config snap)\<rparr> else snap);
           snap = updateSnapshotBySetSCCoinbase (he_SideChainSetCoinbases headerExtra) snap
       in
       bindR (updateSnapshotBySCConfirm (he_SideChainConfirmations headerExtra) (hNumber header) snap) (\<lambda>snap.
       let (snap, mrpt) = calculateProposalResult candidateNeedPD (hNumber header) (snap, mrpt);
           loop = cfg_MaxSignerCount (s_config snap) * s_LCRS snap
       in
       if candidateNeedPD then Inr (snap, mrpt)
       else if loop = 0 then Inl PanicDivide
       else if (s_Number snap + 1) mod loop = 0 \<and> candidateMaxLen < length (s_Candidates snap)
       then Inr (removeExtraCandidate sortT candidateNeedPD snap, mrpt)
       else Inr (snap, mrpt)))))))))"

fun contiguous :: "Header list \<Rightarrow> bool" where
  "contiguous (h # h' # hs) = (Uint64 (hNumber h') = Uint64 (hNumber h) + 1 \<and> contiguous (h' # hs))"
| "contiguous hs = True"

definition Snapshot_apply ::
  "(Header \<Rightarrow> alien_err + address) \<Rightarrow> (Header \<Rightarrow> hash) \<Rightarrow> (TallyItem list \<Rightarrow> TallyItem list) \<Rightarrow> bool
   \<Rightarrow> Snapshot \<times> u64 \<Rightarrow> Header list \<Rightarrow> alien_err + Snapshot \<times> u64" where
  "Snapshot_apply recover hashf sortT candidateNeedPD sm headers =
    (let (s, mrpt) = sm in
     if headers = [] then Inr (s, mrpt)
     else if \<not> contiguous headers then Inl errInvalidVotingChain
     else if Uint64 (hNumber (hd headers)) \<noteq> s_Number s + 1 then Inl errInvalidVotingChain
     else
       bindR (foldR (applyHeader recover hashf sortT candidateNeedPD (s_config s)) (Snapshot_copy s, mrpt) headers)
         (\<lambda>(snap, mrpt).
          let snap = snap\<lparr>s_Number := s_Number snap + of_nat (length headers), s_Hash := hashf (last headers)\<rparr>
          in
          bindR (updateSnapshotForExpired snap) (\<lambda>snap.
          bindR (verifyTallyCnt snap) (\<lambda>_.
          Inr (snap, mrpt)))))"

section \<open>What the steps leave alone\<close>

text \<open>\<open>core\<close> is the position of a snapshot in the chain with its queue, \<open>books\<close> its votes and tally.\<close>

definition core :: "Snapshot \<Rightarrow> AlienConfig \<times> u64 \<times> u64 \<times> hash \<times> hash list \<times> address list" where
  "core s = (s_config s, s_LCRS s, s_Number s, s_Hash s, s_HistoryHash s, s_Signers s)"

definition books :: "Snapshot \<Rightarrow> (address, SVote) gomap \<times> (address, nat) gomap \<times> (address, int) gomap \<times> int list" where
  "books s = (s_Votes s, s_Tally s, s_Voters s, s_ints s)"

named_theorems frame \<open>operations that keep \<open>core\<close> or \<open>books\<close>\<close>

lemma books_ledger: "books s' = books s \<Longrightarrow> ledger s' = ledger s \<and> live s' = live s \<and> s_Tally s' = s_Tally s"
  using ledger_cong [of s' s] by (simp add: books_def)

lemma confirmations_frame [frame]:
  "core (updateSnapshotByConfirmations cs s) = core s" "books (updateSnapshotByConfirmations cs s) = books s"
  by (simp_all add: updateSnapshotByConfirmations_def core_def books_def)

lemma punish_frame [frame]:
  "core (updateSnapshotForPunish ms n c s) = core s" "books (updateSnapshotForPunish ms n c s) = books s"
  by (simp_all add: updateSnapshotForPunish_def core_def books_def Let_def)

lemma foldl_keeps: "(\<And>s x. F (f s x) = F s) \<Longrightarrow> F (foldl f s xs) = F s"
  by (induction xs arbitrary: s) simp_all

lemma foldR_keeps: "(\<And>s x s'. f s x = Inr s' \<Longrightarrow> F s' = F s) \<Longrightarrow> foldR f s xs = Inr t \<Longrightarrow> F t = F s"
  by (rule foldR_invariant [where I = "\<lambda>t. F t = F s"]) auto

lemma proposals_frame [frame]:
  "core (updateSnapshotByProposals ps n s) = core s" "books (updateSnapshotByProposals ps n s) = books s"
proof -
  have "core (updateSnapshotByProposal r n s p) = core s" "books (updateSnapshotByProposal r n s p) = books s" for r s p
    by (simp_all add: updateSnapshotByProposal_def core_def books_def Let_def)
  then show "core (updateSnapshotByProposals ps n s) = core s" "books (updateSnapshotByProposals ps n s) = books s"
    unfolding updateSnapshotByProposals_def by (simp_all add: foldl_keeps) (simp_all add: core_def books_def)
qed

lemma declares_frame [frame]:
  "core (updateSnapshotByDeclares ds n s) = core s" "books (updateSnapshotByDeclares ds n s) = books s"
proof -
  have "core (updateSnapshotByDeclare n s d) = core s" "books (updateSnapshotByDeclare n s d) = books s" for s d
    by (simp_all add: updateSnapshotByDeclare_def core_def books_def Let_def split: option.splits)
  then show "core (updateSnapshotByDeclares ds n s) = core s" "books (updateSnapshotByDeclares ds n s) = books s"
    unfolding updateSnapshotByDeclares_def by (simp_all add: foldl_keeps)
qed

lemma coinbases_frame [frame]:
  "core (updateSnapshotBySetSCCoinbase cs s) = core s" "books (updateSnapshotBySetSCCoinbase cs s) = books s"
proof -
  have "core (setSCCoinbase s c) = core s" "books (setSCCoinbase s c) = books s" for s c
    by (simp_all add: setSCCoinbase_def core_def books_def Let_def)
  then show "core (updateSnapshotBySetSCCoinbase cs s) = core s" "books (updateSnapshotBySetSCCoinbase cs s) = books s"
    unfolding updateSnapshotBySetSCCoinbase_def by (simp_all add: foldl_keeps)
qed

lemma addSCConfirm_frame: "core (addSCConfirm s c) = core s" "books (addSCConfirm s c) = books s"
  by (simp_all add: addSCConfirm_def core_def books_def Let_def split: option.splits)

lemma expireSCReward_frame: "core (expireSCReward hn s h) = core s" "books (expireSCReward hn s h) = books s"
  by (simp_all add: expireSCReward_def core_def books_def Let_def split: option.splits)

lemma SC_chain_frame:
  "updateSCConfirmation_chain hn s kv = Inr t \<Longrightarrow> core t = core s \<and> books t = books s"
proof -
  assume "updateSCConfirmation_chain hn s kv = Inr t"
  then have "\<exists>x y. t = s\<lparr>s_SCAllReward := x, s_SCConfirmation := y\<rparr>"
    unfolding updateSCConfirmation_chain_def Let_def case_prod_beta' bindR_Inr_iff Inr_inject by (elim exE conjE) blast
  then show ?thesis by (auto simp: core_def books_def)
qed

lemma if3_cases: "(if A then a else if B then b else c) = x \<Longrightarrow> x = a \<or> x = b \<or> x = c"
  by auto

lemma bindR_InrE: "bindR r f = Inr b \<Longrightarrow> (\<And>a. r = Inr a \<Longrightarrow> f a = Inr b \<Longrightarrow> P) \<Longrightarrow> P"
  by (auto simp: bind_simps)

lemma SCConfirm_frame [frame]:
  assumes "updateSnapshotBySCConfirm cs n s = Inr t"
  shows "core t = core s" "books t = books s"
proof -
  let ?F = "\<lambda>s. (core s, books s)"
  let ?s = "foldl addSCConfirm s cs"
  have s: "?F ?s = ?F s" by (rule foldl_keeps) (simp add: addSCConfirm_frame)
  have e: "?F (foldl (expireSCReward hn) u ks) = ?F u" for hn u ks
    by (rule foldl_keeps) (simp add: expireSCReward_frame)
  have c: "foldR (updateSCConfirmation_chain hn) u ks = Inr v \<Longrightarrow> ?F v = ?F u" for hn u ks v
    by (rule foldR_keeps [where f = "updateSCConfirmation_chain hn"]) (auto dest: SC_chain_frame)
  consider "t = ?s" | "updateSCConfirmation n ?s = Inr t"
    using if3_cases [OF assms [unfolded updateSnapshotBySCConfirm_def Let_def]] by (metis Inl_Inr_False Inr_inject)
  then have "?F t = ?F ?s"
  proof cases
    case 2
    then obtain u where "foldR (updateSCConfirmation_chain (Uint64 n)) ?s (s_SCConfirmation ?s) = Inr u"
      "t = foldl (expireSCReward (Uint64 n)) u (mkeys (s_SCAllReward u))"
      by (auto simp: updateSCConfirmation_def bind_simps)
    then show ?thesis using c e by metis
  qed simp
  with s show "core t = core s" "books t = books s" by simp_all
qed

lemma enact_frame: "enactProposal pd p sm = (t, m) \<Longrightarrow> core t = core (fst sm) \<and> books t = books (fst sm)"
  by (auto simp: enactProposal_def core_def books_def Let_def split: prod.splits if_splits)

lemma decisions_frame [frame]:
  "core (fst (calculateProposalResult pd n sm)) = core (fst sm)"
  "books (fst (calculateProposalResult pd n sm)) = books (fst sm)"
proof -
  have "(core (fst (decideProposal pd n sm kv)), books (fst (decideProposal pd n sm kv))) = (core (fst sm), books (fst sm))" for sm kv
  proof -
    obtain s m where sm: "sm = (s, m)" by force
    show ?thesis unfolding sm
      using enact_frame [of pd "s_props s ! snd kv" "(s, m)"]
      by (cases "enactProposal pd (s_props s ! snd kv) (s, m)") (auto simp: decideProposal_def Let_def core_def books_def)
  qed
  from foldl_keeps [where F = "\<lambda>sm. (core (fst sm), books (fst sm))" and f = "decideProposal pd n", OF this]
  show "core (fst (calculateProposalResult pd n sm)) = core (fst sm)"
    "books (fst (calculateProposalResult pd n sm)) = books (fst sm)"
    unfolding calculateProposalResult_def by simp_all
qed

lemma extraCandidate_frame [frame]:
  "core (removeExtraCandidate sortT pd s) = core s" "books (removeExtraCandidate sortT pd s) = books s"
  unfolding removeExtraCandidate_def Let_def
  by (auto intro!: foldl_keeps simp: core_def books_def)

lemma tally_op_core: "tally_add c x s = Inr t \<Longrightarrow> core t = core s" "tally_sub c x s = Inr t \<Longrightarrow> core t = core s"
  by (auto simp: tally_add_def tally_sub_def set_int_def core_def split: option.splits)

lemma new_int_core: "new_int x s = (r, t) \<Longrightarrow> core t = core s"
  by (auto simp: new_int_def core_def)

lemma byVote_core:
  assumes "updateSnapshotByVote pd n s v = Inr t"
  shows "core t = core s"
proof -
  have c: "core (s\<lparr>s_Tally := x\<rparr>) = core s" "core (s\<lparr>s_Candidates := y\<rparr>) = core s" "core (s\<lparr>s_ints := h\<rparr>) = core s"
    "core (s\<lparr>s_Votes := z, s_Voters := w\<rparr>) = core s" for s x y z w h
    by (simp_all add: core_def)
  show ?thesis using assms
    by (auto simp: updateSnapshotByVote_def Let_def bind_simps new_int_def c dest!: tally_op_core
        split: option.splits if_splits)
qed

lemma byMPVote_core:
  assumes "updateSnapshotByMPVote s v = Inr t"
  shows "core t = core s"
proof -
  have c: "core (s\<lparr>s_ints := h\<rparr>) = core s" "core (s\<lparr>s_Votes := z\<rparr>) = core s" for s z h
    by (simp_all add: core_def)
  show ?thesis using assms
    by (auto simp: updateSnapshotByMPVote_def Let_def bind_simps new_int_def c dest!: tally_op_core split: option.splits)
qed

lemma votes_core: "updateSnapshotByVotes pd vs n s = Inr t \<Longrightarrow> core t = core s"
  unfolding updateSnapshotByVotes_def by (rule foldR_keeps) (auto intro: byVote_core)

lemma MPVotes_core: "updateSnapshotByMPVotes vs s = Inr t \<Longrightarrow> core t = core s"
  unfolding updateSnapshotByMPVotes_def by (rule foldR_keeps) (auto intro: byMPVote_core)

lemma bindR_keeps:
  assumes "bindR r f = Inr t" "\<And>a. r = Inr a \<Longrightarrow> F a = F s" "\<And>a b. f a = Inr b \<Longrightarrow> F b = F a"
  shows "F t = F s"
  using assms by (cases r) auto

lemma removeExpiredVote_core: "removeExpiredVote s v = Inr t \<Longrightarrow> core t = core s"
proof -
  have c: "core (s\<lparr>s_Tally := x\<rparr>) = core s" "core (s\<lparr>s_Votes := z, s_Voters := w\<rparr>) = core s" for s x z w
    by (simp_all add: core_def)
  assume "removeExpiredVote s v = Inr t"
  then show ?thesis
    by (auto simp: removeExpiredVote_def bind_simps Let_def c dest!: tally_op_core split: option.splits)
qed

lemma removeZeroTally_core: "core (removeZeroTally s kv) = core s"
  by (simp add: removeZeroTally_def core_def)

lemma removeExpiredVotes_core: "foldR removeExpiredVote s vs = Inr t \<Longrightarrow> core t = core s"
  by (rule foldR_keeps) (auto intro: removeExpiredVote_core)

lemma expired_core:
  assumes "updateSnapshotForExpired s = Inr t"
  shows "core t = core s"
  using assms [unfolded updateSnapshotForExpired_def Let_def]
proof (rule bindR_keeps [where F = core])
  fix a
  assume "(if cfg_MaxSignerCount (s_config s) \<le> of_int (int (length (s_Voters s)) - int (length (expiredVotes s)))
    then foldR removeExpiredVote s (expiredVotes s) else Inr s) = Inr a"
  then show "core a = core s"
    by (metis Inr_inject removeExpiredVotes_core)
next
  fix a b :: Snapshot
  let ?cl = "\<lambda>s :: Snapshot. \<lambda>blockNumber. if cfg_MaxSignerCount (s_config s) < s_Number s - blockNumber
                 then s\<lparr>s_Confirmations := mdel blockNumber (s_Confirmations s)\<rparr> else s"
  let ?a = "foldl ?cl a (mkeys (s_Confirmations a))"
  assume "(Inr (foldl removeZeroTally ?a (s_Tally ?a)) :: alien_err + Snapshot) = Inr b"
  then have b: "b = foldl removeZeroTally ?a (s_Tally ?a)" by (rule Inr_inject [symmetric])
  have "core ?a = core a" by (rule foldl_keeps) (simp add: core_def)
  moreover have "core b = core ?a" unfolding b by (rule foldl_keeps) (rule removeZeroTally_core)
  ultimately show "core b = core a" by (rule trans [rotated])
qed

section \<open>One header\<close>

text \<open>The steps after the ballots, as one function.\<close>

definition afterBallots ::
  "(TallyItem list \<Rightarrow> TallyItem list) \<Rightarrow> bool \<Rightarrow> Header \<Rightarrow> HeaderExtra \<Rightarrow> Snapshot \<times> u64 \<Rightarrow> alien_err + Snapshot \<times> u64" where
  "afterBallots sortT candidateNeedPD header headerExtra sm =
    (let (snap, mrpt) = sm;
         snap = updateSnapshotForPunish (he_SignerMissing headerExtra) (hNumber header) (h_Coinbase header) snap;
         snap = updateSnapshotByProposals (he_CurrentBlockProposals headerExtra) (hNumber header) snap;
         snap = updateSnapshotByDeclares (he_CurrentBlockDeclares headerExtra) (hNumber header) snap;
         snap = (if s_Period snap = 0 \<and> IsTrantor (s_config snap) (hNumber header)
                 then snap\<lparr>s_Period := cfg_Period (s_config snap)\<rparr> else snap);
         snap = updateSnapshotBySetSCCoinbase (he_SideChainSetCoinbases headerExtra) snap
     in bindR (updateSnapshotBySCConfirm (he_SideChainConfirmations headerExtra) (hNumber header) snap) (\<lambda>snap.
       let (snap, mrpt) = calculateProposalResult candidateNeedPD (hNumber header) (snap, mrpt);
           loop = cfg_MaxSignerCount (s_config snap) * s_LCRS snap
       in
       if candidateNeedPD then Inr (snap, mrpt)
       else if loop = 0 then Inl PanicDivide
       else if (s_Number snap + 1) mod loop = 0 \<and> candidateMaxLen < length (s_Candidates snap)
       then Inr (removeExtraCandidate sortT candidateNeedPD snap, mrpt)
       else Inr (snap, mrpt)))"

definition beforeBallots :: "Header \<Rightarrow> HeaderExtra \<Rightarrow> hash list \<Rightarrow> Snapshot \<Rightarrow> Snapshot" where
  "beforeBallots header headerExtra hist snap =
    updateSnapshotByConfirmations (he_CurrentBlockConfirmations headerExtra)
      (snap\<lparr>s_HeaderTime := Uint64 (h_Time header), s_LoopStartTime := he_LoopStartTime headerExtra,
             s_Signers := he_SignerQueue headerExtra, s_ConfirmedNumber := he_ConfirmedBlockNumber headerExtra,
             s_HistoryHash := hist\<rparr>)"

lemma beforeBallots_frame [frame]:
  "core (beforeBallots header he hist s) = (s_config s, s_LCRS s, s_Number s, s_Hash s, hist, he_SignerQueue he)"
  "books (beforeBallots header he hist s) = books s"
  unfolding beforeBallots_def frame by (simp_all add: core_def books_def)

lemma afterBallots_frame [frame]:
  assumes "afterBallots sortT pd header he (s, m) = Inr (t, m')"
  shows "core t = core s" "books t = books s"
proof -
  let ?F = "\<lambda>s. (core s, books s)"
  define s1 where "s1 = updateSnapshotByDeclares (he_CurrentBlockDeclares he) (hNumber header)
    (updateSnapshotByProposals (he_CurrentBlockProposals he) (hNumber header)
      (updateSnapshotForPunish (he_SignerMissing he) (hNumber header) (h_Coinbase header) s))"
  define s2 where "s2 = updateSnapshotBySetSCCoinbase (he_SideChainSetCoinbases he)
    (if s_Period s1 = 0 \<and> IsTrantor (s_config s1) (hNumber header) then s1\<lparr>s_Period := cfg_Period (s_config s1)\<rparr> else s1)"
  have "?F (u\<lparr>s_Period := x\<rparr>) = ?F u" for u :: Snapshot and x by (simp add: core_def books_def)
  then have 2: "?F s2 = ?F s" unfolding s2_def s1_def frame if_distrib by (simp add: frame)
  obtain s3 where s3: "updateSnapshotBySCConfirm (he_SideChainConfirmations he) (hNumber header) s2 = Inr s3"
    and r: "(let (snap, mrpt) = calculateProposalResult pd (hNumber header) (s3, m);
           loop = cfg_MaxSignerCount (s_config snap) * s_LCRS snap
       in if pd then Inr (snap, mrpt)
       else if loop = 0 then Inl PanicDivide
       else if (s_Number snap + 1) mod loop = 0 \<and> candidateMaxLen < length (s_Candidates snap)
       then Inr (removeExtraCandidate sortT pd snap, mrpt)
       else Inr (snap, mrpt)) = (Inr (t, m') :: alien_err + Snapshot \<times> u64)"
    using assms unfolding afterBallots_def s1_def s2_def Let_def prod.case bindR_Inr_iff by blast
  obtain s4 m4 where s4: "calculateProposalResult pd (hNumber header) (s3, m) = (s4, m4)" by force
  have "t = s4 \<or> t = removeExtraCandidate sortT pd s4"
    using r unfolding s4 Let_def prod.case by (metis Inl_Inr_False Inr_inject Pair_inject)
  then have "?F t = ?F s4" using extraCandidate_frame by auto
  moreover have "?F s4 = ?F s3" using decisions_frame [of pd "hNumber header" "(s3, m)"] s4 by simp
  moreover have "?F s3 = ?F s2" using SCConfirm_frame [OF s3] by simp
  ultimately show "core t = core s" "books t = books s" using 2 by simp_all
qed

lemma applyHeader_eq:
  "applyHeader recover hashf sortT pd config (s, m) header =
    bindR (recover header) (\<lambda>coinbase.
      if coinbase \<noteq> h_Coinbase header then Inl errUnauthorized
      else bindR (extra_payload header) (\<lambda>payload.
        bindR (decodeHeaderExtra config (hNumber header) payload new_HeaderExtra) (\<lambda>he.
        bindR (pushHistory (cfg_MaxSignerCount config) (hashf header) (s_HistoryHash s)) (\<lambda>hist.
        bindR (updateSnapshotByVotes pd (he_CurrentBlockVotes he) (hNumber header) (beforeBallots header he hist s)) (\<lambda>s1.
        bindR (updateSnapshotByMPVotes (he_ModifyPredecessorVotes he) s1) (\<lambda>s2.
        afterBallots sortT pd header he (s2, m)))))))"
  unfolding applyHeader_def afterBallots_def beforeBallots_def Let_def prod.case by (simp cong del: if_weak_cong)

lemma applyHeader_steps:
  assumes "applyHeader recover hashf sortT pd config (s, m) header = Inr (t, m')"
  obtains payload he hist s1 s2 where
    "recover header = Inr (h_Coinbase header)" "extra_payload header = Inr payload"
    "decodeHeaderExtra config (hNumber header) payload new_HeaderExtra = Inr he"
    "pushHistory (cfg_MaxSignerCount config) (hashf header) (s_HistoryHash s) = Inr hist"
    "updateSnapshotByVotes pd (he_CurrentBlockVotes he) (hNumber header) (beforeBallots header he hist s) = Inr s1"
    "updateSnapshotByMPVotes (he_ModifyPredecessorVotes he) s1 = Inr s2"
    "afterBallots sortT pd header he (s2, m) = Inr (t, m')"
  using assms unfolding applyHeader_eq bindR_Inr_iff by (auto simp: bind_simps split: if_splits)

section \<open>A batch of headers\<close>

lemma applyHeader_core:
  assumes "applyHeader recover hashf sortT pd config (s, m) header = Inr (t, m')"
  shows "s_config t = s_config s \<and> s_LCRS t = s_LCRS s \<and> s_Number t = s_Number s \<and>
    pushHistory (cfg_MaxSignerCount config) (hashf header) (s_HistoryHash s) = Inr (s_HistoryHash t)"
proof -
  from assms obtain payload he hist s1 s2 where
    h: "pushHistory (cfg_MaxSignerCount config) (hashf header) (s_HistoryHash s) = Inr hist" and
    v: "updateSnapshotByVotes pd (he_CurrentBlockVotes he) (hNumber header) (beforeBallots header he hist s) = Inr s1" and
    p: "updateSnapshotByMPVotes (he_ModifyPredecessorVotes he) s1 = Inr s2" and
    a: "afterBallots sortT pd header he (s2, m) = Inr (t, m')" by (rule applyHeader_steps)
  have "core t = (s_config s, s_LCRS s, s_Number s, s_Hash s, hist, he_SignerQueue he)"
    using votes_core [OF v] MPVotes_core [OF p] afterBallots_frame(1) [OF a] beforeBallots_frame(1) by simp
  with h show ?thesis by (simp add: core_def)
qed

lemma applyHeaders_core:
  assumes "foldR (applyHeader recover hashf sortT pd config) (s, m) hs = Inr (t, m')"
  shows "s_config t = s_config s \<and> s_LCRS t = s_LCRS s \<and> s_Number t = s_Number s"
  using assms
proof (induction hs arbitrary: s m)
  case (Cons h hs)
  then obtain s1 m1 where h: "applyHeader recover hashf sortT pd config (s, m) h = Inr (s1, m1)"
    and r: "foldR (applyHeader recover hashf sortT pd config) (s1, m1) hs = Inr (t, m')"
    by (auto simp: bind_simps)
  show ?case using Cons.IH [OF r] applyHeader_core [OF h] by simp
qed simp

lemma pushHistory_last:
  assumes "pushHistory M h hist = Inr hist'"
  shows "hist' \<noteq> []" "last hist' = h"
    "int (length hist) \<le> sint (M * 2) \<Longrightarrow> 0 < sint (M * 2) \<Longrightarrow> int (length hist') \<le> sint (M * 2)"
  using assms by (auto simp: pushHistory_def Let_def split: if_splits)

lemma applyHeaders_history:
  assumes "foldR (applyHeader recover hashf sortT pd config) (s, m) hs = Inr (t, m')" "hs \<noteq> []"
  shows "s_HistoryHash t \<noteq> [] \<and> last (s_HistoryHash t) = hashf (last hs)"
  using assms
proof (induction hs arbitrary: s m)
  case (Cons h hs)
  then obtain s1 m1 where h: "applyHeader recover hashf sortT pd config (s, m) h = Inr (s1, m1)"
    and r: "foldR (applyHeader recover hashf sortT pd config) (s1, m1) hs = Inr (t, m')"
    by (auto simp: bind_simps)
  show ?case
  proof (cases "hs = []")
    case True
    then show ?thesis using r applyHeader_core [OF h] pushHistory_last(1,2) by auto
  next
    case False
    then show ?thesis using Cons.IH [OF r] by simp
  qed
qed simp

lemma applyHeaders_history_bound:
  assumes "foldR (applyHeader recover hashf sortT pd config) (s, m) hs = Inr (t, m')"
    "int (length (s_HistoryHash s)) \<le> sint (cfg_MaxSignerCount config * 2)" "0 < sint (cfg_MaxSignerCount config * 2)"
  shows "int (length (s_HistoryHash t)) \<le> sint (cfg_MaxSignerCount config * 2)"
  using assms(1,2)
proof (induction hs arbitrary: s m)
  case (Cons h hs)
  then obtain s1 m1 where h: "applyHeader recover hashf sortT pd config (s, m) h = Inr (s1, m1)"
    and r: "foldR (applyHeader recover hashf sortT pd config) (s1, m1) hs = Inr (t, m')"
    by (auto simp: bind_simps)
  have "pushHistory (cfg_MaxSignerCount config) (hashf h) (s_HistoryHash s) = Inr (s_HistoryHash s1)"
    using applyHeader_core [OF h] by simp
  from pushHistory_last(3) [OF this Cons.prems(2) assms(3)] show ?case by (rule Cons.IH [OF r])
qed simp

lemma copy_core: "core (Snapshot_copy s) = core s" "s_Voters (Snapshot_copy s) = s_Voters s"
  by (simp_all add: core_def Snapshot_copy_def)

lemma Snapshot_apply_steps:
  assumes "Snapshot_apply recover hashf sortT pd (s, m) hs = Inr (s', m')" "hs \<noteq> []"
  obtains t u where "contiguous hs" "Uint64 (hNumber (hd hs)) = s_Number s + 1"
    "foldR (applyHeader recover hashf sortT pd (s_config s)) (Snapshot_copy s, m) hs = Inr (t, m')"
    "updateSnapshotForExpired (t\<lparr>s_Number := s_Number t + of_nat (length hs), s_Hash := hashf (last hs)\<rparr>) = Inr s'"
    "verifyTallyCnt s' = Inr ()"
  using assms by (auto simp: Snapshot_apply_def Let_def bind_simps split: if_splits)

lemma Snapshot_apply_position:
  assumes "Snapshot_apply recover hashf sortT pd (s, m) hs = Inr (s', m')" "hs \<noteq> []"
  shows "s_Number s' = s_Number s + of_nat (length hs)" "s_Hash s' = hashf (last hs)"
    "last (s_HistoryHash s') = hashf (last hs)" "verifyTallyCnt s' = Inr ()" "s_config s' = s_config s"
    "int (length (s_HistoryHash s)) \<le> sint (cfg_MaxSignerCount (s_config s) * 2) \<Longrightarrow>
     0 < sint (cfg_MaxSignerCount (s_config s) * 2) \<Longrightarrow>
     int (length (s_HistoryHash s')) \<le> sint (cfg_MaxSignerCount (s_config s) * 2)"
proof -
  from assms obtain t u where
    f: "foldR (applyHeader recover hashf sortT pd (s_config s)) (Snapshot_copy s, m) hs = Inr (t, m')" and
    e: "updateSnapshotForExpired (t\<lparr>s_Number := s_Number t + of_nat (length hs), s_Hash := hashf (last hs)\<rparr>) = Inr s'" and
    v: "verifyTallyCnt s' = Inr ()" by (rule Snapshot_apply_steps)
  have c: "core s' = (s_config t, s_LCRS t, s_Number t + of_nat (length hs), hashf (last hs), s_HistoryHash t, s_Signers t)"
    using expired_core [OF e] by (simp add: core_def)
  have t: "s_config t = s_config s" "s_Number t = s_Number s" and cp: "s_HistoryHash (Snapshot_copy s) = s_HistoryHash s"
    using applyHeaders_core [OF f] copy_core [of s] by (simp_all add: core_def)
  show "s_Number s' = s_Number s + of_nat (length hs)" "s_Hash s' = hashf (last hs)" "s_config s' = s_config s"
    "last (s_HistoryHash s') = hashf (last hs)" "verifyTallyCnt s' = Inr ()"
    using c t v applyHeaders_history [OF f assms(2)] by (simp_all add: core_def)
  show "int (length (s_HistoryHash s')) \<le> sint (cfg_MaxSignerCount (s_config s) * 2)"
    if "int (length (s_HistoryHash s)) \<le> sint (cfg_MaxSignerCount (s_config s) * 2)" "0 < sint (cfg_MaxSignerCount (s_config s) * 2)"
    using applyHeaders_history_bound [OF f] that c cp by (simp add: core_def)
qed

section \<open>The ledger through a batch\<close>

text \<open>
  A header whose votes go to candidates with a tally entry, with positive stakes: what the
  transactions of a block produce for candidates that are already known.
\<close>

definition header_admissible :: "AlienConfig \<Rightarrow> Snapshot \<Rightarrow> Header \<Rightarrow> bool" where
  "header_admissible config s header =
    (case extra_payload header of
       Inl e \<Rightarrow> True
     | Inr payload \<Rightarrow>
         (case decodeHeaderExtra config (hNumber header) payload new_HeaderExtra of
            Inl e \<Rightarrow> True
          | Inr he \<Rightarrow> list_all (\<lambda>v. has_tally s v \<and> 0 < v_Stake v) (he_CurrentBlockVotes he) \<and>
              list_all (\<lambda>v. 0 < v_Stake v) (he_ModifyPredecessorVotes he)))"

lemma header_admissible_cong: "fst ` set (s_Tally s) = fst ` set (s_Tally t) \<Longrightarrow> header_admissible c s = header_admissible c t"
  by (rule ext) (simp add: header_admissible_def has_tally_def split: sum.splits)

lemma applyHeader_ledger:
  assumes "ledger s" "live s" "header_admissible config s header"
    and "applyHeader recover hashf sortT pd config (s, m) header = Inr (t, m')"
  shows "ledger t \<and> live t \<and> s_Tally t = s_Tally s"
proof -
  from assms(4) obtain payload he hist s1 s2 where
    x: "extra_payload header = Inr payload"
    "decodeHeaderExtra config (hNumber header) payload new_HeaderExtra = Inr he" and
    v: "updateSnapshotByVotes pd (he_CurrentBlockVotes he) (hNumber header) (beforeBallots header he hist s) = Inr s1" and
    p: "updateSnapshotByMPVotes (he_ModifyPredecessorVotes he) s1 = Inr s2" and
    a: "afterBallots sortT pd header he (s2, m) = Inr (t, m')" by (rule applyHeader_steps)
  let ?b = "beforeBallots header he hist s"
  note b = books_ledger [OF beforeBallots_frame(2), of header he hist s]
  have bL: "ledger ?b" "live ?b" "s_Tally ?b = s_Tally s" using b assms(1,2) by simp_all
  have "list_all (\<lambda>v. has_tally ?b v \<and> 0 < v_Stake v) (he_CurrentBlockVotes he)"
    using assms(3) x b by (simp add: header_admissible_def has_tally_def)
  from votes.batch_live [OF bL(1,2) this, of pd "hNumber header"]
  have s1: "ledger s1" "live s1" "s_Tally s1 = s_Tally s"
    using v bL(3) by (auto simp: updateSnapshotByVotes_def)
  have "list_all (\<lambda>v. True \<and> 0 < v_Stake v) (he_ModifyPredecessorVotes he)"
    using assms(3) x by (simp add: header_admissible_def)
  from mpvotes.batch_live [OF s1(1,2) this] have "ledger s2" "live s2" "s_Tally s2 = s_Tally s"
    using p s1 by (auto simp: updateSnapshotByMPVotes_def)
  with books_ledger [OF afterBallots_frame(2) [OF a]] show ?thesis by simp
qed

lemma applyHeaders_ledger:
  assumes "ledger s" "live s" "list_all (header_admissible config s) hs"
    and "foldR (applyHeader recover hashf sortT pd config) (s, m) hs = Inr (t, m')"
  shows "ledger t \<and> live t"
  using assms
proof (induction hs arbitrary: s m)
  case (Cons h hs)
  then obtain s1 m1 where h: "applyHeader recover hashf sortT pd config (s, m) h = Inr (s1, m1)"
    and r: "foldR (applyHeader recover hashf sortT pd config) (s1, m1) hs = Inr (t, m')"
    by (auto simp: bind_simps)
  have "header_admissible config s h" using Cons.prems(3) by simp
  note s1 = applyHeader_ledger [OF Cons.prems(1,2) this h]
  then have "header_admissible config s1 = header_admissible config s" by (intro header_admissible_cong) simp
  then show ?case using Cons.IH [OF _ _ _ r] s1 Cons.prems(3) by simp
qed simp

text \<open>Then the recount at the end of \<open>apply\<close> never rejects the batch.\<close>

lemma Snapshot_apply_ledger:
  assumes L: "refs_ok s" "tally_exact s" "backed s" and l: "live s" and adm: "list_all (header_admissible (s_config s) s) hs"
    and hs: "hs \<noteq> []" "contiguous hs" "Uint64 (hNumber (hd hs)) = s_Number s + 1"
    and f: "foldR (applyHeader recover hashf sortT pd (s_config s)) (Snapshot_copy s, m) hs = Inr (t, m')"
  shows "\<exists>s'. Snapshot_apply recover hashf sortT pd (s, m) hs = Inr (s', m') \<and> ledger s' \<and> live s' \<and>
    s_Number s' = s_Number s + of_nat (length hs)"
proof -
  have cp: "ledger (Snapshot_copy s)" by (rule copy_ledger [OF L])
  have cl: "live (Snapshot_copy s)" using l L(1) by (intro copy_live) (simp_all add: refs_ok_def)
  have "fst ` set (s_Tally (Snapshot_copy s)) = fst ` set (s_Tally s)" using copy_keys(2) by (metis list.set_map)
  then have "header_admissible (s_config s) (Snapshot_copy s) = header_admissible (s_config s) s"
    by (rule header_admissible_cong)
  with adm have "list_all (header_admissible (s_config s) (Snapshot_copy s)) hs" by simp
  note t = applyHeaders_ledger [OF cp cl this f]
  let ?t = "t\<lparr>s_Number := s_Number t + of_nat (length hs), s_Hash := hashf (last hs)\<rparr>"
  have "ledger ?t" "live ?t" using t ledger_cong [of ?t t] by simp_all
  from updateSnapshotForExpired_ok [OF this] obtain s' where s': "updateSnapshotForExpired ?t = Inr s'"
    "ledger s'" "live s'" "verifyTallyCnt s' = Inr ()" by blast
  have "Snapshot_apply recover hashf sortT pd (s, m) hs = Inr (s', m')"
    using hs f s' by (simp add: Snapshot_apply_def)
  with s' Snapshot_apply_position(1) [OF this hs(1)] show ?thesis by blast
qed

section \<open>Reachable snapshots\<close>

text \<open>
  The snapshots of a chain: the genesis snapshot, and what \<open>apply\<close> makes of a reachable one
  with any batch of headers.
\<close>

inductive reached ::
  "(Header \<Rightarrow> alien_err + address) \<Rightarrow> (Header \<Rightarrow> hash) \<Rightarrow> (TallyItem list \<Rightarrow> TallyItem list) \<Rightarrow> bool \<Rightarrow> AlienConfig
   \<Rightarrow> Snapshot \<Rightarrow> bool"
  for recover hashf sortT pd config where
  genesis: "newSnapshot now config h votes lcrs = Inr s \<Longrightarrow> reached recover hashf sortT pd config s"
| apply_step: "reached recover hashf sortT pd config s \<Longrightarrow> Snapshot_apply recover hashf sortT pd (s, m) headers = Inr (s', m') \<Longrightarrow>
    reached recover hashf sortT pd config s'"

inductive_cases reached_cases: "reached recover hashf sortT pd config s"

lemma newSnapshot_vote_core: "core (newSnapshot_vote s v) = core s"
proof -
  have c: "core (s\<lparr>s_ints := h\<rparr>) = core s" "core (s\<lparr>s_Votes := z\<rparr>) = core s" "core (s\<lparr>s_Tally := t\<rparr>) = core s"
    "core (s\<lparr>s_Voters := w\<rparr>) = core s" "core (s\<lparr>s_Candidates := y\<rparr>) = core s" for s h z t w y
    by (simp_all add: core_def)
  show ?thesis
    by (simp add: newSnapshot_vote_def new_int_def set_int_def Let_def c split: option.splits)
qed

lemma newSnapshot_core:
  assumes "newSnapshot now config h votes lcrs = Inr s"
  shows "s_config s = config" "s_Number s = 0" "s_Hash s = h" "s_HistoryHash s = [h]"
proof -
  have "core (foldl newSnapshot_vote t votes) = core t" for t by (rule foldl_keeps) (rule newSnapshot_vote_core)
  with assms show "s_config s = config" "s_Number s = 0" "s_Hash s = h" "s_HistoryHash s = [h]"
    by (auto simp: newSnapshot_def Let_def core_def split: if_splits)
qed

lemma reached_history:
  assumes "reached recover hashf sortT pd config s" "0 < sint (cfg_MaxSignerCount config * 2)"
  shows "s_config s = config \<and> s_HistoryHash s \<noteq> [] \<and> last (s_HistoryHash s) = s_Hash s \<and>
    int (length (s_HistoryHash s)) \<le> sint (cfg_MaxSignerCount config * 2)"
  using assms
proof (induction rule: reached.induct)
  case (genesis now h votes lcrs s)
  then show ?case by (simp add: newSnapshot_core)
next
  case (apply_step s m headers s' m')
  show ?case
  proof (cases "headers = []")
    case True
    then show ?thesis using apply_step by (simp add: Snapshot_apply_def)
  next
    case False
    obtain t u where
      f: "foldR (applyHeader recover hashf sortT pd (s_config s)) (Snapshot_copy s, m) headers = Inr (t, m')" and
      e: "updateSnapshotForExpired (t\<lparr>s_Number := s_Number t + of_nat (length headers), s_Hash := hashf (last headers)\<rparr>) = Inr s'"
      using Snapshot_apply_steps [OF apply_step.hyps(2) False] by metis
    have "s_HistoryHash s' \<noteq> []" using expired_core [OF e] applyHeaders_history [OF f False] by (simp add: core_def)
    then show ?thesis using Snapshot_apply_position [OF apply_step.hyps(2) False] apply_step.IH apply_step.prems by simp
  qed
qed

text \<open>So a queue is refused for its position in the loop only.\<close>

lemma reached_queue_due:
  assumes "reached recover hashf sortT pd config s" "0 < sint (cfg_MaxSignerCount config * 2)"
  shows "createSignerQueue sT sS pd' s = Inl errCreateSignerQueueNotAllowed \<longleftrightarrow>
    (s_Number s + 1) mod cfg_MaxSignerCount config \<noteq> 0"
proof -
  let ?M = "cfg_MaxSignerCount config"
  note r = reached_history [OF assms]
  have M: "?M \<noteq> 0" using assms(2) by auto
  have h: "history_items hist i as \<noteq> Inl errCreateSignerQueueNotAllowed" for hist i as
    by (induction hist i as rule: history_items.induct) (auto simp: bind_simps)
  have s: "selectSigners sS hist m ts \<noteq> Inl errCreateSignerQueueNotAllowed" for hist m ts
    by (auto simp: selectSigners_def Let_def bind_simps h)
  show ?thesis using r M
    by (auto simp: createSignerQueue_def Let_def bind_simps h s)
qed

end
