(* ===== verification/Alien_Custom_Tx.thy ===== *)
theory Alien_Custom_Tx
  imports Alien_Apply
begin

text \<open>
  The custom transactions of \<open>src/gttc/consensus/alien/custom_tx.go\<close>: a transaction whose data
  reads \<open>ufo:1:event:...\<close> or \<open>ufo:1:sc:...\<close> adds a vote, a confirmation, a proposal, a
  declaration or a side-chain record to the extra data of the block that is being built.

  Arguments stand for the state database (\<open>balance\<close>), the chain (\<open>getHeaderByNumber\<close>), the
  recovery of a transaction's sender (\<open>types.Sender\<close>, \<open>sender\<close>, \<open>None\<close> for an error) and the
  snapshot the engine hands over (\<open>None\<close> for the nil pointer of blocks 0 and 1).  The event
  keywords and positions are written out as in the constant block of the source.
\<close>

section \<open>Transactions and receipts\<close>

record Transaction =
  tx_Hash :: hash
  tx_To :: "address option"
  tx_Value :: int
  tx_GasPrice :: int
  tx_Data :: bytes

record Receipt =
  rc_TxHash :: hash
  rc_Status :: u64
  rc_GasUsed :: u64

text \<open>
  \<open>RefundHash\<close> maps a transaction to its sender and to a fresh copy of its gas price.  That
  copy is multiplied in place and then shared with \<open>RefundGas\<close>, so an entry of \<open>RefundGas\<close> is
  the transaction hash whose cell it points to.
\<close>

type_synonym RefundHash = "(hash, address \<times> int) gomap"
type_synonym RefundGas = "(address, hash) gomap"

definition SignerBlockReward :: int where
  "SignerBlockReward = 5 * 10 ^ 18"

definition maxValidationLoopCnt :: int where "maxValidationLoopCnt = 123500"
definition minValidationLoopCnt :: int where "minValidationLoopCnt = 1"
definition defaultValidationLoopCnt :: u64 where "defaultValidationLoopCnt = 30875"

section \<open>The data of a side-chain confirmation\<close>

definition buildSCEventConfirmData :: "hash \<Rightarrow> int \<Rightarrow> int \<Rightarrow> bytes \<Rightarrow> bytes" where
  "buildSCEventConfirmData scHash headerNumber headerTime lastLoopInfo =
    str_bytes (strings_Join (CHR '':'') [''ufo'', ''1'', ''sc'', ''confirm'', Hash_Hex scHash,
      fmt_d (unat (Uint64 headerNumber)), fmt_d (unat (Uint64 headerTime))]) @ lastLoopInfo"

section \<open>The events\<close>

definition tx_to :: "Transaction \<Rightarrow> alien_err + address" where
  "tx_to tx = (case tx_To tx of None \<Rightarrow> Inl PanicNil | Some a \<Rightarrow> Inr a)"

definition snap_isCandidate :: "Snapshot option \<Rightarrow> address \<Rightarrow> alien_err + bool" where
  "snap_isCandidate snap a = (case snap of None \<Rightarrow> Inl PanicNil | Some s \<Rightarrow> Inr (isCandidate s a))"

definition processEventVote ::
  "AlienConfig \<Rightarrow> (address \<Rightarrow> int) \<Rightarrow> Vote list \<Rightarrow> Transaction \<Rightarrow> address \<Rightarrow> alien_err + Vote list" where
  "processEventVote config balance currentBlockVotes tx voter =
    (if cfg_MinVoterBalance config < balance voter then
       bindR (tx_to tx) (\<lambda>candidate.
         Inr (currentBlockVotes @ [\<lparr>v_Voter = voter, v_Candidate = candidate, v_Stake = balance voter\<rparr>]))
     else Inr currentBlockVotes)"

definition processEventConfirm ::
  "AlienConfig \<Rightarrow> (u64 \<Rightarrow> Header option) \<Rightarrow> Confirmation list \<Rightarrow> string list \<Rightarrow> u64 \<Rightarrow> Transaction \<Rightarrow> address \<Rightarrow> RefundHash
   \<Rightarrow> alien_err + Confirmation list \<times> RefundHash" where
  "processEventConfirm config getHeaderByNumber currentBlockConfirmations txDataInfo number tx confirmer refundHash =
    (if 4 \<le> length txDataInfo then
       (if length txDataInfo \<le> 4 then Inl PanicIndex
        else
          (let (confirmedBlockNumber, err) = Atoi (txDataInfo ! 4) in
           if err \<noteq> None \<or> cfg_MaxSignerCount config < number - of_int confirmedBlockNumber
           then Inr (currentBlockConfirmations, refundHash)
           else
             (case getHeaderByNumber (of_int confirmedBlockNumber) of
                None \<Rightarrow> Inr (currentBlockConfirmations, refundHash)
              | Some confirmedHeader \<Rightarrow>
                  if length (h_Extra confirmedHeader) < extraVanity + extraSeal
                  then Inr (currentBlockConfirmations, refundHash)
                  else
                    bindR (extra_payload confirmedHeader) (\<lambda>payload.
                    case decodeHeaderExtra config confirmedBlockNumber payload new_HeaderExtra of
                      Inl e \<Rightarrow> Inr (currentBlockConfirmations, refundHash)
                    | Inr confirmedHeaderExtra \<Rightarrow>
                        if confirmer \<in> set (he_SignerQueue confirmedHeaderExtra)
                        then Inr (currentBlockConfirmations @
                               [\<lparr>c_Signer = confirmer, c_BlockNumber = confirmedBlockNumber\<rparr>],
                               mput (tx_Hash tx) (confirmer, tx_GasPrice tx) refundHash)
                        else Inr (currentBlockConfirmations, refundHash)))))
     else Inr (currentBlockConfirmations, refundHash))"

text \<open>
  The key/value pairs of a proposal; \<open>None\<close> where the source returns the list unchanged.  A
  bad \<open>schash\<close> or \<open>candidate\<close> is ignored and keeps the value so far.
\<close>

definition proposalField :: "Proposal \<Rightarrow> string \<Rightarrow> string \<Rightarrow> Proposal option" where
  "proposalField p k v =
    (let (i, err) = Atoi v in
     if k = ''vlcnt'' then
       (if err \<noteq> None \<or> i < minValidationLoopCnt \<or> maxValidationLoopCnt < i then None
        else Some (p\<lparr>p_ValidationLoopCnt := of_int i\<rparr>))
     else if k = ''schash'' then Some (p\<lparr>p_SCHash := fst (Hash_UnmarshalText (p_SCHash p) v)\<rparr>)
     else if k = ''sccount'' then (if err \<noteq> None then None else Some (p\<lparr>p_SCBlockCountPerPeriod := of_int i\<rparr>))
     else if k = ''screward'' then (if err \<noteq> None then None else Some (p\<lparr>p_SCBlockRewardPerPeriod := of_int i\<rparr>))
     else if k = ''proposal_type'' then
       (if err \<noteq> None \<or> i < uint proposalTypeCandidateAdd \<or> uint proposalTypeSideChainRemove < i then None
        else Some (p\<lparr>p_ProposalType := of_int i\<rparr>))
     else if k = ''candidate'' then Some (p\<lparr>p_Candidate := fst (Address_UnmarshalText (p_Candidate p) v)\<rparr>)
     else if k = ''mrpt'' then
       (if err \<noteq> None \<or> i < 0 \<or> 1000 < i then None else Some (p\<lparr>p_MinerRewardPerThousand := of_int i\<rparr>))
     else Some p)"

fun proposalFields :: "Proposal \<Rightarrow> string list \<Rightarrow> Proposal option" where
  "proposalFields p (k # v # info) =
    (case proposalField p k v of None \<Rightarrow> None | Some p' \<Rightarrow> proposalFields p' info)"
| "proposalFields p info = Some p"

definition processEventProposal ::
  "u64 \<Rightarrow> Proposal list \<Rightarrow> string list \<Rightarrow> Transaction \<Rightarrow> address \<Rightarrow> Proposal list" where
  "processEventProposal mrpt currentBlockProposals txDataInfo tx proposer =
    (case proposalFields \<lparr>p_Hash = tx_Hash tx, p_ValidationLoopCnt = defaultValidationLoopCnt,
        p_ProposalType = proposalTypeCandidateAdd, p_Proposer = proposer, p_Candidate = 0,
        p_MinerRewardPerThousand = mrpt, p_SCHash = 0, p_SCBlockCountPerPeriod = 1,
        p_SCBlockRewardPerPeriod = 0, p_Declares = [], p_ReceivedNumber = 0\<rparr> (drop 4 txDataInfo) of
       None \<Rightarrow> currentBlockProposals
     | Some p \<Rightarrow> currentBlockProposals @ [p])"

fun declareFields :: "Declare \<Rightarrow> string list \<Rightarrow> Declare option" where
  "declareFields d (k # v # info) =
    (if k = ''hash'' then declareFields (d\<lparr>d_ProposalHash := fst (Hash_UnmarshalText (d_ProposalHash d) v)\<rparr>) info
     else if k = ''decision'' then
       (if v = ''yes'' then declareFields (d\<lparr>d_Decision := True\<rparr>) info
        else if v = ''no'' then declareFields (d\<lparr>d_Decision := False\<rparr>) info
        else None)
     else declareFields d info)"
| "declareFields d info = Some d"

definition processEventDeclare ::
  "Declare list \<Rightarrow> string list \<Rightarrow> address \<Rightarrow> Declare list" where
  "processEventDeclare currentBlockDeclares txDataInfo declarer =
    (case declareFields \<lparr>d_ProposalHash = 0, d_Declarer = declarer, d_Decision = True\<rparr> (drop 4 txDataInfo) of
       None \<Rightarrow> currentBlockDeclares
     | Some d \<Rightarrow> currentBlockDeclares @ [d])"

definition processSCEventConfirm ::
  "SCConfirmation list \<Rightarrow> hash \<Rightarrow> u64 \<Rightarrow> string list \<Rightarrow> Transaction \<Rightarrow> address \<Rightarrow> RefundHash
   \<Rightarrow> SCConfirmation list \<times> RefundHash" where
  "processSCEventConfirm scEventConfirmaions hash number loopInfo tx txSender refundHash =
    (scEventConfirmaions @ [\<lparr>scc_Hash = hash, scc_Coinbase = txSender, scc_Number = number, scc_LoopInfo = loopInfo\<rparr>],
     mput (tx_Hash tx) (txSender, tx_GasPrice tx) refundHash)"

definition processSCEventSetCoinbase ::
  "SCSetCoinbase list \<Rightarrow> hash \<Rightarrow> address \<Rightarrow> address \<Rightarrow> SCSetCoinbase list" where
  "processSCEventSetCoinbase scEventSetCoinbases hash signer coinbase =
    scEventSetCoinbases @ [\<lparr>scs_Hash = hash, scs_Signer = signer, scs_Coinbase = coinbase\<rparr>]"

definition processPredecessorVoter ::
  "(address \<Rightarrow> int) \<Rightarrow> Vote list \<Rightarrow> Transaction \<Rightarrow> address \<Rightarrow> Snapshot \<Rightarrow> alien_err + Vote list" where
  "processPredecessorVoter balance modifyPredecessorVotes tx voter snap =
    (if 0 < tx_Value tx then
       (let vs = (if isVoter snap voter
                  then modifyPredecessorVotes @ [\<lparr>v_Voter = voter, v_Candidate = 0, v_Stake = balance voter\<rparr>]
                  else modifyPredecessorVotes)
        in bindR (tx_to tx) (\<lambda>to.
             Inr (if isVoter snap to then vs @ [\<lparr>v_Voter = to, v_Candidate = 0, v_Stake = balance to\<rparr>] else vs)))
     else Inr modifyPredecessorVotes)"

section \<open>One transaction\<close>

text \<open>
  The category \<open>event\<close>; the flag of the result says that the source goes on to the next
  transaction at once.
\<close>

definition processEvent ::
  "AlienConfig \<Rightarrow> bool \<Rightarrow> u64 \<Rightarrow> (address \<Rightarrow> int) \<Rightarrow> (u64 \<Rightarrow> Header option) \<Rightarrow> Snapshot option \<Rightarrow> u64
   \<Rightarrow> Transaction \<Rightarrow> address \<Rightarrow> string list \<Rightarrow> HeaderExtra \<times> RefundHash \<Rightarrow> alien_err + (HeaderExtra \<times> RefundHash) \<times> bool" where
  "processEvent config candidateNeedPD mrpt balance getHeaderByNumber snap number tx txSender info st =
    (let (he, refundHash) = st in
     if length info \<le> 3 then Inr (st, False)
     else
       bindR
         (bindR
           (if info ! 3 = ''vote''
            then (if \<not> candidateNeedPD then Inr True else bindR (tx_to tx) (snap_isCandidate snap)) else Inr False)
           (\<lambda>isVote.
             if isVote then
               bindR (processEventVote config balance (he_CurrentBlockVotes he) tx txSender) (\<lambda>vs.
                 Inr (he\<lparr>he_CurrentBlockVotes := vs\<rparr>, refundHash))
             else if info ! 3 = ''confirm'' then
               bindR (snap_isCandidate snap txSender) (\<lambda>c.
                 if c then
                   bindR (processEventConfirm config getHeaderByNumber (he_CurrentBlockConfirmations he) info number tx
                            txSender refundHash) (\<lambda>(cs, refundHash).
                     Inr (he\<lparr>he_CurrentBlockConfirmations := cs\<rparr>, refundHash))
                 else Inr st)
             else if info ! 3 = ''proposal'' then
               bindR (snap_isCandidate snap txSender) (\<lambda>c.
                 Inr (if c then (he\<lparr>he_CurrentBlockProposals :=
                        processEventProposal mrpt (he_CurrentBlockProposals he) info tx txSender\<rparr>, refundHash) else st))
             else if info ! 3 = ''declare'' then
               bindR (snap_isCandidate snap txSender) (\<lambda>c.
                 Inr (if c then (he\<lparr>he_CurrentBlockDeclares :=
                        processEventDeclare (he_CurrentBlockDeclares he) info txSender\<rparr>, refundHash) else st))
             else Inr st))
         (\<lambda>st'. Inr (st', tx_Value tx = 0)))"

definition processSC ::
  "Snapshot option \<Rightarrow> Transaction \<Rightarrow> address \<Rightarrow> string list \<Rightarrow> HeaderExtra \<times> RefundHash \<Rightarrow> alien_err + HeaderExtra \<times> RefundHash" where
  "processSC snap tx txSender info st =
    (let (he, refundHash) = st in
     if length info \<le> 3 then Inr st
     else if info ! 3 = ''confirm'' then
       (if 6 < length info then
          (let (scs, refundHash) = processSCEventConfirm (he_SideChainConfirmations he) (HexToHash (info ! 4))
                 (of_int (fst (Atoi (info ! 5)))) (drop 7 info) tx txSender refundHash
           in Inr (he\<lparr>he_SideChainConfirmations := scs\<rparr>, refundHash))
        else Inr st)
     else if info ! 3 = ''setcb'' then
       bindR (snap_isCandidate snap txSender) (\<lambda>c.
         if c \<and> 4 < length info \<and> SignerBlockReward \<le> tx_Value tx then
           bindR (tx_to tx) (\<lambda>to.
             Inr (he\<lparr>he_SideChainSetCoinbases :=
               processSCEventSetCoinbase (he_SideChainSetCoinbases he) (HexToHash (info ! 4)) txSender to\<rparr>, refundHash))
         else Inr st)
     else Inr st)"

definition processTx ::
  "AlienConfig \<Rightarrow> bool \<Rightarrow> u64 \<Rightarrow> (Transaction \<Rightarrow> address option) \<Rightarrow> (address \<Rightarrow> int) \<Rightarrow> (u64 \<Rightarrow> Header option)
   \<Rightarrow> Snapshot option \<Rightarrow> u64 \<Rightarrow> HeaderExtra \<times> RefundHash \<Rightarrow> Transaction \<Rightarrow> alien_err + HeaderExtra \<times> RefundHash" where
  "processTx config candidateNeedPD mrpt sender balance getHeaderByNumber snap number st tx =
    (case sender tx of
       None \<Rightarrow> Inr st
     | Some txSender \<Rightarrow>
         (let info = strings_Split (CHR '':'') (bytes_str (tx_Data tx)) in
          bindR
            (if 3 \<le> length (tx_Data tx) \<and> 3 \<le> length info \<and> info ! 0 = ''ufo'' \<and> info ! 1 = ''1'' then
               (if info ! 2 = ''event'' then
                  processEvent config candidateNeedPD mrpt balance getHeaderByNumber snap number tx txSender info st
                else if info ! 2 = ''sc'' then
                  bindR (processSC snap tx txSender info st) (\<lambda>st. Inr (st, False))
                else Inr (st, False))
             else Inr (st, False))
            (\<lambda>((he, refundHash), next').
               if next' \<or> number \<le> 1 then Inr (he, refundHash)
               else
                 (case snap of
                    None \<Rightarrow> Inl PanicNil
                  | Some s \<Rightarrow>
                      bindR (processPredecessorVoter balance (he_ModifyPredecessorVotes he) tx txSender s) (\<lambda>vs.
                        Inr (he\<lparr>he_ModifyPredecessorVotes := vs\<rparr>, refundHash))))))"

section \<open>Refunds\<close>

definition refundAddGas :: "RefundHash \<times> RefundGas \<Rightarrow> address \<Rightarrow> hash \<Rightarrow> int \<Rightarrow> RefundHash \<times> RefundGas" where
  "refundAddGas st address h value' =
    (let (refundHash, refundGas) = st in
     case mget refundGas address of
       Some h0 \<Rightarrow>
         (case mget refundHash h0 of
            Some (snd0, v0) \<Rightarrow> (mput h0 (snd0, v0 + value') refundHash, refundGas)
          | None \<Rightarrow> st)
     | None \<Rightarrow> (refundHash, mput address h refundGas))"

definition refundReceipt :: "RefundHash \<times> RefundGas \<Rightarrow> Receipt \<Rightarrow> RefundHash \<times> RefundGas" where
  "refundReceipt st receipt =
    (let (refundHash, refundGas) = st in
     case mget refundHash (rc_TxHash receipt) of
       Some (who, price) \<Rightarrow>
         (if rc_Status receipt = 1 then
            (let v = price * sint (rc_GasUsed receipt)
             in refundAddGas (mput (rc_TxHash receipt) (who, v) refundHash, refundGas) who (rc_TxHash receipt) v)
          else st)
     | None \<Rightarrow> st)"

definition refund_values :: "RefundHash \<times> RefundGas \<Rightarrow> (address, int) gomap" where
  "refund_values st =
    (let (refundHash, refundGas) = st in
     map (\<lambda>(a, h). (a, case mget refundHash h of Some (who, v) \<Rightarrow> v | None \<Rightarrow> 0)) refundGas)"

section \<open>The whole block\<close>

text \<open>\<open>snapshot\<close> is the result of the call \<open>a.snapshot(chain, number-1, ...)\<close>, made for \<open>number > 1\<close>.\<close>

definition processCustomTx ::
  "AlienConfig \<Rightarrow> bool \<Rightarrow> u64 \<Rightarrow> (Transaction \<Rightarrow> address option) \<Rightarrow> (address \<Rightarrow> int) \<Rightarrow> (u64 \<Rightarrow> Header option)
   \<Rightarrow> alien_err + Snapshot \<Rightarrow> HeaderExtra \<Rightarrow> Header \<Rightarrow> Transaction list \<Rightarrow> Receipt list
   \<Rightarrow> alien_err + HeaderExtra \<times> (address, int) gomap" where
  "processCustomTx config candidateNeedPD mrpt sender balance getHeaderByNumber snapshot headerExtra header txs receipts =
    (let number = Uint64 (hNumber header) in
     bindR (if 1 < number then bindR snapshot (\<lambda>s. Inr (Some s)) else Inr None) (\<lambda>snap.
     bindR (foldR (processTx config candidateNeedPD mrpt sender balance getHeaderByNumber snap number)
              (headerExtra, []) txs) (\<lambda>(he, refundHash).
     Inr (he, refund_values (foldl refundReceipt (refundHash, []) receipts)))))"

section \<open>The confirmation message of a side chain\<close>

lemma Address_Hex_no_colon: "CHR '':'' \<notin> set (Address_Hex k a)"
proof
  let ?ds = "map (\<lambda>(i, c). checksum_char (k (str_bytes (Bytes2Hex (Address_Bytes a)))) i c) (enumerate 0 (Bytes2Hex (Address_Bytes a)))"
  assume "CHR '':'' \<in> set (Address_Hex k a)"
  then have "CHR '':'' \<in> set ?ds" by (simp add: Address_Hex_def Let_def)
  then have "decodeNibble (CHR '':'') \<in> set (map decodeNibble ?ds)" by (simp only: list.set_map imageI)
  then have "decodeNibble (CHR '':'') \<in> set (nibbles (Address_Bytes a))" by (simp only: nibbles_checksum)
  then obtain b :: byte where "decodeNibble (CHR '':'') = of_nat (unat b div 16) \<or> decodeNibble (CHR '':'') = of_nat (unat b mod 16)"
    by (auto simp: nibbles_def)
  moreover have "decodeNibble (CHR '':'') = badNibble" by code_simp
  moreover have "unat b < 256" using unsigned_less [of b] by simp
  then have "unat b div 16 < 16" by simp
  ultimately show False using nibble_not_bad [of "unat b div 16"] nibble_not_bad [of "unat b mod 16"] by auto
qed

text \<open>The words that follow the fixed part: number and coinbase of each reported block.\<close>

definition loop_words :: "(bytes \<Rightarrow> bytes) \<Rightarrow> (u64 \<times> address) list \<Rightarrow> string list" where
  "loop_words k ps = concat (map (\<lambda>(n, a). [fmt_d (unat n), Address_Hex k a]) ps)"

definition loop_text :: "(bytes \<Rightarrow> bytes) \<Rightarrow> (u64 \<times> address) list \<Rightarrow> string" where
  "loop_text k ps = concat (map (\<lambda>w. CHR '':'' # w) (loop_words k ps))"

lemma loop_words_no_colon: "w \<in> set (loop_words k ps) \<Longrightarrow> CHR '':'' \<notin> set w"
  by (auto simp: loop_words_def Address_Hex_no_colon fmt_d_no_char)

lemma Join_append_words:
  "us \<noteq> [] \<Longrightarrow> strings_Join sep (us @ ws) = strings_Join sep us @ concat (map (\<lambda>w. sep # w) ws)"
proof (induction ws arbitrary: us rule: rev_induct)
  case Nil
  then show ?case by simp
next
  case (snoc w ws)
  have "strings_Join sep (vs @ [w]) = strings_Join sep vs @ sep # w" if "vs \<noteq> []" for vs
    using that by (induction sep vs rule: strings_Join.induct) (auto simp: strings_Join_Cons)
  from this [of "us @ ws"] snoc show ?case by simp
qed

lemma confirm_data_words:
  "strings_Split (CHR '':'') (bytes_str (buildSCEventConfirmData h number time (str_bytes (loop_text k ps)))) =
   [''ufo'', ''1'', ''sc'', ''confirm'', Hash_Hex h, fmt_d (unat (Uint64 number)), fmt_d (unat (Uint64 time))] @ loop_words k ps"
proof -
  let ?us = "[''ufo'', ''1'', ''sc'', ''confirm'', Hash_Hex h, fmt_d (unat (Uint64 number)), fmt_d (unat (Uint64 time))]"
  have b: "str_bytes a @ str_bytes b = str_bytes (a @ b)" for a b by (simp add: str_bytes_def)
  have "bytes_str (buildSCEventConfirmData h number time (str_bytes (loop_text k ps))) =
      strings_Join (CHR '':'') (?us @ loop_words k ps)"
    unfolding buildSCEventConfirmData_def b loop_text_def by (subst Join_append_words) simp_all
  moreover have "\<forall>w \<in> set (?us @ loop_words k ps). CHR '':'' \<notin> set w"
    using loop_words_no_colon by (auto simp: Hash_Hex_no_colon fmt_d_no_char)
  ultimately show ?thesis using strings_Split_Join [of "?us @ loop_words k ps" "CHR '':''"] by simp
qed

lemma coinbasePairs_words:
  assumes "\<forall>(n, a) \<in> set ps. unat n < 2 ^ 63"
  shows "coinbasePairs m (loop_words k ps) = foldl (\<lambda>m (n, a). mput n a m) m ps"
  using assms
proof (induction ps arbitrary: m)
  case Nil
  then show ?case by (simp add: loop_words_def)
next
  case (Cons p ps)
  obtain n a where p: "p = (n, a)" by force
  have "Atoi (fmt_d (unat n)) = (int (unat n), None)" using Cons.prems p by (intro Atoi_fmt_d) simp
  moreover have "(of_int (int (unat n)) :: u64) = n" by simp
  ultimately show ?case using Cons p by (simp add: loop_words_def HexToAddress_Hex)
qed

lemma processSC_confirm:
  assumes "unat (Uint64 number) < 2 ^ 63"
    and data: "tx_Data tx = buildSCEventConfirmData h number time (str_bytes (loop_text k ps))"
  shows "processSC snap tx sender (strings_Split (CHR '':'') (bytes_str (tx_Data tx))) (he, rh) =
    Inr (he\<lparr>he_SideChainConfirmations := he_SideChainConfirmations he @
          [\<lparr>scc_Hash = h, scc_Coinbase = sender, scc_Number = Uint64 number, scc_LoopInfo = loop_words k ps\<rparr>]\<rparr>,
        mput (tx_Hash tx) (sender, tx_GasPrice tx) rh)"
proof -
  have "Atoi (fmt_d (unat (Uint64 number))) = (int (unat (Uint64 number)), None)" by (rule Atoi_fmt_d [OF assms(1)])
  then have "(of_int (fst (Atoi (fmt_d (unat (Uint64 number))))) :: u64) = Uint64 number" by simp
  then show ?thesis unfolding data confirm_data_words
    by (simp add: processSC_def processSCEventConfirm_def HexToHash_Hex)
qed

section \<open>Transactions that stop the engine\<close>

lemma processTx_creation:
  assumes "sender tx = Some a" "tx_To tx = None" "0 < tx_Value tx" "1 < number"
    and plain: "strings_Split (CHR '':'') (bytes_str (tx_Data tx)) ! 0 \<noteq> ''ufo''"
  shows "processTx config pd mrpt sender balance getH (Some s) number st tx = Inl PanicNil"
  using assms by (auto simp: processTx_def Let_def processPredecessorVoter_def tx_to_def not_le split: prod.splits)

lemma foldR_error: "f s x = Inl e \<Longrightarrow> foldR f s (x # xs) = Inl e"
  by simp

lemma processTx_short_confirm:
  assumes "sender tx = Some a" "isCandidate s a" "tx_Data tx = str_bytes ''ufo:1:event:confirm''"
  shows "processTx config pd mrpt sender balance getH (Some s) number st tx = Inl PanicIndex"
proof -
  obtain he rh where st: "st = (he, rh)" by force
  have w: "strings_Split (CHR '':'') ''ufo:1:event:confirm'' = [''ufo'', ''1'', ''event'', ''confirm'']"
    by code_simp
  have "length (str_bytes ''ufo:1:event:confirm'') = 19" by (simp add: str_bytes_def)
  then show ?thesis using assms st w
    by (simp add: processTx_def processEvent_def snap_isCandidate_def processEventConfirm_def)
qed

section \<open>Refunds\<close>

text \<open>What \<open>RefundGas\<close> holds for an address, read through the shared cells.\<close>

definition refund_of :: "RefundHash \<times> RefundGas \<Rightarrow> address \<Rightarrow> int" where
  "refund_of st a = (case mget (snd st) a of None \<Rightarrow> 0
     | Some h \<Rightarrow> (case mget (fst st) h of Some (who, v) \<Rightarrow> v | None \<Rightarrow> 0))"

text \<open>The gas cost of a receipt that the engine refunds to \<open>a\<close>, given the entries made for the transactions.\<close>

definition refund_due :: "RefundHash \<Rightarrow> address \<Rightarrow> Receipt \<Rightarrow> int" where
  "refund_due rh a r = (case mget rh (rc_TxHash r) of
     Some (who, price) \<Rightarrow> if who = a \<and> rc_Status r = 1 then price * sint (rc_GasUsed r) else 0 | None \<Rightarrow> 0)"

definition refund_inv :: "hash set \<Rightarrow> RefundHash \<Rightarrow> RefundHash \<times> RefundGas \<Rightarrow> bool" where
  "refund_inv P rh0 st \<longleftrightarrow>
    (\<forall>h. h \<notin> P \<longrightarrow> mget (fst st) h = mget rh0 h) \<and>
    (\<forall>a h. mget (snd st) a = Some h \<longrightarrow> h \<in> P \<and> (\<exists>v. mget (fst st) h = Some (a, v))) \<and>
    (\<forall>h. map_option fst (mget (fst st) h) = map_option fst (mget rh0 h))"

lemma refundReceipt_step:
  assumes inv: "refund_inv P rh0 st" and new: "rc_TxHash r \<notin> P"
  shows "refund_inv (insert (rc_TxHash r) P) rh0 (refundReceipt st r) \<and>
    refund_of (refundReceipt st r) a = refund_of st a + refund_due rh0 a r"
proof -
  obtain rh rg where st: "st = (rh, rg)" by force
  let ?h = "rc_TxHash r"
  have same: "mget rh ?h = mget rh0 ?h" using inv new st by (simp add: refund_inv_def)
  show ?thesis
  proof (cases "mget rh ?h")
    case None
    then have "refundReceipt st r = st" "refund_due rh0 a r = 0" using same st by (simp_all add: refundReceipt_def refund_due_def)
    then show ?thesis using inv by (auto simp: refund_inv_def)
  next
    case (Some wp)
    obtain who price where wp: "wp = (who, price)" by force
    show ?thesis
    proof (cases "rc_Status r = 1")
      case False
      then have "refundReceipt st r = st" "refund_due rh0 a r = 0"
        using same [symmetric] st Some wp by (simp_all add: refundReceipt_def refund_due_def)
      then show ?thesis using inv by (auto simp: refund_inv_def)
    next
      case True
      let ?v = "price * sint (rc_GasUsed r)"
      show ?thesis
      proof (cases "mget rg who")
        case None
        have ne: "h \<noteq> ?h" if "mget rg b = Some h" for b h using inv new st that by (auto simp: refund_inv_def)
        have e: "refundReceipt st r = (mput ?h (who, ?v) rh, mput who ?h rg)"
          using st Some wp True None by (simp add: refundReceipt_def refundAddGas_def gomap_simps)
        have "refund_of (refundReceipt st r) a = refund_of st a + refund_due rh0 a r"
        proof (cases "a = who")
          case True
          then show ?thesis using e st None same [symmetric] Some wp \<open>rc_Status r = 1\<close>
            by (simp add: refund_of_def refund_due_def gomap_simps)
        next
          case False
          have "refund_due rh0 a r = 0" using False same [symmetric] Some wp by (simp add: refund_due_def)
          then show ?thesis using e st False ne by (cases "mget rg a") (simp_all add: refund_of_def gomap_simps)
        qed
        moreover have "refund_inv (insert ?h P) rh0 (refundReceipt st r)"
          unfolding refund_inv_def e fst_conv snd_conv gomap_simps
        proof (intro conjI allI impI)
          fix h
          show "h \<notin> insert ?h P \<Longrightarrow> ((mget rh)(?h \<mapsto> (who, ?v))) h = mget rh0 h" using inv st by (simp add: refund_inv_def)
          show "map_option fst (((mget rh)(?h \<mapsto> (who, ?v))) h) = map_option fst (mget rh0 h)"
            using inv st same [symmetric] Some wp by (simp add: refund_inv_def)
        next
          fix b h
          assume b: "((mget rg)(who \<mapsto> ?h)) b = Some h"
          show "h \<in> insert ?h P" using b inv st by (auto simp: refund_inv_def split: if_splits)
          show "\<exists>v. ((mget rh)(?h \<mapsto> (who, ?v))) h = Some (b, v)"
          proof (cases "b = who")
            case False
            then have "mget rg b = Some h" using b by simp
            with ne inv st show ?thesis by (auto simp: refund_inv_def)
          qed (use b in simp)
        qed
        ultimately show ?thesis by blast
      next
        case (Some h0)
        have "h0 \<in> P \<and> (\<exists>v. mget rh h0 = Some (who, v))" using inv st Some unfolding refund_inv_def by simp
        then obtain v0 where h0: "h0 \<in> P" "mget rh h0 = Some (who, v0)" by blast
        then have ne0: "h0 \<noteq> ?h" using new by auto
        have own: "\<exists>v. mget rh h = Some (b, v)" if "mget rg b = Some h" for b h
          using inv st that unfolding refund_inv_def by simp
        have ne: "h \<noteq> ?h" if "mget rg b = Some h" for b h using inv new st that by (auto simp: refund_inv_def)
        have e: "refundReceipt st r = (mput h0 (who, v0 + ?v) (mput ?h (who, ?v) rh), rg)"
          using st \<open>mget rh ?h = Some wp\<close> wp True Some h0 ne0
          by (simp add: refundReceipt_def refundAddGas_def gomap_simps Let_def)
        have "refund_of (refundReceipt st r) a = refund_of st a + refund_due rh0 a r"
        proof (cases "a = who")
          case True
          then show ?thesis using e st Some h0 same [symmetric] \<open>mget rh ?h = Some wp\<close> wp \<open>rc_Status r = 1\<close>
            by (simp add: refund_of_def refund_due_def gomap_simps)
        next
          case False
          have "h \<noteq> h0" if "mget rg a = Some h" for h using own [OF that] h0(2) False by auto
          moreover have "refund_due rh0 a r = 0" using False same [symmetric] \<open>mget rh ?h = Some wp\<close> wp by (simp add: refund_due_def)
          ultimately show ?thesis using e st False ne by (cases "mget rg a") (simp_all add: refund_of_def gomap_simps)
        qed
        moreover have "refund_inv (insert ?h P) rh0 (refundReceipt st r)"
          unfolding refund_inv_def e fst_conv snd_conv gomap_simps
        proof (intro conjI allI impI)
          fix h
          show "h \<notin> insert ?h P \<Longrightarrow> ((mget rh)(?h \<mapsto> (who, ?v), h0 \<mapsto> (who, v0 + ?v))) h = mget rh0 h"
            using inv st h0(1) by (auto simp: refund_inv_def)
          have "map_option fst (mget rh h) = map_option fst (mget rh0 h)" using inv st by (simp add: refund_inv_def)
          then show "map_option fst (((mget rh)(?h \<mapsto> (who, ?v), h0 \<mapsto> (who, v0 + ?v))) h) = map_option fst (mget rh0 h)"
            using \<open>mget rh ?h = Some wp\<close> wp h0(2) by auto
        next
          fix b h
          assume b: "mget rg b = Some h"
          show "h \<in> insert ?h P" using b inv st by (auto simp: refund_inv_def)
          show "\<exists>v. ((mget rh)(?h \<mapsto> (who, ?v), h0 \<mapsto> (who, v0 + ?v))) h = Some (b, v)"
            using own [OF b] ne [OF b] h0(2) by auto
        qed
        ultimately show ?thesis by blast
      qed
    qed
  qed
qed

lemma refund_fold:
  assumes "refund_inv P rh0 st" "distinct (map rc_TxHash rs)" "rc_TxHash ` set rs \<inter> P = {}"
  shows "refund_of (foldl refundReceipt st rs) a = refund_of st a + (\<Sum>r \<leftarrow> rs. refund_due rh0 a r)"
  using assms
proof (induction rs arbitrary: P st)
  case (Cons r rs)
  have "rc_TxHash r \<notin> P" using Cons.prems(3) by auto
  note s = refundReceipt_step [OF Cons.prems(1) this, of a]
  have "rc_TxHash ` set rs \<inter> insert (rc_TxHash r) P = {}" using Cons.prems(2,3) by auto
  then show ?case using Cons.IH [of "insert (rc_TxHash r) P" "refundReceipt st r"] s Cons.prems(2) by simp
qed simp

lemma refund_total:
  assumes "distinct (map rc_TxHash receipts)"
  shows "refund_of (foldl refundReceipt (rh, []) receipts) a = (\<Sum>r \<leftarrow> receipts. refund_due rh a r)"
proof -
  have "refund_inv {} rh (rh, [])" by (simp add: refund_inv_def)
  from refund_fold [OF this assms, of a] show ?thesis by (simp add: refund_of_def)
qed

lemma refund_values_of: "mget (refund_values st) a = map_option (\<lambda>_. refund_of st a) (mget (snd st) a)"
proof -
  obtain rh rg where st: "st = (rh, rg)" by force
  show ?thesis by (cases "mget rg a") (simp_all add: st refund_values_def refund_of_def map_of_map)
qed

end
