(* ===== verification/Alien_Engine.thy ===== *)
theory Alien_Engine
  imports Alien_Custom_Tx
begin

text \<open>
  The consensus engine \<open>src/gttc/consensus/alien/alien.go\<close>: recovering the signer of a header,
  finding the snapshot of a block, verifying headers and seals, building and sealing blocks,
  and paying rewards; with the calls to the main chain of \<open>cross_chain.go\<close>.

  What lies outside the package is a field of the record \<open>Env\<close>: hashing and signature
  recovery, signing, the JSON codec and the key-value store of snapshots, the eviction
  policy of the two caches, sorting, the remote calls to the main chain, and the state root.
  The chain reader is the record \<open>Chain\<close>.  The engine's state \<open>Alien\<close> carries its caches and
  the package variables that the code assigns.  A clock reading is the argument \<open>now\<close>, one
  reading per call.  Account balances are a function, \<open>AddBalance\<close> adds to it.
\<close>

section \<open>Environment and state\<close>

record Chain =
  ch_Config :: AlienConfig
  ch_GetHeader :: "hash \<Rightarrow> u64 \<Rightarrow> Header option"
  ch_GetHeaderByNumber :: "u64 \<Rightarrow> Header option"
  ch_GetHeaderByHash :: "hash \<Rightarrow> Header option"
  ch_CurrentHeader :: "Header option"

record MainSnapshot =
  ms_LoopStartTime :: u64
  ms_Period :: u64
  ms_Signers :: "address list"

record Env =
  env_keccak :: "bytes \<Rightarrow> bytes"
  env_Ecrecover :: "bytes \<Rightarrow> bytes \<Rightarrow> bytes option"
  env_sign :: "address \<Rightarrow> bytes \<Rightarrow> bytes option"
  env_sender :: "Transaction \<Rightarrow> address option"
  env_marshal :: "Snapshot \<Rightarrow> bytes option"
  env_unmarshal :: "bytes \<Rightarrow> Snapshot option"
  env_put :: "bytes \<Rightarrow> bytes \<Rightarrow> (bytes, bytes) gomap \<Rightarrow> (bytes, bytes) gomap option"
  env_evict_sig :: "(hash, address) gomap \<Rightarrow> (hash, address) gomap"
  env_evict_snap :: "(hash, Snapshot) gomap \<Rightarrow> (hash, Snapshot) gomap"
  env_sortT :: "TallyItem list \<Rightarrow> TallyItem list"
  env_sortS :: "SignerItem list \<Rightarrow> SignerItem list"
  env_mcSnapshot :: "u64 \<Rightarrow> hash \<Rightarrow> MainSnapshot option"
  env_mcNonce :: "string \<Rightarrow> u64 option"
  env_mcNetVersion :: "string option"
  env_signTx :: "address \<Rightarrow> u64 \<Rightarrow> address \<Rightarrow> bytes \<Rightarrow> u64 \<Rightarrow> bytes option"
  env_mcSend :: "string \<Rightarrow> hash option"
  env_root :: "(address \<Rightarrow> int) \<Rightarrow> hash"

record Alien =
  a_config :: AlienConfig
  a_db :: "(bytes, bytes) gomap"
  a_recents :: "(hash, Snapshot) gomap"
  a_signatures :: "(hash, address) gomap"
  a_signer :: address
  a_lcsc :: u64
  a_minerRewardPerThousand :: u64
  a_candidateNeedPD :: bool
  a_mcNetVersion :: u64
  a_mcLoopStartTime :: u64
  a_mcPeriod :: u64
  a_mcSignerLength :: u64

definition checkpointInterval :: u64 where "checkpointInterval = 360"
definition secondsPerYear :: u64 where "secondsPerYear = 365 * 24 * 3600"
definition scUnconfirmLoop :: u64 where "scUnconfirmLoop = 3"
definition defaultEpochLength :: u64 where "defaultEpochLength = 3000000"
definition defaultBlockPeriod :: u64 where "defaultBlockPeriod = 3"
definition defaultMaxSignerCount :: u64 where "defaultMaxSignerCount = 21"
definition defaultMinVoterBalance :: int where "defaultMinVoterBalance = 10000 * 10 ^ 18"
definition defaultDifficulty :: int where "defaultDifficulty = 1"
definition defaultLoopCntRecalculateSigners :: u64 where "defaultLoopCntRecalculateSigners = 10"

section \<open>Hashes and signers of headers\<close>

text \<open>
  \<open>header.Hash()\<close> hashes the RLP list of all fields, \<open>sigHash\<close> the same list with the seal cut
  off the extra data.  A list that does not encode leaves the hasher empty.
\<close>

definition t_Header :: gtype where
  "t_Header = TStruct [t_Hash, t_Hash, t_Address, t_Hash, t_Hash, t_Hash, TByteArray 256, TBigInt, TBigInt,
    t_u64, t_u64, TBigInt, TBytes, t_Hash, TByteArray 8]"

definition to_Header :: "Header \<Rightarrow> bytes \<Rightarrow> gval" where
  "to_Header h extra = VStruct [to_Hash (h_ParentHash h), to_Hash (h_UncleHash h), to_Address (h_Coinbase h),
    to_Hash (h_Root h), to_Hash (h_TxHash h), to_Hash (h_ReceiptHash h), VByteArray (h_Bloom h),
    VBig (Some (h_Difficulty h)), VBig (h_Number h), VUint (h_GasLimit h), VUint (h_GasUsed h),
    VBig (Some (h_Time h)), VBytes extra, to_Hash (h_MixDigest h), VByteArray (h_Nonce h)]"

definition rlpHash :: "Env \<Rightarrow> gtype \<Rightarrow> gval \<Rightarrow> hash" where
  "rlpHash env t v =
    BytesToHash (env_keccak env (case EncodeToBytes t v of Inr b \<Rightarrow> b | Inl e \<Rightarrow> []))"

definition Header_Hash :: "Env \<Rightarrow> Header \<Rightarrow> hash" where
  "Header_Hash env h = rlpHash env t_Header (to_Header h (h_Extra h))"

definition sigHash :: "Env \<Rightarrow> Header \<Rightarrow> alien_err + hash" where
  "sigHash env h =
    (if length (h_Extra h) < 65 then Inl PanicIndex
     else Inr (rlpHash env t_Header (to_Header h (take (length (h_Extra h) - 65) (h_Extra h)))))"

definition ecrecover :: "Env \<Rightarrow> (hash, address) gomap \<Rightarrow> Header \<Rightarrow> (alien_err + address) \<times> (hash, address) gomap" where
  "ecrecover env sigcache header =
    (let hash = Header_Hash env header in
     case mget sigcache hash of
       Some addr \<Rightarrow> (Inr addr, sigcache)
     | None \<Rightarrow>
         if length (h_Extra header) < extraSeal then (Inl errMissingSignature, sigcache)
         else
           (let signature = drop (length (h_Extra header) - extraSeal) (h_Extra header) in
            case sigHash env header of
              Inl e \<Rightarrow> (Inl e, sigcache)
            | Inr sh \<Rightarrow>
                (case env_Ecrecover env (Hash_Bytes sh) signature of
                   None \<Rightarrow> (Inl ErrCrypto, sigcache)
                 | Some pubkey \<Rightarrow>
                     (let signer = BytesToAddress (drop 12 (env_keccak env (drop 1 pubkey)))
                      in (Inr signer, env_evict_sig env (mput hash signer sigcache))))))"

definition New :: "AlienConfig \<Rightarrow> (bytes, bytes) gomap \<Rightarrow> Alien" where
  "New config db =
    (let conf = config;
         conf = (if cfg_Epoch conf = 0 then conf\<lparr>cfg_Epoch := defaultEpochLength\<rparr> else conf);
         conf = (if cfg_Period conf = 0 then conf\<lparr>cfg_Period := defaultBlockPeriod\<rparr> else conf);
         conf = (if cfg_MaxSignerCount conf = 0 then conf\<lparr>cfg_MaxSignerCount := defaultMaxSignerCount\<rparr> else conf);
         conf = (if Uint64 (cfg_MinVoterBalance conf) = 0
                 then conf\<lparr>cfg_MinVoterBalance := defaultMinVoterBalance\<rparr> else conf)
     in \<lparr>a_config = conf, a_db = db, a_recents = [], a_signatures = [], a_signer = 0, a_lcsc = 0,
         a_minerRewardPerThousand = 618, a_candidateNeedPD = False, a_mcNetVersion = 0,
         a_mcLoopStartTime = 0, a_mcPeriod = 0, a_mcSignerLength = 0\<rparr>)"

definition Author :: "Env \<Rightarrow> Alien \<Rightarrow> Header \<Rightarrow> (alien_err + address) \<times> Alien" where
  "Author env a header =
    (let (r, sigs) = ecrecover env (a_signatures a) header in (r, a\<lparr>a_signatures := sigs\<rparr>))"

definition Authorize :: "address \<Rightarrow> Alien \<Rightarrow> Alien" where
  "Authorize signer a = a\<lparr>a_signer := signer\<rparr>"

section \<open>Snapshots of blocks\<close>

definition snapshot_key :: "hash \<Rightarrow> bytes" where
  "snapshot_key h = str_bytes ''alien-'' @ Hash_Bytes h"

definition loadSnapshot :: "Env \<Rightarrow> Alien \<Rightarrow> hash \<Rightarrow> Snapshot option" where
  "loadSnapshot env a h =
    (case mget (a_db a) (snapshot_key h) of
       None \<Rightarrow> None
     | Some blob \<Rightarrow> map_option (\<lambda>s. s\<lparr>s_config := a_config a\<rparr>) (env_unmarshal env blob))"

definition store :: "Env \<Rightarrow> Snapshot \<Rightarrow> Alien \<Rightarrow> alien_err + Alien" where
  "store env s a =
    (case env_marshal env s of
       None \<Rightarrow> Inl ErrDatabase
     | Some blob \<Rightarrow>
         (case env_put env (snapshot_key (s_Hash s)) blob (a_db a) of
            None \<Rightarrow> Inl ErrDatabase
          | Some db \<Rightarrow> Inr (a\<lparr>a_db := db\<rparr>)))"

definition uncleHash :: "Env \<Rightarrow> hash" where
  "uncleHash env = rlpHash env (TSlice TBytes) (VList [])"

text \<open>The checks of \<open>verifyHeader\<close> that need the header alone.\<close>

definition verifyHeader_alone :: "Env \<Rightarrow> int \<Rightarrow> Header \<Rightarrow> alien_err + unit" where
  "verifyHeader_alone env now header =
    (if h_Number header = None then Inl errUnknownBlock
     else if now < h_Time header then Inl ErrFutureBlock
     else if length (h_Extra header) < extraVanity then Inl errMissingVanity
     else if length (h_Extra header) < extraVanity + extraSeal then Inl errMissingSignature
     else if h_MixDigest header \<noteq> 0 then Inl errInvalidMixDigest
     else if h_UncleHash header \<noteq> uncleHash env then Inl errInvalidUncleHash
     else Inr ())"

text \<open>
  The loop of \<open>snapshot\<close>: back to a snapshot in memory, on disk or at the genesis block,
  collecting the headers passed.  \<open>GetHeaderByNumber(0)\<close> is documented to return the genesis
  header, whose cascading check accepts at once.
\<close>

function snapshot_gather ::
  "Env \<Rightarrow> Chain \<Rightarrow> int \<Rightarrow> Vote list \<Rightarrow> u64 \<Rightarrow> Alien \<Rightarrow> u64 \<Rightarrow> hash \<Rightarrow> Header list \<Rightarrow> Header list
   \<Rightarrow> alien_err + Alien \<times> Snapshot \<times> Header list" where
  "snapshot_gather env chain now genesisVotes lcrs a number hash parents headers =
    (case mget (a_recents a) hash of
       Some s \<Rightarrow> Inr (a, s, headers)
     | None \<Rightarrow>
         (case (if number mod checkpointInterval = 0 then loadSnapshot env a hash else None) of
            Some s \<Rightarrow> Inr (a, s, headers)
          | None \<Rightarrow>
              if number = 0 then
                (case ch_GetHeaderByNumber chain 0 of
                   None \<Rightarrow> Inl PanicNil
                 | Some genesis \<Rightarrow>
                     bindR (verifyHeader_alone env now genesis) (\<lambda>_.
                     let a = a\<lparr>a_config := (a_config a)\<lparr>cfg_Period := cfg_Period (ch_Config chain)\<rparr>\<rparr> in
                     bindR (newSnapshot (of_int now) (a_config a) (Header_Hash env genesis) genesisVotes lcrs) (\<lambda>snap.
                     bindR (store env snap a) (\<lambda>a. Inr (a, snap, headers)))))
              else if parents \<noteq> [] then
                (let header = last parents in
                 if Header_Hash env header \<noteq> hash \<or> Uint64 (hNumber header) \<noteq> number then Inl ErrUnknownAncestor
                 else snapshot_gather env chain now genesisVotes lcrs a (number - 1) (h_ParentHash header)
                        (butlast parents) (headers @ [header]))
              else
                (case ch_GetHeader chain hash number of
                   None \<Rightarrow> Inl ErrUnknownAncestor
                 | Some header \<Rightarrow>
                     snapshot_gather env chain now genesisVotes lcrs a (number - 1) (h_ParentHash header)
                       [] (headers @ [header]))))"
  by pat_completeness auto
termination
  by (relation "measure (\<lambda>(env, chain, now, genesisVotes, lcrs, a, number, hash, parents, headers). unat number)")
    (auto intro!: measure_unat)

declare snapshot_gather.simps [simp del]

text \<open>
  The signers that \<open>apply\<close> recovers, header by header, with the cache passed along.  The
  headers of a batch carry consecutive numbers, so each has one entry in the result.
\<close>

primrec recoverAll :: "Env \<Rightarrow> (hash, address) gomap \<Rightarrow> Header list \<Rightarrow> (Header, alien_err + address) gomap \<times> (hash, address) gomap" where
  "recoverAll env sigcache [] = ([], sigcache)"
| "recoverAll env sigcache (h # hs) =
    (let (r, sigcache) = ecrecover env sigcache h; (rs, sigcache) = recoverAll env sigcache hs
     in ((h, r) # rs, sigcache))"

definition recovered :: "(Header, alien_err + address) gomap \<Rightarrow> Header \<Rightarrow> alien_err + address" where
  "recovered rs h = (case mget rs h of Some r \<Rightarrow> r | None \<Rightarrow> Inl errUnknownBlock)"

definition snapshot ::
  "Env \<Rightarrow> Chain \<Rightarrow> int \<Rightarrow> Alien \<Rightarrow> u64 \<Rightarrow> hash \<Rightarrow> Header list \<Rightarrow> Vote list \<Rightarrow> u64 \<Rightarrow> alien_err + Alien \<times> Snapshot" where
  "snapshot env chain now a number hash parents genesisVotes lcrs =
    bindR (snapshot_gather env chain now genesisVotes lcrs a number hash parents []) (\<lambda>(a, s, gathered).
    let headers = rev gathered; (signers, sigcache) = recoverAll env (a_signatures a) headers in
    bindR (Snapshot_apply (recovered signers) (Header_Hash env) (env_sortT env)
             (a_candidateNeedPD a) (s, a_minerRewardPerThousand a) headers) (\<lambda>(snap, mrpt).
    let a = a\<lparr>a_signatures := sigcache, a_minerRewardPerThousand := mrpt,
              a_recents := env_evict_snap env (mput (s_Hash snap) snap (a_recents a))\<rparr>
    in if s_Number snap mod checkpointInterval = 0 \<and> headers \<noteq> []
       then bindR (store env snap a) (\<lambda>a. Inr (a, snap))
       else Inr (a, snap)))"

section \<open>The signature cache is transparent\<close>

text \<open>
  The signer of a header as the signature says, with an empty cache.  A cache is right for a set
  of headers when what it holds for their hashes is their signer; \<open>evicts\<close> is the documented
  behaviour of the cache library: evicting entries adds none.
\<close>

definition signer_of :: "Env \<Rightarrow> Header \<Rightarrow> alien_err + address" where
  "signer_of env h = fst (ecrecover env [] h)"

definition cache_ok :: "Env \<Rightarrow> Header set \<Rightarrow> (hash, address) gomap \<Rightarrow> bool" where
  "cache_ok env H c \<longleftrightarrow> (\<forall>h \<in> H. \<forall>a. mget c (Header_Hash env h) = Some a \<longrightarrow> signer_of env h = Inr a)"

definition evicts :: "Env \<Rightarrow> bool" where
  "evicts env \<longleftrightarrow> (\<forall>m k v. mget (env_evict_sig env m) k = Some v \<longrightarrow> mget m k = Some v) \<and>
    (\<forall>m k v. mget (env_evict_snap env m) k = Some v \<longrightarrow> mget m k = Some v)"

lemma ecrecover_miss:
  "mget c (Header_Hash env h) = None \<Longrightarrow> fst (ecrecover env c h) = signer_of env h \<and>
   (snd (ecrecover env c h) = c \<or>
    (\<exists>a. signer_of env h = Inr a \<and> snd (ecrecover env c h) = env_evict_sig env (mput (Header_Hash env h) a c)))"
  by (auto simp: ecrecover_def signer_of_def Let_def split: option.splits sum.splits if_splits)

lemma ecrecover_transparent:
  assumes "evicts env" "inj_on (Header_Hash env) H" "cache_ok env H c" "h \<in> H"
  shows "fst (ecrecover env c h) = signer_of env h" "cache_ok env H (snd (ecrecover env c h))"
proof -
  have hit: "ecrecover env c h = (Inr a, c)" "signer_of env h = Inr a" if "mget c (Header_Hash env h) = Some a" for a
    using that assms(3,4) by (auto simp: ecrecover_def Let_def cache_ok_def)
  show "fst (ecrecover env c h) = signer_of env h"
    by (cases "mget c (Header_Hash env h)") (use ecrecover_miss [of c env h] hit in auto)
  show "cache_ok env H (snd (ecrecover env c h))"
  proof (cases "mget c (Header_Hash env h)")
    case (Some a)
    then show ?thesis using hit assms(3) by simp
  next
    case None
    from ecrecover_miss [OF this] consider "snd (ecrecover env c h) = c"
      | a where "signer_of env h = Inr a" "snd (ecrecover env c h) = env_evict_sig env (mput (Header_Hash env h) a c)" by blast
    then show ?thesis
    proof cases
      case 1
      then show ?thesis using assms(3) by simp
    next
      case (2 a)
      have "signer_of env g = Inr b" if g: "g \<in> H" and b: "mget (snd (ecrecover env c h)) (Header_Hash env g) = Some b" for g b
      proof -
        have "mget (mput (Header_Hash env h) a c) (Header_Hash env g) = Some b"
          using b assms(1) unfolding 2 evicts_def by blast
        then have "(g = h \<and> b = a) \<or> mget c (Header_Hash env g) = Some b"
          using assms(2,4) g by (auto simp: gomap_simps inj_on_def split: if_splits)
        then show ?thesis using 2(1) assms(3) g by (auto simp: cache_ok_def)
      qed
      then show ?thesis by (auto simp: cache_ok_def)
    qed
  qed
qed

lemma recoverAll_transparent:
  assumes "evicts env" "inj_on (Header_Hash env) H" "cache_ok env H c" "set hs \<subseteq> H"
  shows "recoverAll env c hs = (map (\<lambda>h. (h, signer_of env h)) hs, snd (recoverAll env c hs)) \<and>
    cache_ok env H (snd (recoverAll env c hs))"
  using assms(3,4)
proof (induction hs arbitrary: c)
  case (Cons h hs)
  obtain r c1 where e: "ecrecover env c h = (r, c1)" by force
  have r: "r = signer_of env h" "cache_ok env H c1"
    using ecrecover_transparent [OF assms(1,2) Cons.prems(1), of h] Cons.prems(2) e by simp_all
  obtain rs c2 where f: "recoverAll env c1 hs = (rs, c2)" by force
  show ?case using Cons.IH [OF r(2)] Cons.prems(2) e f r by simp
qed simp

lemma recovered_signer: "h \<in> set hs \<Longrightarrow> recovered (map (\<lambda>h. (h, signer_of env h)) hs) h = signer_of env h"
proof -
  assume "h \<in> set hs"
  then have "mget (map (\<lambda>h. (h, signer_of env h)) hs) h = Some (signer_of env h)"
    by (induction hs) auto
  then show ?thesis by (simp add: recovered_def)
qed

section \<open>The snapshot of the block asked for\<close>

text \<open>
  The chain reader is documented to return the header with the given hash and number.  The
  stores are right when they hold under a hash the snapshot of that block.
\<close>

definition chain_ok :: "Env \<Rightarrow> Chain \<Rightarrow> bool" where
  "chain_ok env chain \<longleftrightarrow> (\<forall>h n header. ch_GetHeader chain h n = Some header \<longrightarrow>
     Header_Hash env header = h \<and> Uint64 (hNumber header) = n)"

definition stores_ok :: "Env \<Rightarrow> Alien \<Rightarrow> bool" where
  "stores_ok env a \<longleftrightarrow> (\<forall>h s. mget (a_recents a) h = Some s \<longrightarrow> s_Hash s = h) \<and>
     (\<forall>h s. loadSnapshot env a h = Some s \<longrightarrow> s_Hash s = h)"

lemma gather_spec:
  assumes "snapshot_gather env chain now gv lcrs a number hash parents headers = Inr (a', s, headers')"
    and "chain_ok env chain" "stores_ok env a"
  shows "\<exists>hs. headers' = headers @ hs \<and> a_recents a' = a_recents a \<and> a_signatures a' = a_signatures a \<and>
    (hs = [] \<longrightarrow> s_Hash s = hash \<or>
       (number = 0 \<and> (\<exists>g. ch_GetHeaderByNumber chain 0 = Some g \<and> s_Hash s = Header_Hash env g))) \<and>
    (hs \<noteq> [] \<longrightarrow> Header_Hash env (hd hs) = hash \<and> Uint64 (hNumber (hd hs)) = number)"
  using assms
proof (induction env chain now gv lcrs a number hash parents headers arbitrary: a' s headers' rule: snapshot_gather.induct)
  case (1 env chain now gv lcrs a number hash parents headers)
  note eq = 1(3) [unfolded snapshot_gather.simps [of env chain now gv lcrs a number hash parents headers]]
  show ?case
  proof (cases "mget (a_recents a) hash")
    case (Some t)
    then show ?thesis using eq 1(5) by (auto simp: stores_ok_def)
  next
    case None
    note mem = this
    show ?thesis
    proof (cases "if number mod checkpointInterval = 0 then loadSnapshot env a hash else None")
      case (Some t)
      then have "loadSnapshot env a hash = Some t" by (simp split: if_splits)
      then show ?thesis using eq mem Some 1(5) by (auto simp: stores_ok_def)
    next
      case None
      note disk = this
      show ?thesis
      proof (cases "number = 0")
        case True
        then obtain g snap a2 where g: "ch_GetHeaderByNumber chain 0 = Some g"
          and n: "newSnapshot (of_int now) (a_config (a\<lparr>a_config := (a_config a)\<lparr>cfg_Period := cfg_Period (ch_Config chain)\<rparr>\<rparr>))
              (Header_Hash env g) gv lcrs = Inr snap"
          and st: "store env snap (a\<lparr>a_config := (a_config a)\<lparr>cfg_Period := cfg_Period (ch_Config chain)\<rparr>\<rparr>) = Inr a2"
          and r: "a' = a2" "s = snap" "headers' = headers"
          using eq mem disk by (auto simp: bind_simps Let_def split: option.splits)
        have "a_recents a2 = a_recents a \<and> a_signatures a2 = a_signatures a"
          using st by (auto simp: store_def split: option.splits)
        then show ?thesis using r True g newSnapshot_core(3) [OF n] by auto
      next
        case False
        note nz = this
        show ?thesis
        proof (cases "parents = []")
          case True
          then obtain header where h: "ch_GetHeader chain hash number = Some header"
            and r: "snapshot_gather env chain now gv lcrs a (number - 1) (h_ParentHash header) [] (headers @ [header]) =
               Inr (a', s, headers')"
            using eq mem disk nz by (auto split: option.splits)
          have "Header_Hash env header = hash \<and> Uint64 (hNumber header) = number" using 1(4) h by (simp add: chain_ok_def)
          moreover have "\<exists>hs. headers' = (headers @ [header]) @ hs \<and> a_recents a' = a_recents a \<and> a_signatures a' = a_signatures a"
            using 1(2) [OF mem disk nz _ h r 1(4,5)] True by blast
          ultimately show ?thesis by auto
        next
          case False
          let ?h = "last parents"
          have c: "Header_Hash env ?h = hash" "Uint64 (hNumber ?h) = number"
            and r: "snapshot_gather env chain now gv lcrs a (number - 1) (h_ParentHash ?h) (butlast parents) (headers @ [?h]) =
               Inr (a', s, headers')"
            using eq mem disk nz False by (auto simp: Let_def split: if_splits)
          have "\<exists>hs. headers' = (headers @ [?h]) @ hs \<and> a_recents a' = a_recents a \<and> a_signatures a' = a_signatures a"
            using 1(1) [OF mem disk nz False refl _ r 1(4,5)] c by auto
          then show ?thesis using c by auto
        qed
      qed
    qed
  qed
qed

lemma snapshot_steps:
  assumes "snapshot env chain now a number hash parents gv lcrs = Inr (a', s)"
  obtains a1 s1 gathered mrpt where
    "snapshot_gather env chain now gv lcrs a number hash parents [] = Inr (a1, s1, gathered)"
    "Snapshot_apply (recovered (fst (recoverAll env (a_signatures a1) (rev gathered)))) (Header_Hash env) (env_sortT env)
       (a_candidateNeedPD a1) (s1, a_minerRewardPerThousand a1) (rev gathered) = Inr (s, mrpt)"
    "a_signatures a' = snd (recoverAll env (a_signatures a1) (rev gathered))"
    "a_recents a' = env_evict_snap env (mput (s_Hash s) s (a_recents a1))"
proof -
  from assms obtain a1 s1 gathered where
    g: "snapshot_gather env chain now gv lcrs a number hash parents [] = Inr (a1, s1, gathered)"
    unfolding snapshot_def by (auto simp: bind_simps)
  obtain signers sc where r: "recoverAll env (a_signatures a1) (rev gathered) = (signers, sc)" by force
  from assms g r obtain mrpt where
    ap: "Snapshot_apply (recovered signers) (Header_Hash env) (env_sortT env) (a_candidateNeedPD a1)
       (s1, a_minerRewardPerThousand a1) (rev gathered) = Inr (s, mrpt)"
    and st: "(let a2 = a1\<lparr>a_signatures := sc, a_minerRewardPerThousand := mrpt,
              a_recents := env_evict_snap env (mput (s_Hash s) s (a_recents a1))\<rparr>
       in store env s a2 = Inr a' \<or> a2 = a')"
    by (auto simp: snapshot_def Let_def bind_simps split: if_splits)
  have "a_signatures a' = sc \<and> a_recents a' = env_evict_snap env (mput (s_Hash s) s (a_recents a1))"
    using st by (auto simp: Let_def store_def split: option.splits)
  then show ?thesis using that [OF g] ap r by simp
qed

lemma snapshot_hash:
  assumes "snapshot env chain now a number hash parents gv lcrs = Inr (a', s)"
    and "chain_ok env chain" "stores_ok env a"
    and genesis: "number = 0 \<longrightarrow> (\<forall>g. ch_GetHeaderByNumber chain 0 = Some g \<longrightarrow> Header_Hash env g = hash)"
  shows "s_Hash s = hash"
proof -
  from assms(1) obtain a1 s1 gathered mrpt where
    g: "snapshot_gather env chain now gv lcrs a number hash parents [] = Inr (a1, s1, gathered)" and
    ap: "Snapshot_apply (recovered (fst (recoverAll env (a_signatures a1) (rev gathered)))) (Header_Hash env) (env_sortT env)
       (a_candidateNeedPD a1) (s1, a_minerRewardPerThousand a1) (rev gathered) = Inr (s, mrpt)"
    by (rule snapshot_steps)
  from gather_spec [OF g assms(2,3)] have sp: "gathered = [] \<longrightarrow> s_Hash s1 = hash" "gathered \<noteq> [] \<longrightarrow> Header_Hash env (hd gathered) = hash"
    using genesis by auto
  show ?thesis
  proof (cases "gathered = []")
    case True
    then show ?thesis using ap sp by (simp add: Snapshot_apply_def)
  next
    case False
    then show ?thesis using Snapshot_apply_position(2) [OF ap] sp by (simp add: last_rev)
  qed
qed

lemma snapshot_recents_ok:
  assumes "snapshot env chain now a number hash parents gv lcrs = Inr (a', s)"
    and "evicts env" "chain_ok env chain" "stores_ok env a" "mget (a_recents a') h = Some t"
  shows "s_Hash t = h"
proof -
  from assms(1) obtain a1 s1 gathered where
    g: "snapshot_gather env chain now gv lcrs a number hash parents [] = Inr (a1, s1, gathered)" and
    r: "a_recents a' = env_evict_snap env (mput (s_Hash s) s (a_recents a1))" by (rule snapshot_steps) blast
  have "a_recents a1 = a_recents a" using gather_spec [OF g assms(3,4)] by blast
  moreover have "mget (mput (s_Hash s) s (a_recents a1)) h = Some t" using assms(2,5) r unfolding evicts_def by metis
  ultimately show ?thesis using assms(4) by (auto simp: gomap_simps stores_ok_def split: if_splits)
qed

end
