(* ===== verification/Alien_Verify.thy ===== *)
theory Alien_Verify
  imports Alien_Engine
begin

text \<open>
  Verification of headers and seals by the engine (\<open>src/gttc/consensus/alien/alien.go\<close>), and the
  turn of a side-chain signer, which the main chain decides (\<open>cross_chain.go\<close>).
\<close>

section \<open>Absent signers\<close>

text \<open>\<open>getSignerMissing\<close>: the signers between the last signer and the current one in the queue.\<close>

fun signerMissing_loop :: "address \<Rightarrow> address \<Rightarrow> bool \<Rightarrow> address list \<Rightarrow> address list" where
  "signerMissing_loop lastSigner currentSigner recordMissing [] = []"
| "signerMissing_loop lastSigner currentSigner recordMissing (signer # queue) =
    (if signer = lastSigner then signerMissing_loop lastSigner currentSigner True queue
     else if signer = currentSigner then []
     else if recordMissing then signer # signerMissing_loop lastSigner currentSigner recordMissing queue
     else signerMissing_loop lastSigner currentSigner recordMissing queue)"

definition getSignerMissing :: "address \<Rightarrow> address \<Rightarrow> HeaderExtra \<Rightarrow> address list" where
  "getSignerMissing lastSigner currentSigner extra =
    signerMissing_loop lastSigner currentSigner False (he_SignerQueue extra)"

section \<open>The main chain\<close>

definition getMainChainSnapshotByTime :: "Env \<Rightarrow> Chain \<Rightarrow> u64 \<Rightarrow> hash \<Rightarrow> alien_err + MainSnapshot" where
  "getMainChainSnapshotByTime env chain headerTime scHash =
    (if \<not> cfg_SideChain (ch_Config chain) then Inl errNotSideChain
     else if \<not> cfg_MCRPCClient (ch_Config chain) then Inl errMCRPCClientEmpty
     else
       (case env_mcSnapshot env headerTime scHash of
          None \<Rightarrow> Inl ErrRPC
        | Some ms \<Rightarrow> if ms_Period ms = 0 then Inl errMCPeriodMissing else Inr ms))"

definition sendTransactionToMainChain :: "Env \<Rightarrow> Chain \<Rightarrow> bytes option \<Rightarrow> alien_err + hash" where
  "sendTransactionToMainChain env chain tx =
    (if \<not> cfg_SideChain (ch_Config chain) then Inl errNotSideChain
     else if \<not> cfg_MCRPCClient (ch_Config chain) then Inl errMCRPCClientEmpty
     else
       (case tx of
          None \<Rightarrow> Inl PanicNil
        | Some data \<Rightarrow> (case env_mcSend env (ToHex data) of None \<Rightarrow> Inl ErrRPC | Some h \<Rightarrow> Inr h)))"

definition getTransactionCountFromMainChain :: "Env \<Rightarrow> Chain \<Rightarrow> address \<Rightarrow> alien_err + u64" where
  "getTransactionCountFromMainChain env chain account =
    (if \<not> cfg_SideChain (ch_Config chain) then Inl errNotSideChain
     else if \<not> cfg_MCRPCClient (ch_Config chain) then Inl errMCRPCClientEmpty
     else
       (case env_mcNonce env (Address_Hex (env_keccak env) account) of None \<Rightarrow> Inl ErrRPC | Some n \<Rightarrow> Inr n))"

definition getNetVersionFromMainChain :: "Env \<Rightarrow> Chain \<Rightarrow> alien_err + u64" where
  "getNetVersionFromMainChain env chain =
    (if \<not> cfg_SideChain (ch_Config chain) then Inl errNotSideChain
     else if \<not> cfg_MCRPCClient (ch_Config chain) then Inl errMCRPCClientEmpty
     else
       (case env_mcNetVersion env of
          None \<Rightarrow> Inl ErrRPC
        | Some result \<Rightarrow>
            (let (netVersion, err) = Atoi result in
             case err of Some e \<Rightarrow> Inl (ErrNum e) | None \<Rightarrow> Inr (of_int netVersion))))"

text \<open>
  \<open>mcInturn\<close>: like \<open>inturn\<close>, on the snapshot of the main chain; success leaves the main
  chain's loop parameters in package variables.
\<close>

definition mcInturn :: "Env \<Rightarrow> Chain \<Rightarrow> Alien \<Rightarrow> address \<Rightarrow> u64 \<Rightarrow> alien_err + Alien \<times> bool" where
  "mcInturn env chain a signer headerTime =
    (if cfg_SideChain (ch_Config chain) then
       (case ch_GetHeaderByNumber chain 0 of
          None \<Rightarrow> Inl PanicNil
        | Some genesis \<Rightarrow>
            (case getMainChainSnapshotByTime env chain headerTime (h_ParentHash genesis) of
               Inl e \<Rightarrow> Inr (a, False)
             | Inr ms \<Rightarrow>
                 if ms_Signers ms = [] \<or> ms_Period ms = 0 then Inr (a, False)
                 else
                   (let q = sint ((headerTime - ms_LoopStartTime ms) div ms_Period ms);
                        n = int (length (ms_Signers ms));
                        loopIndex = (if 0 \<le> q then q mod n else - ((- q) mod n))
                    in if loopIndex < 0 then Inl PanicIndex
                       else if ms_Signers ms ! nat loopIndex \<noteq> signer then Inr (a, False)
                       else Inr (a\<lparr>a_mcLoopStartTime := ms_LoopStartTime ms, a_mcPeriod := ms_Period ms,
                                   a_mcSignerLength := of_nat (length (ms_Signers ms))\<rparr>, True))))
     else Inr (a, False))"

section \<open>Seals\<close>

text \<open>The comparison of the first \<open>MaxSignerCount\<close> entries of two queues.\<close>

fun sameQueue :: "nat \<Rightarrow> address list \<Rightarrow> address list \<Rightarrow> alien_err + unit" where
  "sameQueue 0 p c = Inr ()"
| "sameQueue (Suc n) (x # p) (y # c) = (if x \<noteq> y then Inl errInvalidSignerQueue else sameQueue n p c)"
| "sameQueue (Suc n) p c = Inl PanicIndex"

text \<open>What a main-chain seal must satisfy beyond block number \<open>MaxSignerCount\<close>.\<close>

definition verifySeal_loop :: "Env \<Rightarrow> Chain \<Rightarrow> Alien \<Rightarrow> Snapshot \<Rightarrow> address \<Rightarrow> Header \<Rightarrow> Header list \<Rightarrow> alien_err + unit" where
  "verifySeal_loop env chain a snap signer header parents =
    (let number = Uint64 (hNumber header); M = cfg_MaxSignerCount (a_config a) in
     case (if parents \<noteq> [] then Some (last parents) else ch_GetHeader chain (h_ParentHash header) (number - 1)) of
       None \<Rightarrow> Inl PanicNil
     | Some parent \<Rightarrow>
         bindR (extra_payload parent) (\<lambda>pp.
         bindR (decodeHeaderExtra (a_config a) (hNumber parent) pp new_HeaderExtra) (\<lambda>parentHeaderExtra.
         bindR (extra_payload header) (\<lambda>cp.
         bindR (decodeHeaderExtra (a_config a) (hNumber header) cp new_HeaderExtra) (\<lambda>currentHeaderExtra.
         if M = 0 then Inl PanicDivide
         else
           bindR
             (if number mod M = 0
              then verifySignerQueue (env_sortT env) (env_sortS env) (a_candidateNeedPD a) snap
                     (he_SignerQueue currentHeaderExtra)
              else
                bindR (sameQueue (nat (sint M)) (he_SignerQueue parentHeaderExtra) (he_SignerQueue currentHeaderExtra))
                  (\<lambda>_. if signer = h_Coinbase parent \<and>
                          Uint64 (h_Time header) - Uint64 (h_Time parent) < cfg_Period (ch_Config chain)
                       then Inl errInvalidNeighborSigner else Inr ()))
             (\<lambda>_.
                let parentSignerMissing = getSignerMissing (h_Coinbase parent) (h_Coinbase header) parentHeaderExtra
                in if length parentSignerMissing \<noteq> length (he_SignerMissing currentHeaderExtra)
                   then Inl errPunishedMissing
                   else if parentSignerMissing \<noteq> he_SignerMissing currentHeaderExtra then Inl errPunishedMissing
                   else Inr ()))))))"

definition verifySeal :: "Env \<Rightarrow> Chain \<Rightarrow> int \<Rightarrow> Alien \<Rightarrow> Header \<Rightarrow> Header list \<Rightarrow> alien_err + Alien" where
  "verifySeal env chain now a header parents =
    (let number = Uint64 (hNumber header) in
     if number = 0 then Inl errUnknownBlock
     else
       bindR (snapshot env chain now a (number - 1) (h_ParentHash header) parents [] defaultLoopCntRecalculateSigners)
         (\<lambda>(a, snap).
         case ecrecover env (a_signatures a) header of
           (Inl e, sigs) \<Rightarrow> Inl e
         | (Inr signer, sigs) \<Rightarrow>
             (let a = a\<lparr>a_signatures := sigs\<rparr> in
              if \<not> cfg_SideChain (ch_Config chain) then
                bindR (if cfg_MaxSignerCount (a_config a) < number
                       then verifySeal_loop env chain a snap signer header parents else Inr ()) (\<lambda>_.
                bindR (inturn snap signer (Uint64 (h_Time header))) (\<lambda>turn.
                if turn then Inr a else Inl errUnauthorized))
              else
                bindR (mcInturn env chain a signer (Uint64 (h_Time header))) (\<lambda>(a, turn).
                if turn then Inr a else Inl errUnauthorized))))"

definition VerifySeal :: "Env \<Rightarrow> Chain \<Rightarrow> int \<Rightarrow> Alien \<Rightarrow> Header \<Rightarrow> alien_err + Alien" where
  "VerifySeal env chain now a header = verifySeal env chain now a header []"

section \<open>Headers\<close>

definition verifyCascadingFields :: "Env \<Rightarrow> Chain \<Rightarrow> int \<Rightarrow> Alien \<Rightarrow> Header \<Rightarrow> Header list \<Rightarrow> alien_err + Alien" where
  "verifyCascadingFields env chain now a header parents =
    (let number = Uint64 (hNumber header) in
     if number = 0 then Inr a
     else
       (case (if parents \<noteq> [] then Some (last parents) else ch_GetHeader chain (h_ParentHash header) (number - 1)) of
          None \<Rightarrow> Inl ErrUnknownAncestor
        | Some parent \<Rightarrow>
            if Uint64 (hNumber parent) \<noteq> number - 1 \<or> Header_Hash env parent \<noteq> h_ParentHash header
            then Inl ErrUnknownAncestor
            else if Uint64 (h_Time header) < Uint64 (h_Time parent) then Inl ErrInvalidTimestamp
            else
              bindR (snapshot env chain now a (number - 1) (h_ParentHash header) parents []
                       defaultLoopCntRecalculateSigners) (\<lambda>(a, snap).
              verifySeal env chain now a header parents)))"

definition verifyHeader :: "Env \<Rightarrow> Chain \<Rightarrow> int \<Rightarrow> Alien \<Rightarrow> Header \<Rightarrow> Header list \<Rightarrow> alien_err + Alien" where
  "verifyHeader env chain now a header parents =
    bindR (verifyHeader_alone env now header) (\<lambda>_. verifyCascadingFields env chain now a header parents)"

definition VerifyHeader :: "Env \<Rightarrow> Chain \<Rightarrow> int \<Rightarrow> Alien \<Rightarrow> Header \<Rightarrow> alien_err + Alien" where
  "VerifyHeader env chain now a header = verifyHeader env chain now a header []"

text \<open>
  \<open>VerifyHeaders\<close>: the goroutine verifies the headers in order, each with its predecessors as
  parents, and sends the results in that order; an abort cuts the list short.  A failed
  verification leaves the engine state as it was in the model.
\<close>

fun VerifyHeaders_from ::
  "Env \<Rightarrow> Chain \<Rightarrow> int \<Rightarrow> Alien \<Rightarrow> Header list \<Rightarrow> Header list \<Rightarrow> (alien_err + unit) list" where
  "VerifyHeaders_from env chain now a parents [] = []"
| "VerifyHeaders_from env chain now a parents (header # headers) =
    (case verifyHeader env chain now a header parents of
       Inl e \<Rightarrow> Inl e # VerifyHeaders_from env chain now a (parents @ [header]) headers
     | Inr a' \<Rightarrow> Inr () # VerifyHeaders_from env chain now a' (parents @ [header]) headers)"

definition VerifyHeaders :: "Env \<Rightarrow> Chain \<Rightarrow> int \<Rightarrow> Alien \<Rightarrow> Header list \<Rightarrow> (alien_err + unit) list" where
  "VerifyHeaders env chain now a headers = VerifyHeaders_from env chain now a [] headers"

definition VerifyUncles :: "Header list \<Rightarrow> alien_err + unit" where
  "VerifyUncles uncles = (if 0 < length uncles then Inl errUnclesNotAllowed else Inr ())"

section \<open>Whom a block reports as absent\<close>

lemma missing_skip:
  "prev \<notin> set xs \<Longrightarrow> cur \<notin> set xs \<Longrightarrow>
   signerMissing_loop prev cur b (xs @ q) = (if b then xs else []) @ signerMissing_loop prev cur b q"
  by (induction xs) auto

lemma getSignerMissing_between:
  assumes "he_SignerQueue e = xs @ prev # ys @ cur # zs"
    and "prev \<notin> set xs \<union> set ys" "cur \<notin> set xs \<union> set ys" "cur \<noteq> prev"
  shows "getSignerMissing prev cur e = ys"
  using assms by (simp add: getSignerMissing_def missing_skip)

lemma getSignerMissing_rest:
  assumes "he_SignerQueue e = xs @ prev # ys" and "prev \<notin> set xs \<union> set ys" "cur \<notin> set xs \<union> set ys" "cur \<noteq> prev"
  shows "getSignerMissing prev cur e = ys"
  using assms missing_skip [of prev ys cur True "[]"] by (simp add: getSignerMissing_def missing_skip)

lemma getSignerMissing_none:
  assumes "he_SignerQueue e = xs @ cur # ys" and "prev \<notin> set xs" "cur \<notin> set xs" "cur \<noteq> prev"
  shows "getSignerMissing prev cur e = []"
  using assms by (simp add: getSignerMissing_def missing_skip)

section \<open>What an accepted header satisfies\<close>

lemma verifyHeader_alone_ok:
  "verifyHeader_alone env now header = Inr () \<longleftrightarrow>
    h_Number header \<noteq> None \<and> h_Time header \<le> now \<and> extraVanity + extraSeal \<le> length (h_Extra header) \<and>
    h_MixDigest header = 0 \<and> h_UncleHash header = uncleHash env"
  by (auto simp: verifyHeader_alone_def not_less)

lemma sameQueue_take:
  "sameQueue n p c = Inr () \<longleftrightarrow> n \<le> length p \<and> n \<le> length c \<and> take n p = take n c"
  by (induction n p c rule: sameQueue.induct) auto

text \<open>The queue and the absent signers of a block beyond the first loop follow from its parent.\<close>

definition follows_parent :: "Env \<Rightarrow> Alien \<Rightarrow> Snapshot \<Rightarrow> Header \<Rightarrow> Header \<Rightarrow> bool" where
  "follows_parent env a snap parent header \<longleftrightarrow>
    (let M = cfg_MaxSignerCount (a_config a); decoded = (\<lambda>h he. bindR (extra_payload h)
           (\<lambda>p. decodeHeaderExtra (a_config a) (hNumber h) p new_HeaderExtra) = Inr he)
     in \<exists>pe he. decoded parent pe \<and> decoded header he \<and>
       he_SignerMissing he = getSignerMissing (h_Coinbase parent) (h_Coinbase header) pe \<and>
       (if Uint64 (hNumber header) mod M = 0
        then verifySignerQueue (env_sortT env) (env_sortS env) (a_candidateNeedPD a) snap (he_SignerQueue he) = Inr ()
        else take (nat (sint M)) (he_SignerQueue he) = take (nat (sint M)) (he_SignerQueue pe)))"

lemma verifySeal_loop_ok:
  assumes "verifySeal_loop env chain a snap signer header parents = Inr ()"
  shows "\<exists>parent. (if parents \<noteq> [] then Some (last parents)
       else ch_GetHeader chain (h_ParentHash header) (Uint64 (hNumber header) - 1)) = Some parent \<and>
     follows_parent env a snap parent header"
  using assms
  by (auto simp: verifySeal_loop_def follows_parent_def Let_def bind_simps sameQueue_take
      split: option.splits if_splits)

lemma verifySeal_ok:
  assumes "verifySeal env chain now a header parents = Inr a'" and main: "\<not> cfg_SideChain (ch_Config chain)"
  shows "\<exists>a1 snap signer.
    snapshot env chain now a (Uint64 (hNumber header) - 1) (h_ParentHash header) parents [] defaultLoopCntRecalculateSigners = Inr (a1, snap) \<and>
    fst (ecrecover env (a_signatures a1) header) = Inr signer \<and> inturn snap signer (Uint64 (h_Time header)) = Inr True \<and>
    (cfg_MaxSignerCount (a_config a1) < Uint64 (hNumber header) \<longrightarrow>
       (\<exists>parent. (if parents \<noteq> [] then Some (last parents)
           else ch_GetHeader chain (h_ParentHash header) (Uint64 (hNumber header) - 1)) = Some parent \<and>
         follows_parent env a1 snap parent header))"
proof -
  obtain a1 snap where s: "snapshot env chain now a (Uint64 (hNumber header) - 1) (h_ParentHash header) parents []
      defaultLoopCntRecalculateSigners = Inr (a1, snap)"
    using assms(1) by (auto simp: verifySeal_def Let_def bind_simps split: if_splits)
  obtain r sigs where e: "ecrecover env (a_signatures a1) header = (r, sigs)" by force
  obtain signer where r: "r = Inr signer"
    using assms(1) s e by (cases r) (auto simp: verifySeal_def Let_def split: if_splits)
  let ?a = "a1\<lparr>a_signatures := sigs\<rparr>"
  have l: "cfg_MaxSignerCount (a_config a1) < Uint64 (hNumber header) \<Longrightarrow>
      verifySeal_loop env chain ?a snap signer header parents = Inr ()"
    and t: "inturn snap signer (Uint64 (h_Time header)) = Inr True"
    using assms(1) s e main unfolding r by (auto simp: verifySeal_def Let_def bind_simps split: if_splits)
  have f: "follows_parent env ?a snap p h = follows_parent env a1 snap p h" for p h
    by (simp add: follows_parent_def)
  show ?thesis using s e r t verifySeal_loop_ok [OF l] f by auto
qed

lemma verifyHeader_ok:
  assumes v: "verifyHeader env chain now a header parents = Inr a'" and main: "\<not> cfg_SideChain (ch_Config chain)"
    and n: "Uint64 (hNumber header) \<noteq> 0"
  shows "verifyHeader_alone env now header = Inr ()"
    and "\<exists>parent a0 a1 snap signer.
      (if parents \<noteq> [] then Some (last parents)
       else ch_GetHeader chain (h_ParentHash header) (Uint64 (hNumber header) - 1)) = Some parent \<and>
      Uint64 (hNumber parent) = Uint64 (hNumber header) - 1 \<and> Header_Hash env parent = h_ParentHash header \<and>
      Uint64 (h_Time parent) \<le> Uint64 (h_Time header) \<and>
      snapshot env chain now a0 (Uint64 (hNumber header) - 1) (h_ParentHash header) parents [] defaultLoopCntRecalculateSigners = Inr (a1, snap) \<and>
      fst (ecrecover env (a_signatures a1) header) = Inr signer \<and> inturn snap signer (Uint64 (h_Time header)) = Inr True \<and>
      (cfg_MaxSignerCount (a_config a1) < Uint64 (hNumber header) \<longrightarrow> follows_parent env a1 snap parent header)"
proof -
  have c: "verifyCascadingFields env chain now a header parents = Inr a'"
    and "verifyHeader_alone env now header = Inr ()"
    using v by (auto simp: verifyHeader_def bind_simps)
  then show "verifyHeader_alone env now header = Inr ()" by blast
  obtain parent where p: "(if parents \<noteq> [] then Some (last parents)
       else ch_GetHeader chain (h_ParentHash header) (Uint64 (hNumber header) - 1)) = Some parent"
    using c n by (auto simp: verifyCascadingFields_def Let_def split: option.splits if_splits)
  have q: "Uint64 (hNumber parent) = Uint64 (hNumber header) - 1" "Header_Hash env parent = h_ParentHash header"
      "Uint64 (h_Time parent) \<le> Uint64 (h_Time header)" "\<exists>a0. verifySeal env chain now a0 header parents = Inr a'"
    using c n p by (auto simp: verifyCascadingFields_def Let_def bind_simps not_less split: if_splits)
  then obtain a0 where a0: "verifySeal env chain now a0 header parents = Inr a'" by blast
  from verifySeal_ok [OF a0 main] p q show "\<exists>parent a0 a1 snap signer.
      (if parents \<noteq> [] then Some (last parents)
       else ch_GetHeader chain (h_ParentHash header) (Uint64 (hNumber header) - 1)) = Some parent \<and>
      Uint64 (hNumber parent) = Uint64 (hNumber header) - 1 \<and> Header_Hash env parent = h_ParentHash header \<and>
      Uint64 (h_Time parent) \<le> Uint64 (h_Time header) \<and>
      snapshot env chain now a0 (Uint64 (hNumber header) - 1) (h_ParentHash header) parents [] defaultLoopCntRecalculateSigners = Inr (a1, snap) \<and>
      fst (ecrecover env (a_signatures a1) header) = Inr signer \<and> inturn snap signer (Uint64 (h_Time header)) = Inr True \<and>
      (cfg_MaxSignerCount (a_config a1) < Uint64 (hNumber header) \<longrightarrow> follows_parent env a1 snap parent header)"
    by (metis option.inject)
qed

end
