(* ===== verification/Alien_Produce.thy ===== *)
theory Alien_Produce
  imports Alien_Verify
begin

text \<open>
  Producing blocks (\<open>src/gttc/consensus/alien/alien.go\<close>): the extra data and the rewards of a new
  block (\<open>Finalize\<close>, \<open>accumulateRewards\<close>), its seal (\<open>Seal\<close>), and the confirmation a side chain
  sends to the main chain (\<open>getLastLoopInfo\<close>, \<open>mcConfirmBlock\<close>).
\<close>

section \<open>Confirming a side-chain block\<close>

text \<open>
  The loop of \<open>getLastLoopInfo\<close> walks back through the headers; \<open>newTime > extraTime\<close> marks the
  border between two loops of the main chain, and the headers between the first two borders
  are reported.
\<close>

fun lastLoop_walk ::
  "Env \<Rightarrow> Chain \<Rightarrow> u64 \<Rightarrow> u64 \<Rightarrow> nat \<Rightarrow> Header \<Rightarrow> u64 \<Rightarrow> bool \<Rightarrow> string \<Rightarrow> alien_err + string" where
  "lastLoop_walk env chain start period 0 header extraTime inLastLoop info = Inr info"
| "lastLoop_walk env chain start period (Suc n) header extraTime inLastLoop info =
    (case ch_GetHeader chain (h_ParentHash header) (Uint64 (hNumber header) - 1) of
       None \<Rightarrow> Inl PanicNil
     | Some header' \<Rightarrow>
         (let newTime = (Uint64 (h_Time header') - start) mod period in
          if extraTime < newTime \<and> inLastLoop then Inr info
          else
            (let inLastLoop' = (inLastLoop \<or> extraTime < newTime) in
             lastLoop_walk env chain start period n header' newTime inLastLoop'
               (if inLastLoop'
                then info @ '':'' @ fmt_d (unat (Uint64 (hNumber header'))) @ '':'' @
                       Address_Hex (env_keccak env) (h_Coinbase header')
                else info))))"

definition getLastLoopInfo :: "Env \<Rightarrow> Chain \<Rightarrow> Alien \<Rightarrow> Header \<Rightarrow> alien_err + bytes" where
  "getLastLoopInfo env chain a header =
    (if cfg_SideChain (ch_Config chain) \<and> a_mcLoopStartTime a \<noteq> 0 \<and> a_mcPeriod a \<noteq> 0 \<and> cfg_Period (a_config a) \<noteq> 0 then
       (let period = a_mcPeriod a * a_mcSignerLength a in
        if period = 0 then Inl PanicDivide
        else
          bindR (lastLoop_walk env chain (a_mcLoopStartTime a) period
                   (unat (cfg_MaxSignerCount (a_config a) * 2 * (a_mcPeriod a div cfg_Period (a_config a))))
                   header ((Uint64 (h_Time header) - a_mcLoopStartTime a) mod period) False [])
            (\<lambda>info. if 0 < length info then Inr (str_bytes info) else Inl errGetLastLoopInfoFail))
     else Inl errGetLastLoopInfoFail)"

definition mcConfirmBlock :: "Env \<Rightarrow> Chain \<Rightarrow> Alien \<Rightarrow> Header \<Rightarrow> alien_err + Alien" where
  "mcConfirmBlock env chain a header =
    (let number = Uint64 (hNumber header) in
     if a_signer a \<noteq> 0 \<and> a_lcsc a < number \<and> cfg_MaxSignerCount (a_config a) * scUnconfirmLoop < number then
       (case getTransactionCountFromMainChain env chain (a_signer a) of
          Inl e \<Rightarrow> Inr a
        | Inr nonce \<Rightarrow>
            (case getLastLoopInfo env chain a header of
               Inl PanicNil \<Rightarrow> Inl PanicNil
             | Inl PanicDivide \<Rightarrow> Inl PanicDivide
             | Inl e \<Rightarrow> Inr a
             | Inr lastLoopInfo \<Rightarrow>
                 (case ch_GetHeaderByNumber chain 0 of
                    None \<Rightarrow> Inl PanicNil
                  | Some genesis \<Rightarrow>
                      (let txData = buildSCEventConfirmData (h_ParentHash genesis) (hNumber header) (h_Time header) lastLoopInfo;
                           a = (if a_mcNetVersion a = 0
                                then a\<lparr>a_mcNetVersion :=
                                  (case getNetVersionFromMainChain env chain of Inr v \<Rightarrow> v | Inl e \<Rightarrow> 0)\<rparr> else a);
                           signedTx = env_signTx env (a_signer a) nonce (h_Coinbase header) txData (a_mcNetVersion a)
                       in case sendTransactionToMainChain env chain signedTx of
                            Inl PanicNil \<Rightarrow> Inl PanicNil
                          | Inl e \<Rightarrow> Inr a
                          | Inr txHash \<Rightarrow> Inr (a\<lparr>a_lcsc := number\<rparr>)))))
     else Inr a)"

section \<open>Rewards\<close>

definition AddBalance :: "(address \<Rightarrow> int) \<Rightarrow> address \<Rightarrow> int \<Rightarrow> (address \<Rightarrow> int)" where
  "AddBalance st a x = st(a := st a + x)"

definition payFrom :: "(address \<Rightarrow> int) \<times> int \<Rightarrow> address \<times> int \<Rightarrow> (address \<Rightarrow> int) \<times> int" where
  "payFrom sm ax = (AddBalance (fst sm) (fst ax) (snd ax), snd sm - snd ax)"

definition accumulateRewards ::
  "AlienConfig \<Rightarrow> u64 \<Rightarrow> (address \<Rightarrow> int) \<Rightarrow> Header \<Rightarrow> Snapshot \<Rightarrow> (address, int) gomap \<Rightarrow> alien_err + (address \<Rightarrow> int)" where
  "accumulateRewards config mrpt st header snap refundGas =
    (if cfg_Period config = 0 \<or> secondsPerYear div cfg_Period config = 0 then Inl PanicDivide
     else
       (let yearCount = Uint64 (hNumber header) div (secondsPerYear div cfg_Period config);
            blockReward = SignerBlockReward div 2 ^ unat yearCount;
            minerReward = go_div (blockReward * sint mrpt) 1000;
            votersReward = blockReward - minerReward
        in bindR (calculateVoteReward snap (h_Coinbase header) votersReward) (\<lambda>rewards.
           let st = foldl (\<lambda>st (voter, reward). AddBalance st voter reward) st rewards;
               (st, minerReward) =
                 (if IsTrantor config (hNumber header)
                  then foldl payFrom (foldl payFrom (st, minerReward) (calculateSCReward snap minerReward)) refundGas
                  else (st, minerReward))
           in Inr (AddBalance st (h_Coinbase header) minerReward))))"

section \<open>Finalize\<close>

text \<open>\<open>genesisVotes\<close>: every self-vote signer once, with its balance.\<close>

fun genesisVotes_loop :: "(address \<Rightarrow> int) \<Rightarrow> address list \<Rightarrow> address list \<Rightarrow> Vote list" where
  "genesisVotes_loop balance already [] = []"
| "genesisVotes_loop balance already (voter # signers) =
    (if voter \<in> set already then genesisVotes_loop balance already signers
     else \<lparr>v_Voter = voter, v_Candidate = voter, v_Stake = balance voter\<rparr>
            # genesisVotes_loop balance (voter # already) signers)"

definition header_time :: "AlienConfig \<Rightarrow> int \<Rightarrow> Header \<Rightarrow> int" where
  "header_time config now parent =
    (let t = h_Time parent + uint (cfg_Period config) in if Int64 t < now then now else t)"

text \<open>The queue, loop start and confirmed number that go into the new block.\<close>

definition finalizeQueue ::
  "Env \<Rightarrow> Chain \<Rightarrow> Alien \<Rightarrow> Snapshot \<Rightarrow> Header \<Rightarrow> HeaderExtra \<Rightarrow> HeaderExtra \<Rightarrow> alien_err + HeaderExtra" where
  "finalizeQueue env chain a snap header parentHeaderExtra he =
    (let number = Uint64 (hNumber header); config = a_config a; M = cfg_MaxSignerCount config;
         self = cfg_SelfVoteSigners config
     in if \<not> cfg_SideChain (ch_Config chain) then
          (let he = he\<lparr>he_ConfirmedBlockNumber :=
                 Uint64 (getLastConfirmedBlockNumber snap (he_CurrentBlockConfirmations he))\<rparr> in
           bindR
             (if number = 1 then
                (if 0 < nat (sint M) \<and> self = [] then Inl PanicDivide
                 else Inr (he\<lparr>he_LoopStartTime := cfg_GenesisTimestamp config,
                     he_SignerQueue := he_SignerQueue he @ map (\<lambda>i. self ! (i mod length self)) [0..<nat (sint M)]\<rparr>))
              else Inr he)
             (\<lambda>he.
                if M = 0 then Inl PanicDivide
                else if number mod M = 0 then
                  bindR (createSignerQueue (env_sortT env) (env_sortS env) (a_candidateNeedPD a) snap) (\<lambda>newSignerQueue.
                    Inr (he\<lparr>he_LoopStartTime := he_LoopStartTime he + cfg_Period config * M,
                            he_SignerQueue := newSignerQueue\<rparr>))
                else Inr he))
        else
          (let q = h_Coinbase header # he_SignerQueue parentHeaderExtra
           in Inr (he\<lparr>he_SignerQueue := (if sint M < int (length q) then take (nat (sint M)) q else q)\<rparr>)))"

definition Finalize ::
  "Env \<Rightarrow> Chain \<Rightarrow> int \<Rightarrow> Alien \<Rightarrow> Header \<Rightarrow> (address \<Rightarrow> int) \<Rightarrow> Transaction list \<Rightarrow> Receipt list
   \<Rightarrow> alien_err + Alien \<times> Header \<times> (address \<Rightarrow> int)" where
  "Finalize env chain now a header st txs receipts =
    (let number = Uint64 (hNumber header); header = header\<lparr>h_MixDigest := 0\<rparr> in
     case ch_GetHeader chain (h_ParentHash header) (number - 1) of
       None \<Rightarrow> Inl ErrUnknownAncestor
     | Some parent \<Rightarrow>
         (let extra = take extraVanity (RightPadBytes (h_Extra header) extraVanity);
              header = header\<lparr>h_Time := header_time (a_config a) now parent, h_Extra := extra\<rparr>;
              genesisVotes = (if number = 1 then genesisVotes_loop st [] (cfg_SelfVoteSigners (a_config a)) else [])
          in
          bindR
            (if number = 1 then Inr (new_HeaderExtra, new_HeaderExtra)
             else
               bindR (extra_payload parent) (\<lambda>payload.
               bindR (decodeHeaderExtra (a_config a) (hNumber parent) payload new_HeaderExtra) (\<lambda>pe.
               Inr (pe, new_HeaderExtra\<lparr>he_ConfirmedBlockNumber := he_ConfirmedBlockNumber pe,
                 he_SignerQueue := he_SignerQueue pe, he_LoopStartTime := he_LoopStartTime pe,
                 he_SignerMissing := getSignerMissing (h_Coinbase parent) (h_Coinbase header) pe\<rparr>))))
            (\<lambda>(parentHeaderExtra, he).
          bindR (if 1 < number
                 then bindR (snapshot env chain now a (number - 1) (h_ParentHash header) [] []
                              defaultLoopCntRecalculateSigners) (\<lambda>(a, s). Inr (a, Some s))
                 else Inr (a, None)) (\<lambda>(a, snap1).
          bindR (processCustomTx (a_config a) (a_candidateNeedPD a) (a_minerRewardPerThousand a) (env_sender env) st
                   (ch_GetHeaderByNumber chain) (case snap1 of Some s \<Rightarrow> Inr s | None \<Rightarrow> Inl PanicNil)
                   he header txs receipts) (\<lambda>(he, refundGas).
          bindR (snapshot env chain now a (number - 1) (h_ParentHash header) [] genesisVotes
                   defaultLoopCntRecalculateSigners) (\<lambda>(a, snap).
          bindR (finalizeQueue env chain a snap header parentHeaderExtra he) (\<lambda>he.
          bindR (encodeHeaderExtra (a_config a) (hNumber header) he) (\<lambda>enc.
          let header = header\<lparr>h_Extra := h_Extra header @ enc @ replicate extraSeal 0, h_Difficulty := defaultDifficulty\<rparr> in
          bindR (if cfg_SideChain (ch_Config chain) then Inr st
                 else accumulateRewards (ch_Config chain) (a_minerRewardPerThousand a) st header snap refundGas) (\<lambda>st.
          Inr (a, header\<lparr>h_Root := env_root env st, h_UncleHash := uncleHash env\<rparr>, st))))))))))"

section \<open>Prepare and Seal\<close>

text \<open>
  \<open>Prepare\<close> sets the difficulty; its countdown to the genesis time for block 1 only waits and
  has no further effect.
\<close>

definition Prepare :: "Header \<Rightarrow> alien_err + Header" where
  "Prepare header = Inr (header\<lparr>h_Difficulty := defaultDifficulty\<rparr>)"

definition CalcDifficulty :: "u64 \<Rightarrow> Header \<Rightarrow> int" where
  "CalcDifficulty time parent = defaultDifficulty"

text \<open>
  \<open>Seal\<close>.  \<open>stop\<close> says whether the stop channel fires before the time of the header, in which
  case the result is nil; a signer out of turn waits for it and then gets the error.
\<close>

definition Seal ::
  "Env \<Rightarrow> Chain \<Rightarrow> int \<Rightarrow> bool \<Rightarrow> Alien \<Rightarrow> Header \<Rightarrow> Transaction list \<Rightarrow> alien_err + Alien \<times> Header option" where
  "Seal env chain now stop a header txs =
    (let number = Uint64 (hNumber header) in
     if number = 0 then Inl errUnknownBlock
     else if cfg_Period (a_config a) = 0 \<and> txs = [] then Inl errWaitTransactions
     else
       (let signer = a_signer a in
        bindR (snapshot env chain now a (number - 1) (h_ParentHash header) [] [] defaultLoopCntRecalculateSigners)
          (\<lambda>(a, snap).
        bindR
          (if \<not> cfg_SideChain (ch_Config chain) then
             bindR (inturn snap signer (Uint64 (h_Time header))) (\<lambda>turn. if turn then Inr a else Inl errUnauthorized)
           else
             bindR (mcInturn env chain a signer (Uint64 (h_Time header))) (\<lambda>(a, turn).
             if turn then mcConfirmBlock env chain a header else Inl errUnauthorized))
          (\<lambda>a.
        if stop then Inr (a, None)
        else
          bindR (sigHash env header) (\<lambda>sh.
          case env_sign env signer (Hash_Bytes sh) of
            None \<Rightarrow> Inl ErrCrypto
          | Some sighash \<Rightarrow>
              if length (h_Extra header) < extraSeal then Inl PanicIndex
              else Inr (a, Some (header\<lparr>h_Extra :=
                     go_copy (h_Extra header) (length (h_Extra header) - extraSeal) sighash\<rparr>)))))))"

section \<open>What a block pays\<close>

definition total :: "(address \<Rightarrow> int) \<Rightarrow> int" where
  "total st = (\<Sum>a \<in> UNIV. st a)"

lemma total_AddBalance: "total (AddBalance st a x) = total st + x"
proof -
  have "total st = st a + sum st (UNIV - {a})" for st :: "address \<Rightarrow> int"
    unfolding total_def by (rule sum.remove) simp_all
  from this [of "AddBalance st a x"] this [of st] show ?thesis
    by (simp add: AddBalance_def)
qed

lemma total_payFrom: "total (fst (foldl payFrom sm xs)) + snd (foldl payFrom sm xs) = total (fst sm) + snd sm"
  by (induction xs arbitrary: sm) (simp_all add: payFrom_def total_AddBalance)

lemma total_rewards: "total (foldl (\<lambda>st (a, x). AddBalance st a x) st rs) = total st + (\<Sum>(a, x) \<leftarrow> rs. x)"
  by (induction rs arbitrary: st) (auto simp: total_AddBalance)

text \<open>What a list of payments gives to an account.\<close>

definition credit :: "(address \<times> int) list \<Rightarrow> address \<Rightarrow> int" where
  "credit xs a = (\<Sum>(b, x) \<leftarrow> xs. if b = a then x else 0)"

lemma credit_simps [simp]:
  "credit [] a = 0" "credit ((b, x) # xs) a = (if b = a then x else 0) + credit xs a"
  "credit (xs @ ys) a = credit xs a + credit ys a"
  by (simp_all add: credit_def)

lemma balance_rewards: "foldl (\<lambda>st (a, x). AddBalance st a x) st xs a = st a + credit xs a"
  by (induction xs arbitrary: st) (auto simp: AddBalance_def)

lemma balance_payFrom:
  "foldl payFrom sm xs = (\<lambda>a. fst sm a + credit xs a, snd sm - (\<Sum>(a, x) \<leftarrow> xs. x))"
  by (induction xs arbitrary: sm) (auto simp: payFrom_def AddBalance_def fun_eq_iff)

definition block_reward :: "AlienConfig \<Rightarrow> int \<Rightarrow> int" where
  "block_reward config n = SignerBlockReward div 2 ^ unat (Uint64 n div (secondsPerYear div cfg_Period config))"

definition miner_reward :: "int \<Rightarrow> u64 \<Rightarrow> int" where
  "miner_reward r mrpt = go_div (r * sint mrpt) 1000"

lemma block_reward_nonneg: "0 \<le> block_reward config n"
  unfolding block_reward_def SignerBlockReward_def by (intro pos_imp_zdiv_nonneg_iff [THEN iffD2]) simp_all

lemma miner_reward_bounds: "0 \<le> r \<Longrightarrow> mrpt \<le> 1000 \<Longrightarrow> 0 \<le> miner_reward r mrpt \<and> miner_reward r mrpt \<le> r"
proof -
  assume r: "0 \<le> r" and m: "mrpt \<le> 1000"
  have u: "0 \<le> uint mrpt" "uint mrpt \<le> 1000" using m unfolding word_le_def by simp_all
  have "signed_take_bit 63 (uint mrpt) = uint mrpt"
  proof (rule signed_take_bit_int_eq_self)
    have "(0 :: int) \<le> 2 ^ 63" "(1000 :: int) < 2 ^ 63" by simp_all
    with u show "- (2 ^ 63) \<le> uint mrpt" "uint mrpt < 2 ^ 63" by linarith+
  qed
  then have "sint mrpt = uint mrpt" by (simp add: sint_uint)
  then have "r * sint mrpt \<le> r * 1000" "0 \<le> r * sint mrpt" using r u by (simp_all add: mult_left_mono)
  then have "r * sint mrpt div 1000 \<le> r" "0 \<le> r * sint mrpt div 1000"
    using zdiv_mono1 [of "r * sint mrpt" "r * 1000" 1000] by (simp_all add: pos_imp_zdiv_nonneg_iff)
  then show ?thesis by (simp add: miner_reward_def go_div_def)
qed

text \<open>Side-chain rewards and refunds only move the miner's part around.\<close>

lemma accumulateRewards_total:
  assumes "accumulateRewards config mrpt st header snap refundGas = Inr st'"
  defines "r \<equiv> block_reward config (hNumber header)"
  shows "\<exists>rewards. calculateVoteReward snap (h_Coinbase header) (r - miner_reward r mrpt) = Inr rewards \<and>
    total st' = total st + miner_reward r mrpt + (\<Sum>(a, x) \<leftarrow> rewards. x)"
proof -
  let ?add = "foldl (\<lambda>st (a, x). AddBalance st a x) st"
  from assms obtain rewards where
    v: "calculateVoteReward snap (h_Coinbase header) (r - miner_reward r mrpt) = Inr rewards" and
    e: "st' = (case (if IsTrantor config (hNumber header)
        then foldl payFrom (foldl payFrom (?add rewards, miner_reward r mrpt) (calculateSCReward snap (miner_reward r mrpt))) refundGas
        else (?add rewards, miner_reward r mrpt)) of (st, m) \<Rightarrow> AddBalance st (h_Coinbase header) m)"
    unfolding accumulateRewards_def Let_def block_reward_def miner_reward_def
    by (auto simp: bind_simps split: if_splits prod.splits)
  have "total (case p of (st, m) \<Rightarrow> AddBalance st c m) = total (fst p) + snd p" for p c
    by (simp add: case_prod_beta total_AddBalance)
  then show ?thesis using v e by (auto simp: total_payFrom total_rewards)
qed

text \<open>Every balance after the payments: the sealer pays the side chains and the refunds.\<close>

lemma accumulateRewards_balances:
  assumes "accumulateRewards config mrpt st header snap refundGas = Inr st'"
  defines "r \<equiv> block_reward config (hNumber header)"
  defines "paid \<equiv> if IsTrantor config (hNumber header)
    then calculateSCReward snap (miner_reward r mrpt) @ refundGas else []"
  shows "\<exists>rewards. calculateVoteReward snap (h_Coinbase header) (r - miner_reward r mrpt) = Inr rewards \<and>
    (\<forall>a. st' a = st a + credit rewards a + credit paid a +
      (if a = h_Coinbase header then miner_reward r mrpt - (\<Sum>(b, x) \<leftarrow> paid. x) else 0))"
proof -
  let ?add = "foldl (\<lambda>st (a, x). AddBalance st a x) st"
  from assms obtain rewards where
    v: "calculateVoteReward snap (h_Coinbase header) (r - miner_reward r mrpt) = Inr rewards" and
    e: "st' = (case (if IsTrantor config (hNumber header)
        then foldl payFrom (foldl payFrom (?add rewards, miner_reward r mrpt) (calculateSCReward snap (miner_reward r mrpt))) refundGas
        else (?add rewards, miner_reward r mrpt)) of (st, m) \<Rightarrow> AddBalance st (h_Coinbase header) m)"
    unfolding accumulateRewards_def Let_def block_reward_def miner_reward_def
    by (auto simp: bind_simps split: if_splits prod.splits)
  then show ?thesis
    by (auto simp: paid_def balance_payFrom AddBalance_def balance_rewards)
qed

section \<open>What Seal signs\<close>

text \<open>
  The wallet's contract: a signature has 65 bytes, and recovering the public key from it leads
  back to the address that signed.
\<close>

definition signs :: "Env \<Rightarrow> bool" where
  "signs env \<longleftrightarrow> (\<forall>signer digest sg. env_sign env signer digest = Some sg \<longrightarrow> length sg = extraSeal \<and>
     (\<exists>pub. env_Ecrecover env digest sg = Some pub \<and>
        BytesToAddress (drop 12 (env_keccak env (drop 1 pub))) = signer))"

lemma sealed_signer:
  assumes "signs env" "sigHash env h = Inr sh" "env_sign env signer (Hash_Bytes sh) = Some sg"
    and "extraSeal \<le> length (h_Extra h)"
  shows "signer_of env (h\<lparr>h_Extra := go_copy (h_Extra h) (length (h_Extra h) - extraSeal) sg\<rparr>) = Inr signer"
proof -
  let ?p = "take (length (h_Extra h) - extraSeal) (h_Extra h)"
  have sg: "length sg = extraSeal" and rec: "\<exists>pub. env_Ecrecover env (Hash_Bytes sh) sg = Some pub \<and>
      BytesToAddress (drop 12 (env_keccak env (drop 1 pub))) = signer"
    using assms(1,3) unfolding signs_def by blast+
  then have x: "go_copy (h_Extra h) (length (h_Extra h) - extraSeal) sg = ?p @ sg"
    using assms(4) by (simp add: go_copy_def)
  have "sigHash env (h\<lparr>h_Extra := ?p @ sg\<rparr>) = sigHash env h"
    using assms(4) sg by (simp add: sigHash_def to_Header_def extraSeal_def)
  then show ?thesis using assms(2) rec sg unfolding x
    by (auto simp: signer_of_def ecrecover_def Let_def)
qed

lemma Seal_ok:
  assumes s: "Seal env chain now stop a header txs = Inr (a', Some h')" and w: "signs env"
  shows "signer_of env h' = Inr (a_signer a)" and "h'\<lparr>h_Extra := h_Extra header\<rparr> = header"
    and "take (length (h_Extra header) - extraSeal) (h_Extra h') = take (length (h_Extra header) - extraSeal) (h_Extra header)"
    and "\<not> cfg_SideChain (ch_Config chain) \<Longrightarrow> \<exists>a1 snap.
      snapshot env chain now a (Uint64 (hNumber header) - 1) (h_ParentHash header) [] [] defaultLoopCntRecalculateSigners = Inr (a1, snap) \<and>
      inturn snap (a_signer a) (Uint64 (h_Time header)) = Inr True"
proof -
  from s obtain sh sg where sh: "sigHash env header = Inr sh" and
    sg: "env_sign env (a_signer a) (Hash_Bytes sh) = Some sg" "extraSeal \<le> length (h_Extra header)" and
    h': "h' = header\<lparr>h_Extra := go_copy (h_Extra header) (length (h_Extra header) - extraSeal) sg\<rparr>"
    by (auto simp: Seal_def Let_def bind_simps not_less split: if_splits option.splits)
  show "signer_of env h' = Inr (a_signer a)" unfolding h' by (rule sealed_signer [OF w sh sg])
  show "h'\<lparr>h_Extra := h_Extra header\<rparr> = header" unfolding h' by simp
  show "take (length (h_Extra header) - extraSeal) (h_Extra h') = take (length (h_Extra header) - extraSeal) (h_Extra header)"
    unfolding h' by (simp add: go_copy_def)
  show "\<exists>a1 snap. snapshot env chain now a (Uint64 (hNumber header) - 1) (h_ParentHash header) [] []
        defaultLoopCntRecalculateSigners = Inr (a1, snap) \<and> inturn snap (a_signer a) (Uint64 (h_Time header)) = Inr True"
    if "\<not> cfg_SideChain (ch_Config chain)"
    using s that by (auto simp: Seal_def Let_def bind_simps split: if_splits)
qed

end
