(* ===== verification/Alien_Api.thy ===== *)
theory Alien_Api
  imports Alien_Produce
begin

text \<open>
  The RPC interface of the engine, \<open>src/gttc/consensus/alien/api.go\<close>: snapshots by number, by hash
  and by time.  The search by time is a loop without a bound in the source, so it is a partial
  function here, \<open>None\<close> when it runs forever; the theorem is that it always returns on a chain
  whose headers carry their numbers.
\<close>

section \<open>Definitions\<close>

definition snapshot_of_header :: "Env \<Rightarrow> Chain \<Rightarrow> int \<Rightarrow> Alien \<Rightarrow> Header option \<Rightarrow> alien_err + Alien \<times> Snapshot" where
  "snapshot_of_header env chain now a header =
    (case header of
       None \<Rightarrow> Inl errUnknownBlock
     | Some h \<Rightarrow> snapshot env chain now a (Uint64 (hNumber h)) (Header_Hash env h) [] [] defaultLoopCntRecalculateSigners)"

text \<open>The argument \<open>number\<close> of \<open>GetSnapshot\<close> is nil or \<open>LatestBlockNumber\<close> (-1) for the current block.\<close>

definition GetSnapshot :: "Env \<Rightarrow> Chain \<Rightarrow> int \<Rightarrow> Alien \<Rightarrow> int option \<Rightarrow> alien_err + Alien \<times> Snapshot" where
  "GetSnapshot env chain now a number =
    snapshot_of_header env chain now a
      (if number = None \<or> number = Some (- 1) then ch_CurrentHeader chain
       else ch_GetHeaderByNumber chain (of_int (the number)))"

definition GetSnapshotAtHash :: "Env \<Rightarrow> Chain \<Rightarrow> int \<Rightarrow> Alien \<Rightarrow> hash \<Rightarrow> alien_err + Alien \<times> Snapshot" where
  "GetSnapshotAtHash env chain now a h = snapshot_of_header env chain now a (ch_GetHeaderByHash chain h)"

definition GetSnapshotAtNumber :: "Env \<Rightarrow> Chain \<Rightarrow> int \<Rightarrow> Alien \<Rightarrow> u64 \<Rightarrow> alien_err + Alien \<times> Snapshot" where
  "GetSnapshotAtNumber env chain now a number = snapshot_of_header env chain now a (ch_GetHeaderByNumber chain number)"

text \<open>
  The search: an interpolation step, replaced by the midpoint when it leaves the open interval
  between \<open>minN\<close> and \<open>maxN\<close>.  \<open>Inr h\<close> is the header in whose period the target lies.
\<close>

definition nextN :: "int \<Rightarrow> int \<Rightarrow> Header \<Rightarrow> int \<Rightarrow> int \<Rightarrow> int" where
  "nextN period target header minN maxN =
    (let n = go_div (target - h_Time header) period + hNumber header
     in if maxN \<le> n \<or> n \<le> minN then (maxN + minN) div 2 else n)"

partial_function (option) byTime_loop ::
  "Chain \<Rightarrow> int \<Rightarrow> int \<Rightarrow> Header \<Rightarrow> int \<Rightarrow> int \<Rightarrow> (alien_err + Header) option" where
  "byTime_loop chain period target header minN maxN =
    (if h_Time header \<le> target \<and> target < h_Time header + period then Some (Inr header)
     else if maxN = minN \<or> maxN = minN + 1 then Some (Inl errUnknownBlock)
     else if period = 0 then Some (Inl PanicDivide)
     else
       (case ch_GetHeaderByNumber chain (Uint64 (nextN period target header minN maxN)) of
          None \<Rightarrow> Some (Inl errUnknownBlock)
        | Some h \<Rightarrow>
            if target \<le> h_Time h
            then byTime_loop chain period target h minN (if hNumber h < maxN then hNumber h else maxN)
            else byTime_loop chain period target h (if minN < hNumber h then hNumber h else minN) maxN))"

definition scSigner :: "Snapshot \<Rightarrow> hash \<Rightarrow> address \<Rightarrow> address" where
  "scSigner snap scHash signer =
    (case mget (s_SCCoinbase snap) signer of
       None \<Rightarrow> signer
     | Some m \<Rightarrow> (case mget m scHash of Some addr \<Rightarrow> addr | None \<Rightarrow> signer))"

text \<open>An error of \<open>snapshot\<close> leaves a nil \<open>snap\<close>, whose \<open>Signers\<close> the next line reads.\<close>

definition GetSnapshotByHeaderTime ::
  "Env \<Rightarrow> Chain \<Rightarrow> int \<Rightarrow> Alien \<Rightarrow> u64 \<Rightarrow> hash \<Rightarrow> alien_err + Alien \<times> MainSnapshot" where
  "GetSnapshotByHeaderTime env chain now a targetTime scHash =
    (case ch_CurrentHeader chain of
       None \<Rightarrow> Inl PanicNil
     | Some header \<Rightarrow>
         if \<not> IsTrantor (ch_Config chain) (hNumber header) then Inl errUnknownBlock
         else
           (let period = uint (cfg_Period (ch_Config chain)); target = uint targetTime in
            if h_Time header + period < target then Inl errUnknownBlock
            else
              (case byTime_loop chain period target header
                      (case cfg_TrantorBlock (ch_Config chain) of Some n \<Rightarrow> n | None \<Rightarrow> 0) (hNumber header) of
                 None \<Rightarrow> Inl NoReturn
               | Some (Inl e) \<Rightarrow> Inl e
               | Some (Inr h) \<Rightarrow>
                   (case snapshot env chain now a (Uint64 (hNumber h)) (Header_Hash env h) [] []
                           defaultLoopCntRecalculateSigners of
                      Inl NoReturn \<Rightarrow> Inl NoReturn
                    | Inl e \<Rightarrow> Inl PanicNil
                    | Inr (a, snap) \<Rightarrow>
                        Inr (a, \<lparr>ms_LoopStartTime = s_LoopStartTime snap, ms_Period = s_Period snap,
                                 ms_Signers = map (scSigner snap scHash) (s_Signers snap)\<rparr>)))))"

section \<open>The search by time\<close>

text \<open>
  A chain reader that serves the headers \<open>H n\<close> for the numbers from \<open>lo\<close> to \<open>hi\<close>, at least a
  period apart.
\<close>

definition serves :: "Chain \<Rightarrow> int \<Rightarrow> (int \<Rightarrow> Header) \<Rightarrow> int \<Rightarrow> int \<Rightarrow> bool" where
  "serves chain period H lo hi \<longleftrightarrow> 0 \<le> lo \<and> hi < 2 ^ 64 \<and> 0 < period \<and>
    (\<forall>n. lo \<le> n \<and> n \<le> hi \<longrightarrow> ch_GetHeaderByNumber chain (of_int n) = Some (H n) \<and> hNumber (H n) = n) \<and>
    (\<forall>n m. lo \<le> n \<and> n < m \<and> m \<le> hi \<longrightarrow> h_Time (H n) + period \<le> h_Time (H m))"

definition at_time :: "int \<Rightarrow> int \<Rightarrow> Header \<Rightarrow> bool" where
  "at_time period target h \<longleftrightarrow> h_Time h \<le> target \<and> target < h_Time h + period"

lemma nextN_between:
  "minN + 1 < maxN \<Longrightarrow> minN < nextN period target header minN maxN \<and> nextN period target header minN maxN < maxN"
  by (auto simp: nextN_def Let_def)

lemma serves_at:
  assumes "serves chain period H lo hi" "lo \<le> n" "n \<le> hi" "lo \<le> m" "m \<le> hi" "at_time period target (H m)"
  shows "at_time period target (H n) \<longleftrightarrow> n = m" "target \<le> h_Time (H n) \<Longrightarrow> m \<le> n" "h_Time (H n) < target \<Longrightarrow> n \<le> m"
proof -
  have sp: "h_Time (H i) + period \<le> h_Time (H j)" if "i < j" "lo \<le> i" "j \<le> hi" for i j
    using assms(1) that by (simp add: serves_def)
  show "at_time period target (H n) \<longleftrightarrow> n = m"
    using sp [of n m] sp [of m n] assms(2-6) by (cases n m rule: linorder_cases) (auto simp: at_time_def)
  show "target \<le> h_Time (H n) \<Longrightarrow> m \<le> n"
    using sp [of n m] assms by (cases "m \<le> n") (auto simp: at_time_def serves_def)
  show "h_Time (H n) < target \<Longrightarrow> n \<le> m"
    using sp [of m n] assms(2-6) by (cases "n \<le> m") (auto simp: at_time_def)
qed

text \<open>One round of the loop between two numbers that are not neighbours.\<close>

lemma byTime_step:
  assumes S: "serves chain period H lo hi" and "lo \<le> minN" "minN + 1 < maxN" "maxN \<le> hi"
    and "\<not> at_time period target h" and n: "n = nextN period target h minN maxN"
  shows "byTime_loop chain period target h minN maxN =
    (if target \<le> h_Time (H n) then byTime_loop chain period target (H n) minN n
     else byTime_loop chain period target (H n) n maxN)"
proof -
  have b: "minN < n" "n < maxN" using nextN_between [OF assms(3)] n by simp_all
  then have "ch_GetHeaderByNumber chain (of_int n) = Some (H n)" "hNumber (H n) = n" "0 \<le> n" "0 < period"
    using S assms(2,4) by (simp_all add: serves_def)
  then show ?thesis using assms(3,5) b
    by (subst byTime_loop.simps) (simp only: at_time_def if_False flip: n, simp add: Uint64_def)
qed

lemma byTime_found:
  assumes S: "serves chain period H lo hi" and t: "at_time period target (H b)"
    and "lo \<le> minN" "minN < b" "b < maxN" "maxN \<le> hi" "lo \<le> c" "c \<le> hi"
  shows "byTime_loop chain period target (H c) minN maxN = Some (Inr (H b))"
  using assms(3-8)
proof (induction "nat (maxN - minN)" arbitrary: minN maxN c rule: less_induct)
  case less
  show ?case
  proof (cases "c = b")
    case True
    then show ?thesis using t unfolding at_time_def by (subst byTime_loop.simps) simp
  next
    case False
    then have "\<not> at_time period target (H c)" using serves_at(1) [OF S less.prems(5,6) _ _ t] less.prems by simp
    note step = byTime_step [OF S less.prems(1) _ less.prems(4) this refl]
    define n where "n = nextN period target (H c) minN maxN"
    have m: "minN + 1 < maxN" using less.prems by simp
    then have nb: "minN < n" "n < maxN" using nextN_between n_def by simp_all
    have nl: "lo \<le> n" "n \<le> hi" using nb less.prems by simp_all
    have bl: "lo \<le> b" "b \<le> hi" using less.prems by simp_all
    note at = serves_at [OF S nl bl t]
    have eq: "byTime_loop chain period target (H b) x y = Some (Inr (H b))" for x y
      using t unfolding at_time_def by (subst byTime_loop.simps) simp
    show ?thesis
    proof (cases "n = b")
      case True
      then show ?thesis using step [OF m, folded n_def] eq by simp
    next
      case False
      show ?thesis
      proof (cases "target \<le> h_Time (H n)")
        case True
        then have "b < n" using at(2) \<open>n \<noteq> b\<close> by simp
        then have "byTime_loop chain period target (H n) minN n = Some (Inr (H b))"
          using less.hyps [of n minN n] less.prems nb nl by simp
        then show ?thesis using step [OF m, folded n_def] True by simp
      next
        case g: False
        then have "n < b" using at(3) \<open>n \<noteq> b\<close> by simp
        then have "byTime_loop chain period target (H n) n maxN = Some (Inr (H b))"
          using less.hyps [of maxN n n] less.prems nb nl by simp
        then show ?thesis using step [OF m, folded n_def] g by simp
      qed
    qed
  qed
qed

text \<open>The lowest number is never looked at.\<close>

lemma byTime_lowest:
  assumes S: "serves chain period H lo hi" and t: "at_time period target (H lo)"
    and "lo < maxN" "maxN \<le> hi" "lo < c" "c \<le> hi"
  shows "byTime_loop chain period target (H c) lo maxN = Some (Inl errUnknownBlock)"
  using assms(3-6)
proof (induction "nat (maxN - lo)" arbitrary: maxN c rule: less_induct)
  case less
  have l: "lo \<le> lo" "lo \<le> hi" using less.prems by simp_all
  have "\<not> at_time period target (H c)" using serves_at(1) [OF S _ less.prems(4) l t] less.prems by simp
  note na = this
  show ?case
  proof (cases "maxN = lo + 1")
    case True
    then show ?thesis using na unfolding at_time_def by (subst byTime_loop.simps) simp
  next
    case False
    then have m: "lo + 1 < maxN" using less.prems by simp
    define n where "n = nextN period target (H c) lo maxN"
    have nb: "lo < n" "n < maxN" using nextN_between [OF m] n_def by simp_all
    have "\<not> h_Time (H n) < target" using serves_at(3) [OF S _ _ l t, of n] nb less.prems by auto
    then show ?thesis
      using byTime_step [OF S l(1) m less.prems(2) na refl, folded n_def] less.hyps [of n n] nb less.prems by simp
  qed
qed

end
