(* ===== verification/Alien_Duties.thy ===== *)
theory Alien_Duties
  imports Alien_Ledger
begin

text \<open>
  Properties of the parts of the snapshot that govern signing: the punishment of absent
  signers, the confirmations of blocks and the confirmed block number, the turn of a signer,
  and the voters' share of a block reward.
\<close>

section \<open>Punishment\<close>

text \<open>The punishment of an address as a number; an address without an entry has none.\<close>

definition punish_level :: "(address, u64) gomap \<Rightarrow> address \<Rightarrow> nat" where
  "punish_level m a = (case mget m a of Some c \<Rightarrow> unat c | None \<Rightarrow> 0)"

lemma punish_level_missing:
  "unat (case mget m a of Some c \<Rightarrow> c | None \<Rightarrow> 0) + 100 < 2 ^ 64 \<Longrightarrow>
   punish_level (punishMissing m b) a = punish_level m a + (if a = b then 100 else 0)"
  by (auto simp: punish_level_def punishMissing_def gomap_simps missingPublishCredit_def unat_add_less
      split: option.splits)

lemma punish_level_missing_fold:
  "punish_level m a + 100 * count_list ms a < 2 ^ 64 \<Longrightarrow>
   punish_level (foldl punishMissing m ms) a = punish_level m a + 100 * count_list ms a"
proof (induction ms arbitrary: m)
  case Nil
  then show ?case by simp
next
  case (Cons b ms)
  show ?case
  proof (cases "b = a")
    case True
    have "unat (case mget m a of Some c \<Rightarrow> c | None \<Rightarrow> 0) + 100 < 2 ^ 64"
      using Cons.prems True by (auto simp: punish_level_def split: option.splits)
    from punish_level_missing [OF this, of b] Cons True show ?thesis by simp
  next
    case False
    then have "punish_level (punishMissing m b) a = punish_level m a"
      by (auto simp: punish_level_def punishMissing_def gomap_simps split: option.splits)
    with Cons False show ?thesis by simp
  qed
qed

lemma punish_level_reduce: "punish_level (reducePunish c m b) a = punish_level m a - (if a = b then unat c else 0)"
  by (auto simp: punish_level_def reducePunish_def gomap_simps unat_sub_le word_less_nat_alt word_le_nat_alt
      split: option.splits)

lemma punish_level_reduce_fold:
  "distinct as \<Longrightarrow>
   punish_level (foldl (reducePunish c) m as) a = punish_level m a - (if a \<in> set as then unat c else 0)"
  by (induction as arbitrary: m) (auto simp: punish_level_reduce)

lemma distinct_punishMissing [simp]: "distinct (mkeys (punishMissing m a)) = distinct (mkeys m)"
  by (simp add: punishMissing_def split: option.splits)

lemma distinct_reducePunish [simp]: "distinct (mkeys m) \<Longrightarrow> distinct (mkeys (reducePunish c m a))"
  by (auto simp: reducePunish_def split: option.splits)

lemma distinct_punishMissing_fold [simp]: "distinct (mkeys (foldl punishMissing m ms)) = distinct (mkeys m)"
  by (induction ms arbitrary: m) simp_all

lemma punish_level_unpunished: "a \<notin> fst ` set m \<Longrightarrow> punish_level m a = 0"
  by (simp add: punish_level_def map_of_eq_None_iff [THEN iffD2])

lemma updateSnapshotForPunish_level:
  assumes "distinct (mkeys (s_Punished s))"
    and "punish_level (s_Punished s) a + 100 * count_list missing a < 2 ^ 64"
  shows "punish_level (s_Punished (updateSnapshotForPunish missing n coinbase s)) a =
    punish_level (s_Punished s) a + 100 * count_list missing a - (if a = coinbase then 10 else 0) - 1"
proof -
  let ?m = "reducePunish signRewardCredit (foldl punishMissing (s_Punished s) missing) coinbase"
  have d: "distinct (mkeys ?m)" using assms(1) by simp
  have "punish_level ?m a = punish_level (s_Punished s) a + 100 * count_list missing a - (if a = coinbase then 10 else 0)"
    by (simp add: punish_level_reduce punish_level_missing_fold [OF assms(2)] signRewardCredit_def)
  moreover have "punish_level (foldl (reducePunish autoRewardCredit) ?m (mkeys ?m)) a = punish_level ?m a - 1"
    using punish_level_reduce_fold [OF d, of autoRewardCredit ?m a] punish_level_unpunished [of a ?m]
    by (auto simp: autoRewardCredit_def)
  ultimately show ?thesis by (simp add: updateSnapshotForPunish_def Let_def)
qed

section \<open>Confirmations\<close>

definition confirmers :: "(u64, address list) gomap \<Rightarrow> u64 \<Rightarrow> address list" where
  "confirmers m n = (case mget m n of Some l \<Rightarrow> l | None \<Rightarrow> [])"

lemma confirmers_add:
  "confirmers (addConfirmation m c) n =
    (if n = Uint64 (c_BlockNumber c) \<and> c_Signer c \<notin> set (confirmers m n)
     then confirmers m n @ [c_Signer c] else confirmers m n)"
  by (auto simp: confirmers_def addConfirmation_def Let_def mhas_def gomap_simps split: option.splits)

lemma confirmers_fold:
  "distinct (confirmers m n) \<Longrightarrow>
   distinct (confirmers (foldl addConfirmation m cs) n) \<and>
   set (confirmers (foldl addConfirmation m cs) n) =
     set (confirmers m n) \<union> c_Signer ` {c \<in> set cs. Uint64 (c_BlockNumber c) = n}"
proof (induction cs arbitrary: m)
  case Nil
  then show ?case by simp
next
  case (Cons c cs)
  have "distinct (confirmers (addConfirmation m c) n)" using Cons.prems by (auto simp add: confirmers_add)
  moreover have "set (confirmers (addConfirmation m c) n) =
      set (confirmers m n) \<union> (if Uint64 (c_BlockNumber c) = n then {c_Signer c} else {})"
    by (auto simp: confirmers_add)
  ultimately show ?case using Cons.IH [of "addConfirmation m c"] by auto
qed

section \<open>The confirmed block number\<close>

text \<open>A block is confirmed when more than \<open>need\<close> signers confirmed it.\<close>

definition quorum :: "(u64, address list) gomap \<Rightarrow> u64 \<Rightarrow> u64 \<Rightarrow> bool" where
  "quorum m need i \<longleftrightarrow> mhas m i \<and> sint need < int (length (confirmers m i))"

lemma lastConfirmed_step:
  "lastConfirmed_loop m need low i = (if low < i \<and> \<not> quorum m need i then lastConfirmed_loop m need low (i - 1) else i)"
  by (subst lastConfirmed_loop.simps) (auto simp: quorum_def confirmers_def mhas_def split: option.splits)

lemma lastConfirmed_spec:
  "lastConfirmed_loop m need low i \<le> i \<and>
   (low \<le> i \<longrightarrow> low \<le> lastConfirmed_loop m need low i) \<and>
   (low < lastConfirmed_loop m need low i \<longrightarrow> quorum m need (lastConfirmed_loop m need low i)) \<and>
   (\<forall>j. lastConfirmed_loop m need low i < j \<and> j \<le> i \<longrightarrow> \<not> quorum m need j)"
proof (induction i rule: measure_induct_rule [where f = unat])
  case (less i)
  show ?case
  proof (cases "low < i \<and> \<not> quorum m need i")
    case True
    then have nz: "0 < i" by (metis word_coorder.not_eq_extremum word_not_simps(1))
    then have un: "unat (i - 1) = unat i - 1" "0 < unat i"
      by (simp_all add: unat_minus_one unat_gt_0 word_gt_0)
    then have lt: "unat (i - 1) < unat i" by simp
    let ?r = "lastConfirmed_loop m need low (i - 1)"
    have e: "lastConfirmed_loop m need low i = ?r" using lastConfirmed_step [of m need low i] True by simp
    have lo: "low \<le> i - 1" using True un unfolding word_le_nat_alt word_less_nat_alt by linarith
    have below: "j = i \<or> j \<le> i - 1" if "j \<le> i" for j
      using that un by (auto simp: word_le_nat_alt word_unat_eq_iff)
    have up: "i - 1 \<le> i" using un by (simp add: word_le_nat_alt)
    note ih = less [OF lt]
    have r: "?r \<le> i" using conjunct1 [OF ih] up by (rule order_trans)
    have nq: "\<not> quorum m need j" if j: "?r < j" "j \<le> i" for j
    proof (cases "j = i")
      case False
      with below [OF j(2)] have "j \<le> i - 1" by simp
      with ih j(1) show ?thesis by blast
    qed (use True in simp)
    show ?thesis unfolding e using ih lo r nq by blast
  next
    case False
    then have "lastConfirmed_loop m need low i = i" using lastConfirmed_step [of m need low i] by auto
    with False show ?thesis by auto
  qed
qed

section \<open>Turns\<close>

lemma unat_div64: "unat (a div b) = unat a div unat b" for a b :: u64
  by (rule unat_div)

text \<open>
  In the \<open>k\<close>-th period after the start of the loop the signer at place \<open>k\<close>, counted around the
  queue, is in turn and nobody else.
\<close>

lemma inturn_slot:
  assumes p: "0 < unat (cfg_Period (s_config s))" and q: "s_Signers s \<noteq> []"
    and j: "j < unat (cfg_Period (s_config s))" and k: "k < 2 ^ 63"
    and ov: "unat (s_LoopStartTime s) + k * unat (cfg_Period (s_config s)) + j < 2 ^ 64"
  shows "inturn s signer (s_LoopStartTime s + of_nat (k * unat (cfg_Period (s_config s)) + j)) =
    Inr (s_Signers s ! (k mod length (s_Signers s)) = signer)"
proof -
  let ?P = "cfg_Period (s_config s)" and ?n = "length (s_Signers s)"
  have u: "unat (of_nat (k * unat ?P + j) :: u64) = k * unat ?P + j"
    using ov by (intro unat_of_nat64) simp
  have "unat ((of_nat (k * unat ?P + j) :: u64) div ?P) = k"
    using u p j by (simp add: unat_div64 del: of_nat_add of_nat_mult)
  then have "(of_nat (k * unat ?P + j) :: u64) div ?P = of_nat k"
    by (metis of_nat_unat ucast_id)
  moreover have "sint (of_nat k :: u64) = int k"
    using k by (simp add: sint_uint signed_take_bit_int_eq_self uint_nat unat_of_nat64)
  moreover have "?P \<noteq> 0" using p by auto
  moreover have "nat (int k mod int ?n) = k mod ?n" by (simp add: nat_mod_distrib)
  moreover have "\<not> int k mod int ?n < 0" "\<not> int ?n \<le> int k mod int ?n"
    unfolding not_less not_le using q by (auto intro!: pos_mod_sign pos_mod_bound)
  ultimately show ?thesis using q
    by (simp add: inturn_def Let_def del: of_nat_add of_nat_mult)
qed

section \<open>The voters' share\<close>

lemma sum_shares_le:
  fixes R A :: int
  assumes "0 < A" "0 \<le> R" "\<forall>x \<in> set xs. 0 \<le> x"
  shows "(\<Sum>x \<leftarrow> xs. x * R div A) * A \<le> sum_list xs * R"
  using assms(3)
proof (induction xs)
  case Nil
  then show ?case by simp
next
  case (Cons x xs)
  have "x * R div A * A \<le> x * R" using assms(1) by (simp add: minus_mod_eq_div_mult [symmetric])
  with Cons show ?case by (simp add: algebra_simps)
qed

lemma sum_shares_ge:
  fixes R A :: int
  assumes "0 < A"
  shows "sum_list xs * R \<le> ((\<Sum>x \<leftarrow> xs. x * R div A) + int (length xs)) * A"
proof (induction xs)
  case Nil
  then show ?case by simp
next
  case (Cons x xs)
  have "x * R \<le> (x * R div A + 1) * A"
    using assms by (metis add.commute add_le_cancel_left distrib_right div_mult_mod_eq less_imp_le mult_1 pos_mod_bound)
  with Cons show ?case by (simp add: algebra_simps)
qed

lemma sum_mine:
  "(\<Sum>(k, x) \<leftarrow> map (\<lambda>(k, v). (k, f v)) (filter (\<lambda>(k, v). sv_Candidate v = c) m). x) =
   msum (\<lambda>k v. if sv_Candidate v = c then f v else 0) m"
  by (induction m) (auto simp: case_prod_beta')

lemma calculateVoteReward_total:
  assumes "\<forall>v \<in> snd ` set (s_Votes s). 0 \<le> deref s (sv_Stake v)" "0 \<le> votersReward"
    and "0 < votesum s coinbase"
  shows "\<exists>rewards. calculateVoteReward s coinbase votersReward = Inr rewards \<and>
    (\<Sum>(a, x) \<leftarrow> rewards. x) \<le> votersReward \<and>
    votersReward - int (length rewards) \<le> (\<Sum>(a, x) \<leftarrow> rewards. x) \<and>
    (\<forall>(a, x) \<in> set rewards. 0 \<le> x)"
proof -
  let ?mine = "filter (\<lambda>(voter, vote). sv_Candidate vote = coinbase) (s_Votes s)"
  let ?rw = "map (\<lambda>(voter, vote). (voter, deref s (sv_Stake vote))) ?mine"
  let ?xs = "map snd ?rw" and ?A = "votesum s coinbase"
  have sum: "(\<Sum>(voter, stake) \<leftarrow> ?rw. stake) = ?A"
    unfolding votesum_def by (rule sum_mine)
  have "(\<Sum>(voter, stake) \<leftarrow> ?rw. stake) = sum_list ?xs" by (simp add: case_prod_beta')
  then have A: "sum_list ?xs = ?A" using sum by simp
  have nn: "\<forall>x \<in> set ?xs. 0 \<le> x" using assms(1) by auto
  define rewards where "rewards = map (\<lambda>(voter, stake). (voter, go_div (stake * votersReward) ?A)) ?rw"
  have r: "calculateVoteReward s coinbase votersReward = Inr rewards"
    using assms(3) sum by (simp add: calculateVoteReward_def Let_def rewards_def)
  have t: "(\<Sum>(a, x) \<leftarrow> rewards. x) = (\<Sum>x \<leftarrow> ?xs. x * votersReward div ?A)"
    using assms(3) by (simp add: rewards_def case_prod_beta' comp_def go_div_def)
  have len: "length rewards = length ?xs" by (simp add: rewards_def)
  have "(\<Sum>x \<leftarrow> ?xs. x * votersReward div ?A) * ?A \<le> votersReward * ?A"
    using sum_shares_le [OF assms(3,2) nn] A by (simp add: mult.commute)
  then have le: "(\<Sum>(a, x) \<leftarrow> rewards. x) \<le> votersReward" using assms(3) t by simp
  have "votersReward * ?A \<le> ((\<Sum>x \<leftarrow> ?xs. x * votersReward div ?A) + int (length ?xs)) * ?A"
    using sum_shares_ge [OF assms(3), of ?xs votersReward] A by (simp add: mult.commute)
  then have "votersReward \<le> (\<Sum>x \<leftarrow> ?xs. x * votersReward div ?A) + int (length ?xs)"
    using assms(3) by (rule mult_right_le_imp_le)
  then have ge: "votersReward - int (length rewards) \<le> (\<Sum>(a, x) \<leftarrow> rewards. x)"
    unfolding t len by simp
  have "\<forall>(a, x) \<in> set rewards. 0 \<le> x"
    using nn assms(2,3) by (auto simp: rewards_def go_div_def pos_imp_zdiv_nonneg_iff)
  with r le ge show ?thesis by blast
qed

lemma calculateVoteReward_length:
  "calculateVoteReward s coinbase votersReward = Inr rewards \<Longrightarrow>
    length rewards = length (filter (\<lambda>(voter, vote). sv_Candidate vote = coinbase) (s_Votes s))"
  by (auto simp: calculateVoteReward_def Let_def split: if_splits)

end
