(* ===== verification/Alien_Ballots.thy ===== *)
theory Alien_Ballots
  imports Alien_Ledger
begin

text \<open>
  What a ballot means.  The abstract state is the ballot box, the last vote of every voter;
  the tally of a candidate is a sum over the box.  The loops of \<open>updateSnapshotByVotes\<close> and
  \<open>updateSnapshotByMPVotes\<close>, which move stakes between shared cells, refine the two
  operations on the box, and every tally entry they leave behind is the sum.
\<close>

type_synonym ballot_box = "address \<Rightarrow> (address \<times> address \<times> int) option"

definition cast :: "ballot_box \<Rightarrow> Vote \<Rightarrow> ballot_box" where
  "cast V v = V(v_Voter v \<mapsto> (v_Voter v, v_Candidate v, v_Stake v))"

definition restake :: "ballot_box \<Rightarrow> Vote \<Rightarrow> ballot_box" where
  "restake V v =
    (case V (v_Voter v) of
       None \<Rightarrow> V
     | Some (_, c, _) \<Rightarrow> V(v_Voter v \<mapsto> (v_Voter v, c, v_Stake v)))"

definition box_tally :: "ballot_box \<Rightarrow> address \<Rightarrow> int" where
  "box_tally V c = (\<Sum>a \<in> UNIV. case V a of None \<Rightarrow> 0 | Some (_, d, x) \<Rightarrow> if d = c then x else 0)"

lemma msum_UNIV:
  fixes m :: "('k :: finite, 'v) gomap"
  shows "distinct (mkeys m) \<Longrightarrow> msum f m = (\<Sum>k \<in> UNIV. case mget m k of None \<Rightarrow> 0 | Some v \<Rightarrow> f k v)"
proof (induction m)
  case Nil
  then show ?case by simp
next
  case (Cons p m)
  obtain k v where p: "p = (k, v)" by fastforce
  let ?g = "\<lambda>m k. case mget m k of None \<Rightarrow> 0 | Some v \<Rightarrow> f k v"
  have k: "mget m k = None" using Cons.prems by (simp add: p map_of_eq_None_iff)
  have "(\<Sum>i \<in> UNIV. ?g (p # m) i) = ?g (p # m) k + (\<Sum>i \<in> UNIV - {k}. ?g (p # m) i)"
    by (rule sum.remove) simp_all
  also have "(\<Sum>i \<in> UNIV - {k}. ?g (p # m) i) = (\<Sum>i \<in> UNIV - {k}. ?g m i)"
    by (rule sum.cong) (simp_all add: p)
  also have "\<dots> = (\<Sum>i \<in> UNIV. ?g m i)" using k by (simp add: sum.remove [of UNIV k "?g m"])
  finally show ?case using Cons p by simp
qed

lemma votesum_box: "distinct (mkeys (s_Votes s)) \<Longrightarrow> votesum s c = box_tally (vote_view s) c"
  unfolding votesum_def msum_UNIV box_tally_def vote_view_def
  by (rule sum.cong) (simp_all split: option.split)

lemma tally_box:
  assumes "ledger s"
  shows "tally_view s c = (if c \<in> fst ` set (s_Tally s) then Some (box_tally (vote_view s) c) else None)"
proof (cases "mget (s_Tally s) c")
  case None
  then show ?thesis by (simp add: tally_view_def map_of_eq_None_iff)
next
  case (Some r)
  then have r: "(c, r) \<in> set (s_Tally s)" by (rule map_of_SomeD)
  then have "c \<in> fst ` set (s_Tally s)" by force
  then show ?thesis using Some ledgerD(8) [OF assms r] votesum_box [OF ledgerD(1) [OF assms]]
    by (simp add: tally_view_def)
qed

lemma recast_view:
  assumes L: "ledger s"
  shows "vote_view (recast voter c x s) = (vote_view s)(voter \<mapsto> (voter, c, x))"
proof
  fix a
  let ?s = "recast voter c x s" and ?r = "length (s_ints s)"
  have V: "s_Votes ?s = mput voter \<lparr>sv_Voter = voter, sv_Candidate = c, sv_Stake = ?r\<rparr> (s_Votes s)"
    by (simp add: recast_def Let_def)
  have "?r \<notin> snd ` set (s_Tally s)" using ledgerD(6) [OF L] by blast
  then have new: "deref ?s ?r = x" by (simp add: recast_untouched)
  have old: "deref ?s (sv_Stake v) = deref s (sv_Stake v)" if "mget (s_Votes s) a = Some v" for v
    using recast_untouched [OF ledgerD(7) [OF L map_of_snd [OF that]]] ledgerD(5) [OF L map_of_snd [OF that]]
    by (simp add: deref_def nth_append)
  show "vote_view ?s a = ((vote_view s)(voter \<mapsto> (voter, c, x))) a"
    using new old by (cases "mget (s_Votes s) a") (auto simp: vote_view_def V gomap_simps)
qed

lemma updateSnapshotByVote_cast:
  assumes L: "ledger s" and t: "has_tally s vote"
  shows "\<exists>s'. updateSnapshotByVote pd n s vote = Inr s' \<and> ledger s' \<and>
    vote_view s' = cast (vote_view s) vote \<and> s_Tally s' = s_Tally s"
proof -
  let ?r = "recast (v_Voter vote) (v_Candidate vote) (v_Stake vote) s"
  have s': "updateSnapshotByVote pd n s vote = Inr (?r\<lparr>s_Voters := mput (v_Voter vote) n (s_Voters s)\<rparr>)"
    using updateSnapshotByVote_recast [OF L t [unfolded has_tally_def]] .
  show ?thesis
    using s' votes.step_ledger [OF L t s'] recast_view [OF L, of "v_Voter vote" "v_Candidate vote" "v_Stake vote"]
    by (simp add: cast_def vote_view_def fun_eq_iff deref_def)
qed

lemma updateSnapshotByMPVote_restake:
  assumes L: "ledger s"
  shows "\<exists>s'. updateSnapshotByMPVote s vote = Inr s' \<and> ledger s' \<and>
    vote_view s' = restake (vote_view s) vote \<and> s_Tally s' = s_Tally s"
proof (cases "mget (s_Votes s) (v_Voter vote)")
  case None
  then have s': "updateSnapshotByMPVote s vote = Inr (s\<lparr>s_ints := s_ints s @ [v_Stake vote]\<rparr>)"
    by (simp add: updateSnapshotByMPVote_def new_int_def)
  have "deref (s\<lparr>s_ints := s_ints s @ [v_Stake vote]\<rparr>) (sv_Stake v) = deref s (sv_Stake v)"
    if "mget (s_Votes s) a = Some v" for a v
    using ledgerD(5) [OF L map_of_snd [OF that]] by (simp add: deref_def nth_append)
  then have "vote_view (s\<lparr>s_ints := s_ints s @ [v_Stake vote]\<rparr>) = vote_view s"
    by (auto simp: vote_view_def fun_eq_iff intro!: option.map_cong)
  then show ?thesis using s' ledger_new_int [OF L] None by (simp add: restake_def vote_view_def)
next
  case (Some v)
  let ?r = "recast (v_Voter vote) (sv_Candidate v) (v_Stake vote) s"
  have s': "updateSnapshotByMPVote s vote = Inr ?r"
    using updateSnapshotByMPVote_recast [OF L Some] .
  have "restake (vote_view s) vote = (vote_view s)(v_Voter vote \<mapsto> (v_Voter vote, sv_Candidate v, v_Stake vote))"
    using Some by (simp add: restake_def vote_view_def)
  then show ?thesis using s' mpvotes.step_ledger [OF L _ s'] recast_view [OF L] by simp
qed

text \<open>A loop whose body refines an operation on the box refines its iteration.\<close>

lemma ballots_refine:
  assumes step: "\<And>s x. ledger s \<Longrightarrow> admissible s x \<Longrightarrow>
      \<exists>s'. step s x = Inr s' \<and> ledger s' \<and> vote_view s' = op (vote_view s) x \<and> s_Tally s' = s_Tally s"
    and stable: "\<And>s s' x. s_Tally s' = s_Tally s \<Longrightarrow> admissible s' x = admissible s x"
  shows "ledger s \<Longrightarrow> list_all (admissible s) xs \<Longrightarrow>
    \<exists>s'. foldR step s xs = Inr s' \<and> ledger s' \<and> vote_view s' = foldl op (vote_view s) xs \<and> s_Tally s' = s_Tally s"
proof (induction xs arbitrary: s)
  case Nil
  then show ?case by simp
next
  case (Cons x xs)
  from Cons.prems step obtain s1 where s1: "step s x = Inr s1" "ledger s1"
    "vote_view s1 = op (vote_view s) x" "s_Tally s1 = s_Tally s" by auto
  have "list_all (admissible s1) xs" using Cons.prems stable [OF s1(4)] by (simp add: list_all_iff)
  from Cons.IH [OF s1(2) this] show ?case using s1 by auto
qed

lemma updateSnapshotByVotes_cast:
  assumes "ledger s" "list_all (has_tally s) votes"
  shows "\<exists>s'. updateSnapshotByVotes pd votes n s = Inr s' \<and> ledger s' \<and>
    vote_view s' = foldl cast (vote_view s) votes \<and> s_Tally s' = s_Tally s"
  unfolding updateSnapshotByVotes_def
  by (rule ballots_refine [where admissible = has_tally, OF updateSnapshotByVote_cast _ assms])
    (simp_all add: has_tally_def)

lemma updateSnapshotByMPVotes_restake:
  assumes "ledger s"
  shows "\<exists>s'. updateSnapshotByMPVotes votes s = Inr s' \<and> ledger s' \<and>
    vote_view s' = foldl restake (vote_view s) votes \<and> s_Tally s' = s_Tally s"
  unfolding updateSnapshotByMPVotes_def
  by (rule ballots_refine [where admissible = "\<lambda>s v. True", OF updateSnapshotByMPVote_restake _ assms])
    (simp_all add: list_all_iff)

section \<open>The genesis ballot box\<close>

lemma newSnapshot_vote_cast:
  assumes L: "ledger s" and k: "v_Voter vote \<notin> fst ` set (s_Votes s)"
  shows "vote_view (newSnapshot_vote s vote) = cast (vote_view s) vote"
proof (cases "mget (s_Tally s) (v_Candidate vote)")
  case None
  have "deref (newSnapshot_vote s vote) (sv_Stake v) = deref s (sv_Stake v)" if "mget (s_Votes s) a = Some v" for a v
    using ledgerD(5) [OF L map_of_snd [OF that]] None
    by (simp add: newSnapshot_vote_def new_int_def set_int_def deref_def mhas_def Let_def nth_append gomap_simps)
  moreover have "deref (newSnapshot_vote s vote) (length (s_ints s)) = v_Stake vote"
    using None by (simp add: newSnapshot_vote_def new_int_def set_int_def deref_def mhas_def Let_def nth_append gomap_simps)
  moreover have "s_Votes (newSnapshot_vote s vote) =
      mput (v_Voter vote) \<lparr>sv_Voter = v_Voter vote, sv_Candidate = v_Candidate vote, sv_Stake = length (s_ints s)\<rparr> (s_Votes s)"
    using None by (simp add: newSnapshot_vote_def new_int_def set_int_def mhas_def Let_def gomap_simps)
  ultimately show ?thesis
    by (auto simp: vote_view_def cast_def fun_eq_iff gomap_simps intro!: option.map_cong)
next
  case (Some q)
  have K: "mget (s_Votes s) (v_Voter vote) = None" using k by (simp add: map_of_eq_None_iff)
  have "q < length (s_ints s)" using Tally_ref_less [OF L Some] .
  then have "s_Votes (newSnapshot_vote s vote) = s_Votes (recast (v_Voter vote) (v_Candidate vote) (v_Stake vote) s)"
    "s_ints (newSnapshot_vote s vote) = s_ints (recast (v_Voter vote) (v_Candidate vote) (v_Stake vote) s)"
    using Some K by (simp_all add: newSnapshot_vote_def new_int_def set_int_def deref_def mhas_def recast_def
        Let_def nth_append)
  then have "vote_view (newSnapshot_vote s vote) =
      vote_view (recast (v_Voter vote) (v_Candidate vote) (v_Stake vote) s)"
    by (simp add: vote_view_def fun_eq_iff deref_def)
  then show ?thesis by (simp add: recast_view [OF L] cast_def)
qed

lemma newSnapshot_votes_cast:
  "ledger s \<Longrightarrow> distinct (map v_Voter votes) \<Longrightarrow> v_Voter ` set votes \<inter> fst ` set (s_Votes s) = {} \<Longrightarrow>
   vote_view (foldl newSnapshot_vote s votes) = foldl cast (vote_view s) votes"
proof (induction votes arbitrary: s)
  case Nil
  then show ?case by simp
next
  case (Cons vote votes)
  then have k: "v_Voter vote \<notin> fst ` set (s_Votes s)" by simp
  note N = newSnapshot_vote_ledger [OF Cons.prems(1) k]
  have "v_Voter ` set votes \<inter> fst ` set (s_Votes (newSnapshot_vote s vote)) = {}"
    using Cons.prems(2,3) N(2) by auto
  then show ?case using Cons.IH [OF N(1)] Cons.prems(2) newSnapshot_vote_cast [OF Cons.prems(1) k] by simp
qed

lemma newSnapshot_cast:
  assumes "distinct (map v_Voter votes)" "newSnapshot now cfg h votes lcrs = Inr s"
  shows "vote_view s = foldl cast Map.empty votes"
proof -
  have "vote_view (s\<lparr>s_Signers := g\<rparr>) = vote_view s" for s :: Snapshot and g
    by (simp add: vote_view_def deref_def fun_eq_iff)
  moreover have "vote_view s = Map.empty" if "s_Votes s = []" for s
    using that by (simp add: vote_view_def fun_eq_iff)
  ultimately show ?thesis
    using assms newSnapshot_votes_cast [OF ledger_empty assms(1)]
    by (auto simp: newSnapshot_def Let_def split: if_splits)
qed

text \<open>The first rotation repeats the configured signers up to the full loop.\<close>

lemma newSnapshot_Signers:
  assumes "newSnapshot now cfg h votes lcrs = Inr s"
  shows "s_Signers s = map (\<lambda>i. cfg_SelfVoteSigners cfg ! (i mod length (cfg_SelfVoteSigners cfg)))
    [0..<nat (sint (cfg_MaxSignerCount cfg))]"
  using assms by (auto simp: newSnapshot_def Let_def split: if_splits)

end
