(* ===== verification/Alien_Samples.thy ===== *)
theory Alien_Samples
  imports Alien_Api Alien_Duties Alien_Ballots
begin

text \<open>
  Small concrete configurations, votes and snapshots, on which the properties of the root
  theory are exercised.
\<close>

definition sample_config :: AlienConfig where
  "sample_config = \<lparr>cfg_Period = 3, cfg_Epoch = 10, cfg_MaxSignerCount = 3, cfg_MinVoterBalance = 100,
    cfg_GenesisTimestamp = 1000, cfg_SelfVoteSigners = [1, 2, 3], cfg_SideChain = False,
    cfg_MCRPCClient = False, cfg_TrantorBlock = Some 0, cfg_TerminusBlock = Some 0\<rparr>"

definition sample_votes :: "Vote list" where
  "sample_votes = [\<lparr>v_Voter = 1, v_Candidate = 1, v_Stake = 100\<rparr>, \<lparr>v_Voter = 2, v_Candidate = 2, v_Stake = 50\<rparr>,
     \<lparr>v_Voter = 3, v_Candidate = 3, v_Stake = 50\<rparr>, \<lparr>v_Voter = 4, v_Candidate = 1, v_Stake = 30\<rparr>]"

text \<open>The snapshot that \<open>newSnapshot\<close> builds from them.\<close>

definition sample_genesis :: Snapshot where
  "sample_genesis = \<lparr>s_config = sample_config, s_LCRS = 2, s_Period = 3, s_Number = 0,
     s_ConfirmedNumber = 0, s_Hash = 77, s_HistoryHash = [77], s_Signers = [1, 2, 3],
     s_Votes = [(1, \<lparr>sv_Voter = 1, sv_Candidate = 1, sv_Stake = 0\<rparr>), (2, \<lparr>sv_Voter = 2, sv_Candidate = 2, sv_Stake = 2\<rparr>),
       (3, \<lparr>sv_Voter = 3, sv_Candidate = 3, sv_Stake = 4\<rparr>), (4, \<lparr>sv_Voter = 4, sv_Candidate = 1, sv_Stake = 6\<rparr>)],
     s_Tally = [(1, 1), (2, 3), (3, 5)], s_Voters = [(1, 0), (2, 0), (3, 0), (4, 0)],
     s_Candidates = [(1, 1), (2, 1), (3, 1), (4, 1)], s_Punished = [],
     s_Confirmations = [], s_Proposals = [], s_HeaderTime = 2000 - 1,
     s_LoopStartTime = 1000, s_SCCoinbase = [], s_SCConfirmation = [],
     s_SCAllReward = [], s_ints = [100, 130, 50, 50, 50, 50, 30], s_props = []\<rparr>"

lemma sample_newSnapshot: "newSnapshot 2000 sample_config 77 sample_votes 2 = Inr sample_genesis"
  by code_simp

lemma sample_ledger: "ledger sample_genesis"
  using newSnapshot_ledger [OF _ sample_newSnapshot] by (simp add: sample_votes_def)

lemma sample_live: "live sample_genesis"
  by (simp add: live_def sample_genesis_def deref_def)

text \<open>The same ledger twenty blocks later; only voter 4 has not voted again.\<close>

definition sample_aged :: Snapshot where
  "sample_aged = sample_genesis\<lparr>s_Number := 20, s_Voters := [(1, 15), (2, 15), (3, 15), (4, 0)]\<rparr>"

lemma sample_aged_ledger: "ledger sample_aged" "live sample_aged"
proof -
  have "ledger (sample_genesis\<lparr>s_Voters := [(1, 15), (2, 15), (3, 15), (4, 0)]\<rparr>)"
    by (rule ledger_Voters [OF sample_ledger]) simp
  moreover have "live (sample_genesis\<lparr>s_Voters := [(1, 15), (2, 15), (3, 15), (4, 0)]\<rparr>)"
    using sample_live by (simp add: live_def deref_def)
  moreover note ledger_cong [of sample_aged "sample_genesis\<lparr>s_Voters := [(1, 15), (2, 15), (3, 15), (4, 0)]\<rparr>"]
  ultimately show "ledger sample_aged" "live sample_aged" by (simp_all add: sample_aged_def)
qed

text \<open>A proposal under vote, with one declaration.\<close>

definition sample_proposal :: Proposal where
  "sample_proposal = \<lparr>p_Hash = 55, p_ValidationLoopCnt = 2, p_ProposalType = 1, p_Proposer = 1, p_Candidate = 9,
    p_MinerRewardPerThousand = 0, p_SCHash = 0, p_SCBlockCountPerPeriod = 0, p_SCBlockRewardPerPeriod = 0,
    p_Declares = [\<lparr>d_ProposalHash = 55, d_Declarer = 1, d_Decision = True\<rparr>], p_ReceivedNumber = 2\<rparr>"

definition sample_voting :: Snapshot where
  "sample_voting = sample_genesis\<lparr>s_Proposals := [(55, 0)], s_props := [sample_proposal]\<rparr>"

lemma sample_voting_ok: "props_ok sample_voting" "distinct (map snd (s_Proposals sample_voting))"
  by (simp_all add: sample_voting_def props_ok_def)

lemma sample_voting_view: "proposal_view sample_voting 55 = Some sample_proposal"
  by (simp add: sample_voting_def proposal_view_def)

text \<open>The block that follows, with one vote that moves to another candidate.\<close>

definition sample_extra :: HeaderExtra where
  "sample_extra = new_HeaderExtra\<lparr>he_CurrentBlockVotes := [\<lparr>v_Voter = 4, v_Candidate = 2, v_Stake = 60\<rparr>],
     he_LoopStartTime := 1000, he_SignerQueue := [1, 2, 3]\<rparr>"

definition sample_header :: Header where
  "sample_header = \<lparr>h_ParentHash = 77, h_UncleHash = 0, h_Coinbase = 1, h_Root = 0, h_TxHash = 0, h_ReceiptHash = 0,
    h_Bloom = [], h_Difficulty = 1, h_Number = Some 1, h_GasLimit = 0, h_GasUsed = 0, h_Time = 1003,
    h_Extra = replicate extraVanity 0 @ extra_bytes sample_config 1 sample_extra @ replicate extraSeal 0,
    h_MixDigest = 0, h_Nonce = []\<rparr>"

lemma sample_payload:
  "extra_payload sample_header = Inr (extra_bytes sample_config 1 sample_extra)"
  by (rule extra_payload_split [where v = "replicate extraVanity 0" and sg = "replicate extraSeal 0"])
    (simp_all add: sample_header_def)

lemma sample_decode:
  "decodeHeaderExtra sample_config 1 (extra_bytes sample_config 1 sample_extra) new_HeaderExtra = Inr sample_extra"
proof -
  have "extra_ok sample_extra" by (simp add: extra_ok_def sample_extra_def new_HeaderExtra_def)
  moreover have "length (extra_bytes sample_config 1 sample_extra) < 300" by code_simp
  moreover have "IsTrantor sample_config 1" by code_simp
  ultimately show ?thesis
    using decodeHeaderExtra_bytes [of sample_extra sample_config 1] by (simp add: extra_visible_def)
qed

text \<open>
  An environment in which every hash is 77 and every signature is by 77, and an engine that
  holds the snapshot of block 0.
\<close>

definition sample_env :: Env where
  "sample_env = \<lparr>env_keccak = (\<lambda>b. Hash_Bytes 77), env_Ecrecover = (\<lambda>d s. Some [4]),
    env_sign = (\<lambda>a d. if a = 77 then Some (replicate 65 9) else None), env_sender = (\<lambda>tx. None),
    env_marshal = (\<lambda>s. None), env_unmarshal = (\<lambda>b. None), env_put = (\<lambda>k b db. None),
    env_evict_sig = (\<lambda>m. m), env_evict_snap = (\<lambda>m. m), env_sortT = sort_less TallySlice_Less,
    env_sortS = sort_less SignerSlice_Less, env_mcSnapshot = (\<lambda>t h. None), env_mcNonce = (\<lambda>a. None),
    env_mcNetVersion = None, env_signTx = (\<lambda>a n to d v. None), env_mcSend = (\<lambda>d. None),
    env_root = (\<lambda>st. 0)\<rparr>"

definition sample_genesis_header :: Header where
  "sample_genesis_header = sample_header\<lparr>h_Number := Some 0, h_Time := 1000, h_UncleHash := 77\<rparr>"

definition sample_block :: Header where
  "sample_block = sample_header\<lparr>h_UncleHash := 77\<rparr>"

definition sample_chain :: Chain where
  "sample_chain = \<lparr>ch_Config = sample_config,
    ch_GetHeader = (\<lambda>h n. if h = 77 \<and> n = 0 then Some sample_genesis_header else None),
    ch_GetHeaderByNumber = (\<lambda>n. if n = 0 then Some sample_genesis_header else None),
    ch_GetHeaderByHash = (\<lambda>h. None), ch_CurrentHeader = Some sample_genesis_header\<rparr>"

definition sample_engine :: Alien where
  "sample_engine = (New sample_config [])\<lparr>a_recents := [(77, sample_genesis\<lparr>s_Signers := [77, 77, 77]\<rparr>)],
     a_signer := 77\<rparr>"

lemma sample_hashes [simp]:
  "Header_Hash sample_env h = 77" "uncleHash sample_env = 77" "rlpHash sample_env t v = 77"
  by (simp_all add: Header_Hash_def uncleHash_def rlpHash_def sample_env_def BytesToHash_Bytes)

lemma sample_laws: "evicts sample_env" "chain_ok sample_env sample_chain" "stores_ok sample_env sample_engine" "signs sample_env"
proof -
  have a: "BytesToAddress (drop 12 (Hash_Bytes 77)) = 77" by code_simp
  show "evicts sample_env" by (simp add: evicts_def sample_env_def)
  show "chain_ok sample_env sample_chain"
    by (simp add: chain_ok_def sample_chain_def sample_genesis_header_def sample_header_def hNumber_def Uint64_def)
  show "stores_ok sample_env sample_engine"
    by (simp add: stores_ok_def sample_engine_def New_def Let_def sample_genesis_def loadSnapshot_def)
  show "signs sample_env" using a by (auto simp: signs_def sample_env_def extraSeal_def)
qed

lemma sample_snapshot:
  "snapshot sample_env sample_chain 2000 sample_engine 0 77 [] [] defaultLoopCntRecalculateSigners =
    Inr (sample_engine, sample_genesis\<lparr>s_Signers := [77, 77, 77]\<rparr>)"
proof -
  have "mget (a_recents sample_engine) 77 = Some (sample_genesis\<lparr>s_Signers := [77, 77, 77]\<rparr>)"
    by (simp add: sample_engine_def)
  then show ?thesis
    by (simp add: snapshot_def snapshot_gather.simps Snapshot_apply_def Let_def)
      (simp add: sample_engine_def sample_env_def sample_genesis_def New_def Let_def)
qed

lemma sample_signer: "signer_of sample_env sample_block = Inr 77"
  "fst (ecrecover sample_env (a_signatures sample_engine) sample_block) = Inr 77"
proof -
  have a: "BytesToAddress (drop 12 (Hash_Bytes 77)) = 77" by code_simp
  have l: "extraSeal \<le> length (h_Extra sample_block)" by (simp add: sample_block_def sample_header_def)
  then have "sigHash sample_env sample_block = Inr 77" by (simp add: sigHash_def extraSeal_def)
  moreover have "a_signatures sample_engine = []" by (simp add: sample_engine_def New_def Let_def)
  ultimately show "signer_of sample_env sample_block = Inr 77"
    "fst (ecrecover sample_env (a_signatures sample_engine) sample_block) = Inr 77"
    using l a by (simp_all add: signer_of_def ecrecover_def Let_def) (simp_all add: sample_env_def)
qed

lemma sample_turn: "inturn (sample_genesis\<lparr>s_Signers := [77, 77, 77]\<rparr>) 77 (Uint64 (h_Time sample_block)) = Inr True"
  by code_simp

lemma sample_numbers:
  "Uint64 (hNumber sample_block) = 1" "h_ParentHash sample_block = 77" "Uint64 (hNumber sample_genesis_header) = 0"
  by (simp_all add: sample_block_def sample_genesis_header_def sample_header_def hNumber_def Uint64_def)

lemma sample_verified: "\<exists>a'. verifyHeader sample_env sample_chain 2000 sample_engine sample_block [] = Inr a'"
proof -
  have alone: "verifyHeader_alone sample_env 2000 sample_block = Inr ()"
    by (simp add: verifyHeader_alone_ok sample_block_def sample_header_def)
  have parent: "ch_GetHeader sample_chain 77 0 = Some sample_genesis_header" by (simp add: sample_chain_def)
  have time: "Uint64 (h_Time sample_genesis_header) \<le> Uint64 (h_Time sample_block)" by code_simp
  have main: "\<not> cfg_SideChain (ch_Config sample_chain)" "cfg_MaxSignerCount (a_config sample_engine) = 3"
    by (simp_all add: sample_chain_def sample_engine_def New_def Let_def sample_config_def Uint64_def)
  obtain sigs where e: "ecrecover sample_env (a_signatures sample_engine) sample_block = (Inr 77, sigs)"
    using sample_signer(2) by (metis prod.collapse)
  have "verifySeal sample_env sample_chain 2000 sample_engine sample_block [] =
      Inr (sample_engine\<lparr>a_signatures := sigs\<rparr>)"
    by (simp add: verifySeal_def sample_numbers sample_snapshot e main sample_turn)
  then show ?thesis using time
    by (simp add: verifyHeader_def alone verifyCascadingFields_def sample_numbers parent sample_snapshot not_less)
qed

lemma sample_sealed: "\<exists>a' h'. Seal sample_env sample_chain 2000 False sample_engine sample_block [] = Inr (a', Some h')"
proof -
  have l: "extraSeal \<le> length (h_Extra sample_block)" by (simp add: sample_block_def sample_header_def)
  then have "sigHash sample_env sample_block = Inr 77" by (simp add: sigHash_def extraSeal_def)
  moreover have "cfg_Period (a_config sample_engine) \<noteq> 0" "a_signer sample_engine = 77" "\<not> cfg_SideChain (ch_Config sample_chain)"
    by (simp_all add: sample_chain_def sample_engine_def New_def Let_def sample_config_def)
  moreover have "env_sign sample_env 77 d = Some (replicate 65 9)" for d by (simp add: sample_env_def)
  ultimately show ?thesis using l
    by (simp add: Seal_def sample_numbers sample_snapshot sample_turn)
qed

lemma sample_reward_parts:
  "\<not> isl (accumulateRewards sample_config 618 (\<lambda>a. 0) sample_header sample_genesis [(2, 10)])"
  by code_simp

lemma sample_rewards:
  "\<exists>st'. accumulateRewards sample_config 618 (\<lambda>a. 0) sample_header sample_genesis [(2, 10)] = Inr st'"
  using not_isl_conv [THEN iffD1, OF sample_reward_parts] by blast

text \<open>Headers three seconds apart.\<close>

definition sample_times :: Chain where
  "sample_times = sample_chain\<lparr>ch_GetHeaderByNumber :=
     (\<lambda>n. if n \<le> 8 then Some (sample_header\<lparr>h_Number := Some (uint n), h_Time := 1000 + 3 * uint n\<rparr>) else None)\<rparr>"

lemma sample_times_served:
  "serves sample_times 3 (\<lambda>n. sample_header\<lparr>h_Number := Some n, h_Time := 1000 + 3 * n\<rparr>) 0 8"
proof -
  have "uint (of_int n :: u64) = n \<and> (of_int n :: u64) \<le> 8" if "0 \<le> n" "n \<le> 8" for n
    using that by (auto simp: word_le_def uint_word_of_int_eq take_bit_int_eq_self)
  then show ?thesis by (simp add: serves_def sample_times_def hNumber_def)
qed

definition sample_sort :: "TallyItem list \<Rightarrow> TallyItem list" where
  "sample_sort = sort_less TallySlice_Less"

lemma sample_ballots:
  "\<not> isl (bindR (updateSnapshotByVotes False [\<lparr>v_Voter = 4, v_Candidate = 2, v_Stake = 60\<rparr>] 1
       (beforeBallots sample_header sample_extra [77, 99] (Snapshot_copy sample_genesis)))
     (\<lambda>s1. bindR (updateSnapshotByMPVotes [] s1)
       (\<lambda>s2. afterBallots sample_sort False sample_header sample_extra (s2, 618))))"
  by code_simp

lemma sample_apply_header:
  "\<exists>t m. applyHeader (\<lambda>h. Inr 1) (\<lambda>h. 99) sample_sort False sample_config (Snapshot_copy sample_genesis, 618) sample_header =
    Inr (t, m)"
proof -
  have "pushHistory (cfg_MaxSignerCount sample_config) 99 (s_HistoryHash (Snapshot_copy sample_genesis)) = Inr [77, 99]"
    by code_simp
  moreover have "hNumber sample_header = 1" "h_Coinbase sample_header = 1"
    by (simp_all add: hNumber_def sample_header_def)
  moreover have "he_CurrentBlockVotes sample_extra = [\<lparr>v_Voter = 4, v_Candidate = 2, v_Stake = 60\<rparr>]"
    "he_ModifyPredecessorVotes sample_extra = []"
    by (simp_all add: sample_extra_def new_HeaderExtra_def)
  ultimately show ?thesis using sample_ballots
    by (simp add: applyHeader_eq sample_payload sample_decode not_isl_conv)
qed

lemma sample_apply:
  "\<exists>s' m'. Snapshot_apply (\<lambda>h. Inr 1) (\<lambda>h. 99) sample_sort False (sample_genesis, 618) [sample_header] = Inr (s', m')"
proof -
  have n: "hNumber sample_header = 1" by (simp add: hNumber_def sample_header_def)
  have c: "s_config sample_genesis = sample_config" "s_Number sample_genesis = 0" by (simp_all add: sample_genesis_def)
  have a: "header_admissible sample_config sample_genesis sample_header"
    by (simp add: header_admissible_def sample_payload n sample_decode)
      (simp add: sample_extra_def new_HeaderExtra_def has_tally_def sample_genesis_def)
  from sample_apply_header obtain t m' where "foldR (applyHeader (\<lambda>h. Inr 1) (\<lambda>h. 99) sample_sort False (s_config sample_genesis))
      (Snapshot_copy sample_genesis, 618) [sample_header] = Inr (t, m')" by (auto simp: c)
  from Snapshot_apply_ledger [OF _ _ _ sample_live _ _ _ _ this] sample_ledger a show ?thesis
    by (fastforce simp: ledger_def n c Uint64_def)
qed

text \<open>
  The last block of two loops, and the last block of a loop with the official number of
  signers and thirty-two candidates, with a long and a short history.
\<close>

definition sample_due :: Snapshot where
  "sample_due = sample_genesis\<lparr>s_Number := 5, s_HistoryHash := [11, 33, 22, 77]\<rparr>"

definition sample_official :: "hash list \<Rightarrow> Snapshot" where
  "sample_official hist = sample_genesis\<lparr>s_config := sample_config\<lparr>cfg_MaxSignerCount := 21\<rparr>, s_LCRS := 1,
     s_Number := 20, s_Hash := last hist, s_HistoryHash := hist,
     s_Tally := map (\<lambda>i. (of_nat i, i)) [0..<32], s_ints := replicate 32 5\<rparr>"

lemma sample_official_due: "hist \<noteq> [] \<Longrightarrow> queue_due (sample_official hist)" "reelection (sample_official hist)"
  by (simp_all add: queue_due_def reelection_def sample_official_def sample_config_def sample_genesis_def)

lemma sample_official_slice: "length (buildTallySlice False (sample_official hist)) = 32"
  by (simp add: buildTallySlice_def sample_official_def length_concat comp_def case_prod_beta sum_list_triv)

lemma inj_of_nat_word: "n < 2 ^ LENGTH('a) \<Longrightarrow> inj_on (of_nat :: nat \<Rightarrow> 'a::len word) {..<n}"
  by (rule inj_onI) (simp add: word_of_nat_eq_iff take_bit_nat_eq_self)

lemma sample_official_tally: "distinct (mkeys (s_Tally (sample_official (map of_nat [1..<43]))))"
  using inj_of_nat_word [where 'a = 160, of 32] by (simp add: sample_official_def distinct_map comp_def lessThan_atLeast0)

lemma sample_official_history: "distinct (s_HistoryHash (sample_official (map of_nat [1..<43])))"
proof -
  have "{1..<43} \<subseteq> {..<43::nat}" by auto
  from inj_on_subset [OF inj_of_nat_word [where 'a = 256, of 43] this] show ?thesis
    by (simp add: sample_official_def distinct_map)
qed

end
