(* ===== verification/Evm_Math.thy ===== *)
theory Evm_Math
  imports Alien_Types "HOL-Library.Signed_Division"
begin

text \<open>
  The arithmetic of the virtual machine: \<open>src/gttc/common/math/big.go\<close> and
  \<open>src/gttc/common/math/integer.go\<close>, with the methods of \<open>math/big\<close> they call.

  A \<open>*big.Int\<close> is an \<open>int\<close>.  The library represents it as a sign and the little-endian list
  of its machine words (\<open>Bits\<close>), which \<open>Exp\<close>, \<open>bigEndianByteAt\<close> and \<open>ReadBits\<close> walk
  through directly; the word size is that of a 64-bit platform.  The bitwise methods work
  on infinite two's complement numbers, as those of \<open>int\<close> do, and \<open>Div\<close> and \<open>Mod\<close> are
  Euclidean.

  The lemmas relate \<open>U256\<close>, \<open>S256\<close>, \<open>Exp\<close> and the byte access to 256-bit words, and the
  three checked operations on \<open>uint64\<close> to the exact ones.
\<close>

unbundle bit_operations_syntax

section \<open>Methods of \<open>big.Int\<close>\<close>

fun big_Bits :: "nat \<Rightarrow> u64 list" where
  "big_Bits n = (if n = 0 then [] else of_nat n # big_Bits (n div 2 ^ 64))"

declare big_Bits.simps [simp del]

fun BitLen_nat :: "nat \<Rightarrow> nat" where
  "BitLen_nat n = (if n = 0 then 0 else Suc (BitLen_nat (n div 2)))"

declare BitLen_nat.simps [simp del]

definition BitLen :: "int \<Rightarrow> nat" where
  "BitLen x = BitLen_nat (nat \<bar>x\<bar>)"

definition big_Bytes :: "int \<Rightarrow> bytes" where
  "big_Bytes x = be_bytes (nat \<bar>x\<bar>)"

definition big_SetBytes :: "bytes \<Rightarrow> int" where
  "big_SetBytes b = int (be_val b)"

definition big_Div :: "int \<Rightarrow> int \<Rightarrow> int" where
  "big_Div x y = sgn y * (x div \<bar>y\<bar>)"

definition big_Mod :: "int \<Rightarrow> int \<Rightarrow> int" where
  "big_Mod x y = x mod \<bar>y\<bar>"

section \<open>256-bit arithmetic\<close>

definition tt255 :: int where
  "tt255 = 2 ^ 255"

definition tt256 :: int where
  "tt256 = 2 ^ 256"

definition tt256m1 :: int where
  "tt256m1 = tt256 - 1"

definition BigMax :: "int \<Rightarrow> int \<Rightarrow> int" where
  "BigMax x y = (if x < y then y else x)"

definition BigMin :: "int \<Rightarrow> int \<Rightarrow> int" where
  "BigMin x y = (if x > y then y else x)"

definition U256 :: "int \<Rightarrow> int" where
  "U256 x = x AND tt256m1"

definition S256 :: "int \<Rightarrow> int" where
  "S256 x = (if x < tt255 then x else x - tt256)"

text \<open>
  The two loops of \<open>Exp\<close>, over the words of the exponent and the bits of a word.  The base
  is squared in place, so the second component is what the caller's \<open>base\<close> holds afterwards.
\<close>

fun Exp_bits :: "nat \<Rightarrow> u64 \<Rightarrow> int \<Rightarrow> int \<Rightarrow> int \<times> int" where
  "Exp_bits 0 word result base = (result, base)"
| "Exp_bits (Suc i) word result base =
    Exp_bits i (drop_bit 1 word)
      (if word AND 1 = 1 then U256 (result * base) else result) (U256 (base * base))"

fun Exp_words :: "u64 list \<Rightarrow> int \<Rightarrow> int \<Rightarrow> int \<times> int" where
  "Exp_words [] result base = (result, base)"
| "Exp_words (word # words) result base =
    (let (result', base') = Exp_bits 64 word result base in Exp_words words result' base')"

definition Exp :: "int \<Rightarrow> int \<Rightarrow> int \<times> int" where
  "Exp base exponent = Exp_words (big_Bits (nat \<bar>exponent\<bar>)) 1 base"

definition wordBytes :: nat where
  "wordBytes = 8"

definition bigEndianByteAt :: "int \<Rightarrow> nat \<Rightarrow> byte" where
  "bigEndianByteAt bigint n =
    (let words = big_Bits (nat \<bar>bigint\<bar>);
         i = n div wordBytes
     in if length words \<le> i then 0
        else
          (let word = words ! i;
               shift = 8 * (n mod wordBytes)
           in ucast (drop_bit shift word)))"

definition math_Byte :: "int \<Rightarrow> nat \<Rightarrow> nat \<Rightarrow> byte" where
  "math_Byte bigint padlength n =
    (if padlength \<le> n then 0 else bigEndianByteAt bigint (padlength - 1 - n))"

text \<open>\<open>ReadBits\<close> fills the buffer from its end; \<open>i\<close> bytes at the front are still to do.\<close>

fun ReadBits_word :: "nat \<Rightarrow> u64 \<Rightarrow> nat \<Rightarrow> bytes \<Rightarrow> nat \<times> bytes" where
  "ReadBits_word 0 d i buf = (i, buf)"
| "ReadBits_word (Suc j) d i buf =
    (if 0 < i then ReadBits_word j (drop_bit 8 d) (i - 1) (buf[i - 1 := ucast d]) else (i, buf))"

fun ReadBits_words :: "u64 list \<Rightarrow> nat \<Rightarrow> bytes \<Rightarrow> bytes" where
  "ReadBits_words [] i buf = buf"
| "ReadBits_words (d # ds) i buf =
    (let (i', buf') = ReadBits_word wordBytes d i buf in ReadBits_words ds i' buf')"

definition ReadBits :: "int \<Rightarrow> bytes \<Rightarrow> bytes" where
  "ReadBits bigint buf = ReadBits_words (big_Bits (nat \<bar>bigint\<bar>)) (length buf) buf"

definition PaddedBigBytes :: "int \<Rightarrow> nat \<Rightarrow> bytes" where
  "PaddedBigBytes bigint n =
    (if n \<le> BitLen bigint div 8 then big_Bytes bigint
     else ReadBits bigint (replicate n 0))"

section \<open>Checked arithmetic on \<open>uint64\<close>\<close>

definition MaxUint64 :: u64 where
  "MaxUint64 = - 1"

definition SafeSub :: "u64 \<Rightarrow> u64 \<Rightarrow> u64 \<times> bool" where
  "SafeSub x y = (x - y, x < y)"

definition SafeAdd :: "u64 \<Rightarrow> u64 \<Rightarrow> u64 \<times> bool" where
  "SafeAdd x y = (x + y, MaxUint64 - x < y)"

definition SafeMul :: "u64 \<Rightarrow> u64 \<Rightarrow> u64 \<times> bool" where
  "SafeMul x y = (if x = 0 \<or> y = 0 then (0, False) else (x * y, MaxUint64 div x < y))"

section \<open>Checked arithmetic is exact\<close>

lemma unat_MaxUint64: "unat MaxUint64 = 2 ^ 64 - 1"
  by (simp add: MaxUint64_def unsigned_minus_1_eq_mask mask_eq_exp_minus_1)

lemma SafeAdd_ok: "SafeAdd x y = (z, False) \<longleftrightarrow> unat x + unat y < 2 ^ 64 \<and> z = x + y"
proof -
  have "MaxUint64 - x < y \<longleftrightarrow> 2 ^ 64 \<le> unat x + unat y"
  proof -
    have "unat (MaxUint64 - x) = 2 ^ 64 - 1 - unat x"
      using unat_sub [of x MaxUint64] unat_MaxUint64 by (simp add: MaxUint64_def)
    then show ?thesis
      using unat_less_64 [of x] by (simp add: word_less_nat_alt) linarith
  qed
  then show ?thesis by (auto simp: SafeAdd_def)
qed

lemma SafeMul_ok: "SafeMul x y = (z, False) \<longleftrightarrow> unat x * unat y < 2 ^ 64 \<and> z = x * y"
proof (cases "x = 0 \<or> y = 0")
  case True
  then show ?thesis by (auto simp: SafeMul_def)
next
  case False
  then have pos: "0 < unat x" by (simp add: unat_gt_0)
  have "MaxUint64 div x < y \<longleftrightarrow> 2 ^ 64 \<le> unat x * unat y"
  proof -
    have "MaxUint64 div x < y \<longleftrightarrow> (2 ^ 64 - 1) div unat x < unat y"
      by (simp add: word_less_nat_alt unat_div_distrib unat_MaxUint64)
    also have "\<dots> \<longleftrightarrow> 2 ^ 64 - 1 < unat y * unat x"
      using pos by (rule div_less_iff_less_mult)
    also have "\<dots> \<longleftrightarrow> 2 ^ 64 \<le> unat x * unat y"
      by (simp add: mult.commute) linarith
    finally show ?thesis .
  qed
  with False show ?thesis by (auto simp: SafeMul_def)
qed

lemma SafeSub_ok: "SafeSub x y = (z, False) \<longleftrightarrow> unat y \<le> unat x \<and> z = x - y"
  by (auto simp: SafeSub_def word_less_nat_alt)

section \<open>\<open>U256\<close> and \<open>S256\<close>\<close>

lemma U256_mod: "U256 x = x mod 2 ^ 256"
proof -
  have "tt256m1 = mask 256"
    by (simp add: tt256m1_def tt256_def mask_eq_exp_minus_1)
  then show ?thesis
    unfolding U256_def by (simp only: take_bit_eq_mod [symmetric] take_bit_eq_mask)
qed

lemma U256_range [simp]: "0 \<le> U256 x" "U256 x < 2 ^ 256"
  by (simp_all add: U256_mod)

lemmas U256_less [simp] = U256_range(2) [simplified]

lemma U256_id: "0 \<le> x \<Longrightarrow> x < 2 ^ 256 \<Longrightarrow> U256 x = x"
  by (simp add: U256_mod)

lemma U256_word: "U256 x = uint (word_of_int x :: hash)"
  by (simp add: U256_mod uint_word_of_int)

lemma S256_word: "S256 (uint (x :: hash)) = sint x"
proof -
  have x: "0 \<le> uint x" "uint x < 2 ^ 256"
    using unsigned_less [of x] by simp_all
  have eq: "sint x = (if bit (uint x) 255 then uint x - 2 ^ 256 else uint x)"
    using x by (simp add: sint_uint signed_take_bit_eq_take_bit_minus take_bit_int_eq_self)
  have "bit (uint x) 255 \<longleftrightarrow> 2 ^ 255 \<le> uint x"
  proof (cases "2 ^ 255 \<le> uint x")
    case True
    have "uint x div 2 ^ 255 = 1"
      using True x by (intro int_div_pos_eq [where r = "uint x - 2 ^ 255"]) auto
    then have "bit (uint x) 255" unfolding bit_iff_odd by simp
    with True show ?thesis by blast
  next
    case False
    then have "uint x div 2 ^ 255 = 0" using x by (intro div_pos_pos_trivial) auto
    then have "\<not> bit (uint x) 255" unfolding bit_iff_odd by simp
    with False show ?thesis by blast
  qed
  then show ?thesis
    unfolding S256_def tt255_def tt256_def eq by (simp add: not_le)
qed

section \<open>Exponentiation\<close>

lemma power_mod_cong: "a mod m = b mod m \<Longrightarrow> a ^ n mod m = b ^ n mod m" for a b m :: int
  by (metis power_mod)

lemma Exp_bits_correct:
  assumes "Exp_bits n w r b = (r', b')"
  shows "r' mod 2 ^ 256 = r * b ^ (unat w mod 2 ^ n) mod 2 ^ 256 \<and>
    b' mod 2 ^ 256 = b ^ (2 ^ n) mod 2 ^ 256"
  using assms
proof (induction n arbitrary: w r b)
  case 0
  then show ?case by simp
next
  case (Suc n)
  let ?M = "2 ^ 256 :: int"
  define r1 where "r1 = (if w AND 1 = 1 then U256 (r * b) else r)"
  have one: "w AND 1 = 1 \<longleftrightarrow> odd (unat w)"
    unfolding and_one_eq word_unat_eq_iff by (simp add: unat_mod_distrib odd_iff_mod_2_eq_one)
  have IH: "r' mod ?M = r1 * U256 (b * b) ^ (unat (drop_bit 1 w) mod 2 ^ n) mod ?M"
    "b' mod ?M = U256 (b * b) ^ 2 ^ n mod ?M"
    using Suc.IH Suc.prems unfolding r1_def by auto
  have sq: "U256 (b * b) ^ k mod ?M = b ^ (2 * k) mod ?M" for k
    by (simp add: U256_mod power_mod power_mult power2_eq_square)
  have half: "unat (drop_bit 1 w) mod 2 ^ n = (unat w div 2) mod 2 ^ n"
    by (simp add: drop_bit_eq_div unat_div_distrib)
  have split: "unat w mod 2 ^ Suc n = 2 * (unat w div 2 mod 2 ^ n) + unat w mod 2"
    using mod_mult2_eq [of "unat w" 2 "2 ^ n"] by simp
  have r1: "r1 mod ?M = r * b ^ (unat w mod 2) mod ?M"
    using one by (auto simp: r1_def U256_mod odd_iff_mod_2_eq_one)
  have "r' mod ?M = (r1 mod ?M) * (U256 (b * b) ^ (unat w div 2 mod 2 ^ n) mod ?M) mod ?M"
    unfolding IH(1) half by (simp only: mod_mult_eq)
  also have "\<dots> = (r * b ^ (unat w mod 2)) * b ^ (2 * (unat w div 2 mod 2 ^ n)) mod ?M"
    unfolding r1 sq by (rule mod_mult_eq)
  also have "\<dots> = r * b ^ (unat w mod 2 ^ Suc n) mod ?M"
    unfolding split by (simp add: power_add mult_ac)
  finally have "r' mod ?M = r * b ^ (unat w mod 2 ^ Suc n) mod ?M" .
  moreover have "b' mod ?M = b ^ 2 ^ Suc n mod ?M"
    using IH(2) sq by simp
  ultimately show ?case by blast
qed

text \<open>The number a list of words stands for.\<close>

fun words_val :: "u64 list \<Rightarrow> nat" where
  "words_val [] = 0"
| "words_val (w # ws) = unat w + 2 ^ 64 * words_val ws"

lemma Exp_words_correct:
  assumes "Exp_words ws r b = (r', b')"
  shows "r' mod 2 ^ 256 = r * b ^ words_val ws mod 2 ^ 256"
  using assms
proof (induction ws arbitrary: r b)
  case Nil
  then show ?case by simp
next
  case (Cons w ws)
  let ?M = "2 ^ 256 :: int"
  let ?n = "words_val ws"
  obtain r1 b1 where s: "Exp_bits 64 w r b = (r1, b1)" by force
  with Cons have IH: "r' mod ?M = r1 * b1 ^ ?n mod ?M" by simp
  have w: "unat w mod 2 ^ 64 = unat w" using unat_less_64 [of w] by simp
  from Exp_bits_correct [OF s] have r1: "r1 mod ?M = r * b ^ unat w mod ?M"
    and b1: "b1 mod ?M = b ^ 2 ^ 64 mod ?M" unfolding w by blast+
  have "r' mod ?M = (r1 mod ?M) * ((b1 mod ?M) ^ ?n mod ?M) mod ?M"
    unfolding IH by (simp only: power_mod mod_mult_eq)
  also have "\<dots> = r * b ^ unat w * (b ^ 2 ^ 64) ^ ?n mod ?M"
    unfolding r1 b1 by (simp only: power_mod mod_mult_eq)
  also have "\<dots> = r * b ^ (unat w + 2 ^ 64 * ?n) mod ?M"
    by (simp only: power_add power_mult mult.assoc)
  finally show ?case by simp
qed

lemma big_Bits_value: "words_val (big_Bits n) = n"
proof (induction n rule: big_Bits.induct)
  case (1 n)
  have "unat (of_nat n :: u64) = n mod 2 ^ 64"
    by (simp add: unat_of_nat take_bit_eq_mod)
  with 1 show ?case by (subst big_Bits.simps) simp
qed

lemma Exp_range:
  assumes "0 \<le> r" "r < 2 ^ 256"
  shows "0 \<le> fst (Exp_words ws r b)" "fst (Exp_words ws r b) < 2 ^ 256"
proof -
  have bits: "0 \<le> fst (Exp_bits n w r b) \<and> fst (Exp_bits n w r b) < 2 ^ 256"
    if "0 \<le> r" "r < 2 ^ 256" for n w r b
    using that by (induction n arbitrary: w r b) (simp_all add: U256_range)
  have "0 \<le> fst (Exp_words ws r b) \<and> fst (Exp_words ws r b) < 2 ^ 256"
    using assms
  proof (induction ws arbitrary: r b)
    case Nil
    then show ?case by simp
  next
    case (Cons w ws)
    then show ?case using bits [of r 64 w b] by (auto split: prod.splits)
  qed
  then show "0 \<le> fst (Exp_words ws r b)" "fst (Exp_words ws r b) < 2 ^ 256" by blast+
qed

lemma Exp_correct: "0 \<le> e \<Longrightarrow> fst (Exp b e) = b ^ nat e mod 2 ^ 256"
  using Exp_words_correct [of "big_Bits (nat e)" 1 b "fst (Exp b e)" "snd (Exp b e)"]
    Exp_range [of 1 "big_Bits (nat e)" b]
  by (simp add: Exp_def big_Bits_value)

section \<open>Bytes of a number\<close>

lemma big_Bits_nth: "i < length (big_Bits n) \<Longrightarrow> big_Bits n ! i = of_nat (n div 2 ^ (64 * i))"
proof (induction n arbitrary: i rule: big_Bits.induct)
  case (1 n)
  show ?case
  proof (cases "n = 0")
    case True
    with 1 show ?thesis by (simp add: big_Bits.simps)
  next
    case False
    then have eq: "big_Bits n = of_nat n # big_Bits (n div 2 ^ 64)"
      by (subst big_Bits.simps) simp
    show ?thesis
    proof (cases i)
      case 0
      then show ?thesis by (simp add: eq)
    next
      case (Suc j)
      with 1 False eq have "big_Bits n ! i = of_nat (n div 2 ^ 64 div 2 ^ (64 * j))" by simp
      then show ?thesis using Suc by (simp add: div_mult2_eq power_add)
    qed
  qed
qed

lemma big_Bits_length: "length (big_Bits n) \<le> i \<Longrightarrow> n < 2 ^ (64 * i)"
proof (induction n arbitrary: i rule: big_Bits.induct)
  case (1 n)
  show ?case
  proof (cases "n = 0")
    case False
    then have eq: "big_Bits n = of_nat n # big_Bits (n div 2 ^ 64)"
      by (subst big_Bits.simps) simp
    with 1 obtain j where j: "i = Suc j" "length (big_Bits (n div 2 ^ 64)) \<le> j"
      by (cases i) auto
    with 1 False have "n div 2 ^ 64 < 2 ^ (64 * j)" by blast
    then show ?thesis using j(1) by (simp add: power_add div_less_iff_less_mult mult.commute)
  qed simp
qed

lemma byte_of_word:
  "s \<le> 56 \<Longrightarrow> (ucast (drop_bit s (of_nat m :: u64)) :: byte) = of_nat (m div 2 ^ s)"
  by (intro bit_word_eqI) (simp add: bit_simps flip: drop_bit_eq_div)

text \<open>Both cases of \<open>bigEndianByteAt\<close> return byte \<open>n\<close> of the number, least significant first.\<close>

lemma bigEndianByteAt_correct:
  "0 \<le> x \<Longrightarrow> bigEndianByteAt x n = of_nat (nat x div 256 ^ n)"
proof -
  assume x: "0 \<le> x"
  have pow: "(256 :: nat) ^ n = 2 ^ (64 * (n div 8)) * 2 ^ (8 * (n mod 8))"
  proof -
    have "(256 :: nat) ^ n = 2 ^ (8 * n)" by (simp add: power_mult)
    also have "8 * n = 64 * (n div 8) + 8 * (n mod 8)" by presburger
    finally show ?thesis by (simp add: power_add)
  qed
  show ?thesis
  proof (cases "length (big_Bits (nat x)) \<le> n div 8")
    case True
    from big_Bits_length [OF this] have "nat x < 256 ^ n" unfolding pow
      by (metis less_le_trans mult.right_neutral mult_le_mono2 one_le_numeral one_le_power)
    with True x show ?thesis by (simp add: bigEndianByteAt_def wordBytes_def)
  next
    case False
    let ?m = "nat x div 2 ^ (64 * (n div 8))"
    have "8 * (n mod 8) \<le> 56" by presburger
    then have "ucast (drop_bit (8 * (n mod 8)) (of_nat ?m :: u64)) =
      (of_nat (?m div 2 ^ (8 * (n mod 8))) :: byte)"
      by (rule byte_of_word)
    moreover have "?m div 2 ^ (8 * (n mod 8)) = nat x div 256 ^ n"
      unfolding pow by (rule div_mult2_eq [symmetric])
    ultimately show ?thesis
      using False x by (simp add: bigEndianByteAt_def wordBytes_def big_Bits_nth not_le)
  qed
qed

lemma BitLen_nat_le: "BitLen_nat n \<le> k \<longleftrightarrow> n < 2 ^ k"
proof (induction n arbitrary: k rule: BitLen_nat.induct)
  case (1 n)
  show ?case
  proof (cases "n = 0")
    case True
    then show ?thesis by (simp add: BitLen_nat.simps)
  next
    case False
    then have "BitLen_nat n = Suc (BitLen_nat (n div 2))" by (subst BitLen_nat.simps) simp
    with 1 False show ?thesis
    proof (cases k)
      case (Suc j)
      have "n div 2 < 2 ^ j \<longleftrightarrow> n < 2 ^ k"
        unfolding Suc power_Suc2 by (rule div_less_iff_less_mult) simp
      with 1(1) [OF False, of j] show ?thesis
        unfolding \<open>BitLen_nat n = Suc (BitLen_nat (n div 2))\<close> Suc Suc_le_mono by simp
    qed simp
  qed
qed

lemma BitLen_le: "0 \<le> x \<Longrightarrow> BitLen x \<le> k \<longleftrightarrow> x < 2 ^ k"
  by (simp add: BitLen_def BitLen_nat_le nat_less_iff)

lemma BitLen_0_iff: "BitLen x = 0 \<longleftrightarrow> x = 0"
  using BitLen_nat_le [of "nat \<bar>x\<bar>" 0] by (auto simp: BitLen_def)

lemma ReadBits_word_nth:
  assumes "ReadBits_word j d i buf = (i', buf')" and "i \<le> length buf"
  shows "i' = i - j \<and> length buf' = length buf \<and>
    (\<forall>k < length buf. buf' ! k =
      (if i - j \<le> k \<and> k < i then ucast (drop_bit (8 * (i - 1 - k)) d) else buf ! k))"
  using assms
proof (induction j arbitrary: d i buf)
  case 0
  then show ?case by auto
next
  case (Suc j)
  show ?case
  proof (cases "0 < i")
    case True
    let ?buf = "buf[i - 1 := ucast d]"
    from True Suc.prems have "ReadBits_word j (drop_bit 8 d) (i - 1) ?buf = (i', buf')" by simp
    from Suc.IH [OF this] Suc.prems(2)
    have IH: "i' = i - 1 - j" "length buf' = length buf"
      "\<And>k. k < length buf \<Longrightarrow> buf' ! k =
        (if i - 1 - j \<le> k \<and> k < i - 1 then ucast (drop_bit (8 * (i - 1 - 1 - k)) (drop_bit 8 d))
         else ?buf ! k)" by auto
    have sh: "8 * (i - 1 - 1 - k) + 8 = 8 * (i - 1 - k)" if "k < i - 1" for k
      using that by arith
    have "buf' ! k = (if i - Suc j \<le> k \<and> k < i then ucast (drop_bit (8 * (i - 1 - k)) d) else buf ! k)"
      if "k < length buf" for k
    proof (cases "k < i - 1")
      case True
      have "drop_bit (8 * (i - 1 - 1 - k)) (drop_bit 8 d) = drop_bit (8 * (i - 1 - k)) d"
        by (simp only: drop_bit_drop_bit sh [OF True])
      from IH(3) [OF that, unfolded this] True show ?thesis by auto
    next
      case F: False
      then show ?thesis
        using IH(3) [OF that] True that Suc.prems(2) by (auto simp: nth_list_update)
    qed
    with IH show ?thesis by simp
  next
    case False
    then show ?thesis using Suc.prems by auto
  qed
qed

lemma ReadBits_words_nth:
  assumes "i \<le> length buf"
  shows "length (ReadBits_words ds i buf) = length buf \<and>
    (\<forall>k < length buf. ReadBits_words ds i buf ! k =
      (if k < i \<and> (i - 1 - k) div 8 < length ds
       then ucast (drop_bit (8 * ((i - 1 - k) mod 8)) (ds ! ((i - 1 - k) div 8))) else buf ! k))"
  using assms
proof (induction ds arbitrary: i buf)
  case Nil
  then show ?case by simp
next
  case (Cons d ds)
  obtain i' buf' where s: "ReadBits_word 8 d i buf = (i', buf')" by force
  from ReadBits_word_nth [OF s Cons.prems]
  have i': "i' = i - 8" "length buf' = length buf"
    and buf': "\<And>k. k < length buf \<Longrightarrow>
      buf' ! k = (if i - 8 \<le> k \<and> k < i then ucast (drop_bit (8 * (i - 1 - k)) d) else buf ! k)"
    by auto
  from i' Cons.prems have "i' \<le> length buf'" by simp
  note IH = Cons.IH [OF this]
  have "ReadBits_words (d # ds) i buf ! k =
      (if k < i \<and> (i - 1 - k) div 8 < length (d # ds)
       then ucast (drop_bit (8 * ((i - 1 - k) mod 8)) ((d # ds) ! ((i - 1 - k) div 8))) else buf ! k)"
    if k: "k < length buf" for k
  proof (cases "k < i - 8")
    case True
    then have "i - 1 - k = (i - 8 - 1 - k) + 8" by arith
    then obtain m where m: "i - 1 - k = m + 8" "i - 8 - 1 - k = m" by blast
    from IH [THEN conjunct2, rule_format, of k, unfolded i', OF k]
    have "ReadBits_words ds i' buf' ! k =
      (if k < i - 8 \<and> (i - 8 - 1 - k) div 8 < length ds
       then ucast (drop_bit (8 * ((i - 8 - 1 - k) mod 8)) (ds ! ((i - 8 - 1 - k) div 8)))
       else buf' ! k)" unfolding i' .
    then have "ReadBits_words ds i' buf' ! k =
      (if m div 8 < length ds then ucast (drop_bit (8 * (m mod 8)) (ds ! (m div 8))) else buf ! k)"
      unfolding m(2) using True buf' [OF k] by simp
    moreover have "(m + 8) div 8 = Suc (m div 8)" "(m + 8) mod 8 = m mod 8" by presburger+
    moreover from True have "k < i" by simp
    ultimately show ?thesis
      unfolding m(1) ReadBits_words.simps s wordBytes_def prod.case Let_def by simp
  next
    case False
    from IH [THEN conjunct2, rule_format, of k, unfolded i', OF k] False
    have "ReadBits_words ds i' buf' ! k = buf' ! k" unfolding i' by simp
    moreover have "(i - 1 - k) div 8 = 0" "(i - 1 - k) mod 8 = i - 1 - k" if "k < i"
      using that False by simp_all
    ultimately show ?thesis
      unfolding ReadBits_words.simps s wordBytes_def prod.case Let_def
      using False buf' [OF k] by auto
  qed
  moreover have "length (ReadBits_words (d # ds) i buf) = length buf"
    using IH [THEN conjunct1] i'(2) by (simp add: s wordBytes_def)
  ultimately show ?case by blast
qed

lemma nth_to_be: "k < n \<Longrightarrow> to_be n x ! k = of_nat (x div 256 ^ (n - 1 - k))"
proof (induction n arbitrary: x)
  case (Suc n)
  show ?case
  proof (cases "k < n")
    case True
    then have "x div 256 div 256 ^ (n - 1 - k) = x div 256 ^ (n - k)"
      by (metis Suc_diff_Suc diff_Suc_1 diff_commute div_mult2_eq power_Suc)
    with True Suc.IH [OF True, of "x div 256"] show ?thesis by (simp add: nth_append)
  next
    case False
    with Suc show ?thesis by (simp add: nth_append)
  qed
qed simp

lemma ReadBits_zero:
  assumes x: "0 \<le> x"
  shows "ReadBits x (replicate n 0) = to_be n (nat x)"
proof (rule nth_equalityI)
  have nth: "length (ReadBits x (replicate n 0)) = n"
    "\<And>k. k < n \<Longrightarrow> ReadBits x (replicate n 0) ! k = bigEndianByteAt x (n - 1 - k)"
    using ReadBits_words_nth [of n "replicate n 0" "big_Bits (nat x)"] x
    by (auto simp: ReadBits_def bigEndianByteAt_def wordBytes_def not_le)
  from nth(1) show "length (ReadBits x (replicate n 0)) = length (to_be n (nat x))" by simp
  fix k
  assume "k < length (ReadBits x (replicate n 0))"
  with nth have k: "k < n" by simp
  from nth(2) [OF k] have "ReadBits x (replicate n 0) ! k = of_nat (nat x div 256 ^ (n - 1 - k))"
    unfolding bigEndianByteAt_correct [OF x] .
  with k show "ReadBits x (replicate n 0) ! k = to_be n (nat x) ! k"
    by (simp add: nth_to_be)
qed

text \<open>A number of at most \<open>n\<close> bytes is padded to exactly \<open>n\<close>, whichever branch is taken.\<close>

lemma be_bytes_to_be: "256 ^ n \<le> x \<Longrightarrow> x < 256 ^ Suc n \<Longrightarrow> be_bytes x = to_be (Suc n) x"
proof (induction n arbitrary: x)
  case 0
  then show ?case by (simp add: be_bytes_small)
next
  case (Suc n)
  from Suc.prems have "256 ^ n \<le> x div 256" "x div 256 < 256 ^ Suc n"
    by (simp_all add: less_eq_div_iff_mult_less_eq div_less_iff_less_mult mult.commute)
  from Suc.IH [OF this] have "be_bytes (x div 256) = to_be (Suc n) (x div 256)" .
  moreover have "x \<noteq> 0" using Suc.prems(1) by (cases x) auto
  moreover have "(of_nat (x mod 256) :: byte) = of_nat x"
    by (simp add: word_unat_eq_iff unat_of_nat take_bit_eq_mod)
  ultimately show ?case by (subst be_bytes.simps) simp
qed

lemma PaddedBigBytes_correct:
  assumes x: "0 \<le> x" "x < 256 ^ n"
  shows "PaddedBigBytes x n = to_be n (nat x)"
proof (cases "n \<le> BitLen x div 8")
  case True
  show ?thesis
  proof (cases n)
    case 0
    with x True show ?thesis by (simp add: PaddedBigBytes_def big_Bytes_def)
  next
    case (Suc k)
    from True Suc have "\<not> BitLen x \<le> 8 * Suc k - 1" by presburger
    then have "(2 :: int) ^ (8 * Suc k - 1) \<le> x" using x(1) BitLen_le [of x "8 * Suc k - 1"] by linarith
    moreover have "(2 :: int) ^ (8 * k) \<le> 2 ^ (8 * Suc k - 1)" by (rule power_increasing) auto
    ultimately have "(256 :: int) ^ k \<le> x" by (simp add: power_mult)
    then have "256 ^ k \<le> nat x" by (metis nat_int nat_mono of_nat_numeral of_nat_power)
    moreover have "nat x < 256 ^ Suc k"
      using x unfolding Suc by (metis nat_less_iff of_nat_numeral of_nat_power)
    ultimately have "be_bytes (nat x) = to_be n (nat x)" unfolding Suc by (rule be_bytes_to_be)
    then show ?thesis using True x by (simp add: PaddedBigBytes_def big_Bytes_def)
  qed
next
  case False
  then show ?thesis by (simp add: PaddedBigBytes_def ReadBits_zero x)
qed

end
