(* ===== verification/Evm_Machine.thy ===== *)
theory Evm_Machine
  imports Evm_Math
begin

text \<open>
  The data of the virtual machine: \<open>stack.go\<close>, \<open>memory.go\<close>, \<open>contract.go\<close>, \<open>analysis.go\<close>,
  \<open>common.go\<close>, \<open>stack_table.go\<close>, \<open>opcodes.go\<close> and \<open>errors.go\<close> of \<open>src/gttc/core/vm\<close>.

  \<^item> the stack is a list with its top first: \<open>Back n\<close> is element \<open>n\<close>; the integers on it are
    values, since the pool hands every stack slot its own \<open>big.Int\<close>;
  \<^item> an index or slice expression out of range is the abort \<open>AbortIndex\<close> or \<open>AbortSlice\<close>; a
    slice of the memory is checked against its length (the capacity of a Go slice may be
    larger, which matters only after a run-time error has been missed);
  \<^item> \<open>nil\<close> and the empty byte slice are the same list.

  The lemmas show that the jump analysis marks exactly the bytes that are not instruction
  starts, without an access outside its bit vector.
\<close>

section \<open>Failures\<close>

datatype evm_err =
  ErrOutOfGas
| ErrCodeStoreOutOfGas
| ErrDepth
| ErrInsufficientBalance
| ErrContractAddressCollision
| errWriteProtection
| errReturnDataOutOfBounds
| errExecutionReverted
| errMaxCodeSizeExceeded
| errGasUintOverflow
| ErrInvalidOpcode byte
| ErrStackUnderflow nat nat
| ErrStackLimit nat nat
| ErrInvalidJump byte int
| ErrPrecompiled string

text \<open>Run-time panics, and \<open>AbortFuel\<close> for a loop cut short by the model's own bound.\<close>

datatype abort =
  AbortIndex | AbortSlice | AbortMemory | AbortType | AbortRevision | AbortGasPool | AbortFuel

section \<open>Stack\<close>

type_synonym Stack = "int list"

definition StackLimit :: nat where
  "StackLimit = 1024"

definition Stack_pop :: "Stack \<Rightarrow> abort + int \<times> Stack" where
  "Stack_pop st = (case st of [] \<Rightarrow> Inl AbortIndex | x # st' \<Rightarrow> Inr (x, st'))"

definition Stack_push :: "int \<Rightarrow> Stack \<Rightarrow> Stack" where
  "Stack_push d st = d # st"

definition Stack_Back :: "Stack \<Rightarrow> nat \<Rightarrow> abort + int" where
  "Stack_Back st n = (if n < length st then Inr (st ! n) else Inl AbortIndex)"

definition Stack_peek :: "Stack \<Rightarrow> abort + int" where
  "Stack_peek st = Stack_Back st 0"

definition Stack_swap :: "nat \<Rightarrow> Stack \<Rightarrow> abort + Stack" where
  "Stack_swap n st =
    (if 0 < n \<and> n \<le> length st then Inr (st[0 := st ! (n - 1), n - 1 := st ! 0]) else Inl AbortIndex)"

definition Stack_dup :: "nat \<Rightarrow> Stack \<Rightarrow> abort + Stack" where
  "Stack_dup n st =
    (if 0 < n \<and> n \<le> length st then Inr (Stack_push (st ! (n - 1)) st) else Inl AbortIndex)"

definition Stack_require :: "Stack \<Rightarrow> nat \<Rightarrow> evm_err option" where
  "Stack_require st n = (if length st < n then Some (ErrStackUnderflow (length st) n) else None)"

definition makeStackFunc :: "nat \<Rightarrow> nat \<Rightarrow> Stack \<Rightarrow> evm_err option" where
  "makeStackFunc pop push st =
    (case Stack_require st pop of
       Some err \<Rightarrow> Some err
     | None \<Rightarrow>
         if int (length st) + int push - int pop > int StackLimit
         then Some (ErrStackLimit (length st) StackLimit) else None)"

definition makeDupStackFunc :: "nat \<Rightarrow> Stack \<Rightarrow> evm_err option" where
  "makeDupStackFunc n = makeStackFunc n (n + 1)"

definition makeSwapStackFunc :: "nat \<Rightarrow> Stack \<Rightarrow> evm_err option" where
  "makeSwapStackFunc n = makeStackFunc n n"

lemma makeStackFunc_ok:
  "makeStackFunc pop push st = None \<longleftrightarrow>
    pop \<le> length st \<and> length st + push - pop \<le> StackLimit"
  by (auto simp: makeStackFunc_def Stack_require_def)

section \<open>Memory\<close>

record Memory =
  mem_store :: bytes
  mem_lastGasCost :: u64

definition NewMemory :: Memory where
  "NewMemory = \<lparr>mem_store = [], mem_lastGasCost = 0\<rparr>"

definition Memory_Len :: "Memory \<Rightarrow> nat" where
  "Memory_Len m = length (mem_store m)"

definition Memory_Set :: "Memory \<Rightarrow> u64 \<Rightarrow> u64 \<Rightarrow> bytes \<Rightarrow> abort + Memory" where
  "Memory_Set m offset sz value =
    (if length (mem_store m) < unat sz then Inl AbortMemory
     else if 0 < sz then
       (if unat (offset + sz) < unat offset \<or> length (mem_store m) < unat (offset + sz)
        then Inl AbortSlice
        else Inr (m\<lparr>mem_store := go_copy (mem_store m) (unat offset) (take (unat sz) value)\<rparr>))
     else Inr m)"

definition Memory_Resize :: "Memory \<Rightarrow> u64 \<Rightarrow> Memory" where
  "Memory_Resize m sz =
    (if Memory_Len m < unat sz
     then m\<lparr>mem_store := mem_store m @ replicate (unat sz - Memory_Len m) 0\<rparr> else m)"

text \<open>\<open>m.store[offset:offset+sz]\<close> with \<open>int64\<close> bounds: a sum that wraps is negative.\<close>

definition store_slice :: "bytes \<Rightarrow> int \<Rightarrow> int \<Rightarrow> abort + bytes" where
  "store_slice store offset sz =
    (let hi = signed_take_bit 63 (offset + sz) in
     if offset < 0 \<or> hi < offset \<or> int (length store) < hi then Inl AbortSlice
     else Inr (take (nat (hi - offset)) (drop (nat offset) store)))"

definition Memory_Get :: "Memory \<Rightarrow> int \<Rightarrow> int \<Rightarrow> abort + bytes" where
  "Memory_Get m offset sz =
    (if sz = 0 then Inr []
     else if offset < int (Memory_Len m) then
       (if sz < 0 then Inl AbortSlice
        else bindR (store_slice (mem_store m) offset sz) (\<lambda>src.
          Inr (go_copy (replicate (nat sz) 0) 0 src)))
     else Inr [])"

definition Memory_GetPtr :: "Memory \<Rightarrow> int \<Rightarrow> int \<Rightarrow> abort + bytes" where
  "Memory_GetPtr m offset sz =
    (if sz = 0 then Inr []
     else if offset < int (Memory_Len m) then store_slice (mem_store m) offset sz
     else Inr [])"

section \<open>Sizes and call data\<close>

definition calcMemSize :: "int \<Rightarrow> int \<Rightarrow> int" where
  "calcMemSize off l = (if sgn l = 0 then 0 else off + l)"

text \<open>
  \<open>make([]byte, n)\<close> panics for a negative length and for one above the limit that the allocator of
  a 64-bit machine sets; shorter slices are taken to fit in the memory there is.  The lengths
  that follow are \<open>int(size)\<close> of a \<open>uint64\<close>, which may be negative.
\<close>

definition maxAlloc :: int where
  "maxAlloc = 2 ^ 48"

definition go_make :: "int \<Rightarrow> abort + bytes" where
  "go_make n = (if n < 0 \<or> maxAlloc < n then Inl AbortMemory else Inr (replicate (nat n) 0))"

definition RightPadBytes_int :: "bytes \<Rightarrow> int \<Rightarrow> abort + bytes" where
  "RightPadBytes_int sl l =
    (if l \<le> int (length sl) then Inr sl
     else bindR (go_make l) (\<lambda>padded. Inr (go_copy padded 0 sl)))"

definition LeftPadBytes_int :: "bytes \<Rightarrow> int \<Rightarrow> abort + bytes" where
  "LeftPadBytes_int sl l =
    (if l \<le> int (length sl) then Inr sl
     else bindR (go_make l) (\<lambda>padded. Inr (go_copy padded (nat l - length sl) sl)))"

definition getData :: "bytes \<Rightarrow> u64 \<Rightarrow> u64 \<Rightarrow> abort + bytes" where
  "getData data start sz =
    (let len = (of_nat (length data) :: u64);
         start' = (if len < start then len else start);
         fin = (if len < start' + sz then len else start' + sz)
     in if fin < start' then Inl AbortSlice
        else RightPadBytes_int (take (unat fin - unat start') (drop (unat start') data)) (sint sz))"

definition getDataBig :: "bytes \<Rightarrow> int \<Rightarrow> int \<Rightarrow> abort + bytes" where
  "getDataBig data start sz =
    (let dlen = int (length data);
         s = Uint64 (BigMin start dlen);
         e = Uint64 (BigMin (BigMin start dlen + sz) dlen)
     in if e < s \<or> length data < unat e then Inl AbortSlice
        else RightPadBytes_int (take (unat e - unat s) (drop (unat s) data)) (sint (Uint64 sz)))"

definition bigUint64 :: "int \<Rightarrow> u64 \<times> bool" where
  "bigUint64 v = (Uint64 v, BitLen v > 64)"

definition toWordSize :: "u64 \<Rightarrow> u64" where
  "toWordSize sz = (if MaxUint64 - 31 < sz then MaxUint64 div 32 + 1 else (sz + 31) div 32)"

definition allZero :: "bytes \<Rightarrow> bool" where
  "allZero b = list_all (\<lambda>x. x = 0) b"

definition BigToHash :: "int \<Rightarrow> hash" where
  "BigToHash b = BytesToHash (big_Bytes b)"

definition BigToAddress :: "int \<Rightarrow> address" where
  "BigToAddress b = BytesToAddress (big_Bytes b)"

definition Hash_Big :: "hash \<Rightarrow> int" where
  "Hash_Big h = big_SetBytes (Hash_Bytes h)"

definition Address_Big :: "address \<Rightarrow> int" where
  "Address_Big a = big_SetBytes (Address_Bytes a)"

definition EmptyHash :: "hash \<Rightarrow> bool" where
  "EmptyHash h \<longleftrightarrow> h = 0"

section \<open>Opcodes the analysis needs\<close>

definition OP_JUMPDEST :: byte where
  "OP_JUMPDEST = 0x5b"

definition OP_PUSH1 :: byte where
  "OP_PUSH1 = 0x60"

definition OP_PUSH32 :: byte where
  "OP_PUSH32 = 0x7f"

section \<open>Jump destinations\<close>

definition bitvec_or :: "nat \<Rightarrow> byte \<Rightarrow> bytes \<Rightarrow> abort + bytes" where
  "bitvec_or i m bits = (if i < length bits then Inr (bits[i := bits ! i OR m]) else Inl AbortIndex)"

definition bitvec_set :: "nat \<Rightarrow> bytes \<Rightarrow> abort + bytes" where
  "bitvec_set pos = bitvec_or (pos div 8) (drop_bit (pos mod 8) 0x80)"

definition bitvec_set8 :: "nat \<Rightarrow> bytes \<Rightarrow> abort + bytes" where
  "bitvec_set8 pos bits =
    bindR (bitvec_or (pos div 8) (drop_bit (pos mod 8) 0xFF) bits)
      (bitvec_or (pos div 8 + 1) (NOT (drop_bit (pos mod 8) 0xFF)))"

definition codeSegment :: "bytes \<Rightarrow> nat \<Rightarrow> abort + bool" where
  "codeSegment bits pos =
    (if pos div 8 < length bits
     then Inr (bits ! (pos div 8) AND drop_bit (pos mod 8) 0x80 = 0) else Inl AbortIndex)"

text \<open>The two inner loops of \<open>codeBitmap\<close>: eight bits at a time, then one by one.\<close>

fun mark_push :: "nat \<Rightarrow> nat \<Rightarrow> bytes \<Rightarrow> abort + nat \<times> bytes" where
  "mark_push numbits pc bits =
    (if 8 \<le> numbits then bindR (bitvec_set8 pc bits) (\<lambda>b. mark_push (numbits - 8) (pc + 8) b)
     else if 0 < numbits then bindR (bitvec_set pc bits) (\<lambda>b. mark_push (numbits - 1) (pc + 1) b)
     else Inr (pc, bits))"

declare mark_push.simps [simp del]

text \<open>
  The outer loop.  Every turn moves the counter forward, so as many turns as the code has
  bytes are enough.
\<close>

fun codeBitmap_loop :: "nat \<Rightarrow> bytes \<Rightarrow> nat \<Rightarrow> bytes \<Rightarrow> abort + bytes" where
  "codeBitmap_loop 0 code pc bits = (if pc < length code then Inl AbortFuel else Inr bits)"
| "codeBitmap_loop (Suc n) code pc bits =
    (if pc < length code then
       (let op = code ! pc in
        if OP_PUSH1 \<le> op \<and> op \<le> OP_PUSH32 then
          (let numbits = unat (op - OP_PUSH1 + 1) in
           bindR (mark_push numbits (pc + 1) bits) (\<lambda>(pc', bits'). codeBitmap_loop n code pc' bits'))
        else codeBitmap_loop n code (pc + 1) bits)
     else Inr bits)"

definition codeBitmap :: "bytes \<Rightarrow> abort + bytes" where
  "codeBitmap code =
    codeBitmap_loop (length code) code 0 (replicate (length code div 8 + 1 + 4) 0)"

type_synonym destinations = "(hash, bytes) gomap"

definition destinations_has :: "destinations \<Rightarrow> hash \<Rightarrow> bytes \<Rightarrow> int \<Rightarrow> abort + bool \<times> destinations" where
  "destinations_has d codehash code dest =
    (let udest = Uint64 dest in
     if 63 \<le> BitLen dest \<or> of_nat (length code) \<le> udest then Inr (False, d)
     else
       bindR
         (case mget d codehash of
            Some m \<Rightarrow> Inr (m, d)
          | None \<Rightarrow> bindR (codeBitmap code) (\<lambda>m. Inr (m, mput codehash m d)))
         (\<lambda>(m, d').
           if code ! unat udest = OP_JUMPDEST
           then bindR (codeSegment m (unat udest)) (\<lambda>b. Inr (b, d'))
           else Inr (False, d')))"

section \<open>The analysis marks push data\<close>

text \<open>Where instructions start: at 0, and after an instruction and its immediate bytes.\<close>

definition push_size :: "byte \<Rightarrow> nat" where
  "push_size op = (if OP_PUSH1 \<le> op \<and> op \<le> OP_PUSH32 then unat (op - OP_PUSH1) + 1 else 0)"

definition next_start :: "bytes \<Rightarrow> nat \<Rightarrow> nat" where
  "next_start code pc = pc + 1 + push_size (code ! pc)"

inductive starts :: "bytes \<Rightarrow> nat \<Rightarrow> bool" for code where
  starts_0: "starts code 0"
| starts_next: "starts code pc \<Longrightarrow> pc < length code \<Longrightarrow> starts code (next_start code pc)"

lemma next_start_gt: "pc < next_start code pc"
  by (simp add: next_start_def)

lemma starts_gap:
  "starts code q \<Longrightarrow> starts code p \<Longrightarrow> p < length code \<Longrightarrow> p < q \<Longrightarrow> next_start code p \<le> q"
proof (induction q arbitrary: p rule: less_induct)
  case (less q)
  from less.prems(1) show ?case
  proof cases
    case starts_0
    with less.prems show ?thesis by simp
  next
    case (starts_next r)
    consider "p < r" | "p = r" | "r < p" by linarith
    then show ?thesis
    proof cases
      case 1
      then have "next_start code p \<le> r"
        using less.IH [of r p] starts_next next_start_gt [of r code] less.prems by simp
      then show ?thesis using starts_next(1) next_start_gt [of r code] by simp
    next
      case 2
      then show ?thesis using starts_next by simp
    next
      case 3
      then have "next_start code r \<le> p" using less.IH [of p r] starts_next less.prems by simp
      then show ?thesis using starts_next(1) less.prems by simp
    qed
  qed
qed

definition marked :: "bytes \<Rightarrow> nat \<Rightarrow> bool" where
  "marked bits pos \<longleftrightarrow> bit (bits ! (pos div 8)) (7 - pos mod 8)"

lemma bit_0x80: "bit (drop_bit k (0x80 :: byte)) j \<longleftrightarrow> k + j = 7"
proof -
  have eq: "(0x80 :: byte) = 2 ^ 7" by simp
  show ?thesis unfolding eq bit_drop_bit_eq comp_def bit_exp_iff by auto
qed

lemma bit_0xFF: "bit (drop_bit k (0xFF :: byte)) j \<longleftrightarrow> k + j < 8"
proof -
  have eq: "(0xFF :: byte) = - 1" by simp
  show ?thesis unfolding eq bit_drop_bit_eq comp_def bit_minus_1_iff by simp
qed

lemma and_0x80: "k < 8 \<Longrightarrow> x AND drop_bit k 0x80 = 0 \<longleftrightarrow> \<not> bit x (7 - k)" for x :: byte
proof
  have b: "bit (x AND drop_bit k 0x80) n \<longleftrightarrow> bit x n \<and> k + n = 7" for n
    unfolding bit_and_iff bit_0x80 ..
  assume k: "k < 8"
  { assume "x AND drop_bit k 0x80 = 0"
    with b [of "7 - k"] k show "\<not> bit x (7 - k)" by simp }
  { assume n: "\<not> bit x (7 - k)"
    show "x AND drop_bit k 0x80 = 0"
    proof (rule bit_word_eqI)
      fix m
      have "k + m = 7 \<Longrightarrow> m = 7 - k" by simp
      with n b [of m] show "bit (x AND drop_bit k 0x80) m \<longleftrightarrow> bit (0 :: byte) m" by auto
    qed }
qed

lemma bitvec_or_ok:
  "i < length bits \<Longrightarrow> bitvec_or i m bits = Inr (bits[i := bits ! i OR m])"
  by (simp add: bitvec_or_def)

lemma marked_or:
  "i < length bits \<Longrightarrow> marked (bits[i := bits ! i OR m]) q \<longleftrightarrow>
    marked bits q \<or> q div 8 = i \<and> bit m (7 - q mod 8)"
  by (auto simp: marked_def nth_list_update bit_or_iff)

lemma bitvec_set_ok:
  assumes "pos div 8 < length bits"
  obtains b where "bitvec_set pos bits = Inr b" "length b = length bits"
    "\<And>q. marked b q \<longleftrightarrow> marked bits q \<or> q = pos"
proof
  let ?b = "bits[pos div 8 := bits ! (pos div 8) OR drop_bit (pos mod 8) 0x80]"
  show "bitvec_set pos bits = Inr ?b"
    using assms by (simp add: bitvec_set_def bitvec_or_ok)
  have arith: "(a = i \<and> s + (7 - r) = 7) = (8 * a + r = 8 * i + s)" if "r < 8" "s < 8" for a i r s :: nat
    using that by presburger
  have eq: "q div 8 = pos div 8 \<and> pos mod 8 + (7 - q mod 8) = 7 \<longleftrightarrow> q = pos" for q
    using arith [of "q mod 8" "pos mod 8" "q div 8" "pos div 8"] by simp
  show "marked ?b q \<longleftrightarrow> marked bits q \<or> q = pos" for q
    unfolding marked_or [OF assms] bit_0x80 eq ..
qed simp

lemma bitvec_set8_ok:
  assumes "pos div 8 + 1 < length bits"
  obtains b where "bitvec_set8 pos bits = Inr b" "length b = length bits"
    "\<And>q. marked b q \<longleftrightarrow> marked bits q \<or> pos \<le> q \<and> q < pos + 8"
proof
  let ?i = "pos div 8" and ?m = "drop_bit (pos mod 8) 0xFF :: byte"
  let ?c = "bits[?i := bits ! ?i OR ?m]"
  let ?b = "?c[?i + 1 := ?c ! (?i + 1) OR NOT ?m]"
  show "bitvec_set8 pos bits = Inr ?b"
    using assms by (simp add: bitvec_set8_def bitvec_or_ok)
  have arith: "(a = i \<and> s + (7 - r) < 8 \<or> a = i + 1 \<and> \<not> s + (7 - r) < 8) =
    (8 * i + s \<le> 8 * a + r \<and> 8 * a + r < 8 * i + s + 8)" if "r < 8" "s < 8" for a i r s :: nat
    using that by presburger
  have eq: "(q div 8 = ?i \<and> pos mod 8 + (7 - q mod 8) < 8) \<or>
    (q div 8 = ?i + 1 \<and> \<not> pos mod 8 + (7 - q mod 8) < 8) \<longleftrightarrow> pos \<le> q \<and> q < pos + 8" for q
    using arith [of "q mod 8" "pos mod 8" "q div 8" ?i] by simp
  have c: "?i < length bits" "?i + 1 < length ?c" using assms by auto
  have "bit (NOT ?m) (7 - q mod 8) \<longleftrightarrow> \<not> pos mod 8 + (7 - q mod 8) < 8" for q
    unfolding bit_not_iff bit_0xFF by auto
  then show "marked ?b q \<longleftrightarrow> marked bits q \<or> pos \<le> q \<and> q < pos + 8" for q
    unfolding marked_or [OF c(2)] marked_or [OF c(1)] bit_0xFF eq [symmetric] by blast
qed simp

lemma mark_push_ok:
  assumes "(pc + n) div 8 < length bits"
  shows "\<exists>b. mark_push n pc bits = Inr (pc + n, b) \<and> length b = length bits \<and>
    (\<forall>q. marked b q \<longleftrightarrow> marked bits q \<or> pc \<le> q \<and> q < pc + n)"
  using assms
proof (induction n arbitrary: pc bits rule: less_induct)
  case (less n)
  consider "8 \<le> n" | "0 < n" "n < 8" | "n = 0" by linarith
  then show ?case
  proof cases
    case 1
    have "(pc + 8) div 8 \<le> (pc + n) div 8" using 1 by (intro div_le_mono) simp
    then have "pc div 8 + 1 < length bits" using less.prems by simp
    then obtain b where b: "bitvec_set8 pc bits = Inr b" "length b = length bits"
      "\<And>q. marked b q \<longleftrightarrow> marked bits q \<or> pc \<le> q \<and> q < pc + 8"
      by (rule bitvec_set8_ok) blast
    have "(pc + 8 + (n - 8)) div 8 < length b" using 1 less.prems b(2) by simp
    from less.IH [OF _ this] 1 b show ?thesis by (subst mark_push.simps) auto
  next
    case 2
    have "pc div 8 \<le> (pc + n) div 8" by (intro div_le_mono) simp
    then have "pc div 8 < length bits" using less.prems by simp
    then obtain b where b: "bitvec_set pc bits = Inr b" "length b = length bits"
      "\<And>q. marked b q \<longleftrightarrow> marked bits q \<or> q = pc"
      by (rule bitvec_set_ok) blast
    have "(pc + 1 + (n - 1)) div 8 < length b" using 2 less.prems b(2) by simp
    from less.IH [OF _ this] 2 b show ?thesis by (subst mark_push.simps) auto
  next
    case 3
    then show ?thesis by (subst mark_push.simps) auto
  qed
qed

lemma push_size_le: "push_size op \<le> 32"
proof (cases "OP_PUSH1 \<le> op \<and> op \<le> OP_PUSH32")
  case True
  then have "unat (op - OP_PUSH1) = unat op - 96" "unat op \<le> 127"
    by (simp_all add: OP_PUSH1_def OP_PUSH32_def word_le_nat_alt unat_sub)
  with True show ?thesis by (simp add: push_size_def)
qed (auto simp: push_size_def)

lemma push_bits: "OP_PUSH1 \<le> op \<Longrightarrow> op \<le> OP_PUSH32 \<Longrightarrow> unat (op - OP_PUSH1 + 1) = push_size op"
  using push_size_le [of op] by (simp add: push_size_def unat_word_ariths)

lemma codeBitmap_loop_ok:
  assumes "starts code pc" and "length code \<le> pc + n"
    and "length code div 8 + 5 \<le> length bits"
    and "\<And>q. q div 8 < length bits \<Longrightarrow> marked bits q \<longleftrightarrow> q < pc \<and> \<not> starts code q"
  shows "\<exists>b. codeBitmap_loop n code pc bits = Inr b \<and> length b = length bits \<and>
    (\<forall>q < length code. marked b q \<longleftrightarrow> \<not> starts code q)"
  using assms
proof (induction n arbitrary: pc bits)
  case 0
  then show ?case by auto
next
  case (Suc n)
  show ?case
  proof (cases "pc < length code")
    case False
    with Suc.prems show ?thesis by auto
  next
    case True
    let ?k = "push_size (code ! pc)"
    have next_pc: "starts code (pc + 1 + ?k)"
      using starts_next [OF Suc.prems(1) True] by (simp add: next_start_def)
    have gap: "q < pc + 1 + ?k \<and> \<not> starts code q \<longleftrightarrow> q < pc \<and> \<not> starts code q \<or> pc + 1 \<le> q \<and> q < pc + 1 + ?k"
      for q
    proof (cases q pc rule: linorder_cases)
      case greater
      with starts_gap [OF _ Suc.prems(1) True, of q] show ?thesis by (auto simp: next_start_def)
    qed (use Suc.prems(1) in auto)
    show ?thesis
    proof (cases "OP_PUSH1 \<le> code ! pc \<and> code ! pc \<le> OP_PUSH32")
      case push: True
      have "(pc + 1 + ?k) div 8 \<le> (length code + 32) div 8"
        using True push_size_le [of "code ! pc"] by (intro div_le_mono) simp
      then have "(pc + 1 + ?k) div 8 < length bits" using Suc.prems(3) by simp
      from mark_push_ok [OF this] obtain b where
        b: "mark_push ?k (pc + 1) bits = Inr (pc + 1 + ?k, b)" "length b = length bits"
        "\<And>q. marked b q \<longleftrightarrow> marked bits q \<or> pc + 1 \<le> q \<and> q < pc + 1 + ?k" by blast
      have "\<exists>b'. codeBitmap_loop n code (pc + 1 + ?k) b = Inr b' \<and> length b' = length b \<and>
        (\<forall>q < length code. marked b' q \<longleftrightarrow> \<not> starts code q)"
        using Suc.prems b gap by (intro Suc.IH next_pc) auto
      with True push b show ?thesis by (simp add: Let_def push_bits)
    next
      case False
      then have k: "?k = 0" by (auto simp: push_size_def)
      have "\<exists>b'. codeBitmap_loop n code (pc + 1) bits = Inr b' \<and> length b' = length bits \<and>
        (\<forall>q < length code. marked b' q \<longleftrightarrow> \<not> starts code q)"
        using Suc.prems gap next_pc unfolding k by (intro Suc.IH) auto
      then show ?thesis
        by (simp only: codeBitmap_loop.simps Let_def if_not_P [OF False] if_P [OF True])
    qed
  qed
qed

lemma codeSegment_marked: "pos div 8 < length bits \<Longrightarrow> codeSegment bits pos = Inr (\<not> marked bits pos)"
  using and_0x80 [of "pos mod 8" "bits ! (pos div 8)"] by (simp add: codeSegment_def marked_def)

theorem codeBitmap_ok:
  "\<exists>m. codeBitmap code = Inr m \<and> (\<forall>pos < length code. codeSegment m pos = Inr (starts code pos))"
proof -
  have "\<exists>b. codeBitmap code = Inr b \<and> length b = length (replicate (length code div 8 + 1 + 4) (0 :: byte)) \<and>
    (\<forall>q < length code. marked b q \<longleftrightarrow> \<not> starts code q)"
    unfolding codeBitmap_def
    by (rule codeBitmap_loop_ok) (auto simp: starts_0 marked_def)
  then obtain b where b: "codeBitmap code = Inr b" "length b = length code div 8 + 5"
    "\<forall>q < length code. marked b q \<longleftrightarrow> \<not> starts code q" by auto
  have "codeSegment b pos = Inr (starts code pos)" if "pos < length code" for pos
  proof -
    have "pos div 8 < length b" using that b(2) by linarith
    with that b(3) show ?thesis by (simp add: codeSegment_marked)
  qed
  with b(1) show ?thesis by blast
qed

section \<open>Contracts\<close>

record Contract =
  ct_CallerAddress :: address
  ct_self :: address
  ct_Code :: bytes
  ct_CodeHash :: hash
  ct_CodeAddr :: "address option"
  ct_Input :: bytes
  ct_Gas :: u64
  ct_value :: int
  ct_DelegateCall :: bool

datatype ContractRef = AccountRef address | ContractOf Contract

fun ContractRef_Address :: "ContractRef \<Rightarrow> address" where
  "ContractRef_Address (AccountRef a) = a"
| "ContractRef_Address (ContractOf c) = ct_self c"

text \<open>
  \<open>NewContract\<close> shares the table of analysed code with a calling contract and makes a new
  one for an external caller; \<open>d\<close> is the caller's table, the result comes with the callee's.
\<close>

definition NewContract ::
  "ContractRef \<Rightarrow> address \<Rightarrow> int \<Rightarrow> u64 \<Rightarrow> destinations \<Rightarrow> Contract \<times> destinations" where
  "NewContract caller object value gas d =
    (\<lparr>ct_CallerAddress = ContractRef_Address caller, ct_self = object, ct_Code = [],
      ct_CodeHash = 0, ct_CodeAddr = None, ct_Input = [], ct_Gas = gas, ct_value = value,
      ct_DelegateCall = False\<rparr>,
     case caller of ContractOf parent \<Rightarrow> d | AccountRef _ \<Rightarrow> [])"

definition AsDelegate :: "ContractRef \<Rightarrow> Contract \<Rightarrow> abort + Contract" where
  "AsDelegate caller c =
    (case caller of
       ContractOf parent \<Rightarrow>
         Inr (c\<lparr>ct_DelegateCall := True, ct_CallerAddress := ct_CallerAddress parent,
                ct_value := ct_value parent\<rparr>)
     | AccountRef _ \<Rightarrow> Inl AbortType)"

definition Contract_GetByte :: "Contract \<Rightarrow> u64 \<Rightarrow> byte" where
  "Contract_GetByte c n =
    (if n < of_nat (length (ct_Code c)) then ct_Code c ! unat n else 0)"

definition Contract_GetOp :: "Contract \<Rightarrow> u64 \<Rightarrow> byte" where
  "Contract_GetOp c n = Contract_GetByte c n"

definition Contract_UseGas :: "u64 \<Rightarrow> Contract \<Rightarrow> bool \<times> Contract" where
  "Contract_UseGas gas c =
    (if ct_Gas c < gas then (False, c) else (True, c\<lparr>ct_Gas := ct_Gas c - gas\<rparr>))"

definition Contract_SetCallCode :: "address \<Rightarrow> hash \<Rightarrow> bytes \<Rightarrow> Contract \<Rightarrow> Contract" where
  "Contract_SetCallCode addr hash code c =
    c\<lparr>ct_Code := code, ct_CodeHash := hash, ct_CodeAddr := Some addr\<rparr>"

section \<open>Access within bounds\<close>

text \<open>What a stack slot holds: a 256-bit number.\<close>

definition word_ok :: "int \<Rightarrow> bool" where
  "word_ok x \<longleftrightarrow> 0 \<le> x \<and> x < 2 ^ 256"

lemma U256_ok [simp]: "word_ok (U256 x)"
  by (simp add: word_ok_def)

lemma Uint64_small: "0 \<le> x \<Longrightarrow> x < 2 ^ 64 \<Longrightarrow> unat (Uint64 x) = nat x"
  by (simp add: Uint64_def unat_eq_nat_uint uint_word_of_int)

lemma Int64_small: "0 \<le> x \<Longrightarrow> x < 2 ^ 63 \<Longrightarrow> Int64 x = x"
  by (simp add: Int64_def Let_def signed_of_int signed_take_bit_int_eq_self)

lemma go_copy_Nil [simp]: "go_copy out pos [] = out"
  by (simp add: go_copy_def)

lemma length_go_copy [simp]: "length (go_copy out pos src) = length out"
  by (simp add: go_copy_def)

text \<open>
  An access of \<open>l\<close> bytes at \<open>off\<close> for which the memory has been sized does not panic.
\<close>

lemma Memory_Get_sized:
  assumes "0 \<le> off" "0 \<le> l" "calcMemSize off l \<le> int (length (mem_store m))"
    and "length (mem_store m) < 2 ^ 63"
  shows "Memory_Get m (Int64 off) (Int64 l) = Inr (take (nat l) (drop (nat off) (mem_store m)))"
proof (cases "l = 0")
  case True
  then show ?thesis by (simp add: Memory_Get_def Int64_small)
next
  case False
  with assms have b: "off + l \<le> int (length (mem_store m))" "off < 2 ^ 63" "l < 2 ^ 63" "off + l < 2 ^ 63"
    by (auto simp: calcMemSize_def sgn_if split: if_splits)
  then have i: "Int64 off = off" "Int64 l = l" "signed_take_bit 63 (off + l) = off + l"
    using assms by (auto simp: Int64_small signed_take_bit_int_eq_self)
  have "length (take (nat l) (drop (nat off) (mem_store m))) = nat l"
    using b assms by simp
  then show ?thesis
    using i b assms False
    by (simp add: Memory_Get_def Memory_Len_def store_slice_def go_copy_def)
qed

lemma Memory_GetPtr_sized:
  assumes "0 \<le> off" "0 \<le> l" "calcMemSize off l \<le> int (length (mem_store m))"
    and "length (mem_store m) < 2 ^ 63"
  shows "Memory_GetPtr m (Int64 off) (Int64 l) = Inr (take (nat l) (drop (nat off) (mem_store m)))"
proof (cases "l = 0")
  case True
  then show ?thesis by (simp add: Memory_GetPtr_def Int64_small)
next
  case False
  with assms have b: "off + l \<le> int (length (mem_store m))" "off < 2 ^ 63" "l < 2 ^ 63" "off + l < 2 ^ 63"
    by (auto simp: calcMemSize_def sgn_if split: if_splits)
  then have "Int64 off = off" "Int64 l = l" "signed_take_bit 63 (off + l) = off + l"
    using assms by (auto simp: Int64_small signed_take_bit_int_eq_self)
  with b assms False show ?thesis
    by (simp add: Memory_GetPtr_def Memory_Len_def store_slice_def)
qed

lemma Memory_Set_sized:
  assumes "0 \<le> off" "0 \<le> l" "calcMemSize off l \<le> int (length (mem_store m))"
    and "length (mem_store m) < 2 ^ 63"
  shows "Memory_Set m (Uint64 off) (Uint64 l) v =
    Inr (m\<lparr>mem_store := go_copy (mem_store m) (nat off) (take (nat l) v)\<rparr>)"
proof (cases "l = 0")
  case True
  then show ?thesis by (simp add: Memory_Set_def Uint64_def)
next
  case False
  with assms have b: "off + l \<le> int (length (mem_store m))" "off < 2 ^ 63" "l < 2 ^ 63" "off + l < 2 ^ 63"
    by (auto simp: calcMemSize_def sgn_if split: if_splits)
  then have u: "unat (Uint64 off) = nat off" "unat (Uint64 l) = nat l"
    using assms by (auto simp: Uint64_small)
  then have "unat (Uint64 off + Uint64 l) = nat off + nat l"
    using b assms by (subst unat_add_less) (auto simp: nat_less_iff)
  moreover have "0 < Uint64 l" using u False assms by (simp add: word_less_nat_alt)
  ultimately show ?thesis
    using u b assms by (simp add: Memory_Set_def)
qed

lemma Memory_Resize_length:
  "length (mem_store (Memory_Resize m sz)) = max (length (mem_store m)) (unat sz)"
  "mem_lastGasCost (Memory_Resize m sz) = mem_lastGasCost m"
  by (auto simp: Memory_Resize_def Memory_Len_def)

section \<open>Valid jumps\<close>

definition valid_jump :: "bytes \<Rightarrow> int \<Rightarrow> bool" where
  "valid_jump code dest \<longleftrightarrow>
    dest < int (length code) \<and> code ! nat dest = OP_JUMPDEST \<and> starts code (nat dest)"

text \<open>The table of analysed code is right about this code.\<close>

definition coherent :: "destinations \<Rightarrow> hash \<Rightarrow> bytes \<Rightarrow> bool" where
  "coherent d h code \<longleftrightarrow> (\<forall>m. mget d h = Some m \<longrightarrow> codeBitmap code = Inr m)"

lemma destinations_has_ok:
  assumes "word_ok dest" "coherent d h code" "length code < 2 ^ 62"
  shows "\<exists>d'. destinations_has d h code dest = Inr (valid_jump code dest, d') \<and>
    (d' = d \<or> (\<exists>m. codeBitmap code = Inr m \<and> d' = mput h m d))"
proof (cases "63 \<le> BitLen dest \<or> of_nat (length code) \<le> Uint64 dest")
  case True
  have "int (length code) \<le> dest"
  proof (cases "63 \<le> BitLen dest")
    case True
    then have "\<not> BitLen dest \<le> 62" by simp
    then have "2 ^ 62 \<le> dest" using assms(1) BitLen_le [of dest 62] by (simp add: word_ok_def)
    with assms(3) show ?thesis by simp
  next
    case False
    then have "dest < 2 ^ 62" using assms(1) BitLen_le [of dest 62] by (simp add: word_ok_def)
    then have "unat (Uint64 dest) = nat dest" using assms(1) by (simp add: word_ok_def Uint64_small)
    moreover have "unat (of_nat (length code) :: u64) = length code"
      using assms(3) by (intro unat_of_nat64) simp
    ultimately show ?thesis using True False assms(1) by (simp add: word_le_nat_alt word_ok_def le_nat_iff)
  qed
  with True show ?thesis by (simp add: destinations_has_def valid_jump_def)
next
  case False
  then have "dest < 2 ^ 62" using assms(1) BitLen_le [of dest 62] by (simp add: word_ok_def)
  then have u: "unat (Uint64 dest) = nat dest" using assms(1) by (simp add: word_ok_def Uint64_small)
  moreover have "unat (of_nat (length code) :: u64) = length code"
    using assms(3) by (intro unat_of_nat64) simp
  ultimately have lt: "nat dest < length code" using False by (simp add: word_le_nat_alt)
  obtain m where m: "codeBitmap code = Inr m" "codeSegment m (nat dest) = Inr (starts code (nat dest))"
    using codeBitmap_ok lt by blast
  have "dest < int (length code)" using lt assms(1) by (simp add: word_ok_def)
  with False u m assms(2) show ?thesis
    by (auto simp: destinations_has_def valid_jump_def coherent_def split: option.splits)
qed

end
