(* ===== verification/Evm_Arith.thy ===== *)
theory Evm_Arith
  imports Evm_Machine
begin

text \<open>
  The arithmetic, comparison and bit instructions of \<open>src/gttc/core/vm/instructions.go\<close>:
  those that only work on the stack.  An instruction takes the stack, its top first, and
  fails with an index panic when it is too short.

  \<open>alu_ops\<close> states that every one of them computes the operation on 256-bit words that the
  machine promises; \<open>opSAR\<close> is the exception, and the lemma says where it differs.
\<close>

section \<open>Instructions\<close>

fun opAdd :: "Stack \<Rightarrow> abort + Stack" where
  "opAdd (x # y # st) = Inr (U256 (x + y) # st)"
| "opAdd _ = Inl AbortIndex"

fun opSub :: "Stack \<Rightarrow> abort + Stack" where
  "opSub (x # y # st) = Inr (U256 (x - y) # st)"
| "opSub _ = Inl AbortIndex"

fun opMul :: "Stack \<Rightarrow> abort + Stack" where
  "opMul (x # y # st) = Inr (U256 (x * y) # st)"
| "opMul _ = Inl AbortIndex"

fun opDiv :: "Stack \<Rightarrow> abort + Stack" where
  "opDiv (x # y # st) = Inr ((if sgn y \<noteq> 0 then U256 (big_Div x y) else 0) # st)"
| "opDiv _ = Inl AbortIndex"

fun opSdiv :: "Stack \<Rightarrow> abort + Stack" where
  "opSdiv (a # b # st) =
    (let x = S256 a; y = S256 b in
     if sgn y = 0 \<or> sgn x = 0 then Inr (0 # st)
     else if sgn x \<noteq> sgn y then Inr (U256 (- big_Div \<bar>x\<bar> \<bar>y\<bar>) # st)
     else Inr (U256 (big_Div \<bar>x\<bar> \<bar>y\<bar>) # st))"
| "opSdiv _ = Inl AbortIndex"

fun opMod :: "Stack \<Rightarrow> abort + Stack" where
  "opMod (x # y # st) = Inr ((if sgn y = 0 then 0 else U256 (big_Mod x y)) # st)"
| "opMod _ = Inl AbortIndex"

fun opSmod :: "Stack \<Rightarrow> abort + Stack" where
  "opSmod (a # b # st) =
    (let x = S256 a; y = S256 b in
     if sgn y = 0 then Inr (0 # st)
     else if sgn x < 0 then Inr (U256 (- big_Mod \<bar>x\<bar> \<bar>y\<bar>) # st)
     else Inr (U256 (big_Mod \<bar>x\<bar> \<bar>y\<bar>) # st))"
| "opSmod _ = Inl AbortIndex"

fun opExp :: "Stack \<Rightarrow> abort + Stack" where
  "opExp (base # exponent # st) = Inr (fst (Exp base exponent) # st)"
| "opExp _ = Inl AbortIndex"

fun opSignExtend :: "Stack \<Rightarrow> abort + Stack" where
  "opSignExtend (back # st) =
    (if back < 31 then
       (let n = unat (Uint64 back * 8 + 7) in
        case st of
          [] \<Rightarrow> Inl AbortIndex
        | num # st' \<Rightarrow>
            (let mask = push_bit n 1 - 1 in
             if bit num n then Inr (U256 (num OR NOT mask) # st')
             else Inr (U256 (num AND mask) # st')))
     else Inr st)"
| "opSignExtend [] = Inl AbortIndex"

fun opNot :: "Stack \<Rightarrow> abort + Stack" where
  "opNot (x # st) = Inr (U256 (NOT x) # st)"
| "opNot [] = Inl AbortIndex"

fun opLt :: "Stack \<Rightarrow> abort + Stack" where
  "opLt (x # y # st) = Inr ((if x < y then 1 else 0) # st)"
| "opLt _ = Inl AbortIndex"

fun opGt :: "Stack \<Rightarrow> abort + Stack" where
  "opGt (x # y # st) = Inr ((if x > y then 1 else 0) # st)"
| "opGt _ = Inl AbortIndex"

fun opSlt :: "Stack \<Rightarrow> abort + Stack" where
  "opSlt (x # y # st) =
    Inr ((if tt255 \<le> x \<and> y < tt255 then 1
          else if x < tt255 \<and> tt255 \<le> y then 0
          else if x < y then 1 else 0) # st)"
| "opSlt _ = Inl AbortIndex"

fun opSgt :: "Stack \<Rightarrow> abort + Stack" where
  "opSgt (x # y # st) =
    Inr ((if tt255 \<le> x \<and> y < tt255 then 0
          else if x < tt255 \<and> tt255 \<le> y then 1
          else if x > y then 1 else 0) # st)"
| "opSgt _ = Inl AbortIndex"

fun opEq :: "Stack \<Rightarrow> abort + Stack" where
  "opEq (x # y # st) = Inr ((if x = y then 1 else 0) # st)"
| "opEq _ = Inl AbortIndex"

fun opIszero :: "Stack \<Rightarrow> abort + Stack" where
  "opIszero (x # st) = Inr ((if sgn x > 0 then 0 else 1) # st)"
| "opIszero [] = Inl AbortIndex"

fun opAnd :: "Stack \<Rightarrow> abort + Stack" where
  "opAnd (x # y # st) = Inr ((x AND y) # st)"
| "opAnd _ = Inl AbortIndex"

fun opOr :: "Stack \<Rightarrow> abort + Stack" where
  "opOr (x # y # st) = Inr ((x OR y) # st)"
| "opOr _ = Inl AbortIndex"

fun opXor :: "Stack \<Rightarrow> abort + Stack" where
  "opXor (x # y # st) = Inr ((x XOR y) # st)"
| "opXor _ = Inl AbortIndex"

fun opByte :: "Stack \<Rightarrow> abort + Stack" where
  "opByte (th # val # st) =
    Inr ((if th < 32 then uint (math_Byte val 32 (nat (Int64 th))) else 0) # st)"
| "opByte _ = Inl AbortIndex"

fun opAddmod :: "Stack \<Rightarrow> abort + Stack" where
  "opAddmod (x # y # z # st) = Inr ((if z > 0 then U256 (big_Mod (x + y) z) else 0) # st)"
| "opAddmod _ = Inl AbortIndex"

fun opMulmod :: "Stack \<Rightarrow> abort + Stack" where
  "opMulmod (x # y # z # st) = Inr ((if z > 0 then U256 (big_Mod (x * y) z) else 0) # st)"
| "opMulmod _ = Inl AbortIndex"

fun opSHL :: "Stack \<Rightarrow> abort + Stack" where
  "opSHL (a # b # st) =
    (let shift = U256 a; value = U256 b in
     if 256 \<le> shift then Inr (0 # st)
     else (let n = unat (Uint64 shift) in Inr (U256 (push_bit n value) # st)))"
| "opSHL _ = Inl AbortIndex"

fun opSHR :: "Stack \<Rightarrow> abort + Stack" where
  "opSHR (a # b # st) =
    (let shift = U256 a; value = U256 b in
     if 256 \<le> shift then Inr (0 # st)
     else (let n = unat (Uint64 shift) in Inr (U256 (drop_bit n value) # st)))"
| "opSHR _ = Inl AbortIndex"

fun opSAR :: "Stack \<Rightarrow> abort + Stack" where
  "opSAR (a # b # st) =
    (let shift = U256 a; value = S256 b in
     if 256 \<le> shift then Inr (U256 (if sgn value > 0 then 0 else - 1) # st)
     else (let n = unat (Uint64 shift) in Inr (U256 (drop_bit n value) # st)))"
| "opSAR _ = Inl AbortIndex"

fun opPop :: "Stack \<Rightarrow> abort + Stack" where
  "opPop (x # st) = Inr st"
| "opPop [] = Inl AbortIndex"

definition makeDup :: "nat \<Rightarrow> Stack \<Rightarrow> abort + Stack" where
  "makeDup n = Stack_dup n"

text \<open>\<open>makeSwap\<close> adds one to its argument: the top counts as element 1.\<close>

definition makeSwap :: "nat \<Rightarrow> Stack \<Rightarrow> abort + Stack" where
  "makeSwap n = (let n' = n + 1 in Stack_swap n')"

section \<open>Agreement with 256-bit words\<close>

abbreviation of_w :: "hash \<Rightarrow> int" where
  "of_w \<equiv> uint"

lemma of_w_range: "0 \<le> of_w x" "of_w x < 2 ^ 256"
  using unsigned_less [of x] by simp_all

lemma of_w_ok [simp]: "word_ok (of_w x)"
  using of_w_range [of x] by (simp add: word_ok_def)

lemma word_ok_of_w: "word_ok x \<Longrightarrow> \<exists>w. x = of_w w"
  by (metis U256_id U256_word word_ok_def)

lemma U256_of_w [simp]: "U256 (of_w x) = of_w x"
  using of_w_range [of x] by (intro U256_id) auto

lemma of_w_0 [simp]: "of_w x = 0 \<longleftrightarrow> x = 0"
  by (rule uint_0_iff)

lemma sint_0 [simp]: "sint x = 0 \<longleftrightarrow> x = 0" for x :: hash
proof
  assume "sint x = 0"
  have "x = word_of_int (sint x)" by simp
  also have "\<dots> = 0" unfolding \<open>sint x = 0\<close> by simp
  finally show "x = 0" .
qed simp

lemma sgn_of_w: "sgn (of_w x) = (if x = 0 then 0 else 1)"
  using of_w_range(1) [of x] by (auto simp: sgn_if order_less_le)

lemma sint_of_w: "sint x = (if of_w x < tt255 then of_w x else of_w x - 2 * tt255)"
  unfolding S256_word [symmetric] S256_def by (simp add: tt255_def tt256_def)

lemma of_w_tt255: "of_w x < 2 * tt255"
  using of_w_range(2) [of x] by (simp add: tt255_def)

lemma opAdd_word: "opAdd (of_w x # of_w y # st) = Inr (of_w (x + y) # st)"
  by (simp add: U256_word)

lemma opSub_word: "opSub (of_w x # of_w y # st) = Inr (of_w (x - y) # st)"
  by (simp add: U256_word)

lemma opMul_word: "opMul (of_w x # of_w y # st) = Inr (of_w (x * y) # st)"
  by (simp add: U256_word)

lemma opDiv_word: "opDiv (of_w x # of_w y # st) = Inr (of_w (x div y) # st)"
proof -
  have "big_Div (of_w x) (of_w y) = of_w (x div y)"
    by (auto simp: big_Div_def sgn_of_w uint_div_distrib)
  then show ?thesis by (simp add: sgn_of_w)
qed

lemma opMod_word: "opMod (of_w x # of_w y # st) = Inr (of_w (if y = 0 then 0 else x mod y) # st)"
proof -
  have "big_Mod (of_w x) (of_w y) = of_w (x mod y)"
    by (simp add: big_Mod_def uint_mod_distrib)
  then show ?thesis by (simp add: sgn_of_w)
qed

lemma opSdiv_word:
  "opSdiv (of_w x # of_w y # st) = Inr (of_w (word_of_int (sint x sdiv sint y)) # st)"
  by (auto simp: Let_def S256_word big_Div_def signed_divide_int_def sgn_if U256_word)

lemma opSmod_word:
  "opSmod (of_w x # of_w y # st) =
    Inr (of_w (if y = 0 then 0 else word_of_int (sint x smod sint y)) # st)"
proof (cases "y = 0")
  case False
  have "sint x smod sint y = sgn (sint x) * (\<bar>sint x\<bar> mod \<bar>sint y\<bar>)"
    by (simp add: signed_modulo_int_def)
  with False show ?thesis
    by (auto simp: Let_def S256_word big_Mod_def sgn_if U256_word)
qed (simp add: S256_def tt255_def)

lemma opExp_word: "opExp (of_w x # of_w y # st) = Inr (of_w (x ^ unat y) # st)"
proof -
  have "of_w (x ^ unat y) = of_w x ^ unat y mod 2 ^ 256"
    unfolding word_arith_power_alt uint_word_of_int by simp
  then show ?thesis by (simp add: Exp_correct)
qed

lemma opNot_word: "opNot (of_w x # st) = Inr (of_w (NOT x) # st)"
  by (simp add: U256_mod unsigned_not_eq take_bit_eq_mod)

lemma opLt_word: "opLt (of_w x # of_w y # st) = Inr (of_w (of_bool (x < y)) # st)"
  by (simp add: word_less_def)

lemma opGt_word: "opGt (of_w x # of_w y # st) = Inr (of_w (of_bool (y < x)) # st)"
  by (simp add: word_less_def)

lemma opEq_word: "opEq (of_w x # of_w y # st) = Inr (of_w (of_bool (x = y)) # st)"
  by (simp add: word_uint_eq_iff)

lemma opIszero_word: "opIszero (of_w x # st) = Inr (of_w (of_bool (x = 0)) # st)"
  by (simp add: sgn_of_w)

lemma opSlt_word: "opSlt (of_w x # of_w y # st) = Inr (of_w (of_bool (x <s y)) # st)"
  and opSgt_word: "opSgt (of_w x # of_w y # st) = Inr (of_w (of_bool (y <s x)) # st)"
  using of_w_range(1) [of x] of_w_range(1) [of y] of_w_tt255 [of x] of_w_tt255 [of y]
  unfolding word_sless_alt sint_of_w
  by (auto simp del: uint_ge_0 unsigned_greater_eq)

lemma bit_words:
  "opAnd (of_w x # of_w y # st) = Inr (of_w (x AND y) # st)"
  "opOr (of_w x # of_w y # st) = Inr (of_w (x OR y) # st)"
  "opXor (of_w x # of_w y # st) = Inr (of_w (x XOR y) # st)"
  by (simp_all add: uint_and uint_or uint_xor)

text \<open>Byte \<open>i\<close> counts from the most significant one.\<close>

lemma opByte_word:
  "opByte (of_w i # of_w x # st) =
    Inr (of_w (if i < 32 then drop_bit (8 * (31 - unat i)) x AND 0xFF else 0) # st)"
proof (cases "i < 32")
  case True
  then have i: "of_w i < 32" "unat i < 32"
    by (simp add: word_less_def, simp add: word_less_nat_alt)
  have "nat (Int64 (of_w i)) = unat i"
    using i of_w_range(1) [of i] by (simp add: Int64_small)
  moreover have "uint (of_nat (unat x div 256 ^ (31 - unat i)) :: byte) =
    of_w (drop_bit (8 * (31 - unat i)) x AND 0xFF)"
  proof -
    have "drop_bit (8 * (31 - unat i)) x AND 0xFF = take_bit 8 (drop_bit (8 * (31 - unat i)) x)"
      by (simp add: take_bit_eq_mask mask_eq_exp_minus_1)
    moreover have "take_bit 256 (of_w x) = of_w x"
      using of_w_range [of x] by (simp add: take_bit_int_eq_self)
    ultimately have "of_w (drop_bit (8 * (31 - unat i)) x AND 0xFF) = take_bit 8 (drop_bit (8 * (31 - unat i)) (of_w x))"
      by (simp add: unsigned_take_bit_eq unsigned_drop_bit_eq)
    moreover have "(256 :: nat) ^ n = 2 ^ (8 * n)" for n by (simp add: power_mult)
    ultimately show ?thesis
      by (simp add: unsigned_of_nat drop_bit_eq_div zdiv_int of_nat_take_bit)
  qed
  ultimately show ?thesis
    using True i bigEndianByteAt_correct [of "of_w x" "31 - unat i"] of_w_range(1) [of x]
    by (simp add: math_Byte_def)
next
  case False
  then have "\<not> of_w i < 32" by (simp add: word_less_def)
  with False show ?thesis by simp
qed

lemma opAddmod_word:
  "opAddmod (of_w x # of_w y # of_w z # st) =
    Inr (of_w (if z = 0 then 0 else word_of_int ((of_w x + of_w y) mod of_w z)) # st)"
  using of_w_range(1) [of z] by (auto simp: big_Mod_def U256_word order_less_le)

lemma opMulmod_word:
  "opMulmod (of_w x # of_w y # of_w z # st) =
    Inr (of_w (if z = 0 then 0 else word_of_int (of_w x * of_w y mod of_w z)) # st)"
  using of_w_range(1) [of z] by (auto simp: big_Mod_def U256_word order_less_le)

lemma shift_small: "i < 256 \<Longrightarrow> of_w i < 256 \<and> unat (Uint64 (of_w i)) = unat i" for i :: hash
  using of_w_range(1) [of i] by (simp add: word_less_def Uint64_small)

lemma opSHL_word:
  "opSHL (of_w i # of_w x # st) = Inr (of_w (if i < 256 then push_bit (unat i) x else 0) # st)"
proof (cases "i < 256")
  case True
  have "of_w (push_bit (unat i) x) = U256 (push_bit (unat i) (of_w x))"
    by (simp add: U256_mod unsigned_push_bit_eq take_bit_eq_mod)
  with True shift_small [OF True] show ?thesis by (simp add: Let_def)
next
  case False
  then have "256 \<le> of_w i" by (simp add: word_less_def)
  with False show ?thesis by (simp add: Let_def)
qed

lemma opSHR_word:
  "opSHR (of_w i # of_w x # st) = Inr (of_w (if i < 256 then drop_bit (unat i) x else 0) # st)"
proof (cases "i < 256")
  case True
  have "take_bit 256 (of_w x) = of_w x"
    using of_w_range [of x] by (simp add: take_bit_int_eq_self)
  then have "of_w (drop_bit (unat i) x) = drop_bit (unat i) (of_w x)"
    by (simp add: unsigned_drop_bit_eq)
  then have "U256 (drop_bit (unat i) (of_w x)) = of_w (drop_bit (unat i) x)"
    by (metis U256_of_w)
  with True shift_small [OF True] show ?thesis by (simp add: Let_def)
next
  case False
  then have "256 \<le> of_w i" by (simp add: word_less_def)
  with False show ?thesis by (simp add: Let_def)
qed

text \<open>
  The arithmetic shift is right up to a shift by 255.  Beyond, the sign decides, and the
  code counts zero among the negative numbers.
\<close>

lemma opSAR_word:
  "opSAR (of_w i # of_w x # st) =
    Inr (of_w (if i < 256 then signed_drop_bit (unat i) x
               else if 0 <s x then 0 else - 1) # st)"
proof (cases "i < 256")
  case True
  have "word_of_int (drop_bit (unat i) (sint x)) = (word_of_int (sint (signed_drop_bit (unat i) x)) :: hash)"
    by (simp only: sint_signed_drop_bit_eq)
  then have "word_of_int (drop_bit (unat i) (sint x)) = signed_drop_bit (unat i) x"
    by (simp only: of_int_sint scast_id)
  with True shift_small [OF True] show ?thesis by (simp add: Let_def S256_word U256_word)
next
  case False
  then have "256 \<le> of_w i" by (simp add: word_less_def)
  moreover have "sgn (sint x) > 0 \<longleftrightarrow> 0 <s x" by (simp add: word_sless_alt sgn_if)
  ultimately show ?thesis using False by (simp add: Let_def S256_word U256_word)
qed

lemma opSignExtend_word:
  "opSignExtend (of_w i # of_w x # st) =
    Inr (of_w (if i < 31 then word_of_int (signed_take_bit (8 * unat i + 7) (of_w x)) else x) # st)"
proof (cases "i < 31")
  case True
  then have i: "of_w i < 31" "unat i < 31"
    by (simp add: word_less_def, simp add: word_less_nat_alt)
  let ?n = "8 * unat i + 7"
  have u: "unat (Uint64 (of_w i)) = unat i"
    using i of_w_range(1) [of i] by (simp add: Uint64_small)
  have n: "unat (Uint64 (of_w i) * 8 + 7) = ?n"
    using i u by (simp add: unat_word_ariths)
  have "(if bit (of_w x) ?n then U256 (of_w x OR NOT (push_bit ?n 1 - 1)) else U256 (of_w x AND (push_bit ?n 1 - 1))) =
    U256 (signed_take_bit ?n (of_w x))"
  proof -
    have m: "push_bit ?n 1 - 1 = (mask ?n :: int)" by (simp add: mask_eq_exp_minus_1 push_bit_eq_mult)
    have o: "a OR NOT b = (a AND b) OR NOT b" for a b :: int
      by (auto simp: bit_eq_iff bit_simps)
    show ?thesis
      unfolding m o [of "of_w x"] by (simp add: signed_take_bit_def take_bit_eq_mask)
  qed
  moreover have "opSignExtend (of_w i # of_w x # st) =
    Inr ((if bit (of_w x) ?n then U256 (of_w x OR NOT (push_bit ?n 1 - 1)) else U256 (of_w x AND (push_bit ?n 1 - 1))) # st)"
    using i(1) by (cases "bit (of_w x) ?n")
      (simp_all only: opSignExtend.simps n Let_def list.case if_True if_False)
  ultimately show ?thesis using True by (simp only: U256_word if_True)
next
  case False
  then have "31 \<le> of_w i" by (simp add: word_less_def)
  with False show ?thesis by simp
qed

section \<open>Stack discipline\<close>

text \<open>
  With \<open>pop\<close> words on the stack the instruction succeeds, changes the length by
  \<open>push - pop\<close> and leaves words.
\<close>

definition stack_op_ok :: "nat \<Rightarrow> nat \<Rightarrow> (Stack \<Rightarrow> abort + Stack) \<Rightarrow> bool" where
  "stack_op_ok pop push f \<longleftrightarrow>
    (\<forall>st. pop \<le> length st \<longrightarrow> list_all word_ok st \<longrightarrow>
      (\<exists>st'. f st = Inr st' \<and> length st' + pop = length st + push \<and> list_all word_ok st'))"

lemma stack_op_ok_1:
  assumes "\<And>x st. \<exists>z. f (of_w x # st) = Inr (of_w z # st)"
  shows "stack_op_ok 1 1 f"
  unfolding stack_op_ok_def
proof (intro allI impI)
  fix st assume st: "1 \<le> length st" "list_all word_ok st"
  then obtain a st' where "st = a # st'" "word_ok a" "list_all word_ok st'" by (cases st) auto
  moreover from this obtain x where "a = of_w x" using word_ok_of_w by blast
  ultimately show "\<exists>st'. f st = Inr st' \<and> length st' + 1 = length st + 1 \<and> list_all word_ok st'"
    using assms [of x st'] by auto
qed

lemma stack_op_ok_2:
  assumes "\<And>x y st. \<exists>z. f (of_w x # of_w y # st) = Inr (of_w z # st)"
  shows "stack_op_ok 2 1 f"
  unfolding stack_op_ok_def
proof (intro allI impI)
  fix st assume st: "2 \<le> length st" "list_all word_ok st"
  then obtain a b st' where "st = a # b # st'" "word_ok a" "word_ok b" "list_all word_ok st'"
    by (cases st; cases "tl st") auto
  moreover from this obtain x y where "a = of_w x" "b = of_w y" using word_ok_of_w by blast
  ultimately show "\<exists>st'. f st = Inr st' \<and> length st' + 2 = length st + 1 \<and> list_all word_ok st'"
    using assms [of x y st'] by auto
qed

lemma stack_op_ok_3:
  assumes "\<And>x y z st. \<exists>w. f (of_w x # of_w y # of_w z # st) = Inr (of_w w # st)"
  shows "stack_op_ok 3 1 f"
  unfolding stack_op_ok_def
proof (intro allI impI)
  fix st assume st: "3 \<le> length st" "list_all word_ok st"
  then obtain a b c st' where
    "st = a # b # c # st'" "word_ok a" "word_ok b" "word_ok c" "list_all word_ok st'"
    by (cases st; cases "tl st"; cases "tl (tl st)") auto
  moreover from this obtain x y z where "a = of_w x" "b = of_w y" "c = of_w z"
    using word_ok_of_w by metis
  ultimately show "\<exists>st'. f st = Inr st' \<and> length st' + 3 = length st + 1 \<and> list_all word_ok st'"
    using assms [of x y z st'] by auto
qed

lemmas alu_words = opAdd_word opSub_word opMul_word opDiv_word opMod_word opSdiv_word opSmod_word
  opExp_word opSignExtend_word opNot_word opLt_word opGt_word opSlt_word opSgt_word opEq_word
  opIszero_word bit_words opByte_word opAddmod_word opMulmod_word opSHL_word opSHR_word opSAR_word

named_theorems stack_op_rules \<open>stack discipline of the instructions that only use the stack\<close>

lemma alu_stack_ok [stack_op_rules]:
  "stack_op_ok 2 1 opAdd" "stack_op_ok 2 1 opSub" "stack_op_ok 2 1 opMul" "stack_op_ok 2 1 opDiv"
  "stack_op_ok 2 1 opSdiv" "stack_op_ok 2 1 opMod" "stack_op_ok 2 1 opSmod" "stack_op_ok 2 1 opExp"
  "stack_op_ok 2 1 opSignExtend" "stack_op_ok 2 1 opLt" "stack_op_ok 2 1 opGt" "stack_op_ok 2 1 opSlt"
  "stack_op_ok 2 1 opSgt" "stack_op_ok 2 1 opEq" "stack_op_ok 2 1 opAnd" "stack_op_ok 2 1 opOr"
  "stack_op_ok 2 1 opXor" "stack_op_ok 2 1 opByte" "stack_op_ok 2 1 opSHL" "stack_op_ok 2 1 opSHR"
  "stack_op_ok 2 1 opSAR" "stack_op_ok 1 1 opNot" "stack_op_ok 1 1 opIszero"
  "stack_op_ok 3 1 opAddmod" "stack_op_ok 3 1 opMulmod"
  by (intro stack_op_ok_1 stack_op_ok_2 stack_op_ok_3 exI, rule alu_words)+

lemma opPop_ok [stack_op_rules]: "stack_op_ok 1 0 opPop"
  unfolding stack_op_ok_def
proof (intro allI impI)
  fix st assume "1 \<le> length st" "list_all word_ok st"
  then show "\<exists>st'. opPop st = Inr st' \<and> length st' + 1 = length st + 0 \<and> list_all word_ok st'"
    by (cases st) auto
qed

lemma makeDup_ok [stack_op_rules]: "0 < n \<Longrightarrow> stack_op_ok n (n + 1) (makeDup n)"
  by (auto simp: stack_op_ok_def makeDup_def Stack_dup_def Stack_push_def list_all_iff)

lemma makeSwap_ok [stack_op_rules]: "stack_op_ok (n + 1) (n + 1) (makeSwap n)"
  unfolding stack_op_ok_def
proof (intro allI impI)
  fix st
  assume st: "n + 1 \<le> length st" "list_all word_ok st"
  then have "0 < length st" "n < length st" by linarith+
  then have "st ! 0 \<in> set st" "st ! n \<in> set st" by (simp_all only: nth_mem)
  with st(2) have "word_ok (st ! 0)" "word_ok (st ! n)" by (auto simp: list_all_iff)
  moreover have "set (st[0 := st ! n, n := st ! 0]) \<subseteq> insert (st ! 0) (insert (st ! n) (set st))"
    by (meson dual_order.trans insert_mono set_update_subset_insert)
  ultimately have "list_all word_ok (st[0 := st ! n, n := st ! 0])"
    using st(2) by (auto simp: list_all_iff)
  with st show "\<exists>st'. makeSwap n st = Inr st' \<and> length st' + (n + 1) = length st + (n + 1) \<and>
    list_all word_ok st'"
    by (simp add: makeSwap_def Stack_swap_def)
qed

end
