(* ===== verification/Evm_Gas.thy ===== *)
theory Evm_Gas
  imports Evm_Arith
begin

text \<open>
  The state the machine works on and the price of its instructions: the interface
  \<open>StateDB\<close> (\<open>src/gttc/core/vm/interface.go\<close>), the environment of an execution
  (\<open>evm.go\<close>), the gas tables (\<open>src/gttc/params/gas_table.go\<close>,
  \<open>src/gttc/params/protocol_params.go\<close>), \<open>gas.go\<close>, \<open>gas_table.go\<close> and \<open>memory_table.go\<close>.

  The state database is used through its interface only, so it is a record of operations
  over an arbitrary type of states; \<open>Transfer\<close> and \<open>CanTransfer\<close> are those of
  \<open>src/gttc/core/evm.go\<close>.  A gas function may return an error, record the gas of a sub-call
  in \<open>callGasTemp\<close>, add to the refund counter and update the memory's last fee; it is a step
  of a small state and error monad.

  The lemmas show that the fee for memory is the difference of a quadratic function of its
  size, computed without overflow, and that the gas handed to a sub-call is always part of
  the gas charged.
\<close>

section \<open>The state database\<close>

record Log =
  log_Address :: address
  log_Topics :: "hash list"
  log_Data :: bytes
  log_BlockNumber :: u64

record 'db StateDB =
  db_CreateAccount :: "'db \<Rightarrow> address \<Rightarrow> 'db"
  db_SubBalance :: "'db \<Rightarrow> address \<Rightarrow> int \<Rightarrow> 'db"
  db_AddBalance :: "'db \<Rightarrow> address \<Rightarrow> int \<Rightarrow> 'db"
  db_GetBalance :: "'db \<Rightarrow> address \<Rightarrow> int"
  db_GetNonce :: "'db \<Rightarrow> address \<Rightarrow> u64"
  db_SetNonce :: "'db \<Rightarrow> address \<Rightarrow> u64 \<Rightarrow> 'db"
  db_GetCodeHash :: "'db \<Rightarrow> address \<Rightarrow> hash"
  db_GetCode :: "'db \<Rightarrow> address \<Rightarrow> bytes"
  db_SetCode :: "'db \<Rightarrow> address \<Rightarrow> bytes \<Rightarrow> 'db"
  db_GetCodeSize :: "'db \<Rightarrow> address \<Rightarrow> nat"
  db_AddRefund :: "'db \<Rightarrow> u64 \<Rightarrow> 'db"
  db_GetRefund :: "'db \<Rightarrow> u64"
  db_GetState :: "'db \<Rightarrow> address \<Rightarrow> hash \<Rightarrow> hash"
  db_SetState :: "'db \<Rightarrow> address \<Rightarrow> hash \<Rightarrow> hash \<Rightarrow> 'db"
  db_Suicide :: "'db \<Rightarrow> address \<Rightarrow> 'db"
  db_HasSuicided :: "'db \<Rightarrow> address \<Rightarrow> bool"
  db_Exist :: "'db \<Rightarrow> address \<Rightarrow> bool"
  db_Empty :: "'db \<Rightarrow> address \<Rightarrow> bool"
  db_Snapshot :: "'db \<Rightarrow> nat \<times> 'db"
  db_RevertToSnapshot :: "'db \<Rightarrow> nat \<Rightarrow> 'db option"
  db_AddLog :: "'db \<Rightarrow> Log \<Rightarrow> 'db"
  db_AddPreimage :: "'db \<Rightarrow> hash \<Rightarrow> bytes \<Rightarrow> 'db"

definition CanTransfer :: "'db StateDB \<Rightarrow> 'db \<Rightarrow> address \<Rightarrow> int \<Rightarrow> bool" where
  "CanTransfer D db addr amount \<longleftrightarrow> amount \<le> db_GetBalance D db addr"

definition Transfer :: "'db StateDB \<Rightarrow> 'db \<Rightarrow> address \<Rightarrow> address \<Rightarrow> int \<Rightarrow> 'db" where
  "Transfer D db sender recipient amount =
    db_AddBalance D (db_SubBalance D db sender amount) recipient amount"

text \<open>Reverting to a snapshot that is not there is a panic.\<close>

definition RevertToSnapshot :: "'db StateDB \<Rightarrow> 'db \<Rightarrow> nat \<Rightarrow> abort + 'db" where
  "RevertToSnapshot D db revid =
    (case db_RevertToSnapshot D db revid of None \<Rightarrow> Inl AbortRevision | Some db' \<Rightarrow> Inr db')"

section \<open>Environment\<close>

text \<open>Functions of the cryptographic libraries that the machine calls.\<close>

record Crypto =
  cr_Keccak256 :: "bytes \<Rightarrow> bytes"
  cr_sha256 :: "bytes \<Rightarrow> bytes"
  cr_ripemd160 :: "bytes \<Rightarrow> bytes"
  cr_Ecrecover :: "bytes \<Rightarrow> bytes \<Rightarrow> bytes option"
  cr_newCurvePoint :: "bytes \<Rightarrow> string + bytes"
  cr_newTwistPoint :: "bytes \<Rightarrow> string + bytes"
  cr_bn256Add :: "bytes \<Rightarrow> bytes \<Rightarrow> bytes"
  cr_bn256ScalarMult :: "bytes \<Rightarrow> int \<Rightarrow> bytes"
  cr_bn256PairingCheck :: "bytes list \<Rightarrow> bytes list \<Rightarrow> bool"

record ChainConfig =
  cc_HomesteadBlock :: "int option"
  cc_EIP150Block :: "int option"
  cc_EIP158Block :: "int option"
  cc_ByzantiumBlock :: "int option"
  cc_ConstantinopleBlock :: "int option"

record 'db VmEnv =
  env_db :: "'db StateDB"
  env_crypto :: Crypto
  env_chainConfig :: ChainConfig
  env_GetHash :: "u64 \<Rightarrow> hash"
  env_Origin :: address
  env_GasPrice :: int
  env_Coinbase :: address
  env_GasLimit :: u64
  env_BlockNumber :: int
  env_Time :: int
  env_Difficulty :: int
  env_NoRecursion :: bool
  env_EnablePreimageRecording :: bool

definition IsHomestead :: "'db VmEnv \<Rightarrow> bool" where
  "IsHomestead E = isForked (cc_HomesteadBlock (env_chainConfig E)) (Some (env_BlockNumber E))"

definition IsEIP150 :: "'db VmEnv \<Rightarrow> bool" where
  "IsEIP150 E = isForked (cc_EIP150Block (env_chainConfig E)) (Some (env_BlockNumber E))"

definition IsEIP158 :: "'db VmEnv \<Rightarrow> bool" where
  "IsEIP158 E = isForked (cc_EIP158Block (env_chainConfig E)) (Some (env_BlockNumber E))"

definition IsByzantium :: "'db VmEnv \<Rightarrow> bool" where
  "IsByzantium E = isForked (cc_ByzantiumBlock (env_chainConfig E)) (Some (env_BlockNumber E))"

definition IsConstantinople :: "'db VmEnv \<Rightarrow> bool" where
  "IsConstantinople E =
    isForked (cc_ConstantinopleBlock (env_chainConfig E)) (Some (env_BlockNumber E))"

text \<open>
  What changes while the machine runs: the fields of \<open>EVM\<close> and \<open>Interpreter\<close>, with the
  table of analysed code that the contracts of one call tree share.
\<close>

record 'db EVM =
  evm_StateDB :: 'db
  evm_depth :: nat
  evm_callGasTemp :: u64
  evm_readOnly :: bool
  evm_returnData :: bytes
  evm_jumpdests :: destinations

text \<open>The locals of one run of the interpreter with the objects they point to.\<close>

record 'db frame =
  fr_evm :: "'db EVM"
  fr_contract :: Contract
  fr_memory :: Memory
  fr_stack :: Stack
  fr_pc :: u64

abbreviation fr_db :: "'db frame \<Rightarrow> 'db" where
  "fr_db fr \<equiv> evm_StateDB (fr_evm fr)"

definition set_db :: "'db \<Rightarrow> 'db frame \<Rightarrow> 'db frame" where
  "set_db db fr = fr\<lparr>fr_evm := (fr_evm fr)\<lparr>evm_StateDB := db\<rparr>\<rparr>"

section \<open>Prices\<close>

record GasTable =
  gt_ExtcodeSize :: u64
  gt_ExtcodeCopy :: u64
  gt_Balance :: u64
  gt_SLoad :: u64
  gt_Calls :: u64
  gt_Suicide :: u64
  gt_ExpByte :: u64
  gt_CreateBySuicide :: u64

definition GasTableHomestead :: GasTable where
  "GasTableHomestead =
    \<lparr>gt_ExtcodeSize = 20, gt_ExtcodeCopy = 20, gt_Balance = 20, gt_SLoad = 50, gt_Calls = 40,
     gt_Suicide = 0, gt_ExpByte = 10, gt_CreateBySuicide = 0\<rparr>"

definition GasTableEIP150 :: GasTable where
  "GasTableEIP150 =
    \<lparr>gt_ExtcodeSize = 700, gt_ExtcodeCopy = 700, gt_Balance = 400, gt_SLoad = 200, gt_Calls = 700,
     gt_Suicide = 5000, gt_ExpByte = 10, gt_CreateBySuicide = 25000\<rparr>"

definition GasTableEIP158 :: GasTable where
  "GasTableEIP158 =
    \<lparr>gt_ExtcodeSize = 700, gt_ExtcodeCopy = 700, gt_Balance = 400, gt_SLoad = 200, gt_Calls = 700,
     gt_Suicide = 5000, gt_ExpByte = 50, gt_CreateBySuicide = 25000\<rparr>"

definition gasTable :: "'db VmEnv \<Rightarrow> GasTable" where
  "gasTable E =
    (if IsEIP158 E then GasTableEIP158 else if IsEIP150 E then GasTableEIP150 else GasTableHomestead)"

abbreviation "GasQuickStep \<equiv> (2 :: u64)"
abbreviation "GasFastestStep \<equiv> (3 :: u64)"
abbreviation "GasFastStep \<equiv> (5 :: u64)"
abbreviation "GasMidStep \<equiv> (8 :: u64)"
abbreviation "GasSlowStep \<equiv> (10 :: u64)"
abbreviation "GasExtStep \<equiv> (20 :: u64)"

abbreviation "MemoryGas \<equiv> (3 :: u64)"
abbreviation "QuadCoeffDiv \<equiv> (512 :: u64)"
abbreviation "CopyGas \<equiv> (3 :: u64)"
abbreviation "Sha3Gas \<equiv> (30 :: u64)"
abbreviation "Sha3WordGas \<equiv> (6 :: u64)"
abbreviation "LogGas \<equiv> (375 :: u64)"
abbreviation "LogTopicGas \<equiv> (375 :: u64)"
abbreviation "LogDataGas \<equiv> (8 :: u64)"
abbreviation "SstoreSetGas \<equiv> (20000 :: u64)"
abbreviation "SstoreResetGas \<equiv> (5000 :: u64)"
abbreviation "SstoreClearGas \<equiv> (5000 :: u64)"
abbreviation "SstoreRefundGas \<equiv> (15000 :: u64)"
abbreviation "JumpdestGas \<equiv> (1 :: u64)"
abbreviation "CreateGas \<equiv> (32000 :: u64)"
abbreviation "CreateDataGas \<equiv> (200 :: u64)"
abbreviation "CallNewAccountGas \<equiv> (25000 :: u64)"
abbreviation "CallValueTransferGas \<equiv> (9000 :: u64)"
abbreviation "CallStipend \<equiv> (2300 :: u64)"
abbreviation "SuicideRefundGas \<equiv> (24000 :: u64)"

section \<open>The fee for memory\<close>

definition memoryGasCost :: "Memory \<Rightarrow> u64 \<Rightarrow> (evm_err + u64) \<times> Memory" where
  "memoryGasCost mem newMemSize =
    (if newMemSize = 0 then (Inr 0, mem)
     else if 0xffffffffe0 < newMemSize then (Inl errGasUintOverflow, mem)
     else
       (let newMemSizeWords = toWordSize newMemSize;
            newMemSize' = newMemSizeWords * 32
        in if of_nat (Memory_Len mem) < newMemSize' then
             (let square = newMemSizeWords * newMemSizeWords;
                  linCoef = newMemSizeWords * MemoryGas;
                  quadCoef = square div QuadCoeffDiv;
                  newTotalFee = linCoef + quadCoef;
                  fee = newTotalFee - mem_lastGasCost mem
              in (Inr fee, mem\<lparr>mem_lastGasCost := newTotalFee\<rparr>))
           else (Inr 0, mem)))"

definition callGas :: "GasTable \<Rightarrow> u64 \<Rightarrow> u64 \<Rightarrow> int \<Rightarrow> u64 \<times> evm_err option" where
  "callGas gt availableGas base callCost =
    (let (gas, capped) =
       (if 0 < gt_CreateBySuicide gt then
          (let available = availableGas - base;
               gas = available - available div 64
           in (gas, 64 < BitLen callCost \<or> gas < Uint64 callCost))
        else (0, False))
     in if capped then (gas, None)
        else if 64 < BitLen callCost then (0, Some errGasUintOverflow)
        else (Uint64 callCost, None))"

section \<open>Gas functions\<close>

type_synonym ('db, 'a) gasM = "'db frame \<Rightarrow> abort + (evm_err + 'a) \<times> 'db frame"
type_synonym 'db gasFunc = "'db VmEnv \<Rightarrow> u64 \<Rightarrow> ('db, u64) gasM"

definition greturn :: "'a \<Rightarrow> ('db, 'a) gasM" where
  "greturn a fr = Inr (Inr a, fr)"

definition gfail :: "evm_err \<Rightarrow> ('db, 'a) gasM" where
  "gfail e fr = Inr (Inl e, fr)"

definition gbind :: "('db, 'a) gasM \<Rightarrow> ('a \<Rightarrow> ('db, 'b) gasM) \<Rightarrow> ('db, 'b) gasM" where
  "gbind m f fr =
    bindR (m fr) (\<lambda>(r, fr'). case r of Inl e \<Rightarrow> Inr (Inl e, fr') | Inr a \<Rightarrow> f a fr')"

definition gread :: "('db frame \<Rightarrow> 'a) \<Rightarrow> ('db, 'a) gasM" where
  "gread f fr = Inr (Inr (f fr), fr)"

definition gmodify :: "('db frame \<Rightarrow> 'db frame) \<Rightarrow> ('db, unit) gasM" where
  "gmodify f fr = Inr (Inr (), f fr)"

definition gback :: "nat \<Rightarrow> ('db, int) gasM" where
  "gback n fr = bindR (Stack_Back (fr_stack fr) n) (\<lambda>x. Inr (Inr x, fr))"

text \<open>\<open>if gas, overflow = math.SafeAdd(..); overflow { return 0, errGasUintOverflow }\<close>\<close>

definition gchecked :: "u64 \<times> bool \<Rightarrow> ('db, u64) gasM" where
  "gchecked r = (if snd r then gfail errGasUintOverflow else greturn (fst r))"

definition gmemory :: "u64 \<Rightarrow> ('db, u64) gasM" where
  "gmemory memorySize fr =
    (let (r, mem) = memoryGasCost (fr_memory fr) memorySize in Inr (r, fr\<lparr>fr_memory := mem\<rparr>))"

definition constGasFunc :: "u64 \<Rightarrow> 'db gasFunc" where
  "constGasFunc gas E ms = greturn gas"

definition gasCallDataCopy :: "'db gasFunc" where
  "gasCallDataCopy E ms =
    gbind (gmemory ms) (\<lambda>gas.
    gbind (gchecked (SafeAdd gas GasFastestStep)) (\<lambda>gas.
    gbind (gback 2) (\<lambda>x.
    gbind (gchecked (bigUint64 x)) (\<lambda>words.
    gbind (gchecked (SafeMul (toWordSize words) CopyGas)) (\<lambda>words.
    gchecked (SafeAdd gas words))))))"

definition gasReturnDataCopy :: "'db gasFunc" where
  "gasReturnDataCopy E ms =
    gbind (gmemory ms) (\<lambda>gas.
    gbind (gchecked (SafeAdd gas GasFastestStep)) (\<lambda>gas.
    gbind (gback 2) (\<lambda>x.
    gbind (gchecked (bigUint64 x)) (\<lambda>words.
    gbind (gchecked (SafeMul (toWordSize words) CopyGas)) (\<lambda>words.
    gchecked (SafeAdd gas words))))))"

definition gasSStore :: "'db gasFunc" where
  "gasSStore E ms =
    gbind (gback 1) (\<lambda>y. gbind (gback 0) (\<lambda>x.
    gbind (gread (\<lambda>fr. db_GetState (env_db E) (fr_db fr) (ct_self (fr_contract fr)) (BigToHash x)))
      (\<lambda>val.
       if EmptyHash val \<and> \<not> EmptyHash (BigToHash y) then greturn SstoreSetGas
       else if \<not> EmptyHash val \<and> EmptyHash (BigToHash y) then
         gbind (gmodify (\<lambda>fr. set_db (db_AddRefund (env_db E) (fr_db fr) SstoreRefundGas) fr))
           (\<lambda>_. greturn SstoreClearGas)
       else greturn SstoreResetGas)))"

definition makeGasLog :: "u64 \<Rightarrow> 'db gasFunc" where
  "makeGasLog n E ms =
    gbind (gback 1) (\<lambda>x.
    gbind (gchecked (bigUint64 x)) (\<lambda>requestedSize.
    gbind (gmemory ms) (\<lambda>gas.
    gbind (gchecked (SafeAdd gas LogGas)) (\<lambda>gas.
    gbind (gchecked (SafeAdd gas (n * LogTopicGas))) (\<lambda>gas.
    gbind (gchecked (SafeMul requestedSize LogDataGas)) (\<lambda>memorySizeGas.
    gchecked (SafeAdd gas memorySizeGas)))))))"

definition gasSha3 :: "'db gasFunc" where
  "gasSha3 E ms =
    gbind (gmemory ms) (\<lambda>gas.
    gbind (gchecked (SafeAdd gas Sha3Gas)) (\<lambda>gas.
    gbind (gback 1) (\<lambda>x.
    gbind (gchecked (bigUint64 x)) (\<lambda>wordGas.
    gbind (gchecked (SafeMul (toWordSize wordGas) Sha3WordGas)) (\<lambda>wordGas.
    gchecked (SafeAdd gas wordGas))))))"

definition gasCodeCopy :: "'db gasFunc" where
  "gasCodeCopy E ms =
    gbind (gmemory ms) (\<lambda>gas.
    gbind (gchecked (SafeAdd gas GasFastestStep)) (\<lambda>gas.
    gbind (gback 2) (\<lambda>x.
    gbind (gchecked (bigUint64 x)) (\<lambda>wordGas.
    gbind (gchecked (SafeMul (toWordSize wordGas) CopyGas)) (\<lambda>wordGas.
    gchecked (SafeAdd gas wordGas))))))"

definition gasExtCodeCopy :: "'db gasFunc" where
  "gasExtCodeCopy E ms =
    gbind (gmemory ms) (\<lambda>gas.
    gbind (gchecked (SafeAdd gas (gt_ExtcodeCopy (gasTable E)))) (\<lambda>gas.
    gbind (gback 3) (\<lambda>x.
    gbind (gchecked (bigUint64 x)) (\<lambda>wordGas.
    gbind (gchecked (SafeMul (toWordSize wordGas) CopyGas)) (\<lambda>wordGas.
    gchecked (SafeAdd gas wordGas))))))"

definition gasMLoad :: "'db gasFunc" where
  "gasMLoad E ms = gbind (gmemory ms) (\<lambda>gas. gchecked (SafeAdd gas GasFastestStep))"

definition gasMStore8 :: "'db gasFunc" where
  "gasMStore8 E ms = gbind (gmemory ms) (\<lambda>gas. gchecked (SafeAdd gas GasFastestStep))"

definition gasMStore :: "'db gasFunc" where
  "gasMStore E ms = gbind (gmemory ms) (\<lambda>gas. gchecked (SafeAdd gas GasFastestStep))"

definition gasCreate :: "'db gasFunc" where
  "gasCreate E ms = gbind (gmemory ms) (\<lambda>gas. gchecked (SafeAdd gas CreateGas))"

definition gasBalance :: "'db gasFunc" where
  "gasBalance E ms = greturn (gt_Balance (gasTable E))"

definition gasExtCodeSize :: "'db gasFunc" where
  "gasExtCodeSize E ms = greturn (gt_ExtcodeSize (gasTable E))"

definition gasSLoad :: "'db gasFunc" where
  "gasSLoad E ms = greturn (gt_SLoad (gasTable E))"

definition gasExp :: "'db gasFunc" where
  "gasExp E ms =
    gbind (gback 1) (\<lambda>x.
      (let expByteLen = of_nat ((BitLen x + 7) div 8);
           gas = expByteLen * gt_ExpByte (gasTable E)
       in gchecked (SafeAdd gas GasSlowStep)))"

text \<open>\<open>evm.callGasTemp, err = callGas(gt, contract.Gas, gas, stack.Back(0))\<close>\<close>

definition gcallGas :: "'db VmEnv \<Rightarrow> u64 \<Rightarrow> ('db, u64) gasM" where
  "gcallGas E gas =
    gbind (gback 0) (\<lambda>cost.
    gbind (gread (\<lambda>fr. callGas (gasTable E) (ct_Gas (fr_contract fr)) gas cost)) (\<lambda>(temp, err).
    gbind (gmodify (\<lambda>fr. fr\<lparr>fr_evm := (fr_evm fr)\<lparr>evm_callGasTemp := temp\<rparr>\<rparr>)) (\<lambda>_.
      case err of Some e \<Rightarrow> gfail e | None \<Rightarrow> greturn temp)))"

text \<open>The price of a call before memory and the gas of the callee.\<close>

definition gasCall_base :: "'db VmEnv \<Rightarrow> int \<Rightarrow> address \<Rightarrow> 'db frame \<Rightarrow> u64" where
  "gasCall_base E v address fr =
    (let transfersValue = (sgn v \<noteq> 0);
         gas = gt_Calls (gasTable E);
         gas1 =
           (if IsEIP158 E then
              (if transfersValue \<and> db_Empty (env_db E) (fr_db fr) address
               then gas + CallNewAccountGas else gas)
            else if \<not> db_Exist (env_db E) (fr_db fr) address then gas + CallNewAccountGas
            else gas)
     in if transfersValue then gas1 + CallValueTransferGas else gas1)"

definition gasCall :: "'db gasFunc" where
  "gasCall E ms =
    gbind (gback 2) (\<lambda>v. gbind (gback 1) (\<lambda>a.
    gbind (gread (gasCall_base E v (BigToAddress a))) (\<lambda>gas.
    gbind (gmemory ms) (\<lambda>memoryGas.
    gbind (gchecked (SafeAdd gas memoryGas)) (\<lambda>gas.
    gbind (gcallGas E gas) (\<lambda>temp.
    gchecked (SafeAdd gas temp)))))))"

definition gasCallCode :: "'db gasFunc" where
  "gasCallCode E ms =
    gbind (gback 2) (\<lambda>v.
    (let gas = (if sgn v \<noteq> 0 then gt_Calls (gasTable E) + CallValueTransferGas
                else gt_Calls (gasTable E)) in
     gbind (gmemory ms) (\<lambda>memoryGas.
     gbind (gchecked (SafeAdd gas memoryGas)) (\<lambda>gas.
     gbind (gcallGas E gas) (\<lambda>temp.
     gchecked (SafeAdd gas temp))))))"

definition gasReturn :: "'db gasFunc" where
  "gasReturn E ms = gmemory ms"

definition gasRevert :: "'db gasFunc" where
  "gasRevert E ms = gmemory ms"

definition gasSuicide :: "'db gasFunc" where
  "gasSuicide E ms =
    gbind
      (if IsEIP150 E then
         gbind (gback 0) (\<lambda>x.
           gread (\<lambda>fr.
             (let gas = gt_Suicide (gasTable E);
                  address = BigToAddress x
              in if IsEIP158 E then
                   (if db_Empty (env_db E) (fr_db fr) address
                       \<and> sgn (db_GetBalance (env_db E) (fr_db fr) (ct_self (fr_contract fr))) \<noteq> 0
                    then gas + gt_CreateBySuicide (gasTable E) else gas)
                 else if \<not> db_Exist (env_db E) (fr_db fr) address
                 then gas + gt_CreateBySuicide (gasTable E) else gas)))
       else greturn 0) (\<lambda>gas.
    gbind (gmodify (\<lambda>fr.
      if db_HasSuicided (env_db E) (fr_db fr) (ct_self (fr_contract fr)) then fr
      else set_db (db_AddRefund (env_db E) (fr_db fr) SuicideRefundGas) fr)) (\<lambda>_.
    greturn gas))"

definition gasDelegateCall :: "'db gasFunc" where
  "gasDelegateCall E ms =
    gbind (gmemory ms) (\<lambda>gas.
    gbind (gchecked (SafeAdd gas (gt_Calls (gasTable E)))) (\<lambda>gas.
    gbind (gcallGas E gas) (\<lambda>temp.
    gchecked (SafeAdd gas temp))))"

definition gasStaticCall :: "'db gasFunc" where
  "gasStaticCall E ms =
    gbind (gmemory ms) (\<lambda>gas.
    gbind (gchecked (SafeAdd gas (gt_Calls (gasTable E)))) (\<lambda>gas.
    gbind (gcallGas E gas) (\<lambda>temp.
    gchecked (SafeAdd gas temp))))"

definition gasPush :: "'db gasFunc" where
  "gasPush E ms = greturn GasFastestStep"

definition gasSwap :: "'db gasFunc" where
  "gasSwap E ms = greturn GasFastestStep"

definition gasDup :: "'db gasFunc" where
  "gasDup E ms = greturn GasFastestStep"

section \<open>Memory sizes\<close>

type_synonym memorySizeFunc = "Stack \<Rightarrow> abort + int"

definition calcMemSize_at :: "nat \<Rightarrow> nat \<Rightarrow> memorySizeFunc" where
  "calcMemSize_at off l st =
    bindR (Stack_Back st off) (\<lambda>o'. bindR (Stack_Back st l) (\<lambda>l'. Inr (calcMemSize o' l')))"

definition memorySha3 :: memorySizeFunc where
  "memorySha3 = calcMemSize_at 0 1"

definition memoryCallDataCopy :: memorySizeFunc where
  "memoryCallDataCopy = calcMemSize_at 0 2"

definition memoryReturnDataCopy :: memorySizeFunc where
  "memoryReturnDataCopy = calcMemSize_at 0 2"

definition memoryCodeCopy :: memorySizeFunc where
  "memoryCodeCopy = calcMemSize_at 0 2"

definition memoryExtCodeCopy :: memorySizeFunc where
  "memoryExtCodeCopy = calcMemSize_at 1 3"

definition memoryMLoad :: memorySizeFunc where
  "memoryMLoad st = bindR (Stack_Back st 0) (\<lambda>x. Inr (calcMemSize x 32))"

definition memoryMStore8 :: memorySizeFunc where
  "memoryMStore8 st = bindR (Stack_Back st 0) (\<lambda>x. Inr (calcMemSize x 1))"

definition memoryMStore :: memorySizeFunc where
  "memoryMStore st = bindR (Stack_Back st 0) (\<lambda>x. Inr (calcMemSize x 32))"

definition memoryCreate :: memorySizeFunc where
  "memoryCreate = calcMemSize_at 1 2"

definition memoryCall :: memorySizeFunc where
  "memoryCall st =
    bindR (calcMemSize_at 5 6 st) (\<lambda>x. bindR (calcMemSize_at 3 4 st) (\<lambda>y. Inr (BigMax x y)))"

definition memoryDelegateCall :: memorySizeFunc where
  "memoryDelegateCall st =
    bindR (calcMemSize_at 4 5 st) (\<lambda>x. bindR (calcMemSize_at 2 3 st) (\<lambda>y. Inr (BigMax x y)))"

definition memoryStaticCall :: memorySizeFunc where
  "memoryStaticCall st =
    bindR (calcMemSize_at 4 5 st) (\<lambda>x. bindR (calcMemSize_at 2 3 st) (\<lambda>y. Inr (BigMax x y)))"

definition memoryReturn :: memorySizeFunc where
  "memoryReturn = calcMemSize_at 0 1"

definition memoryRevert :: memorySizeFunc where
  "memoryRevert = calcMemSize_at 0 1"

definition memoryLog :: memorySizeFunc where
  "memoryLog = calcMemSize_at 0 1"

section \<open>The fee for memory is the quadratic one\<close>

definition mem_fee :: "nat \<Rightarrow> nat" where
  "mem_fee w = 3 * w + w * w div 512"

definition mem_words :: "Memory \<Rightarrow> nat" where
  "mem_words m = length (mem_store m) div 32"

text \<open>Whole words, and the last fee is that of the current size.\<close>

definition mem_inv :: "Memory \<Rightarrow> bool" where
  "mem_inv m \<longleftrightarrow> length (mem_store m) mod 32 = 0 \<and> mem_words m < 2 ^ 32 \<and>
    unat (mem_lastGasCost m) = mem_fee (mem_words m)"

lemma toWordSize_correct: "unat (toWordSize s) = (unat s + 31) div 32"
proof (cases "MaxUint64 - 31 < s")
  case True
  have "unat (MaxUint64 - 31) = 2 ^ 64 - 32"
    using unat_sub [of 31 MaxUint64] by (simp add: unat_MaxUint64 MaxUint64_def)
  with True have "2 ^ 64 - 32 < unat s" unfolding word_less_nat_alt by simp
  then have "(unat s + 31) div 32 = 2 ^ 59"
    using unat_less_64 [of s] by (intro div_nat_eqI) simp_all
  moreover have "unat (MaxUint64 div 32 + 1) = 2 ^ 59"
    by (simp add: MaxUint64_def)
  ultimately show ?thesis using True unfolding toWordSize_def by simp
next
  case False
  have "unat (MaxUint64 - 31) = 2 ^ 64 - 32"
    using unat_sub [of 31 MaxUint64] by (simp add: unat_MaxUint64 MaxUint64_def)
  with False have "unat s + 31 < 2 ^ 64" unfolding word_less_nat_alt by simp
  then have "unat (s + 31) = unat s + 31" by (simp add: unat_add_less)
  with False show ?thesis unfolding toWordSize_def by (simp add: unat_div_distrib)
qed

lemma mem_fee_mono: "v \<le> w \<Longrightarrow> mem_fee v \<le> mem_fee w"
  unfolding mem_fee_def by (intro add_mono mult_le_mono div_le_mono) auto

lemma mem_fee_less: "w < 2 ^ 32 \<Longrightarrow> mem_fee w < 2 ^ 64 \<and> w * w < 2 ^ 64"
proof -
  assume w: "w < 2 ^ 32"
  have "w * w < 2 ^ 32 * 2 ^ 32" using w by (intro mult_strict_mono) auto
  then have sq: "w * w < 2 ^ 64" by simp
  then have "w * w div 512 < 2 ^ 55" by (simp add: div_less_iff_less_mult)
  with w sq show ?thesis by (simp add: mem_fee_def)
qed

text \<open>
  Up to 2\<open>\<^sup>3\<close>\<open>\<^sup>2 - 1\<close> words the fee charged is exactly the difference of the two quadratic fees, and
  the memory is left with the last fee of the size it is about to have.
\<close>

lemma memoryGasCost_exact:
  assumes "mem_inv m" and "unat ms \<le> 0x1fffffffe0"
  defines "w \<equiv> max (mem_words m) ((unat ms + 31) div 32)"
  shows "\<exists>fee m'. memoryGasCost m ms = (Inr fee, m') \<and>
    unat fee = mem_fee w - mem_fee (mem_words m) \<and>
    mem_store m' = mem_store m \<and> unat (mem_lastGasCost m') = mem_fee w"
proof (cases "ms = 0 \<or> (unat ms + 31) div 32 \<le> mem_words m")
  case True
  have len: "length (mem_store m) = 32 * mem_words m"
    using assms(1) by (auto simp: mem_inv_def mem_words_def)
  have "\<not> 0xffffffffe0 < ms" using assms(2) by (simp add: word_less_nat_alt)
  moreover have "\<not> of_nat (Memory_Len m) < toWordSize ms * 32" if "ms \<noteq> 0"
  proof -
    have "unat (toWordSize ms * 32) = 32 * ((unat ms + 31) div 32)"
      using assms(2) by (simp add: unat_word_ariths toWordSize_correct)
    moreover have "unat (of_nat (Memory_Len m) :: u64) = 32 * mem_words m"
      using assms(1) len by (subst unat_of_nat64) (auto simp: Memory_Len_def mem_inv_def)
    ultimately show ?thesis using True that unfolding word_less_nat_alt by simp
  qed
  moreover have "w = mem_words m" using True by (auto simp: w_def)
  ultimately show ?thesis
    using assms(1) by (auto simp: memoryGasCost_def Let_def mem_inv_def)
next
  case False
  let ?w = "(unat ms + 31) div 32"
  have len: "length (mem_store m) = 32 * mem_words m"
    using assms(1) by (auto simp: mem_inv_def mem_words_def)
  have w: "?w < 2 ^ 32" "w = ?w" using assms(2) False by (auto simp: w_def)
  have uw: "unat (toWordSize ms) = ?w" by (rule toWordSize_correct)
  have "\<not> 0xffffffffe0 < ms" using assms(2) by (simp add: word_less_nat_alt)
  moreover have "of_nat (Memory_Len m) < toWordSize ms * 32"
  proof -
    have "unat (toWordSize ms * 32) = 32 * ?w"
      using w(1) uw by (simp add: unat_word_ariths)
    moreover have "unat (of_nat (Memory_Len m) :: u64) = 32 * mem_words m"
      using assms(1) len by (subst unat_of_nat64) (auto simp: Memory_Len_def mem_inv_def)
    ultimately show ?thesis using False unfolding word_less_nat_alt by simp
  qed
  moreover have total: "unat (toWordSize ms * 3 + toWordSize ms * toWordSize ms div 512) = mem_fee ?w"
  proof -
    have "unat (toWordSize ms * toWordSize ms) = ?w * ?w"
      using mem_fee_less [OF w(1)] uw by (simp add: unat_word_ariths)
    moreover have "unat (toWordSize ms * 3) = 3 * ?w"
      using w(1) uw by (simp add: unat_word_ariths)
    ultimately show ?thesis
      using mem_fee_less [OF w(1)]
      by (subst unat_add_less) (simp_all add: mem_fee_def unat_div_distrib)
  qed
  moreover have "unat (toWordSize ms * 3 + toWordSize ms * toWordSize ms div 512 - mem_lastGasCost m) =
    mem_fee ?w - mem_fee (mem_words m)"
  proof -
    have "mem_fee (mem_words m) \<le> mem_fee ?w" using False by (intro mem_fee_mono) simp
    then have "mem_lastGasCost m \<le> toWordSize ms * 3 + toWordSize ms * toWordSize ms div 512"
      using assms(1) total unfolding word_le_nat_alt by (simp add: mem_inv_def)
    then show ?thesis using assms(1) total by (simp add: unat_sub mem_inv_def)
  qed
  ultimately show ?thesis
    using False w(2) by (simp add: memoryGasCost_def Let_def)
qed

lemma whole_words_div: "(n :: nat) mod 32 = 0 \<Longrightarrow> (n + 31) div 32 = n div 32"
proof -
  assume "n mod 32 = 0"
  then obtain k where "n = 32 * k" by (metis mod_0_imp_dvd dvd_def)
  then show ?thesis by simp
qed

text \<open>The memory that was paid for is the memory the next turn starts from.\<close>

lemma mem_inv_Resize:
  assumes "mem_inv m" "unat ms \<le> 0x1fffffffe0" "ms AND 31 = 0"
    and "memoryGasCost m ms = (Inr fee, m')"
  shows "mem_inv (if 0 < ms then Memory_Resize m' ms else m')"
proof -
  have dvd: "unat ms mod 32 = 0"
  proof -
    have "unat (ms AND mask 5) = unat ms mod 32"
      by (simp only: take_bit_eq_mask [symmetric] take_bit_eq_mod) (simp add: unat_mod_distrib)
    with assms(3) show ?thesis by (simp add: mask_eq_exp_minus_1)
  qed
  from memoryGasCost_exact [OF assms(1,2)] assms(4)
  have m': "mem_store m' = mem_store m"
    "unat (mem_lastGasCost m') = mem_fee (max (mem_words m) ((unat ms + 31) div 32))" by auto
  have div: "(unat ms + 31) div 32 = unat ms div 32" by (rule whole_words_div [OF dvd])
  have fee: "unat (mem_lastGasCost m') = mem_fee (max (mem_words m) (unat ms div 32))"
    using m'(2) div by simp
  show ?thesis
  proof (cases "ms = 0")
    case True
    then show ?thesis using m' assms(1) by (simp add: mem_inv_def mem_words_def)
  next
    case False
    have len: "length (mem_store (Memory_Resize m' ms)) = max (length (mem_store m)) (unat ms)"
      using m'(1) by (simp add: Memory_Resize_length)
    have last: "mem_lastGasCost (Memory_Resize m' ms) = mem_lastGasCost m'"
      by (simp add: Memory_Resize_length)
    have words: "mem_words (Memory_Resize m' ms) = max (mem_words m) (unat ms div 32)"
      using div_le_mono [of "length (mem_store m)" "unat ms" 32]
        div_le_mono [of "unat ms" "length (mem_store m)" 32]
      by (auto simp: mem_words_def len max_def)
    have small: "max (mem_words m) (unat ms div 32) < 2 ^ 32"
      using assms(1,2) by (simp add: mem_inv_def)
    have whole: "max (length (mem_store m)) (unat ms) mod 32 = 0"
      using dvd assms(1) by (simp add: max_def mem_inv_def)
    have "mem_inv (Memory_Resize m' ms)"
      unfolding mem_inv_def words len last using small whole fee by blast
    then show ?thesis using False by (simp add: word_neq_0_conv)
  qed
qed

text \<open>
  Beyond, the square of the number of words does not fit in 64 bits, but the test in front
  of it lets sizes up to eight times larger through: 2\<open>\<^sup>3\<close>\<open>\<^sup>2\<close> words cost as much as if the
  quadratic part were zero.
\<close>

lemma memoryGasCost_wraps:
  "memoryGasCost NewMemory (2 ^ 37) =
    (Inr (3 * 2 ^ 32), NewMemory\<lparr>mem_lastGasCost := 3 * 2 ^ 32\<rparr>)"
  "mem_fee (2 ^ 32) = 3 * 2 ^ 32 + 2 ^ 55"
  by (simp_all add: memoryGasCost_def Let_def toWordSize_def MaxUint64_def Memory_Len_def NewMemory_def mem_fee_def)

section \<open>What a gas function does\<close>

text \<open>
  Total correctness of a gas function from a frame: it does not panic, and the outcome and the
  frame it leaves satisfy the postcondition.
\<close>

definition gspec ::
  "('db, 'a) gasM \<Rightarrow> 'db frame \<Rightarrow> (evm_err + 'a \<Rightarrow> 'db frame \<Rightarrow> bool) \<Rightarrow> bool" where
  "gspec m fr Q \<longleftrightarrow> (\<exists>r fr'. m fr = Inr (r, fr') \<and> Q r fr')"

named_theorems gspec_simps \<open>postconditions computed backwards through a gas function\<close>

lemma gspec_return [gspec_simps]: "gspec (greturn a) fr Q \<longleftrightarrow> Q (Inr a) fr"
  by (simp add: gspec_def greturn_def)

lemma gspec_fail [gspec_simps]: "gspec (gfail e) fr Q \<longleftrightarrow> Q (Inl e) fr"
  by (simp add: gspec_def gfail_def)

lemma gspec_read [gspec_simps]: "gspec (gread f) fr Q \<longleftrightarrow> Q (Inr (f fr)) fr"
  by (simp add: gspec_def gread_def)

lemma gspec_modify [gspec_simps]: "gspec (gmodify f) fr Q \<longleftrightarrow> Q (Inr ()) (f fr)"
  by (simp add: gspec_def gmodify_def)

lemma gspec_back [gspec_simps]:
  "gspec (gback n) fr Q \<longleftrightarrow> n < length (fr_stack fr) \<and> Q (Inr (fr_stack fr ! n)) fr"
  by (simp add: gspec_def gback_def Stack_Back_def)

lemma gspec_bind [gspec_simps]:
  "gspec (gbind m f) fr Q \<longleftrightarrow>
    gspec m fr (\<lambda>r fr'. case r of Inl e \<Rightarrow> Q (Inl e) fr' | Inr a \<Rightarrow> gspec (f a) fr' Q)"
proof (cases "m fr")
  case (Inr p)
  obtain r fr' where p: "p = (r, fr')" by (cases p)
  show ?thesis using Inr p by (cases r) (simp_all add: gspec_def gbind_def)
qed (simp add: gspec_def gbind_def)

lemma gspec_mono: "gspec m fr P \<Longrightarrow> (\<And>r fr'. P r fr' \<Longrightarrow> Q r fr') \<Longrightarrow> gspec m fr Q"
  by (auto simp: gspec_def)

text \<open>A checked sum is exact when it is returned.\<close>

lemma gspec_SafeAdd:
  assumes "\<And>z. unat z = unat x + unat y \<Longrightarrow> Q (Inr z) fr" and "Q (Inl errGasUintOverflow) fr"
  shows "gspec (gchecked (SafeAdd x y)) fr Q"
proof (cases "snd (SafeAdd x y)")
  case True
  with assms(2) show ?thesis by (simp add: gchecked_def gspec_simps)
next
  case False
  then have "SafeAdd x y = (x + y, False)" by (simp add: SafeAdd_def)
  then have "unat x + unat y < 2 ^ 64" unfolding SafeAdd_ok by blast
  then have "unat (x + y) = unat x + unat y" by (simp add: unat_add_less)
  with assms(1) \<open>SafeAdd x y = (x + y, False)\<close> show ?thesis by (simp add: gchecked_def gspec_simps)
qed

lemma gspec_SafeMul:
  assumes "\<And>z. Q (Inr z) fr" and "Q (Inl errGasUintOverflow) fr"
  shows "gspec (gchecked (SafeMul x y)) fr Q"
  using assms by (simp add: gchecked_def gspec_simps)

lemma gspec_bigUint64:
  assumes "\<And>z. Q (Inr z) fr" and "Q (Inl errGasUintOverflow) fr"
  shows "gspec (gchecked (bigUint64 x)) fr Q"
  using assms by (simp add: gchecked_def gspec_simps)

text \<open>
  The parts of a frame a gas function leaves alone; \<open>refunded\<close> relates the databases.
\<close>

definition gas_effect :: "'db VmEnv \<Rightarrow> 'db frame \<Rightarrow> 'db frame \<Rightarrow> bool" where
  "gas_effect E fr fr' \<longleftrightarrow>
    fr_contract fr' = fr_contract fr \<and> fr_stack fr' = fr_stack fr \<and> fr_pc fr' = fr_pc fr \<and>
    mem_store (fr_memory fr') = mem_store (fr_memory fr) \<and>
    evm_depth (fr_evm fr') = evm_depth (fr_evm fr) \<and>
    evm_readOnly (fr_evm fr') = evm_readOnly (fr_evm fr) \<and>
    evm_returnData (fr_evm fr') = evm_returnData (fr_evm fr) \<and>
    evm_jumpdests (fr_evm fr') = evm_jumpdests (fr_evm fr) \<and>
    (fr_db fr' = fr_db fr \<or> (\<exists>g. fr_db fr' = db_AddRefund (env_db E) (fr_db fr) g))"

lemma gas_effect_refl [simp]: "gas_effect E fr fr"
  by (simp add: gas_effect_def)

lemma gas_effect_memory:
  "gas_effect E fr fr1 \<Longrightarrow> mem_store m = mem_store (fr_memory fr1) \<Longrightarrow>
    gas_effect E fr (fr1\<lparr>fr_memory := m\<rparr>)"
  by (simp add: gas_effect_def)

lemma gas_effect_temp:
  "gas_effect E fr fr1 \<Longrightarrow>
    gas_effect E fr (fr1\<lparr>fr_evm := (fr_evm fr1)\<lparr>evm_callGasTemp := t\<rparr>\<rparr>)"
  by (simp add: gas_effect_def)

lemma gas_effect_call:
  "mem_store m = mem_store (fr_memory fr) \<Longrightarrow>
    gas_effect E fr (fr\<lparr>fr_memory := m, fr_evm := (fr_evm fr)\<lparr>evm_callGasTemp := t\<rparr>\<rparr>)"
  by (simp add: gas_effect_def)

lemma gas_effect_refund:
  "gas_effect E fr (set_db (db_AddRefund (env_db E) (fr_db fr) g) fr)"
  by (auto simp: gas_effect_def set_db_def)

lemma memoryGasCost_store: "memoryGasCost m ms = (r, m') \<Longrightarrow> mem_store m' = mem_store m"
  by (auto simp: memoryGasCost_def Let_def split: if_splits)

lemma memoryGasCost_sized: "memoryGasCost m ms = (Inr fee, m') \<Longrightarrow> unat ms \<le> 0xffffffffe0"
  by (auto simp: memoryGasCost_def Let_def word_less_nat_alt split: if_splits)

text \<open>Paying for memory: no other change, and the size is one that the test lets through.\<close>

lemma gspec_memory:
  assumes "\<And>fee m. memoryGasCost (fr_memory fr) ms = (Inr fee, m) \<Longrightarrow>
      mem_store m = mem_store (fr_memory fr) \<Longrightarrow> unat ms \<le> 0xffffffffe0 \<Longrightarrow>
      Q (Inr fee) (fr\<lparr>fr_memory := m\<rparr>)"
    and "\<And>e m. mem_store m = mem_store (fr_memory fr) \<Longrightarrow> Q (Inl e) (fr\<lparr>fr_memory := m\<rparr>)"
  shows "gspec (gmemory ms) fr Q"
proof -
  obtain r m where rm: "memoryGasCost (fr_memory fr) ms = (r, m)" by fastforce
  have "Q r (fr\<lparr>fr_memory := m\<rparr>)"
    using assms rm memoryGasCost_store [OF rm] memoryGasCost_sized by (cases r) blast+
  then show ?thesis unfolding gspec_def gmemory_def rm by simp
qed

text \<open>
  The contract of a gas function that is only asked with at least \<open>pops\<close> words on the stack: at
  least \<open>lo\<close> is charged; if the instruction uses memory, its size has passed the test.
\<close>

definition gas_ok :: "nat \<Rightarrow> nat \<Rightarrow> bool \<Rightarrow> 'db gasFunc \<Rightarrow> bool" where
  "gas_ok pops lo mem g \<longleftrightarrow>
    (\<forall>E ms fr. pops \<le> length (fr_stack fr) \<longrightarrow>
      gspec (g E ms) fr (\<lambda>r fr'. gas_effect E fr fr' \<and>
        (\<forall>c. r = Inr c \<longrightarrow> lo \<le> unat c \<and> (mem \<longrightarrow> unat ms \<le> 0xffffffffe0))))"

lemma gasTable_prices:
  "40 \<le> unat (gt_Calls (gasTable E))" "unat (gt_Calls (gasTable E)) \<le> 700"
  "1 \<le> unat (gt_SLoad (gasTable E))" "1 \<le> unat (gt_Balance (gasTable E))"
  "1 \<le> unat (gt_ExtcodeSize (gasTable E))" "1 \<le> unat (gt_ExtcodeCopy (gasTable E))"
  by (simp_all add: gasTable_def GasTableEIP158_def GasTableEIP150_def GasTableHomestead_def)

named_theorems gas_rules \<open>contracts of the gas functions\<close>

lemma constGasFunc_ok [gas_rules]: "lo \<le> unat g \<Longrightarrow> gas_ok 0 lo False (constGasFunc g)"
  by (simp add: gas_ok_def constGasFunc_def gspec_simps)

lemma gas_flat_ok [gas_rules]:
  "gas_ok 0 1 False gasBalance" "gas_ok 0 1 False gasExtCodeSize" "gas_ok 0 1 False gasSLoad"
  "gas_ok 0 1 False gasPush" "gas_ok 0 1 False gasSwap" "gas_ok 0 1 False gasDup"
  using gasTable_prices
  by (auto simp add: gas_ok_def gasBalance_def gasExtCodeSize_def gasSLoad_def gasPush_def gasSwap_def
      gasDup_def gspec_simps simp del: One_nat_def)


lemmas gas_steps = gspec_memory gspec_SafeAdd gspec_SafeMul gspec_bigUint64

lemma gas_memory_ok [gas_rules]:
  "gas_ok 0 3 True gasMLoad" "gas_ok 0 3 True gasMStore8" "gas_ok 0 3 True gasMStore"
  "gas_ok 0 32000 True gasCreate" "gas_ok 0 0 True gasReturn" "gas_ok 0 0 True gasRevert"
  unfolding gas_ok_def gasMLoad_def gasMStore8_def gasMStore_def gasCreate_def gasReturn_def gasRevert_def
  by (auto intro!: gas_steps gas_effect_memory simp: gspec_simps)

lemma gas_copy_ok [gas_rules]:
  "gas_ok 3 3 True gasCallDataCopy" "gas_ok 3 3 True gasReturnDataCopy" "gas_ok 3 3 True gasCodeCopy"
  unfolding gas_ok_def gasCallDataCopy_def gasReturnDataCopy_def gasCodeCopy_def
  by (auto intro!: gas_steps gas_effect_memory simp: gspec_simps)

lemma gas_word_ok [gas_rules]:
  "gas_ok 2 30 True gasSha3" "gas_ok 2 375 True (makeGasLog n)"
  unfolding gas_ok_def gasSha3_def makeGasLog_def
  by (auto intro!: gas_steps gas_effect_memory simp: gspec_simps)

lemma gas_extcode_ok [gas_rules]: "gas_ok 4 1 True gasExtCodeCopy"
  unfolding gas_ok_def
proof (intro allI impI)
  fix E :: "'a VmEnv" and ms and fr :: "'a frame"
  assume "4 \<le> length (fr_stack fr)"
  then show "gspec (gasExtCodeCopy E ms) fr (\<lambda>r fr'. gas_effect E fr fr' \<and>
      (\<forall>c. r = Inr c \<longrightarrow> 1 \<le> unat c \<and> (True \<longrightarrow> unat ms \<le> 0xffffffffe0)))"
    unfolding gasExtCodeCopy_def using gasTable_prices(6) [of E]
    by (auto intro!: gas_steps gas_effect_memory simp: gspec_simps)
qed

lemma gas_store_ok [gas_rules]:
  "gas_ok 2 5000 False gasSStore" "gas_ok 1 0 False gasSuicide" "gas_ok 2 10 False gasExp"
  unfolding gas_ok_def gasSStore_def gasSuicide_def gasExp_def Let_def
  by (auto intro!: gas_steps gas_effect_refund simp: gspec_simps)

section \<open>The gas of a sub-call\<close>

lemma gspec_callGas:
  assumes "\<And>t. Q (Inr t) (fr\<lparr>fr_evm := (fr_evm fr)\<lparr>evm_callGasTemp := t\<rparr>\<rparr>)"
    and "\<And>t e. Q (Inl e) (fr\<lparr>fr_evm := (fr_evm fr)\<lparr>evm_callGasTemp := t\<rparr>\<rparr>)" and "fr_stack fr \<noteq> []"
  shows "gspec (gcallGas E gas) fr Q"
  using assms by (auto simp: gcallGas_def gspec_simps split: prod.splits option.splits)

text \<open>
  What is charged for a call contains the gas that the callee gets, and on top of it at least 40
  gas, and 9000 when the call moves value: more than the stipend of 2300 the callee then gets.
\<close>

lemma call_prices:
  "unat (gt_Calls (gasTable E) + CallValueTransferGas) = unat (gt_Calls (gasTable E)) + 9000"
  "unat (gt_Calls (gasTable E) + CallNewAccountGas) = unat (gt_Calls (gasTable E)) + 25000"
  "unat (gt_Calls (gasTable E) + CallNewAccountGas + CallValueTransferGas) =
    unat (gt_Calls (gasTable E)) + 34000"
proof -
  have le: "unat (gt_Calls (gasTable E)) \<le> 700" by (rule gasTable_prices(2))
  show "unat (gt_Calls (gasTable E) + CallValueTransferGas) = unat (gt_Calls (gasTable E)) + 9000"
    "unat (gt_Calls (gasTable E) + CallNewAccountGas) = unat (gt_Calls (gasTable E)) + 25000"
    using le by (simp_all add: unat_add_less)
  have "gt_Calls (gasTable E) + CallNewAccountGas + CallValueTransferGas = gt_Calls (gasTable E) + 34000"
    by simp
  then show "unat (gt_Calls (gasTable E) + CallNewAccountGas + CallValueTransferGas) =
      unat (gt_Calls (gasTable E)) + 34000"
    using le by (simp add: unat_add_less)
qed

definition call_gas_post ::
  "'db VmEnv \<Rightarrow> bool \<Rightarrow> u64 \<Rightarrow> 'db frame \<Rightarrow> evm_err + u64 \<Rightarrow> 'db frame \<Rightarrow> bool" where
  "call_gas_post E valued ms fr r fr' \<longleftrightarrow> gas_effect E fr fr' \<and>
    (\<forall>c. r = Inr c \<longrightarrow>
      unat (evm_callGasTemp (fr_evm fr')) + 40 +
        (if valued \<and> sgn (fr_stack fr ! 2) \<noteq> 0 then 9000 else 0) \<le> unat c \<and>
      unat ms \<le> 0xffffffffe0)"

definition call_gas_ok :: "nat \<Rightarrow> bool \<Rightarrow> 'db gasFunc \<Rightarrow> bool" where
  "call_gas_ok pops valued g \<longleftrightarrow>
    (\<forall>E ms fr. pops \<le> length (fr_stack fr) \<longrightarrow> gspec (g E ms) fr (call_gas_post E valued ms fr))"

lemma gasCall_base_ok:
  "40 + (if sgn v \<noteq> 0 then 9000 else 0) \<le> unat (gasCall_base E v a fr)"
  using gasTable_prices(1) [of E] call_prices [of E] by (simp add: gasCall_base_def Let_def)

lemma gasCall_ok [gas_rules]: "call_gas_ok 7 True gasCall"
  unfolding call_gas_ok_def
proof (intro allI impI)
  fix E :: "'a VmEnv" and ms and fr :: "'a frame"
  assume "7 \<le> length (fr_stack fr)"
  then show "gspec (gasCall E ms) fr (call_gas_post E True ms fr)"
    unfolding gasCall_def using gasCall_base_ok [of "fr_stack fr ! 2" E "BigToAddress (fr_stack fr ! 1)" fr]
    by (auto intro!: gas_steps gspec_callGas gas_effect_memory gas_effect_call
        simp: gspec_simps call_gas_post_def)
qed

lemma gasCallCode_ok [gas_rules]: "call_gas_ok 7 True gasCallCode"
  unfolding call_gas_ok_def
proof (intro allI impI)
  fix E :: "'a VmEnv" and ms and fr :: "'a frame"
  assume "7 \<le> length (fr_stack fr)"
  then show "gspec (gasCallCode E ms) fr (call_gas_post E True ms fr)"
    unfolding gasCallCode_def using gasTable_prices(1) [of E] call_prices(1) [of E]
    by (auto intro!: gas_steps gspec_callGas gas_effect_memory gas_effect_call
        simp: gspec_simps Let_def call_gas_post_def)
qed

lemma gasDelegateCall_ok [gas_rules]: "call_gas_ok 6 False gasDelegateCall"
  unfolding call_gas_ok_def
proof (intro allI impI)
  fix E :: "'a VmEnv" and ms and fr :: "'a frame"
  assume "6 \<le> length (fr_stack fr)"
  then show "gspec (gasDelegateCall E ms) fr (call_gas_post E False ms fr)"
    unfolding gasDelegateCall_def using gasTable_prices(1) [of E]
    by (auto intro!: gas_steps gspec_callGas gas_effect_memory gas_effect_call
        simp: gspec_simps call_gas_post_def)
qed

lemma gasStaticCall_eq: "gasStaticCall = gasDelegateCall"
  by (intro ext) (simp add: gasStaticCall_def gasDelegateCall_def)

lemma gasStaticCall_ok [gas_rules]: "call_gas_ok 6 False gasStaticCall"
  unfolding gasStaticCall_eq by (rule gasDelegateCall_ok)

text \<open>
  The 63/64 rule: from EIP 150 on the callee gets at most what is left after one sixty-fourth of
  the gas that remains when the price of the call itself is paid.
\<close>

lemma callGas_63_64:
  assumes "callGas gt availableGas base callCost = (g, None)" and "base \<le> availableGas"
    and "0 < gt_CreateBySuicide gt"
  shows "unat g \<le> unat availableGas - unat base - (unat availableGas - unat base) div 64"
    and "0 \<le> callCost \<Longrightarrow>
      unat g = min (nat callCost) (unat availableGas - unat base - (unat availableGas - unat base) div 64)"
proof -
  let ?a = "availableGas - base"
  let ?m = "?a - ?a div 64"
  have a: "unat ?a = unat availableGas - unat base"
    by (rule unat_sub [OF assms(2)])
  have m: "unat ?m = unat ?a - unat ?a div 64"
    by (subst unat_sub) (simp_all add: unat_div_distrib div_le_dividend word_le_nat_alt)
  have g: "g = (if 64 < BitLen callCost \<or> ?m < Uint64 callCost then ?m else Uint64 callCost)"
    using assms(1,3) by (auto simp: callGas_def Let_def split: if_splits)
  show "unat g \<le> unat availableGas - unat base - (unat availableGas - unat base) div 64"
    unfolding a [symmetric] m [symmetric] g by (auto simp: word_le_nat_alt [symmetric])
  assume nn: "0 \<le> callCost"
  have small: "BitLen callCost \<le> 64 \<Longrightarrow> unat (Uint64 callCost) = nat callCost"
    using nn BitLen_le [of callCost 64] by (simp add: Uint64_small)
  have big: "64 < BitLen callCost \<Longrightarrow> unat ?m \<le> nat callCost"
    using nn BitLen_le [of callCost 64] unat_less_64 [of ?m] by (simp add: not_le nat_le_iff)
  show "unat g = min (nat callCost)
      (unat availableGas - unat base - (unat availableGas - unat base) div 64)"
    unfolding a [symmetric] m [symmetric] g using small big
    by (cases "64 < BitLen callCost") (auto simp: word_less_nat_alt min_def)
qed

end
