(* ===== verification/Gttc_Crypto.thy ===== *)
theory Gttc_Crypto
  imports Alien_Types
begin

text \<open>
  The parts of \<open>src/gttc/crypto/crypto.go\<close> that need no curve arithmetic: the ranges of signature
  values and the address of a new contract.  The hash is an argument.
\<close>

definition secp256k1N :: int where
  "secp256k1N = 0xfffffffffffffffffffffffffffffffebaaedce6af48a03bbfd25e8cd0364141"

definition secp256k1halfN :: int where
  "secp256k1halfN = secp256k1N div 2"

definition ValidateSignatureValues :: "byte \<Rightarrow> int \<Rightarrow> int \<Rightarrow> bool \<Rightarrow> bool" where
  "ValidateSignatureValues v r s homestead =
    (if r < 1 \<or> s < 1 then False
     else if homestead \<and> secp256k1halfN < s then False
     else r < secp256k1N \<and> s < secp256k1N \<and> (v = 0 \<or> v = 1))"

text \<open>\<open>[]interface{}{b, nonce}\<close> encodes like a struct of the two; the error is dropped.\<close>

definition CreateAddress :: "(bytes \<Rightarrow> bytes) \<Rightarrow> address \<Rightarrow> u64 \<Rightarrow> address" where
  "CreateAddress keccak b nonce =
    (let d = (case EncodeToBytes (TStruct [t_Address, t_u64]) (VStruct [to_Address b, VUint nonce]) of
                Inr d \<Rightarrow> d | Inl e \<Rightarrow> [])
     in BytesToAddress (drop 12 (keccak d)))"

end
