(* ===== verification/Evm_Calls.thy ===== *)
theory Evm_Calls
  imports Evm_Gas Gttc_Crypto
begin

text \<open>
  Message calls: the precompiled contracts (\<open>src/gttc/core/vm/contracts.go\<close>) and \<open>Call\<close>,
  \<open>CallCode\<close>, \<open>DelegateCall\<close>, \<open>StaticCall\<close> and \<open>Create\<close> (\<open>src/gttc/core/vm/evm.go\<close>).

  A call runs the callee's code with \<open>Interpreter.Run\<close>, which may call again; the runner is an
  argument here and is tied to the interpreter, one nesting level at a time, in the theory
  of the interpreter.  Elliptic curves and hash functions are the functions of the
  \<open>Crypto\<close> record.  The tracer's hooks and timing are left out.
\<close>

section \<open>Precompiled contracts\<close>

record PrecompiledContract =
  pc_RequiredGas :: "bytes \<Rightarrow> abort + u64"
  pc_Run :: "bytes \<Rightarrow> abort + bytes \<times> evm_err option"

definition ecrecover_RequiredGas :: "bytes \<Rightarrow> abort + u64" where
  "ecrecover_RequiredGas input = Inr 3000"

definition ecrecover_Run :: "Crypto \<Rightarrow> bytes \<Rightarrow> abort + bytes \<times> evm_err option" where
  "ecrecover_Run C input0 =
    (let input = RightPadBytes input0 128;
         r = big_SetBytes (take 32 (drop 64 input));
         s = big_SetBytes (take 32 (drop 96 input));
         v = input ! 63 - 27
     in if \<not> allZero (take 31 (drop 32 input)) \<or> \<not> ValidateSignatureValues v r s False
        then Inr ([], None)
        else
          (case cr_Ecrecover C (take 32 input) (take 64 (drop 64 input) @ [v]) of
             None \<Rightarrow> Inr ([], None)
           | Some pubKey \<Rightarrow>
               Inr (LeftPadBytes (drop 12 (cr_Keccak256 C (drop 1 pubKey))) 32, None)))"

definition per_word :: "bytes \<Rightarrow> u64 \<Rightarrow> u64 \<Rightarrow> abort + u64" where
  "per_word input word base = Inr (of_nat (length input + 31) div 32 * word + base)"

definition sha256hash_RequiredGas :: "bytes \<Rightarrow> abort + u64" where
  "sha256hash_RequiredGas input = per_word input 12 60"

definition sha256hash_Run :: "Crypto \<Rightarrow> bytes \<Rightarrow> abort + bytes \<times> evm_err option" where
  "sha256hash_Run C input = Inr (cr_sha256 C input, None)"

definition ripemd160hash_RequiredGas :: "bytes \<Rightarrow> abort + u64" where
  "ripemd160hash_RequiredGas input = per_word input 120 600"

definition ripemd160hash_Run :: "Crypto \<Rightarrow> bytes \<Rightarrow> abort + bytes \<times> evm_err option" where
  "ripemd160hash_Run C input = Inr (LeftPadBytes (cr_ripemd160 C input) 32, None)"

definition dataCopy_RequiredGas :: "bytes \<Rightarrow> abort + u64" where
  "dataCopy_RequiredGas input = per_word input 3 15"

definition dataCopy_Run :: "bytes \<Rightarrow> abort + bytes \<times> evm_err option" where
  "dataCopy_Run inp = Inr (inp, None)"

text \<open>The three lengths in front of the operands, and the operands.\<close>

definition modexp_len :: "bytes \<Rightarrow> u64 \<Rightarrow> abort + int" where
  "modexp_len input off = bindR (getData input off 32) (\<lambda>b. Inr (big_SetBytes b))"

definition bigModExp_RequiredGas :: "bytes \<Rightarrow> abort + u64" where
  "bigModExp_RequiredGas input0 =
    bindR (modexp_len input0 0) (\<lambda>baseLen.
    bindR (modexp_len input0 32) (\<lambda>expLen.
    bindR (modexp_len input0 64) (\<lambda>modLen.
    (let input = (if 96 < length input0 then drop 96 input0 else []) in
     bindR
       (if int (length input) \<le> baseLen then Inr 0
        else if 32 < expLen then
          bindR (getData input (Uint64 baseLen) 32) (\<lambda>b. Inr (big_SetBytes b))
        else bindR (getData input (Uint64 baseLen) (Uint64 expLen)) (\<lambda>b. Inr (big_SetBytes b)))
       (\<lambda>expHead.
       (let msb = (if 0 < BitLen expHead then BitLen expHead - 1 else 0);
            adjExpLen = (if 32 < expLen then 8 * (expLen - 32) else 0) + int msb;
            x = BigMax modLen baseLen;
            mult =
              (if x \<le> 64 then x * x
               else if x \<le> 1024 then big_Div (x * x) 4 + (96 * x - 3072)
               else big_Div (x * x) 16 + (480 * x - 199680));
            gas = big_Div (mult * BigMax adjExpLen 1) 20
        in if 64 < BitLen gas then Inr MaxUint64 else Inr (Uint64 gas)))))))"

text \<open>\<open>big.Int.Exp\<close> with a modulus.\<close>

definition big_Exp_mod :: "int \<Rightarrow> int \<Rightarrow> int \<Rightarrow> int" where
  "big_Exp_mod b e m = b ^ nat e mod \<bar>m\<bar>"

definition bigModExp_Run :: "bytes \<Rightarrow> abort + bytes \<times> evm_err option" where
  "bigModExp_Run input0 =
    bindR (modexp_len input0 0) (\<lambda>bl.
    bindR (modexp_len input0 32) (\<lambda>el.
    bindR (modexp_len input0 64) (\<lambda>ml.
    (let baseLen = Uint64 bl; expLen = Uint64 el; modLen = Uint64 ml;
         input = (if 96 < length input0 then drop 96 input0 else [])
     in if baseLen = 0 \<and> modLen = 0 then Inr ([], None)
        else
          bindR (getData input 0 baseLen) (\<lambda>b.
          bindR (getData input baseLen expLen) (\<lambda>e.
          bindR (getData input (baseLen + expLen) modLen) (\<lambda>m.
          (let base = big_SetBytes b; exp = big_SetBytes e; modulus = big_SetBytes m in
           bindR
             (if BitLen modulus = 0 then LeftPadBytes_int [] (sint modLen)
              else LeftPadBytes_int (big_Bytes (big_Exp_mod base exp modulus)) (sint modLen))
             (\<lambda>r. Inr (r, None))))))))))"

definition bn256Add_RequiredGas :: "bytes \<Rightarrow> abort + u64" where
  "bn256Add_RequiredGas input = Inr 500"

definition bn256Add_Run :: "Crypto \<Rightarrow> bytes \<Rightarrow> abort + bytes \<times> evm_err option" where
  "bn256Add_Run C input =
    bindR (getData input 0 64) (\<lambda>d1.
    case cr_newCurvePoint C d1 of Inl e \<Rightarrow> Inr ([], Some (ErrPrecompiled e))
    | Inr x \<Rightarrow>
        bindR (getData input 64 64) (\<lambda>d2.
        case cr_newCurvePoint C d2 of Inl e \<Rightarrow> Inr ([], Some (ErrPrecompiled e))
        | Inr y \<Rightarrow> Inr (cr_bn256Add C x y, None)))"

definition bn256ScalarMul_RequiredGas :: "bytes \<Rightarrow> abort + u64" where
  "bn256ScalarMul_RequiredGas input = Inr 40000"

definition bn256ScalarMul_Run :: "Crypto \<Rightarrow> bytes \<Rightarrow> abort + bytes \<times> evm_err option" where
  "bn256ScalarMul_Run C input =
    bindR (getData input 0 64) (\<lambda>d1.
    case cr_newCurvePoint C d1 of Inl e \<Rightarrow> Inr ([], Some (ErrPrecompiled e))
    | Inr p \<Rightarrow>
        bindR (getData input 64 32) (\<lambda>d2.
        Inr (cr_bn256ScalarMult C p (big_SetBytes d2), None)))"

definition bn256Pairing_RequiredGas :: "bytes \<Rightarrow> abort + u64" where
  "bn256Pairing_RequiredGas input = Inr (100000 + of_nat (length input div 192) * 80000)"

fun bn256Pairing_points ::
  "Crypto \<Rightarrow> nat \<Rightarrow> bytes \<Rightarrow> bytes list \<Rightarrow> bytes list \<Rightarrow> evm_err + bytes list \<times> bytes list" where
  "bn256Pairing_points C 0 input cs ts = Inr (cs, ts)"
| "bn256Pairing_points C (Suc n) input cs ts =
    (case cr_newCurvePoint C (take 64 input) of Inl e \<Rightarrow> Inl (ErrPrecompiled e)
     | Inr c \<Rightarrow>
         (case cr_newTwistPoint C (take 128 (drop 64 input)) of Inl e \<Rightarrow> Inl (ErrPrecompiled e)
          | Inr t \<Rightarrow> bn256Pairing_points C n (drop 192 input) (cs @ [c]) (ts @ [t])))"

definition true32Byte :: bytes where
  "true32Byte = replicate 31 0 @ [1]"

definition false32Byte :: bytes where
  "false32Byte = replicate 32 0"

definition bn256Pairing_Run :: "Crypto \<Rightarrow> bytes \<Rightarrow> abort + bytes \<times> evm_err option" where
  "bn256Pairing_Run C input =
    (if 0 < length input mod 192
     then Inr ([], Some (ErrPrecompiled ''bad elliptic curve pairing size''))
     else
       (case bn256Pairing_points C (length input div 192) input [] [] of
          Inl e \<Rightarrow> Inr ([], Some e)
        | Inr (cs, ts) \<Rightarrow>
            if cr_bn256PairingCheck C cs ts then Inr (true32Byte, None)
            else Inr (false32Byte, None)))"

definition PrecompiledContractsHomestead :: "Crypto \<Rightarrow> address \<Rightarrow> PrecompiledContract option" where
  "PrecompiledContractsHomestead C addr =
    (if addr = 1 then Some \<lparr>pc_RequiredGas = ecrecover_RequiredGas, pc_Run = ecrecover_Run C\<rparr>
     else if addr = 2 then Some \<lparr>pc_RequiredGas = sha256hash_RequiredGas, pc_Run = sha256hash_Run C\<rparr>
     else if addr = 3 then Some \<lparr>pc_RequiredGas = ripemd160hash_RequiredGas, pc_Run = ripemd160hash_Run C\<rparr>
     else if addr = 4 then Some \<lparr>pc_RequiredGas = dataCopy_RequiredGas, pc_Run = dataCopy_Run\<rparr>
     else None)"

definition PrecompiledContractsByzantium :: "Crypto \<Rightarrow> address \<Rightarrow> PrecompiledContract option" where
  "PrecompiledContractsByzantium C addr =
    (if addr = 5 then Some \<lparr>pc_RequiredGas = bigModExp_RequiredGas, pc_Run = bigModExp_Run\<rparr>
     else if addr = 6 then Some \<lparr>pc_RequiredGas = bn256Add_RequiredGas, pc_Run = bn256Add_Run C\<rparr>
     else if addr = 7 then Some \<lparr>pc_RequiredGas = bn256ScalarMul_RequiredGas, pc_Run = bn256ScalarMul_Run C\<rparr>
     else if addr = 8 then Some \<lparr>pc_RequiredGas = bn256Pairing_RequiredGas, pc_Run = bn256Pairing_Run C\<rparr>
     else PrecompiledContractsHomestead C addr)"

definition precompiles :: "'db VmEnv \<Rightarrow> address \<Rightarrow> PrecompiledContract option" where
  "precompiles E =
    (if IsByzantium E then PrecompiledContractsByzantium (env_crypto E)
     else PrecompiledContractsHomestead (env_crypto E))"

definition RunPrecompiledContract ::
  "PrecompiledContract \<Rightarrow> bytes \<Rightarrow> Contract \<Rightarrow> abort + (bytes \<times> evm_err option) \<times> Contract" where
  "RunPrecompiledContract p input contract =
    bindR (pc_RequiredGas p input) (\<lambda>gas.
      (let (ok, contract') = Contract_UseGas gas contract in
       if ok then bindR (pc_Run p input) (\<lambda>r. Inr (r, contract'))
       else Inr (([], Some ErrOutOfGas), contract')))"

section \<open>Running a contract\<close>

type_synonym 'db runner =
  "'db EVM \<Rightarrow> Contract \<Rightarrow> bytes \<Rightarrow> abort + (bytes \<times> evm_err option) \<times> 'db EVM \<times> Contract"

definition evm_run :: "'db VmEnv \<Rightarrow> 'db runner \<Rightarrow> 'db runner" where
  "evm_run E R evm contract input =
    (case (case ct_CodeAddr contract of None \<Rightarrow> None | Some a \<Rightarrow> precompiles E a) of
       Some p \<Rightarrow>
         bindR (RunPrecompiledContract p input contract) (\<lambda>(r, contract'). Inr (r, evm, contract'))
     | None \<Rightarrow> R evm contract input)"

definition CallCreateDepth :: nat where
  "CallCreateDepth = 1024"

text \<open>
  What every call does when its code has returned: an error undoes the changes, and costs the
  remaining gas unless the callee asked for the revert.
\<close>

definition call_end ::
  "'db VmEnv \<Rightarrow> nat \<Rightarrow> (bytes \<times> evm_err option) \<times> 'db EVM \<times> Contract
    \<Rightarrow> abort + (bytes \<times> u64 \<times> evm_err option) \<times> 'db EVM" where
  "call_end E snapshot =
    (\<lambda>((ret, err), evm, contract).
      case err of
        None \<Rightarrow> Inr ((ret, ct_Gas contract, None), evm)
      | Some e \<Rightarrow>
          bindR (RevertToSnapshot (env_db E) (evm_StateDB evm) snapshot) (\<lambda>db.
            (let contract' =
               (if e \<noteq> errExecutionReverted
                then snd (Contract_UseGas (ct_Gas contract) contract) else contract)
             in Inr ((ret, ct_Gas contract', Some e), evm\<lparr>evm_StateDB := db\<rparr>))))"

definition set_code :: "'db VmEnv \<Rightarrow> 'db \<Rightarrow> address \<Rightarrow> Contract \<Rightarrow> Contract" where
  "set_code E db addr =
    Contract_SetCallCode addr (db_GetCodeHash (env_db E) db addr) (db_GetCode (env_db E) db addr)"

definition Call ::
  "'db VmEnv \<Rightarrow> 'db runner \<Rightarrow> 'db EVM \<Rightarrow> ContractRef \<Rightarrow> address \<Rightarrow> bytes \<Rightarrow> u64 \<Rightarrow> int
    \<Rightarrow> abort + (bytes \<times> u64 \<times> evm_err option) \<times> 'db EVM" where
  "Call E R evm caller addr input gas value =
    (let D = env_db E; db = evm_StateDB evm in
     if env_NoRecursion E \<and> 0 < evm_depth evm then Inr (([], gas, None), evm)
     else if CallCreateDepth < evm_depth evm then Inr (([], gas, Some ErrDepth), evm)
     else if \<not> CanTransfer D db (ContractRef_Address caller) value
     then Inr (([], gas, Some ErrInsufficientBalance), evm)
     else
       (let (snapshot, db1) = db_Snapshot D db in
        if \<not> db_Exist D db1 addr \<and> precompiles E addr = None \<and> IsEIP158 E \<and> sgn value = 0
        then Inr (([], gas, None), evm\<lparr>evm_StateDB := db1\<rparr>)
        else
          (let db2 = (if \<not> db_Exist D db1 addr then db_CreateAccount D db1 addr else db1);
               db3 = Transfer D db2 (ContractRef_Address caller) addr value;
               (contract, d) = NewContract caller addr value gas (evm_jumpdests evm);
               contract1 = set_code E db3 addr contract
           in bindR (evm_run E R (evm\<lparr>evm_StateDB := db3, evm_jumpdests := d\<rparr>) contract1 input)
                (call_end E snapshot))))"

definition CallCode ::
  "'db VmEnv \<Rightarrow> 'db runner \<Rightarrow> 'db EVM \<Rightarrow> ContractRef \<Rightarrow> address \<Rightarrow> bytes \<Rightarrow> u64 \<Rightarrow> int
    \<Rightarrow> abort + (bytes \<times> u64 \<times> evm_err option) \<times> 'db EVM" where
  "CallCode E R evm caller addr input gas value =
    (let D = env_db E; db = evm_StateDB evm in
     if env_NoRecursion E \<and> 0 < evm_depth evm then Inr (([], gas, None), evm)
     else if CallCreateDepth < evm_depth evm then Inr (([], gas, Some ErrDepth), evm)
     else if \<not> CanTransfer D db (ContractRef_Address caller) value
     then Inr (([], gas, Some ErrInsufficientBalance), evm)
     else
       (let (snapshot, db1) = db_Snapshot D db;
            (contract, d) =
              NewContract caller (ContractRef_Address caller) value gas (evm_jumpdests evm);
            contract1 = set_code E db1 addr contract
        in bindR (evm_run E R (evm\<lparr>evm_StateDB := db1, evm_jumpdests := d\<rparr>) contract1 input)
             (call_end E snapshot)))"

definition DelegateCall ::
  "'db VmEnv \<Rightarrow> 'db runner \<Rightarrow> 'db EVM \<Rightarrow> ContractRef \<Rightarrow> address \<Rightarrow> bytes \<Rightarrow> u64
    \<Rightarrow> abort + (bytes \<times> u64 \<times> evm_err option) \<times> 'db EVM" where
  "DelegateCall E R evm caller addr input gas =
    (let D = env_db E; db = evm_StateDB evm in
     if env_NoRecursion E \<and> 0 < evm_depth evm then Inr (([], gas, None), evm)
     else if CallCreateDepth < evm_depth evm then Inr (([], gas, Some ErrDepth), evm)
     else
       (let (snapshot, db1) = db_Snapshot D db;
            (contract, d) =
              NewContract caller (ContractRef_Address caller) 0 gas (evm_jumpdests evm)
        in bindR (AsDelegate caller contract) (\<lambda>contract0.
             (let contract1 = set_code E db1 addr contract0
              in bindR (evm_run E R (evm\<lparr>evm_StateDB := db1, evm_jumpdests := d\<rparr>) contract1 input)
                   (call_end E snapshot)))))"

text \<open>
  \<open>StaticCall\<close> sets the read-only flag for the callee; the deferred function clears it again
  only if this call has set it.
\<close>

definition StaticCall ::
  "'db VmEnv \<Rightarrow> 'db runner \<Rightarrow> 'db EVM \<Rightarrow> ContractRef \<Rightarrow> address \<Rightarrow> bytes \<Rightarrow> u64
    \<Rightarrow> abort + (bytes \<times> u64 \<times> evm_err option) \<times> 'db EVM" where
  "StaticCall E R evm caller addr input gas =
    (let D = env_db E; db = evm_StateDB evm in
     if env_NoRecursion E \<and> 0 < evm_depth evm then Inr (([], gas, None), evm)
     else if CallCreateDepth < evm_depth evm then Inr (([], gas, Some ErrDepth), evm)
     else
       (let (snapshot, db1) = db_Snapshot D db;
            (contract, d) = NewContract caller addr 0 gas (evm_jumpdests evm);
            contract1 = set_code E db1 addr contract;
            evm1 = evm\<lparr>evm_StateDB := db1, evm_jumpdests := d, evm_readOnly := True\<rparr>
        in bindR (bindR (evm_run E R evm1 contract1 input) (call_end E snapshot)) (\<lambda>(r, evm2).
             Inr (r, if evm_readOnly evm then evm2 else evm2\<lparr>evm_readOnly := False\<rparr>))))"

definition Keccak256Hash :: "'db VmEnv \<Rightarrow> bytes \<Rightarrow> hash" where
  "Keccak256Hash E b = BytesToHash (cr_Keccak256 (env_crypto E) b)"

definition MaxCodeSize :: nat where
  "MaxCodeSize = 24576"

text \<open>
  The end of \<open>Create\<close>: the returned code is stored if it is not too long and its storage can
  be paid for.
\<close>

definition create_end ::
  "'db VmEnv \<Rightarrow> nat \<Rightarrow> address \<Rightarrow> (bytes \<times> evm_err option) \<times> 'db EVM \<times> Contract
    \<Rightarrow> abort + (bytes \<times> address \<times> u64 \<times> evm_err option) \<times> 'db EVM" where
  "create_end E snapshot contractAddr =
    (\<lambda>((ret, err), evm, contract).
      (let D = env_db E;
           maxCodeSizeExceeded = (IsEIP158 E \<and> MaxCodeSize < length ret);
           (err1, evm1, contract1) =
             (if err = None \<and> \<not> maxCodeSizeExceeded then
                (let createDataGas = of_nat (length ret) * CreateDataGas;
                     (ok, contract') = Contract_UseGas createDataGas contract
                 in if ok
                    then (None,
                      evm\<lparr>evm_StateDB := db_SetCode D (evm_StateDB evm) contractAddr ret\<rparr>, contract')
                    else (Some ErrCodeStoreOutOfGas, evm, contract'))
              else (err, evm, contract))
       in bindR
            (if maxCodeSizeExceeded \<or>
                err1 \<noteq> None \<and> (IsHomestead E \<or> err1 \<noteq> Some ErrCodeStoreOutOfGas)
             then
               bindR (RevertToSnapshot D (evm_StateDB evm1) snapshot) (\<lambda>db.
                 Inr (evm1\<lparr>evm_StateDB := db\<rparr>,
                   if err1 \<noteq> Some errExecutionReverted
                   then snd (Contract_UseGas (ct_Gas contract1) contract1) else contract1))
             else Inr (evm1, contract1))
            (\<lambda>(evm2, contract2).
              Inr ((ret, contractAddr, ct_Gas contract2,
                    if maxCodeSizeExceeded \<and> err1 = None then Some errMaxCodeSizeExceeded else err1),
                   evm2))))"

definition Create ::
  "'db VmEnv \<Rightarrow> 'db runner \<Rightarrow> 'db EVM \<Rightarrow> ContractRef \<Rightarrow> bytes \<Rightarrow> u64 \<Rightarrow> int
    \<Rightarrow> abort + (bytes \<times> address \<times> u64 \<times> evm_err option) \<times> 'db EVM" where
  "Create E R evm caller code gas value =
    (let D = env_db E; db = evm_StateDB evm; sender = ContractRef_Address caller in
     if CallCreateDepth < evm_depth evm then Inr (([], 0, gas, Some ErrDepth), evm)
     else if \<not> CanTransfer D db sender value
     then Inr (([], 0, gas, Some ErrInsufficientBalance), evm)
     else
       (let nonce = db_GetNonce D db sender;
            db1 = db_SetNonce D db sender (nonce + 1);
            contractAddr = CreateAddress (cr_Keccak256 (env_crypto E)) sender nonce;
            contractHash = db_GetCodeHash D db1 contractAddr
        in if db_GetNonce D db1 contractAddr \<noteq> 0 \<or>
              contractHash \<noteq> 0 \<and> contractHash \<noteq> Keccak256Hash E []
           then Inr (([], 0, 0, Some ErrContractAddressCollision), evm\<lparr>evm_StateDB := db1\<rparr>)
           else
             (let (snapshot, db2) = db_Snapshot D db1;
                  db3 = db_CreateAccount D db2 contractAddr;
                  db4 = (if IsEIP158 E then db_SetNonce D db3 contractAddr 1 else db3);
                  db5 = Transfer D db4 sender contractAddr value;
                  (contract, d) = NewContract caller contractAddr value gas (evm_jumpdests evm);
                  contract1 = Contract_SetCallCode contractAddr (Keccak256Hash E code) code contract;
                  evm1 = evm\<lparr>evm_StateDB := db5, evm_jumpdests := d\<rparr>
              in if env_NoRecursion E \<and> 0 < evm_depth evm
                 then Inr (([], contractAddr, gas, None), evm1)
                 else bindR (evm_run E R evm1 contract1 []) (create_end E snapshot contractAddr))))"

end
