(* ===== verification/Evm_Instructions.thy ===== *)
theory Evm_Instructions
  imports Evm_Calls
begin

text \<open>
  The instructions of \<open>src/gttc/core/vm/instructions.go\<close> that use more than the stack:
  memory, call data, the environment, storage, jumps, logs, pushes and the calls.  An
  instruction works on a frame and returns the bytes and the error of the Go function with
  the frame it leaves behind; \<open>R\<close> runs the code of a callee.

  The results of hashing are byte slices, \<open>evm.StateDB\<close> is used through its operations, and
  the integer pool is left out, as every stack slot has an integer of its own.
\<close>

type_synonym 'db executionFunc =
  "'db VmEnv \<Rightarrow> 'db runner \<Rightarrow> 'db frame \<Rightarrow> abort + (bytes \<times> evm_err option) \<times> 'db frame"

definition op_done :: "'db frame \<Rightarrow> abort + (bytes \<times> evm_err option) \<times> 'db frame" where
  "op_done fr = Inr (([], None), fr)"

definition op_fail :: "evm_err \<Rightarrow> 'db frame \<Rightarrow> abort + (bytes \<times> evm_err option) \<times> 'db frame" where
  "op_fail e fr = Inr (([], Some e), fr)"

definition set_stack :: "Stack \<Rightarrow> 'db frame \<Rightarrow> 'db frame" where
  "set_stack st fr = fr\<lparr>fr_stack := st\<rparr>"

definition op_push :: "int \<Rightarrow> 'db frame \<Rightarrow> abort + (bytes \<times> evm_err option) \<times> 'db frame" where
  "op_push x fr = op_done (set_stack (x # fr_stack fr) fr)"

text \<open>An instruction that only uses the stack.\<close>

definition stack_op :: "(Stack \<Rightarrow> abort + Stack) \<Rightarrow> 'db executionFunc" where
  "stack_op f E R fr = bindR (f (fr_stack fr)) (\<lambda>st. op_done (set_stack st fr))"

section \<open>Hashing and the environment\<close>

definition opSha3 :: "'db executionFunc" where
  "opSha3 E R fr =
    (case fr_stack fr of
       offset # sz # st \<Rightarrow>
         bindR (Memory_Get (fr_memory fr) (Int64 offset) (Int64 sz)) (\<lambda>data.
           (let hash = cr_Keccak256 (env_crypto E) data;
                fr1 = (if env_EnablePreimageRecording E
                       then set_db (db_AddPreimage (env_db E) (fr_db fr) (BytesToHash hash) data) fr
                       else fr)
            in op_done (set_stack (big_SetBytes hash # st) fr1)))
     | _ \<Rightarrow> Inl AbortIndex)"

definition opAddress :: "'db executionFunc" where
  "opAddress E R fr = op_push (Address_Big (ct_self (fr_contract fr))) fr"

definition opBalance :: "'db executionFunc" where
  "opBalance E R fr =
    (case fr_stack fr of
       slot # st \<Rightarrow>
         op_done (set_stack (db_GetBalance (env_db E) (fr_db fr) (BigToAddress slot) # st) fr)
     | _ \<Rightarrow> Inl AbortIndex)"

definition opOrigin :: "'db executionFunc" where
  "opOrigin E R fr = op_push (Address_Big (env_Origin E)) fr"

definition opCaller :: "'db executionFunc" where
  "opCaller E R fr = op_push (Address_Big (ct_CallerAddress (fr_contract fr))) fr"

definition opCallValue :: "'db executionFunc" where
  "opCallValue E R fr = op_push (ct_value (fr_contract fr)) fr"

definition opCallDataLoad :: "'db executionFunc" where
  "opCallDataLoad E R fr =
    (case fr_stack fr of
       x # st \<Rightarrow>
         bindR (getDataBig (ct_Input (fr_contract fr)) x 32) (\<lambda>b.
           op_done (set_stack (big_SetBytes b # st) fr))
     | _ \<Rightarrow> Inl AbortIndex)"

definition opCallDataSize :: "'db executionFunc" where
  "opCallDataSize E R fr = op_push (int (length (ct_Input (fr_contract fr)))) fr"

text \<open>The copy instructions end with \<open>memory.Set(memOffset.Uint64(), length.Uint64(), data)\<close>.\<close>

definition op_copy ::
  "int \<Rightarrow> int \<Rightarrow> bytes \<Rightarrow> Stack \<Rightarrow> 'db frame \<Rightarrow> abort + (bytes \<times> evm_err option) \<times> 'db frame" where
  "op_copy memOffset len data st fr =
    bindR (Memory_Set (fr_memory fr) (Uint64 memOffset) (Uint64 len) data) (\<lambda>mem.
      op_done (set_stack st (fr\<lparr>fr_memory := mem\<rparr>)))"

definition opCallDataCopy :: "'db executionFunc" where
  "opCallDataCopy E R fr =
    (case fr_stack fr of
       memOffset # dataOffset # len # st \<Rightarrow>
         bindR (getDataBig (ct_Input (fr_contract fr)) dataOffset len) (\<lambda>b.
           op_copy memOffset len b st fr)
     | _ \<Rightarrow> Inl AbortIndex)"

definition opReturnDataSize :: "'db executionFunc" where
  "opReturnDataSize E R fr = op_push (int (length (evm_returnData (fr_evm fr)))) fr"

definition opReturnDataCopy :: "'db executionFunc" where
  "opReturnDataCopy E R fr =
    (case fr_stack fr of
       memOffset # dataOffset # len # st \<Rightarrow>
         (let fin = dataOffset + len; returnData = evm_returnData (fr_evm fr) in
          if 64 < BitLen fin \<or> of_nat (length returnData) < Uint64 fin
          then op_fail errReturnDataOutOfBounds (set_stack st fr)
          else if Uint64 fin < Uint64 dataOffset then Inl AbortSlice
          else op_copy memOffset len
                 (take (unat (Uint64 fin) - unat (Uint64 dataOffset))
                   (drop (unat (Uint64 dataOffset)) returnData)) st fr)
     | _ \<Rightarrow> Inl AbortIndex)"

definition opExtCodeSize :: "'db executionFunc" where
  "opExtCodeSize E R fr =
    (case fr_stack fr of
       slot # st \<Rightarrow>
         op_done (set_stack (int (db_GetCodeSize (env_db E) (fr_db fr) (BigToAddress slot)) # st) fr)
     | _ \<Rightarrow> Inl AbortIndex)"

definition opCodeSize :: "'db executionFunc" where
  "opCodeSize E R fr = op_push (int (length (ct_Code (fr_contract fr)))) fr"

definition opCodeCopy :: "'db executionFunc" where
  "opCodeCopy E R fr =
    (case fr_stack fr of
       memOffset # codeOffset # len # st \<Rightarrow>
         bindR (getDataBig (ct_Code (fr_contract fr)) codeOffset len) (\<lambda>b.
           op_copy memOffset len b st fr)
     | _ \<Rightarrow> Inl AbortIndex)"

definition opExtCodeCopy :: "'db executionFunc" where
  "opExtCodeCopy E R fr =
    (case fr_stack fr of
       a # memOffset # codeOffset # len # st \<Rightarrow>
         bindR (getDataBig (db_GetCode (env_db E) (fr_db fr) (BigToAddress a)) codeOffset len) (\<lambda>b.
           op_copy memOffset len b st fr)
     | _ \<Rightarrow> Inl AbortIndex)"

definition opGasprice :: "'db executionFunc" where
  "opGasprice E R fr = op_push (env_GasPrice E) fr"

definition opBlockhash :: "'db executionFunc" where
  "opBlockhash E R fr =
    (case fr_stack fr of
       num # st \<Rightarrow>
         (let n = env_BlockNumber E - 257 in
          if n < num \<and> num < env_BlockNumber E
          then op_done (set_stack (Hash_Big (env_GetHash E (Uint64 num)) # st) fr)
          else op_done (set_stack (0 # st) fr))
     | _ \<Rightarrow> Inl AbortIndex)"

definition opCoinbase :: "'db executionFunc" where
  "opCoinbase E R fr = op_push (Address_Big (env_Coinbase E)) fr"

definition opTimestamp :: "'db executionFunc" where
  "opTimestamp E R fr = op_push (U256 (env_Time E)) fr"

definition opNumber :: "'db executionFunc" where
  "opNumber E R fr = op_push (U256 (env_BlockNumber E)) fr"

definition opDifficulty :: "'db executionFunc" where
  "opDifficulty E R fr = op_push (U256 (env_Difficulty E)) fr"

definition opGasLimit :: "'db executionFunc" where
  "opGasLimit E R fr = op_push (U256 (uint (env_GasLimit E))) fr"

section \<open>Memory and storage\<close>

definition opMload :: "'db executionFunc" where
  "opMload E R fr =
    (case fr_stack fr of
       offset # st \<Rightarrow>
         bindR (Memory_Get (fr_memory fr) (Int64 offset) 32) (\<lambda>data.
           op_done (set_stack (big_SetBytes data # st) fr))
     | _ \<Rightarrow> Inl AbortIndex)"

definition opMstore :: "'db executionFunc" where
  "opMstore E R fr =
    (case fr_stack fr of
       mStart # val # st \<Rightarrow>
         bindR (Memory_Set (fr_memory fr) (Uint64 mStart) 32 (PaddedBigBytes val 32)) (\<lambda>mem.
           op_done (set_stack st (fr\<lparr>fr_memory := mem\<rparr>)))
     | _ \<Rightarrow> Inl AbortIndex)"

definition opMstore8 :: "'db executionFunc" where
  "opMstore8 E R fr =
    (case fr_stack fr of
       a # b # st \<Rightarrow>
         (let off = Int64 a; val = Int64 b; mem = fr_memory fr in
          if 0 \<le> off \<and> off < int (length (mem_store mem))
          then op_done (set_stack st
                 (fr\<lparr>fr_memory := mem\<lparr>mem_store := (mem_store mem)[nat off := word_of_int (val AND 0xff)]\<rparr>\<rparr>))
          else Inl AbortIndex)
     | _ \<Rightarrow> Inl AbortIndex)"

definition opSload :: "'db executionFunc" where
  "opSload E R fr =
    (case fr_stack fr of
       x # st \<Rightarrow>
         op_done (set_stack
           (Hash_Big (db_GetState (env_db E) (fr_db fr) (ct_self (fr_contract fr)) (BigToHash x)) # st) fr)
     | _ \<Rightarrow> Inl AbortIndex)"

definition opSstore :: "'db executionFunc" where
  "opSstore E R fr =
    (case fr_stack fr of
       x # val # st \<Rightarrow>
         op_done (set_stack st
           (set_db (db_SetState (env_db E) (fr_db fr) (ct_self (fr_contract fr)) (BigToHash x) (BigToHash val)) fr))
     | _ \<Rightarrow> Inl AbortIndex)"

section \<open>Control flow\<close>

text \<open>The common part of \<open>opJump\<close> and a taken \<open>opJumpi\<close>.\<close>

definition jump_to :: "int \<Rightarrow> Stack \<Rightarrow> 'db frame \<Rightarrow> abort + (bytes \<times> evm_err option) \<times> 'db frame" where
  "jump_to pos st fr =
    (let c = fr_contract fr in
     bindR (destinations_has (evm_jumpdests (fr_evm fr)) (ct_CodeHash c) (ct_Code c) pos) (\<lambda>(ok, d).
       (let fr1 = set_stack st (fr\<lparr>fr_evm := (fr_evm fr)\<lparr>evm_jumpdests := d\<rparr>\<rparr>) in
        if \<not> ok then op_fail (ErrInvalidJump (Contract_GetOp c (Uint64 pos)) pos) fr1
        else op_done (fr1\<lparr>fr_pc := Uint64 pos\<rparr>))))"

definition opJump :: "'db executionFunc" where
  "opJump E R fr =
    (case fr_stack fr of
       pos # st \<Rightarrow> jump_to pos st fr
     | _ \<Rightarrow> Inl AbortIndex)"

definition opJumpi :: "'db executionFunc" where
  "opJumpi E R fr =
    (case fr_stack fr of
       pos # cond # st \<Rightarrow>
         if sgn cond \<noteq> 0 then jump_to pos st fr
         else op_done (set_stack st (fr\<lparr>fr_pc := fr_pc fr + 1\<rparr>))
     | _ \<Rightarrow> Inl AbortIndex)"

definition opJumpdest :: "'db executionFunc" where
  "opJumpdest E R fr = op_done fr"

definition opPc :: "'db executionFunc" where
  "opPc E R fr = op_push (uint (fr_pc fr)) fr"

definition opMsize :: "'db executionFunc" where
  "opMsize E R fr = op_push (int (Memory_Len (fr_memory fr))) fr"

definition opGas :: "'db executionFunc" where
  "opGas E R fr = op_push (uint (ct_Gas (fr_contract fr))) fr"

section \<open>Calls\<close>

definition add_gas :: "u64 \<Rightarrow> 'db frame \<Rightarrow> 'db frame" where
  "add_gas g fr = fr\<lparr>fr_contract := (fr_contract fr)\<lparr>ct_Gas := ct_Gas (fr_contract fr) + g\<rparr>\<rparr>"

definition opCreate :: "'db executionFunc" where
  "opCreate E R fr =
    (case fr_stack fr of
       value # offset # sz # st \<Rightarrow>
         bindR (Memory_Get (fr_memory fr) (Int64 offset) (Int64 sz)) (\<lambda>input.
           (let gas0 = ct_Gas (fr_contract fr);
                gas = (if IsEIP150 E then gas0 - gas0 div 64 else gas0);
                contract = snd (Contract_UseGas gas (fr_contract fr))
            in bindR (Create E R (fr_evm fr) (ContractOf contract) input gas value)
                 (\<lambda>((res, addr, returnGas, suberr), evm).
                   (let top =
                      (if IsHomestead E \<and> suberr = Some ErrCodeStoreOutOfGas then 0
                       else if suberr \<noteq> None \<and> suberr \<noteq> Some ErrCodeStoreOutOfGas then 0
                       else Address_Big addr);
                        fr1 = add_gas returnGas
                          (set_stack (top # st) (fr\<lparr>fr_evm := evm, fr_contract := contract\<rparr>))
                    in if suberr = Some errExecutionReverted then Inr ((res, None), fr1)
                       else op_done fr1))))
     | _ \<Rightarrow> Inl AbortIndex)"

text \<open>What the four call instructions do with the result of the call.\<close>

definition after_call ::
  "int \<Rightarrow> int \<Rightarrow> Stack \<Rightarrow> 'db frame \<Rightarrow> (bytes \<times> u64 \<times> evm_err option) \<times> 'db EVM
    \<Rightarrow> abort + (bytes \<times> evm_err option) \<times> 'db frame" where
  "after_call retOffset retSize st fr =
    (\<lambda>((ret, returnGas, err), evm).
      (let top = (if err \<noteq> None then 0 else 1);
           fr1 = set_stack (top # st) (fr\<lparr>fr_evm := evm\<rparr>)
       in bindR
            (if err = None \<or> err = Some errExecutionReverted
             then Memory_Set (fr_memory fr1) (Uint64 retOffset) (Uint64 retSize) ret
             else Inr (fr_memory fr1))
            (\<lambda>mem. Inr ((ret, None), add_gas returnGas (fr1\<lparr>fr_memory := mem\<rparr>)))))"

definition opCall :: "'db executionFunc" where
  "opCall E R fr =
    (case fr_stack fr of
       g # addr # v # inOffset # inSize # retOffset # retSize # st \<Rightarrow>
         (let gas0 = evm_callGasTemp (fr_evm fr);
              toAddr = BigToAddress addr;
              value = U256 v
          in bindR (Memory_Get (fr_memory fr) (Int64 inOffset) (Int64 inSize)) (\<lambda>args.
               (let gas = (if sgn value \<noteq> 0 then gas0 + CallStipend else gas0) in
                bindR (Call E R (fr_evm fr) (ContractOf (fr_contract fr)) toAddr args gas value)
                  (after_call retOffset retSize st fr))))
     | _ \<Rightarrow> Inl AbortIndex)"

definition opCallCode :: "'db executionFunc" where
  "opCallCode E R fr =
    (case fr_stack fr of
       g # addr # v # inOffset # inSize # retOffset # retSize # st \<Rightarrow>
         (let gas0 = evm_callGasTemp (fr_evm fr);
              toAddr = BigToAddress addr;
              value = U256 v
          in bindR (Memory_Get (fr_memory fr) (Int64 inOffset) (Int64 inSize)) (\<lambda>args.
               (let gas = (if sgn value \<noteq> 0 then gas0 + CallStipend else gas0) in
                bindR (CallCode E R (fr_evm fr) (ContractOf (fr_contract fr)) toAddr args gas value)
                  (after_call retOffset retSize st fr))))
     | _ \<Rightarrow> Inl AbortIndex)"

definition opDelegateCall :: "'db executionFunc" where
  "opDelegateCall E R fr =
    (case fr_stack fr of
       g # addr # inOffset # inSize # retOffset # retSize # st \<Rightarrow>
         (let gas = evm_callGasTemp (fr_evm fr);
              toAddr = BigToAddress addr
          in bindR (Memory_Get (fr_memory fr) (Int64 inOffset) (Int64 inSize)) (\<lambda>args.
               bindR (DelegateCall E R (fr_evm fr) (ContractOf (fr_contract fr)) toAddr args gas)
                 (after_call retOffset retSize st fr)))
     | _ \<Rightarrow> Inl AbortIndex)"

definition opStaticCall :: "'db executionFunc" where
  "opStaticCall E R fr =
    (case fr_stack fr of
       g # addr # inOffset # inSize # retOffset # retSize # st \<Rightarrow>
         (let gas = evm_callGasTemp (fr_evm fr);
              toAddr = BigToAddress addr
          in bindR (Memory_Get (fr_memory fr) (Int64 inOffset) (Int64 inSize)) (\<lambda>args.
               bindR (StaticCall E R (fr_evm fr) (ContractOf (fr_contract fr)) toAddr args gas)
                 (after_call retOffset retSize st fr)))
     | _ \<Rightarrow> Inl AbortIndex)"

section \<open>Leaving\<close>

definition opReturn :: "'db executionFunc" where
  "opReturn E R fr =
    (case fr_stack fr of
       offset # sz # st \<Rightarrow>
         bindR (Memory_GetPtr (fr_memory fr) (Int64 offset) (Int64 sz)) (\<lambda>ret.
           Inr ((ret, None), set_stack st fr))
     | _ \<Rightarrow> Inl AbortIndex)"

definition opRevert :: "'db executionFunc" where
  "opRevert E R fr =
    (case fr_stack fr of
       offset # sz # st \<Rightarrow>
         bindR (Memory_GetPtr (fr_memory fr) (Int64 offset) (Int64 sz)) (\<lambda>ret.
           Inr ((ret, None), set_stack st fr))
     | _ \<Rightarrow> Inl AbortIndex)"

definition opStop :: "'db executionFunc" where
  "opStop E R fr = op_done fr"

definition opSuicide :: "'db executionFunc" where
  "opSuicide E R fr =
    (let D = env_db E; self = ct_self (fr_contract fr);
         balance = db_GetBalance D (fr_db fr) self
     in case fr_stack fr of
          x # st \<Rightarrow>
            (let db1 = db_AddBalance D (fr_db fr) (BigToAddress x) balance;
                 db2 = db_Suicide D db1 self
             in op_done (set_stack st (set_db db2 fr)))
        | _ \<Rightarrow> Inl AbortIndex)"

section \<open>Families\<close>

definition makeLog :: "nat \<Rightarrow> 'db executionFunc" where
  "makeLog n E R fr =
    (case fr_stack fr of
       mStart # mSize # st \<Rightarrow>
         if length st < n then Inl AbortIndex
         else
           (let topics = map BigToHash (take n st) in
            bindR (Memory_Get (fr_memory fr) (Int64 mStart) (Int64 mSize)) (\<lambda>d.
              (let lg = \<lparr>log_Address = ct_self (fr_contract fr), log_Topics = topics, log_Data = d,
                         log_BlockNumber = Uint64 (env_BlockNumber E)\<rparr>
               in op_done (set_stack (drop n st) (set_db (db_AddLog (env_db E) (fr_db fr) lg) fr)))))
     | _ \<Rightarrow> Inl AbortIndex)"

definition makePush :: "u64 \<Rightarrow> nat \<Rightarrow> 'db executionFunc" where
  "makePush sz pushByteSize E R fr =
    (let code = ct_Code (fr_contract fr);
         codeLen = int (length code);
         p = sint (fr_pc fr + 1);
         startMin = (if p < codeLen then p else codeLen);
         endMin = (if startMin + int pushByteSize < codeLen then startMin + int pushByteSize else codeLen)
     in if startMin < 0 then Inl AbortSlice
        else
          (let integer = big_SetBytes
             (RightPadBytes (take (nat (endMin - startMin)) (drop (nat startMin) code)) pushByteSize)
           in op_done ((set_stack (integer # fr_stack fr) fr)\<lparr>fr_pc := fr_pc fr + sz\<rparr>)))"

end
