(* ===== verification/Evm_Jump_Table.thy ===== *)
theory Evm_Jump_Table
  imports Evm_Instructions
begin

text \<open>
  Opcodes (\<open>src/gttc/core/vm/opcodes.go\<close>) and the instruction sets of the four releases
  (\<open>src/gttc/core/vm/jump_table.go\<close>).  A Go array of 256 operations is a function on bytes;
  the entries of the array literal are lists of pairs, in the order of the source, and an
  opcode without an entry has the zero value, which is not valid.
\<close>

section \<open>Opcodes\<close>

abbreviation OP_STOP :: byte where
  "OP_STOP \<equiv> 0x00"

abbreviation OP_ADD :: byte where
  "OP_ADD \<equiv> 0x01"

abbreviation OP_MUL :: byte where
  "OP_MUL \<equiv> 0x02"

abbreviation OP_SUB :: byte where
  "OP_SUB \<equiv> 0x03"

abbreviation OP_DIV :: byte where
  "OP_DIV \<equiv> 0x04"

abbreviation OP_SDIV :: byte where
  "OP_SDIV \<equiv> 0x05"

abbreviation OP_MOD :: byte where
  "OP_MOD \<equiv> 0x06"

abbreviation OP_SMOD :: byte where
  "OP_SMOD \<equiv> 0x07"

abbreviation OP_ADDMOD :: byte where
  "OP_ADDMOD \<equiv> 0x08"

abbreviation OP_MULMOD :: byte where
  "OP_MULMOD \<equiv> 0x09"

abbreviation OP_EXP :: byte where
  "OP_EXP \<equiv> 0x0a"

abbreviation OP_SIGNEXTEND :: byte where
  "OP_SIGNEXTEND \<equiv> 0x0b"

abbreviation OP_LT :: byte where
  "OP_LT \<equiv> 0x10"

abbreviation OP_GT :: byte where
  "OP_GT \<equiv> 0x11"

abbreviation OP_SLT :: byte where
  "OP_SLT \<equiv> 0x12"

abbreviation OP_SGT :: byte where
  "OP_SGT \<equiv> 0x13"

abbreviation OP_EQ :: byte where
  "OP_EQ \<equiv> 0x14"

abbreviation OP_ISZERO :: byte where
  "OP_ISZERO \<equiv> 0x15"

abbreviation OP_AND :: byte where
  "OP_AND \<equiv> 0x16"

abbreviation OP_OR :: byte where
  "OP_OR \<equiv> 0x17"

abbreviation OP_XOR :: byte where
  "OP_XOR \<equiv> 0x18"

abbreviation OP_NOT :: byte where
  "OP_NOT \<equiv> 0x19"

abbreviation OP_BYTE :: byte where
  "OP_BYTE \<equiv> 0x1a"

abbreviation OP_SHL :: byte where
  "OP_SHL \<equiv> 0x1b"

abbreviation OP_SHR :: byte where
  "OP_SHR \<equiv> 0x1c"

abbreviation OP_SAR :: byte where
  "OP_SAR \<equiv> 0x1d"

abbreviation OP_SHA3 :: byte where
  "OP_SHA3 \<equiv> 0x20"

abbreviation OP_ADDRESS :: byte where
  "OP_ADDRESS \<equiv> 0x30"

abbreviation OP_BALANCE :: byte where
  "OP_BALANCE \<equiv> 0x31"

abbreviation OP_ORIGIN :: byte where
  "OP_ORIGIN \<equiv> 0x32"

abbreviation OP_CALLER :: byte where
  "OP_CALLER \<equiv> 0x33"

abbreviation OP_CALLVALUE :: byte where
  "OP_CALLVALUE \<equiv> 0x34"

abbreviation OP_CALLDATALOAD :: byte where
  "OP_CALLDATALOAD \<equiv> 0x35"

abbreviation OP_CALLDATASIZE :: byte where
  "OP_CALLDATASIZE \<equiv> 0x36"

abbreviation OP_CALLDATACOPY :: byte where
  "OP_CALLDATACOPY \<equiv> 0x37"

abbreviation OP_CODESIZE :: byte where
  "OP_CODESIZE \<equiv> 0x38"

abbreviation OP_CODECOPY :: byte where
  "OP_CODECOPY \<equiv> 0x39"

abbreviation OP_GASPRICE :: byte where
  "OP_GASPRICE \<equiv> 0x3a"

abbreviation OP_EXTCODESIZE :: byte where
  "OP_EXTCODESIZE \<equiv> 0x3b"

abbreviation OP_EXTCODECOPY :: byte where
  "OP_EXTCODECOPY \<equiv> 0x3c"

abbreviation OP_RETURNDATASIZE :: byte where
  "OP_RETURNDATASIZE \<equiv> 0x3d"

abbreviation OP_RETURNDATACOPY :: byte where
  "OP_RETURNDATACOPY \<equiv> 0x3e"

abbreviation OP_BLOCKHASH :: byte where
  "OP_BLOCKHASH \<equiv> 0x40"

abbreviation OP_COINBASE :: byte where
  "OP_COINBASE \<equiv> 0x41"

abbreviation OP_TIMESTAMP :: byte where
  "OP_TIMESTAMP \<equiv> 0x42"

abbreviation OP_NUMBER :: byte where
  "OP_NUMBER \<equiv> 0x43"

abbreviation OP_DIFFICULTY :: byte where
  "OP_DIFFICULTY \<equiv> 0x44"

abbreviation OP_GASLIMIT :: byte where
  "OP_GASLIMIT \<equiv> 0x45"

abbreviation OP_POP :: byte where
  "OP_POP \<equiv> 0x50"

abbreviation OP_MLOAD :: byte where
  "OP_MLOAD \<equiv> 0x51"

abbreviation OP_MSTORE :: byte where
  "OP_MSTORE \<equiv> 0x52"

abbreviation OP_MSTORE8 :: byte where
  "OP_MSTORE8 \<equiv> 0x53"

abbreviation OP_SLOAD :: byte where
  "OP_SLOAD \<equiv> 0x54"

abbreviation OP_SSTORE :: byte where
  "OP_SSTORE \<equiv> 0x55"

abbreviation OP_JUMP :: byte where
  "OP_JUMP \<equiv> 0x56"

abbreviation OP_JUMPI :: byte where
  "OP_JUMPI \<equiv> 0x57"

abbreviation OP_PC :: byte where
  "OP_PC \<equiv> 0x58"

abbreviation OP_MSIZE :: byte where
  "OP_MSIZE \<equiv> 0x59"

abbreviation OP_GAS :: byte where
  "OP_GAS \<equiv> 0x5a"

abbreviation OP_CREATE :: byte where
  "OP_CREATE \<equiv> 0xf0"

abbreviation OP_CALL :: byte where
  "OP_CALL \<equiv> 0xf1"

abbreviation OP_CALLCODE :: byte where
  "OP_CALLCODE \<equiv> 0xf2"

abbreviation OP_RETURN :: byte where
  "OP_RETURN \<equiv> 0xf3"

abbreviation OP_DELEGATECALL :: byte where
  "OP_DELEGATECALL \<equiv> 0xf4"

abbreviation OP_STATICCALL :: byte where
  "OP_STATICCALL \<equiv> 0xfa"

abbreviation OP_REVERT :: byte where
  "OP_REVERT \<equiv> 0xfd"

abbreviation OP_SELFDESTRUCT :: byte where
  "OP_SELFDESTRUCT \<equiv> 0xff"

text \<open>The families count from 1 (\<open>LOG\<close> from 0).\<close>

definition OP_PUSH :: "nat \<Rightarrow> byte" where
  "OP_PUSH n = 0x60 + of_nat (n - 1)"

definition OP_DUP :: "nat \<Rightarrow> byte" where
  "OP_DUP n = 0x80 + of_nat (n - 1)"

definition OP_SWAP :: "nat \<Rightarrow> byte" where
  "OP_SWAP n = 0x90 + of_nat (n - 1)"

definition OP_LOG :: "nat \<Rightarrow> byte" where
  "OP_LOG n = 0xa0 + of_nat n"

section \<open>Operations\<close>

record 'db operation =
  op_execute :: "'db executionFunc"
  op_gasCost :: "'db gasFunc"
  op_validateStack :: "Stack \<Rightarrow> evm_err option"
  op_memorySize :: "memorySizeFunc option"
  op_halts :: bool
  op_jumps :: bool
  op_writes :: bool
  op_valid :: bool
  op_reverts :: bool
  op_returns :: bool

definition operation_of ::
  "'db executionFunc \<Rightarrow> 'db gasFunc \<Rightarrow> (Stack \<Rightarrow> evm_err option) \<Rightarrow> 'db operation" where
  "operation_of e g v =
    \<lparr>op_execute = e, op_gasCost = g, op_validateStack = v, op_memorySize = None, op_halts = False,
     op_jumps = False, op_writes = False, op_valid = True, op_reverts = False, op_returns = False\<rparr>"

definition no_operation :: "'db operation" where
  "no_operation = (operation_of opStop (constGasFunc 0) (makeStackFunc 0 0))\<lparr>op_valid := False\<rparr>"

section \<open>Frontier\<close>

definition frontier_arith :: "(byte \<times> 'db operation) list" where
  "frontier_arith =
    [(OP_STOP, (operation_of opStop (constGasFunc 0) (makeStackFunc 0 0))\<lparr>op_halts := True\<rparr>),
     (OP_ADD, operation_of (stack_op opAdd) (constGasFunc GasFastestStep) (makeStackFunc 2 1)),
     (OP_MUL, operation_of (stack_op opMul) (constGasFunc GasFastStep) (makeStackFunc 2 1)),
     (OP_SUB, operation_of (stack_op opSub) (constGasFunc GasFastestStep) (makeStackFunc 2 1)),
     (OP_DIV, operation_of (stack_op opDiv) (constGasFunc GasFastStep) (makeStackFunc 2 1)),
     (OP_SDIV, operation_of (stack_op opSdiv) (constGasFunc GasFastStep) (makeStackFunc 2 1)),
     (OP_MOD, operation_of (stack_op opMod) (constGasFunc GasFastStep) (makeStackFunc 2 1)),
     (OP_SMOD, operation_of (stack_op opSmod) (constGasFunc GasFastStep) (makeStackFunc 2 1)),
     (OP_ADDMOD, operation_of (stack_op opAddmod) (constGasFunc GasMidStep) (makeStackFunc 3 1)),
     (OP_MULMOD, operation_of (stack_op opMulmod) (constGasFunc GasMidStep) (makeStackFunc 3 1)),
     (OP_EXP, operation_of (stack_op opExp) gasExp (makeStackFunc 2 1)),
     (OP_SIGNEXTEND, operation_of (stack_op opSignExtend) (constGasFunc GasFastStep) (makeStackFunc 2 1))]"

definition frontier_compare :: "(byte \<times> 'db operation) list" where
  "frontier_compare =
    [(OP_LT, operation_of (stack_op opLt) (constGasFunc GasFastestStep) (makeStackFunc 2 1)),
     (OP_GT, operation_of (stack_op opGt) (constGasFunc GasFastestStep) (makeStackFunc 2 1)),
     (OP_SLT, operation_of (stack_op opSlt) (constGasFunc GasFastestStep) (makeStackFunc 2 1)),
     (OP_SGT, operation_of (stack_op opSgt) (constGasFunc GasFastestStep) (makeStackFunc 2 1)),
     (OP_EQ, operation_of (stack_op opEq) (constGasFunc GasFastestStep) (makeStackFunc 2 1)),
     (OP_ISZERO, operation_of (stack_op opIszero) (constGasFunc GasFastestStep) (makeStackFunc 1 1)),
     (OP_AND, operation_of (stack_op opAnd) (constGasFunc GasFastestStep) (makeStackFunc 2 1)),
     (OP_XOR, operation_of (stack_op opXor) (constGasFunc GasFastestStep) (makeStackFunc 2 1)),
     (OP_OR, operation_of (stack_op opOr) (constGasFunc GasFastestStep) (makeStackFunc 2 1)),
     (OP_NOT, operation_of (stack_op opNot) (constGasFunc GasFastestStep) (makeStackFunc 1 1)),
     (OP_BYTE, operation_of (stack_op opByte) (constGasFunc GasFastestStep) (makeStackFunc 2 1))]"

definition frontier_context :: "(byte \<times> 'db operation) list" where
  "frontier_context =
    [(OP_SHA3, (operation_of opSha3 gasSha3 (makeStackFunc 2 1))\<lparr>op_memorySize := Some memorySha3\<rparr>),
     (OP_ADDRESS, operation_of opAddress (constGasFunc GasQuickStep) (makeStackFunc 0 1)),
     (OP_BALANCE, operation_of opBalance gasBalance (makeStackFunc 1 1)),
     (OP_ORIGIN, operation_of opOrigin (constGasFunc GasQuickStep) (makeStackFunc 0 1)),
     (OP_CALLER, operation_of opCaller (constGasFunc GasQuickStep) (makeStackFunc 0 1)),
     (OP_CALLVALUE, operation_of opCallValue (constGasFunc GasQuickStep) (makeStackFunc 0 1)),
     (OP_CALLDATALOAD, operation_of opCallDataLoad (constGasFunc GasFastestStep) (makeStackFunc 1 1)),
     (OP_CALLDATASIZE, operation_of opCallDataSize (constGasFunc GasQuickStep) (makeStackFunc 0 1)),
     (OP_CALLDATACOPY, (operation_of opCallDataCopy gasCallDataCopy (makeStackFunc 3 0))\<lparr>op_memorySize := Some memoryCallDataCopy\<rparr>),
     (OP_CODESIZE, operation_of opCodeSize (constGasFunc GasQuickStep) (makeStackFunc 0 1)),
     (OP_CODECOPY, (operation_of opCodeCopy gasCodeCopy (makeStackFunc 3 0))\<lparr>op_memorySize := Some memoryCodeCopy\<rparr>),
     (OP_GASPRICE, operation_of opGasprice (constGasFunc GasQuickStep) (makeStackFunc 0 1)),
     (OP_EXTCODESIZE, operation_of opExtCodeSize gasExtCodeSize (makeStackFunc 1 1)),
     (OP_EXTCODECOPY, (operation_of opExtCodeCopy gasExtCodeCopy (makeStackFunc 4 0))\<lparr>op_memorySize := Some memoryExtCodeCopy\<rparr>)]"

definition frontier_block :: "(byte \<times> 'db operation) list" where
  "frontier_block =
    [(OP_BLOCKHASH, operation_of opBlockhash (constGasFunc GasExtStep) (makeStackFunc 1 1)),
     (OP_COINBASE, operation_of opCoinbase (constGasFunc GasQuickStep) (makeStackFunc 0 1)),
     (OP_TIMESTAMP, operation_of opTimestamp (constGasFunc GasQuickStep) (makeStackFunc 0 1)),
     (OP_NUMBER, operation_of opNumber (constGasFunc GasQuickStep) (makeStackFunc 0 1)),
     (OP_DIFFICULTY, operation_of opDifficulty (constGasFunc GasQuickStep) (makeStackFunc 0 1)),
     (OP_GASLIMIT, operation_of opGasLimit (constGasFunc GasQuickStep) (makeStackFunc 0 1))]"

definition frontier_memory :: "(byte \<times> 'db operation) list" where
  "frontier_memory =
    [(OP_POP, operation_of (stack_op opPop) (constGasFunc GasQuickStep) (makeStackFunc 1 0)),
     (OP_MLOAD, (operation_of opMload gasMLoad (makeStackFunc 1 1))\<lparr>op_memorySize := Some memoryMLoad\<rparr>),
     (OP_MSTORE, (operation_of opMstore gasMStore (makeStackFunc 2 0))\<lparr>op_memorySize := Some memoryMStore\<rparr>),
     (OP_MSTORE8, (operation_of opMstore8 gasMStore8 (makeStackFunc 2 0))\<lparr>op_memorySize := Some memoryMStore8\<rparr>),
     (OP_SLOAD, operation_of opSload gasSLoad (makeStackFunc 1 1)),
     (OP_SSTORE, (operation_of opSstore gasSStore (makeStackFunc 2 0))\<lparr>op_writes := True\<rparr>),
     (OP_JUMP, (operation_of opJump (constGasFunc GasMidStep) (makeStackFunc 1 0))\<lparr>op_jumps := True\<rparr>),
     (OP_JUMPI, (operation_of opJumpi (constGasFunc GasSlowStep) (makeStackFunc 2 0))\<lparr>op_jumps := True\<rparr>),
     (OP_PC, operation_of opPc (constGasFunc GasQuickStep) (makeStackFunc 0 1)),
     (OP_MSIZE, operation_of opMsize (constGasFunc GasQuickStep) (makeStackFunc 0 1)),
     (OP_GAS, operation_of opGas (constGasFunc GasQuickStep) (makeStackFunc 0 1)),
     (OP_JUMPDEST, operation_of opJumpdest (constGasFunc JumpdestGas) (makeStackFunc 0 0))]"

definition frontier_system :: "(byte \<times> 'db operation) list" where
  "frontier_system =
    [(OP_CREATE, (operation_of opCreate gasCreate (makeStackFunc 3 1))\<lparr>op_memorySize := Some memoryCreate, op_writes := True, op_returns := True\<rparr>),
     (OP_CALL, (operation_of opCall gasCall (makeStackFunc 7 1))\<lparr>op_memorySize := Some memoryCall, op_returns := True\<rparr>),
     (OP_CALLCODE, (operation_of opCallCode gasCallCode (makeStackFunc 7 1))\<lparr>op_memorySize := Some memoryCall, op_returns := True\<rparr>),
     (OP_RETURN, (operation_of opReturn gasReturn (makeStackFunc 2 0))\<lparr>op_memorySize := Some memoryReturn, op_halts := True\<rparr>),
     (OP_SELFDESTRUCT, (operation_of opSuicide gasSuicide (makeStackFunc 1 0))\<lparr>op_halts := True, op_writes := True\<rparr>)]"

definition frontier_push :: "(byte \<times> 'db operation) list" where
  "frontier_push =
    map (\<lambda>n. (OP_PUSH n, operation_of (makePush (of_nat n) n) gasPush (makeStackFunc 0 1))) [1..<33]"

definition frontier_dup :: "(byte \<times> 'db operation) list" where
  "frontier_dup =
    map (\<lambda>n. (OP_DUP n, operation_of (stack_op (makeDup n)) gasDup (makeDupStackFunc n))) [1..<17]"

definition frontier_swap :: "(byte \<times> 'db operation) list" where
  "frontier_swap =
    map (\<lambda>n. (OP_SWAP n, operation_of (stack_op (makeSwap n)) gasSwap (makeSwapStackFunc (n + 1))))
      [1..<17]"

definition frontier_log :: "(byte \<times> 'db operation) list" where
  "frontier_log =
    map (\<lambda>n. (OP_LOG n, (operation_of (makeLog n) (makeGasLog (of_nat n)) (makeStackFunc (n + 2) 0))
      \<lparr>op_memorySize := Some memoryLog, op_writes := True\<rparr>)) [0..<5]"

definition frontier_operations :: "(byte \<times> 'db operation) list" where
  "frontier_operations =
    frontier_arith @ frontier_compare @ frontier_context @ frontier_block @ frontier_memory @
    frontier_push @ frontier_dup @ frontier_swap @ frontier_log @ frontier_system"

definition NewFrontierInstructionSet :: "byte \<Rightarrow> 'db operation" where
  "NewFrontierInstructionSet op =
    (case map_of frontier_operations op of Some o' \<Rightarrow> o' | None \<Rightarrow> no_operation)"

section \<open>Later releases\<close>

definition NewHomesteadInstructionSet :: "byte \<Rightarrow> 'db operation" where
  "NewHomesteadInstructionSet =
    NewFrontierInstructionSet
      (OP_DELEGATECALL := (operation_of opDelegateCall gasDelegateCall (makeStackFunc 6 1))
        \<lparr>op_memorySize := Some memoryDelegateCall, op_returns := True\<rparr>)"

definition NewByzantiumInstructionSet :: "byte \<Rightarrow> 'db operation" where
  "NewByzantiumInstructionSet =
    NewHomesteadInstructionSet
      (OP_STATICCALL := (operation_of opStaticCall gasStaticCall (makeStackFunc 6 1))
        \<lparr>op_memorySize := Some memoryStaticCall, op_returns := True\<rparr>,
       OP_RETURNDATASIZE := operation_of opReturnDataSize (constGasFunc GasQuickStep) (makeStackFunc 0 1),
       OP_RETURNDATACOPY := (operation_of opReturnDataCopy gasReturnDataCopy (makeStackFunc 3 0))
        \<lparr>op_memorySize := Some memoryReturnDataCopy\<rparr>,
       OP_REVERT := (operation_of opRevert gasRevert (makeStackFunc 2 0))
        \<lparr>op_memorySize := Some memoryRevert, op_reverts := True, op_returns := True\<rparr>)"

definition NewConstantinopleInstructionSet :: "byte \<Rightarrow> 'db operation" where
  "NewConstantinopleInstructionSet =
    NewByzantiumInstructionSet
      (OP_SHL := operation_of (stack_op opSHL) (constGasFunc GasFastestStep) (makeStackFunc 2 1),
       OP_SHR := operation_of (stack_op opSHR) (constGasFunc GasFastestStep) (makeStackFunc 2 1),
       OP_SAR := operation_of (stack_op opSAR) (constGasFunc GasFastestStep) (makeStackFunc 2 1))"

text \<open>The table \<open>NewInterpreter\<close> picks, when the configuration does not bring its own.\<close>

definition JumpTable :: "'db VmEnv \<Rightarrow> byte \<Rightarrow> 'db operation" where
  "JumpTable E =
    (if IsConstantinople E then NewConstantinopleInstructionSet
     else if IsByzantium E then NewByzantiumInstructionSet
     else if IsHomestead E then NewHomesteadInstructionSet
     else NewFrontierInstructionSet)"

end
