(* ===== verification/Evm_Interpreter.thy ===== *)
theory Evm_Interpreter
  imports Evm_Jump_Table
begin

text \<open>
  The interpreter loop of \<open>src/gttc/core/vm/interpreter.go\<close>.

  One turn of the loop is \<open>run_step\<close>: it either goes on with a new frame or leaves the loop
  with the bytes and the error of \<open>Run\<close>.  \<open>interpreter_loop\<close> counts turns; \<open>Run\<close> allows one more than
  the contract has gas, and the theory of runs shows that this is never too few, since every
  turn that goes on costs gas.  A nested call runs one level further down: \<open>Interpreter_Run\<close>
  counts levels, and the call depth limit makes \<open>CallCreateDepth + 1\<close> of them enough.

  The tracer, the integer pool check and \<open>Cancel\<close> from another goroutine are left out.
\<close>

section \<open>One turn of the loop\<close>

definition enforceRestrictions ::
  "'db VmEnv \<Rightarrow> byte \<Rightarrow> 'db operation \<Rightarrow> 'db frame \<Rightarrow> abort + evm_err option" where
  "enforceRestrictions E op operation fr =
    (if IsByzantium E \<and> evm_readOnly (fr_evm fr) then
       (if op_writes operation then Inr (Some errWriteProtection)
        else if op = OP_CALL then
          bindR (Stack_Back (fr_stack fr) 2) (\<lambda>v.
            Inr (if 0 < BitLen v then Some errWriteProtection else None))
        else Inr None)
     else Inr None)"

text \<open>The size the memory must have, in bytes and rounded up to words.\<close>

definition memory_size :: "'db operation \<Rightarrow> Stack \<Rightarrow> abort + (evm_err + u64)" where
  "memory_size operation st =
    (case op_memorySize operation of
       None \<Rightarrow> Inr (Inr 0)
     | Some f \<Rightarrow>
         bindR (f st) (\<lambda>m.
           (let (memSize, overflow) = bigUint64 m in
            if overflow then Inr (Inl errGasUintOverflow)
            else
              (let (memorySize, overflow) = SafeMul (toWordSize memSize) 32 in
               if overflow then Inr (Inl errGasUintOverflow) else Inr (Inr memorySize)))))"

datatype 'db turn =
  Next "'db frame"
| Leave bytes "evm_err option" "'db frame"

text \<open>The switch after the execution of an operation.\<close>

definition after_execute ::
  "'db operation \<Rightarrow> (bytes \<times> evm_err option) \<times> 'db frame \<Rightarrow> 'db turn" where
  "after_execute operation =
    (\<lambda>((res, err), fr).
      (let fr1 = (if op_returns operation
                  then fr\<lparr>fr_evm := (fr_evm fr)\<lparr>evm_returnData := res\<rparr>\<rparr> else fr)
       in case err of
            Some e \<Rightarrow> Leave [] (Some e) fr1
          | None \<Rightarrow>
              if op_reverts operation then Leave res (Some errExecutionReverted) fr1
              else if op_halts operation then Leave res None fr1
              else if \<not> op_jumps operation then Next (fr1\<lparr>fr_pc := fr_pc fr1 + 1\<rparr>)
              else Next fr1))"

text \<open>Paying for the operation and executing it.\<close>

definition pay_and_execute ::
  "'db VmEnv \<Rightarrow> 'db runner \<Rightarrow> 'db operation \<Rightarrow> u64 \<Rightarrow> 'db frame \<Rightarrow> abort + 'db turn" where
  "pay_and_execute E R operation memorySize fr =
    bindR (op_gasCost operation E memorySize fr) (\<lambda>(r, fr1).
      case r of
        Inl e \<Rightarrow> Inr (Leave [] (Some ErrOutOfGas) fr1)
      | Inr cost \<Rightarrow>
          (let (ok, contract) = Contract_UseGas cost (fr_contract fr1) in
           if \<not> ok then Inr (Leave [] (Some ErrOutOfGas) fr1)
           else
             (let mem = (if 0 < memorySize then Memory_Resize (fr_memory fr1) memorySize
                         else fr_memory fr1);
                  fr2 = fr1\<lparr>fr_contract := contract, fr_memory := mem\<rparr>
              in bindR (op_execute operation E R fr2) (\<lambda>r. Inr (after_execute operation r)))))"

definition run_step :: "'db VmEnv \<Rightarrow> 'db runner \<Rightarrow> 'db frame \<Rightarrow> abort + 'db turn" where
  "run_step E R fr =
    (let op = Contract_GetOp (fr_contract fr) (fr_pc fr);
         operation = JumpTable E op
     in if \<not> op_valid operation then Inr (Leave [] (Some (ErrInvalidOpcode op)) fr)
        else
          (case op_validateStack operation (fr_stack fr) of
             Some err \<Rightarrow> Inr (Leave [] (Some err) fr)
           | None \<Rightarrow>
               bindR (enforceRestrictions E op operation fr) (\<lambda>r.
                 case r of
                   Some err \<Rightarrow> Inr (Leave [] (Some err) fr)
                 | None \<Rightarrow>
                     bindR (memory_size operation (fr_stack fr)) (\<lambda>s.
                       case s of
                         Inl err \<Rightarrow> Inr (Leave [] (Some err) fr)
                       | Inr memorySize \<Rightarrow> pay_and_execute E R operation memorySize fr))))"

section \<open>The loop\<close>

primrec interpreter_loop ::
  "'db VmEnv \<Rightarrow> 'db runner \<Rightarrow> nat \<Rightarrow> 'db frame \<Rightarrow> abort + (bytes \<times> evm_err option) \<times> 'db EVM \<times> Contract" where
  "interpreter_loop E R 0 fr = Inl AbortFuel"
| "interpreter_loop E R (Suc n) fr =
    bindR (run_step E R fr) (\<lambda>t.
      case t of
        Next fr' \<Rightarrow> interpreter_loop E R n fr'
      | Leave ret err fr' \<Rightarrow> Inr ((ret, err), fr_evm fr', fr_contract fr'))"

definition start_frame :: "'db EVM \<Rightarrow> Contract \<Rightarrow> bytes \<Rightarrow> 'db frame" where
  "start_frame evm contract input =
    \<lparr>fr_evm = evm, fr_contract = contract\<lparr>ct_Input := input\<rparr>, fr_memory = NewMemory, fr_stack = [],
     fr_pc = 0\<rparr>"

text \<open>\<open>Run\<close>, with \<open>R\<close> for the runs of the callees.\<close>

definition Run_with :: "'db VmEnv \<Rightarrow> 'db runner \<Rightarrow> 'db runner" where
  "Run_with E R evm contract input =
    (let evm1 = evm\<lparr>evm_depth := evm_depth evm + 1, evm_returnData := []\<rparr> in
     if ct_Code contract = []
     then Inr (([], None), evm1\<lparr>evm_depth := evm_depth evm1 - 1\<rparr>, contract)
     else
       bindR (interpreter_loop E R (unat (ct_Gas contract) + 1) (start_frame evm1 contract input))
         (\<lambda>(r, evm2, contract2). Inr (r, evm2\<lparr>evm_depth := evm_depth evm2 - 1\<rparr>, contract2)))"

primrec Interpreter_Run :: "'db VmEnv \<Rightarrow> nat \<Rightarrow> 'db runner" where
  "Interpreter_Run E 0 = (\<lambda>evm contract input. Inl AbortFuel)"
| "Interpreter_Run E (Suc n) = Run_with E (Interpreter_Run E n)"

definition Run :: "'db VmEnv \<Rightarrow> 'db runner" where
  "Run E = Interpreter_Run E (CallCreateDepth + 1)"

text \<open>A fresh machine, as \<open>NewEVM\<close> and \<open>NewInterpreter\<close> build it.\<close>

definition NewEVM :: "'db \<Rightarrow> 'db EVM" where
  "NewEVM statedb =
    \<lparr>evm_StateDB = statedb, evm_depth = 0, evm_callGasTemp = 0, evm_readOnly = False,
     evm_returnData = [], evm_jumpdests = []\<rparr>"

end
