(* ===== verification/Evm_Runs.thy ===== *)
theory Evm_Runs
  imports Evm_Interpreter
begin

text \<open>
  Runs of the interpreter end.  Every turn that goes on costs gas, even when it hands gas to a
  callee and gets the rest back, so a run takes at most one turn more than the contract has
  gas; every call is one level deeper, and \<open>CallCreateDepth\<close> bounds the levels.  The same
  induction shows that a run never returns more gas than it was given, and that it leaves the
  depth and the read-only flag as it found them.

  \<open>wp A P\<close> is the weakest precondition used throughout: a panic satisfies \<open>A\<close>, a result \<open>P\<close>; with
  \<open>ends P\<close> the computation does not run out of fuel, and panics on no gas pool.  This theory is about calls; turns and runs
  follow in \<open>Evm_Turns\<close>.
\<close>

section \<open>Weakest preconditions\<close>

definition wp :: "(abort \<Rightarrow> bool) \<Rightarrow> ('a \<Rightarrow> bool) \<Rightarrow> abort + 'a \<Rightarrow> bool" where
  "wp A P r = (case r of Inl a \<Rightarrow> A a | Inr x \<Rightarrow> P x)"

lemma wp_Inr [simp]: "wp A P (Inr x) = P x"
  by (simp add: wp_def)

lemma wp_Inl [simp]: "wp A P (Inl a) = A a"
  by (simp add: wp_def)

lemma wp_bindR [simp]: "wp A P (bindR m f) = wp A (\<lambda>x. wp A P (f x)) m"
  by (cases m) simp_all

lemma wp_mono: "wp A P r \<Longrightarrow> (\<And>x. P x \<Longrightarrow> Q x) \<Longrightarrow> wp A Q r"
  by (cases r) auto

abbreviation ends :: "('a \<Rightarrow> bool) \<Rightarrow> abort + 'a \<Rightarrow> bool" where
  "ends \<equiv> wp (\<lambda>a. a \<noteq> AbortFuel \<and> a \<noteq> AbortGasPool)"

text \<open>Most computations panic at most on an index, a slice, a type or the memory.\<close>

definition plain_abort :: "(abort \<Rightarrow> bool) \<Rightarrow> bool" where
  "plain_abort A \<longleftrightarrow> A AbortIndex \<and> A AbortSlice \<and> A AbortMemory \<and> A AbortType"

lemma plain_abort_simps [simp]: "plain_abort (\<lambda>a. a \<noteq> AbortFuel \<and> a \<noteq> AbortGasPool)" "plain_abort (\<lambda>a. a \<noteq> AbortRevision)"
  by (simp_all add: plain_abort_def)

named_theorems ends_rules \<open>computations whose only failures are panics\<close>

lemma ends_Memory [ends_rules]:
  "plain_abort A \<Longrightarrow> (\<And>x. P x) \<Longrightarrow> wp A P (Memory_Get m off sz)"
  "plain_abort A \<Longrightarrow> (\<And>x. P x) \<Longrightarrow> wp A P (Memory_GetPtr m off sz)"
  "plain_abort A \<Longrightarrow> (\<And>x. Q x) \<Longrightarrow> wp A Q (Memory_Set m o1 s1 v)"
  by (auto simp: plain_abort_def Memory_Get_def Memory_GetPtr_def Memory_Set_def store_slice_def Let_def)

lemma ends_pad [ends_rules]:
  "plain_abort A \<Longrightarrow> (\<And>x. P x) \<Longrightarrow> wp A P (RightPadBytes_int b l)"
  "plain_abort A \<Longrightarrow> (\<And>x. P x) \<Longrightarrow> wp A P (LeftPadBytes_int b l)"
  by (auto simp: plain_abort_def RightPadBytes_int_def LeftPadBytes_int_def go_make_def)

lemma ends_getData [ends_rules]:
  "plain_abort A \<Longrightarrow> (\<And>x. P x) \<Longrightarrow> wp A P (getData d st sz)"
  "plain_abort A \<Longrightarrow> (\<And>x. P x) \<Longrightarrow> wp A P (getDataBig d x y)"
  by (auto simp: plain_abort_def getData_def getDataBig_def Let_def intro!: ends_rules)

lemma ends_Back [ends_rules]: "plain_abort A \<Longrightarrow> (\<And>x. P x) \<Longrightarrow> wp A P (Stack_Back st n)"
  by (auto simp: plain_abort_def Stack_Back_def)

lemma ends_revert [ends_rules]: "(\<And>x. P x) \<Longrightarrow> ends P (RevertToSnapshot D db n)"
  by (auto simp: RevertToSnapshot_def split: option.splits)

section \<open>Precompiled contracts\<close>

lemma ends_modexp_len [ends_rules]: "plain_abort A \<Longrightarrow> (\<And>x. P x) \<Longrightarrow> wp A P (modexp_len inp off)"
  by (auto simp: modexp_len_def intro: ends_rules)

lemma ends_modexp_gas [ends_rules]: "plain_abort A \<Longrightarrow> (\<And>x. P x) \<Longrightarrow> wp A P (bigModExp_RequiredGas inp)"
  by (auto simp: bigModExp_RequiredGas_def Let_def intro!: ends_rules)

lemma ends_modexp_run [ends_rules]: "plain_abort A \<Longrightarrow> (\<And>x. P x) \<Longrightarrow> wp A P (bigModExp_Run inp)"
  by (auto simp: bigModExp_Run_def Let_def intro!: ends_rules)

lemma ends_bn256 [ends_rules]:
  "plain_abort A \<Longrightarrow> (\<And>x. P x) \<Longrightarrow> wp A P (bn256Add_Run C inp)"
  "plain_abort A \<Longrightarrow> (\<And>x. P x) \<Longrightarrow> wp A P (bn256ScalarMul_Run C inp)"
  "plain_abort A \<Longrightarrow> (\<And>x. P x) \<Longrightarrow> wp A P (bn256Pairing_Run C inp)"
  by (auto simp: bn256Add_Run_def bn256ScalarMul_Run_def bn256Pairing_Run_def
      intro!: ends_rules split: sum.splits)

lemma ends_ecrecover [ends_rules]: "plain_abort A \<Longrightarrow> (\<And>x. P x) \<Longrightarrow> wp A P (ecrecover_Run C inp)"
  by (auto simp: plain_abort_def ecrecover_Run_def Let_def split: option.splits)

lemma ends_precompile:
  assumes "precompiles E a = Some p" and "plain_abort A" and "\<And>x. P x"
  shows "wp A P (pc_Run p inp)"
  using assms(1)
  by (auto simp: precompiles_def PrecompiledContractsByzantium_def PrecompiledContractsHomestead_def
      sha256hash_Run_def ripemd160hash_Run_def dataCopy_Run_def
      intro!: ends_rules assms(2,3) split: if_splits)

lemma ends_precompile_gas:
  assumes "precompiles E a = Some p" and "plain_abort A" and "\<And>x. Q x"
  shows "wp A Q (pc_RequiredGas p inp)"
  using assms(1)
  by (auto simp: precompiles_def PrecompiledContractsByzantium_def PrecompiledContractsHomestead_def
      ecrecover_RequiredGas_def sha256hash_RequiredGas_def ripemd160hash_RequiredGas_def
      dataCopy_RequiredGas_def per_word_def bn256Add_RequiredGas_def bn256ScalarMul_RequiredGas_def
      bn256Pairing_RequiredGas_def
      intro!: ends_rules assms(2,3) split: if_splits)

section \<open>The contract of a run\<close>

definition run_ok :: "'db EVM \<Rightarrow> Contract \<Rightarrow> (bytes \<times> evm_err option) \<times> 'db EVM \<times> Contract \<Rightarrow> bool" where
  "run_ok evm c = (\<lambda>(r, evm', c'). ct_Gas c' \<le> ct_Gas c \<and>
    evm_depth evm' = evm_depth evm \<and> evm_readOnly evm' = evm_readOnly evm)"

definition runner_ok :: "nat \<Rightarrow> 'db runner \<Rightarrow> bool" where
  "runner_ok d R \<longleftrightarrow>
    (\<forall>evm c inp. evm_depth evm = d \<longrightarrow> ends (run_ok evm c) (R evm c inp))"

text \<open>A call asks for the callee's run only if the depth allows it.\<close>

definition callee_ok :: "nat \<Rightarrow> 'db runner \<Rightarrow> bool" where
  "callee_ok d R \<longleftrightarrow> (d \<le> CallCreateDepth \<longrightarrow> runner_ok d R)"

lemma UseGas_le: "Contract_UseGas g c = (ok, c') \<Longrightarrow> ct_Gas c' \<le> ct_Gas c"
  by (auto simp: Contract_UseGas_def word_sub_le not_less split: if_splits)

lemma UseGas_exact:
  "Contract_UseGas g c = (True, c') \<Longrightarrow> unat (ct_Gas c') + unat g = unat (ct_Gas c)"
  by (auto simp: Contract_UseGas_def not_less unat_sub word_le_nat_alt split: if_splits)

lemma run_precompiled:
  assumes "precompiles E a = Some p" and "plain_abort A"
  shows "wp A (\<lambda>(r, c'). ct_Gas c' \<le> ct_Gas c) (RunPrecompiledContract p inp c)"
proof -
  have "wp A (\<lambda>(r, c'). ct_Gas c' \<le> ct_Gas c)
      (let (ok, contract') = Contract_UseGas g c
       in if ok then bindR (pc_Run p inp) (\<lambda>r. Inr (r, contract'))
          else Inr (([], Some ErrOutOfGas), contract'))" for g
    using UseGas_le [of g c]
    by (cases "Contract_UseGas g c") (auto intro: ends_precompile [OF assms])
  then show ?thesis
    unfolding RunPrecompiledContract_def by (auto intro: ends_precompile_gas [OF assms])
qed

lemma evm_run_ok:
  assumes "runner_ok (evm_depth evm) R"
  shows "ends (run_ok evm c) (evm_run E R evm c inp)"
proof (cases "case ct_CodeAddr c of None \<Rightarrow> None | Some a \<Rightarrow> precompiles E a")
  case None
  then show ?thesis using assms by (simp add: evm_run_def runner_ok_def)
next
  case (Some p)
  then obtain a where "precompiles E a = Some p" by (auto split: option.splits)
  from wp_mono [OF run_precompiled [OF this plain_abort_simps(1)]] Some show ?thesis
    by (fastforce simp: evm_run_def run_ok_def)
qed

section \<open>Calls\<close>

definition call_ok :: "'db EVM \<Rightarrow> u64 \<Rightarrow> (bytes \<times> u64 \<times> evm_err option) \<times> 'db EVM \<Rightarrow> bool" where
  "call_ok evm gas = (\<lambda>((ret, g, err), evm'). g \<le> gas \<and>
    evm_depth evm' = evm_depth evm \<and> evm_readOnly evm' = evm_readOnly evm)"

lemma UseGas_snd: "ct_Gas c \<le> g \<Longrightarrow> ct_Gas (snd (Contract_UseGas n c)) \<le> g"
  using UseGas_le [of n c] by (metis order_trans prod.collapse)

lemma call_end_ok:
  "run_ok evm c r \<Longrightarrow> ends (call_ok evm (ct_Gas c)) (call_end E snapshot r)"
  by (cases r) (auto simp: run_ok_def call_end_def call_ok_def Let_def UseGas_snd
      intro!: ends_rules split: option.splits)

text \<open>The part that the calls share: run the code, then look at the error.\<close>

lemma run_and_end:
  assumes "callee_ok (evm_depth evm) R" and "evm_depth evm \<le> CallCreateDepth"
    and "evm_depth evm1 = evm_depth evm" and "ct_Gas c = gas"
    and "\<And>x. call_ok evm1 gas x \<Longrightarrow> Q x"
  shows "ends (\<lambda>r. ends Q (call_end E snapshot r)) (evm_run E R evm1 c inp)"
proof (rule wp_mono)
  show "ends (run_ok evm1 c) (evm_run E R evm1 c inp)"
    using assms(1-3) by (intro evm_run_ok) (simp add: callee_ok_def)
  fix r assume "run_ok evm1 c r"
  from call_end_ok [OF this] have "ends (call_ok evm1 gas) (call_end E snapshot r)"
    unfolding assms(4) .
  then show "ends Q (call_end E snapshot r)" by (rule wp_mono) (rule assms(5))
qed

lemma call_ok_refl [simp]: "call_ok evm gas ((r, gas, e), evm)"
  by (simp add: call_ok_def)

lemma code_gas [simp]:
  "ct_Gas (Contract_SetCallCode a h code c) = ct_Gas c" "ct_Gas (set_code E db a c) = ct_Gas c"
  by (simp_all add: set_code_def Contract_SetCallCode_def)

lemma NewContract_gas: "NewContract caller obj value gas d = (c, d') \<Longrightarrow> ct_Gas c = gas"
  by (auto simp: NewContract_def)

lemma AsDelegate_gas [ends_rules]:
  "(\<And>c'. ct_Gas c' = ct_Gas c \<Longrightarrow> P c') \<Longrightarrow> ends P (AsDelegate caller c)"
  by (auto simp: AsDelegate_def split: ContractRef.splits)

lemma Call_ok:
  assumes "callee_ok (evm_depth evm) R"
  shows "ends (call_ok evm gas) (Call E R evm caller addr inp gas value)"
  using assms
  by (auto simp: Call_def Let_def not_less call_ok_def dest!: NewContract_gas split: prod.splits
      intro!: run_and_end [OF assms])

lemma CallCode_ok:
  assumes "callee_ok (evm_depth evm) R"
  shows "ends (call_ok evm gas) (CallCode E R evm caller addr inp gas value)"
  using assms
  by (auto simp: CallCode_def Let_def not_less call_ok_def dest!: NewContract_gas split: prod.splits
      intro!: run_and_end [OF assms])

lemma DelegateCall_ok:
  assumes "callee_ok (evm_depth evm) R"
  shows "ends (call_ok evm gas) (DelegateCall E R evm caller addr inp gas)"
  using assms
  by (auto simp: DelegateCall_def Let_def not_less call_ok_def dest!: NewContract_gas split: prod.splits
      intro!: AsDelegate_gas run_and_end [OF assms])

lemma StaticCall_ok:
  assumes "callee_ok (evm_depth evm) R"
  shows "ends (call_ok evm gas) (StaticCall E R evm caller addr inp gas)"
  using assms
  by (auto simp: StaticCall_def Let_def not_less call_ok_def dest!: NewContract_gas split: prod.splits
      intro!: run_and_end [OF assms])

definition create_ok ::
  "'db EVM \<Rightarrow> u64 \<Rightarrow> (bytes \<times> address \<times> u64 \<times> evm_err option) \<times> 'db EVM \<Rightarrow> bool" where
  "create_ok evm gas = (\<lambda>((ret, a, g, err), evm'). g \<le> gas \<and>
    evm_depth evm' = evm_depth evm \<and> evm_readOnly evm' = evm_readOnly evm)"

lemma create_end_ok:
  "run_ok evm c r \<Longrightarrow> ends (create_ok evm (ct_Gas c)) (create_end E snapshot a r)"
  by (cases r) (auto simp: run_ok_def create_end_def create_ok_def Let_def UseGas_snd
      intro!: ends_rules split: prod.splits dest!: UseGas_le)

lemma run_and_create:
  assumes "callee_ok (evm_depth evm) R" and "evm_depth evm \<le> CallCreateDepth"
    and "evm_depth evm1 = evm_depth evm" and "ct_Gas c = gas"
    and "\<And>x. create_ok evm1 gas x \<Longrightarrow> Q x"
  shows "ends (\<lambda>r. ends Q (create_end E snapshot a r)) (evm_run E R evm1 c inp)"
proof (rule wp_mono)
  show "ends (run_ok evm1 c) (evm_run E R evm1 c inp)"
    using assms(1-3) by (intro evm_run_ok) (simp add: callee_ok_def)
  fix r assume "run_ok evm1 c r"
  from create_end_ok [OF this] have "ends (create_ok evm1 gas) (create_end E snapshot a r)"
    unfolding assms(4) .
  then show "ends Q (create_end E snapshot a r)" by (rule wp_mono) (rule assms(5))
qed

lemma Create_ok:
  assumes "callee_ok (evm_depth evm) R"
  shows "ends (create_ok evm gas) (Create E R evm caller code gas value)"
  using assms
  by (auto simp: Create_def Let_def not_less create_ok_def dest!: NewContract_gas split: prod.splits
      intro!: run_and_create [OF assms])

end
