(* ===== verification/Evm_Turns.thy ===== *)
theory Evm_Turns
  imports Evm_Runs
begin

text \<open>
  Every turn of the interpreter costs gas.  An instruction that stays inside its frame leaves
  the gas alone; a call gives back at most the gas that its gas function charged for the
  callee and the stipend, which the price of moving value covers; and the price of every
  instruction that goes on is positive.  So a run ends, within the turns the loop counts.
\<close>

section \<open>Instructions that stay inside the frame\<close>

definition same_run :: "'db frame \<Rightarrow> 'db frame \<Rightarrow> bool" where
  "same_run fr fr' \<longleftrightarrow> evm_depth (fr_evm fr') = evm_depth (fr_evm fr) \<and>
    evm_readOnly (fr_evm fr') = evm_readOnly (fr_evm fr)"

text \<open>A state database that results from the operations that change it, snapshots and reverts apart.\<close>

inductive mutates :: "'db StateDB \<Rightarrow> 'db \<Rightarrow> 'db \<Rightarrow> bool" for D where
  mutates_refl: "mutates D db db"
| mutates_CreateAccount: "mutates D db db' \<Longrightarrow> mutates D db (db_CreateAccount D db' a)"
| mutates_SubBalance: "mutates D db db' \<Longrightarrow> mutates D db (db_SubBalance D db' a v)"
| mutates_AddBalance: "mutates D db db' \<Longrightarrow> mutates D db (db_AddBalance D db' a v)"
| mutates_SetNonce: "mutates D db db' \<Longrightarrow> mutates D db (db_SetNonce D db' a n)"
| mutates_SetCode: "mutates D db db' \<Longrightarrow> mutates D db (db_SetCode D db' a c)"
| mutates_AddRefund: "mutates D db db' \<Longrightarrow> mutates D db (db_AddRefund D db' g)"
| mutates_SetState: "mutates D db db' \<Longrightarrow> mutates D db (db_SetState D db' a k w)"
| mutates_Suicide: "mutates D db db' \<Longrightarrow> mutates D db (db_Suicide D db' a)"
| mutates_AddLog: "mutates D db db' \<Longrightarrow> mutates D db (db_AddLog D db' lg)"
| mutates_AddPreimage: "mutates D db db' \<Longrightarrow> mutates D db (db_AddPreimage D db' h p)"

declare mutates.intros [simp, intro!]

definition stays ::
  "'db VmEnv \<Rightarrow> 'db frame \<Rightarrow> (bytes \<times> evm_err option) \<times> 'db frame \<Rightarrow> bool" where
  "stays E fr = (\<lambda>(r, fr'). same_run fr fr' \<and> fr_contract fr' = fr_contract fr \<and>
    mutates (env_db E) (fr_db fr) (fr_db fr'))"

definition local_ok :: "'db executionFunc \<Rightarrow> bool" where
  "local_ok f \<longleftrightarrow> (\<forall>A E R fr. plain_abort A \<longrightarrow> wp A (stays E fr) (f E R fr))"

named_theorems local_rules \<open>instructions that stay inside their frame\<close>

lemmas frame_simps = plain_abort_def local_ok_def stays_def same_run_def op_push_def op_done_def op_fail_def
  set_stack_def set_db_def Let_def

text \<open>A stack operation either works or panics because the stack is too short.\<close>

definition short_only :: "('a \<Rightarrow> abort + 'b) \<Rightarrow> bool" where
  "short_only f \<longleftrightarrow> (\<forall>x a. f x = Inl a \<longrightarrow> a = AbortIndex)"

lemma stack_op_local:
  assumes "short_only f"
  shows "local_ok (stack_op f)"
  unfolding local_ok_def
proof (intro allI impI)
  fix A and E :: "'a VmEnv" and R fr
  assume "plain_abort A"
  then show "wp A (stays E fr) (stack_op f E R fr)"
    using assms
    by (cases "f (fr_stack fr)") (auto simp: frame_simps stack_op_def short_only_def plain_abort_def)
qed

lemma alu_short:
  "short_only opAdd" "short_only opSub" "short_only opMul" "short_only opDiv" "short_only opSdiv" "short_only opMod"
  "short_only opSmod" "short_only opExp" "short_only opSignExtend" "short_only opLt" "short_only opGt"
  "short_only opSlt" "short_only opSgt" "short_only opEq" "short_only opAnd" "short_only opOr" "short_only opXor"
  "short_only opByte" "short_only opSHL" "short_only opSHR" "short_only opSAR" "short_only opNot"
  "short_only opIszero" "short_only opAddmod" "short_only opMulmod" "short_only opPop"
  "short_only (makeDup n)" "short_only (makeSwap n)"
  unfolding short_only_def makeDup_def makeSwap_def Stack_dup_def Stack_swap_def
  by (auto simp: Let_def elim!: opAdd.elims opSub.elims opMul.elims opDiv.elims opSdiv.elims
      opMod.elims opSmod.elims opExp.elims opSignExtend.elims opLt.elims opGt.elims opSlt.elims
      opSgt.elims opEq.elims opAnd.elims opOr.elims opXor.elims opByte.elims opSHL.elims opSHR.elims
      opSAR.elims opNot.elims opIszero.elims opAddmod.elims opMulmod.elims opPop.elims
      split: if_splits list.splits)

lemma stack_ops_local [local_rules]:
  "local_ok (stack_op opAdd)" "local_ok (stack_op opSub)" "local_ok (stack_op opMul)"
  "local_ok (stack_op opDiv)" "local_ok (stack_op opSdiv)" "local_ok (stack_op opMod)"
  "local_ok (stack_op opSmod)" "local_ok (stack_op opExp)" "local_ok (stack_op opSignExtend)"
  "local_ok (stack_op opLt)" "local_ok (stack_op opGt)" "local_ok (stack_op opSlt)"
  "local_ok (stack_op opSgt)" "local_ok (stack_op opEq)" "local_ok (stack_op opAnd)"
  "local_ok (stack_op opOr)" "local_ok (stack_op opXor)" "local_ok (stack_op opByte)"
  "local_ok (stack_op opSHL)" "local_ok (stack_op opSHR)" "local_ok (stack_op opSAR)"
  "local_ok (stack_op opNot)" "local_ok (stack_op opIszero)" "local_ok (stack_op opAddmod)"
  "local_ok (stack_op opMulmod)" "local_ok (stack_op opPop)" "local_ok (stack_op (makeDup n))"
  "local_ok (stack_op (makeSwap n))"
  by (intro stack_op_local alu_short)+

lemma push_ops_local [local_rules]:
  "local_ok opAddress" "local_ok opOrigin" "local_ok opCaller" "local_ok opCallValue"
  "local_ok opCallDataSize" "local_ok opReturnDataSize" "local_ok opCodeSize" "local_ok opGasprice"
  "local_ok opCoinbase" "local_ok opTimestamp" "local_ok opNumber" "local_ok opDifficulty"
  "local_ok opGasLimit" "local_ok opPc" "local_ok opMsize" "local_ok opGas" "local_ok opJumpdest"
  "local_ok opStop"
  by (simp_all add: frame_simps opAddress_def opOrigin_def opCaller_def opCallValue_def
      opCallDataSize_def opReturnDataSize_def opCodeSize_def opGasprice_def opCoinbase_def
      opTimestamp_def opNumber_def opDifficulty_def opGasLimit_def opPc_def opMsize_def opGas_def
      opJumpdest_def opStop_def)

lemma state_ops_local [local_rules]:
  "local_ok opBalance" "local_ok opCallDataLoad" "local_ok opExtCodeSize" "local_ok opBlockhash"
  "local_ok opSload" "local_ok opSstore" "local_ok opSuicide"
  by (auto simp: frame_simps opBalance_def opCallDataLoad_def opExtCodeSize_def opBlockhash_def
      opSload_def opSstore_def opSuicide_def split: list.splits intro!: ends_rules)

lemma memory_ops_local [local_rules]:
  "local_ok opSha3" "local_ok opMload" "local_ok opMstore" "local_ok opMstore8" "local_ok opReturn"
  "local_ok opRevert" "local_ok (makeLog n)"
  by (auto simp: frame_simps opSha3_def opMload_def opMstore_def opMstore8_def opReturn_def
      opRevert_def makeLog_def split: list.splits intro!: ends_rules)

lemma copy_ops_local [local_rules]:
  "local_ok opCallDataCopy" "local_ok opCodeCopy" "local_ok opExtCodeCopy" "local_ok opReturnDataCopy"
  by (auto simp: frame_simps op_copy_def opCallDataCopy_def opCodeCopy_def opExtCodeCopy_def
      opReturnDataCopy_def split: list.splits intro!: ends_rules)

lemma push_local [local_rules]: "local_ok (makePush sz n)"
  by (simp add: frame_simps makePush_def)

lemma ends_codeBitmap: "(\<And>x. P x) \<Longrightarrow> wp A P (codeBitmap code)"
  using codeBitmap_ok [of code] by auto

lemma ends_destinations [ends_rules]:
  "plain_abort A \<Longrightarrow> (\<And>x. P x) \<Longrightarrow> wp A P (destinations_has d h code dest)"
  by (auto simp: plain_abort_def destinations_has_def codeSegment_def Let_def intro!: ends_codeBitmap split: option.splits)

lemma jumps_local [local_rules]: "local_ok opJump" "local_ok opJumpi"
  by (auto simp: frame_simps opJump_def opJumpi_def jump_to_def intro!: ends_rules split: list.splits)

section \<open>Calls\<close>

text \<open>
  How much the gas of the frame may grow while an instruction executes: by the gas that was set
  aside for the callee and the stipend.
\<close>

abbreviation gas_of :: "'db frame \<Rightarrow> nat" where
  "gas_of fr \<equiv> unat (ct_Gas (fr_contract fr))"

definition no_gain :: "Stack \<Rightarrow> u64 \<Rightarrow> nat" where
  "no_gain st temp = 0"

definition call_gain :: "bool \<Rightarrow> Stack \<Rightarrow> u64 \<Rightarrow> nat" where
  "call_gain valued st temp = unat temp + (if valued \<and> sgn (st ! 2) \<noteq> 0 then 2300 else 0)"

abbreviation gain_of :: "(Stack \<Rightarrow> u64 \<Rightarrow> nat) \<Rightarrow> 'db frame \<Rightarrow> nat" where
  "gain_of gain fr \<equiv> gain (fr_stack fr) (evm_callGasTemp (fr_evm fr))"

definition gains ::
  "(Stack \<Rightarrow> u64 \<Rightarrow> nat) \<Rightarrow> 'db frame \<Rightarrow> (bytes \<times> evm_err option) \<times> 'db frame \<Rightarrow> bool" where
  "gains gain fr = (\<lambda>(r, fr'). same_run fr fr' \<and> gas_of fr' \<le> gas_of fr + gain_of gain fr)"

definition exec_ok :: "(Stack \<Rightarrow> u64 \<Rightarrow> nat) \<Rightarrow> 'db executionFunc \<Rightarrow> bool" where
  "exec_ok gain f \<longleftrightarrow>
    (\<forall>E R fr. callee_ok (evm_depth (fr_evm fr)) R \<longrightarrow> ends (gains gain fr) (f E R fr))"

named_theorems exec_rules \<open>how much gas an instruction may bring back\<close>

lemma local_exec [exec_rules]:
  assumes "local_ok f"
  shows "exec_ok no_gain f"
  unfolding exec_ok_def
proof (intro allI impI)
  fix E and R :: "'a runner" and fr
  have "ends (stays E fr) (f E R fr)" using assms by (simp add: local_ok_def)
  then show "ends (gains no_gain fr) (f E R fr)"
    by (rule wp_mono) (auto simp: stays_def gains_def)
qed

lemma unat_add_le: "unat (a + b) \<le> unat a + unat (b :: u64)"
  by (simp add: unat_word_ariths)

lemma after_call_ok:
  assumes "call_ok (fr_evm fr) gas r"
  shows "ends (\<lambda>(x, fr'). same_run fr fr' \<and> gas_of fr' \<le> gas_of fr + unat gas)
    (after_call o1 s1 st fr r)"
proof -
  obtain ret g err evm where r: "r = ((ret, g, err), evm)" by (metis prod.exhaust)
  have "unat g \<le> unat gas" using assms by (simp add: r call_ok_def word_le_nat_alt)
  then have "unat (ct_Gas (fr_contract fr) + g) \<le> gas_of fr + unat gas"
    using unat_add_le [of "ct_Gas (fr_contract fr)" g] by simp
  then show ?thesis
    using assms
    by (auto simp: r after_call_def Let_def add_gas_def set_stack_def same_run_def call_ok_def
        intro!: ends_rules)
qed

lemma stipend_le: "unat (temp + CallStipend) \<le> unat temp + 2300"
  using unat_add_le [of temp CallStipend] by simp

text \<open>Calling and then looking at the result.\<close>

lemma call_and_after:
  assumes "ends (call_ok (fr_evm fr) gas) call" and "unat gas \<le> gain_of gain fr"
  shows "ends (\<lambda>r. ends (gains gain fr) (after_call o1 s1 st fr r)) call"
  using assms(1)
proof (rule wp_mono)
  fix r assume "call_ok (fr_evm fr) gas r"
  from after_call_ok [OF this] show "ends (gains gain fr) (after_call o1 s1 st fr r)"
    by (rule wp_mono) (use assms(2) in \<open>auto simp: gains_def\<close>)
qed

lemma sgn_U256: "sgn v = 0 \<Longrightarrow> sgn (U256 v) = 0"
  by (simp add: U256_def sgn_0_0)

lemma opCall_exec [exec_rules]:
  "exec_ok (call_gain True) opCall" "exec_ok (call_gain True) opCallCode"
  by (auto simp: exec_ok_def opCall_def opCallCode_def Let_def call_gain_def
      stipend_le sgn_U256
      intro!: ends_rules call_and_after Call_ok CallCode_ok split: list.splits)

lemma opDelegateCall_exec [exec_rules]:
  "exec_ok (call_gain False) opDelegateCall" "exec_ok (call_gain False) opStaticCall"
  by (auto simp: exec_ok_def opDelegateCall_def opStaticCall_def Let_def call_gain_def
      intro!: ends_rules call_and_after DelegateCall_ok StaticCall_ok split: list.splits)

lemma opCreate_exec [exec_rules]: "exec_ok no_gain opCreate"
  unfolding exec_ok_def
proof (intro allI impI)
  fix E :: "'a VmEnv" and R :: "'a runner" and fr :: "'a frame"
  assume callee: "callee_ok (evm_depth (fr_evm fr)) R"
  define gas0 where "gas0 = ct_Gas (fr_contract fr)"
  define gas where "gas = (if IsEIP150 E then gas0 - gas0 div 64 else gas0)"
  have le: "gas \<le> gas0"
  proof -
    have "gas0 div 64 \<le> gas0" by (simp add: word_le_nat_alt unat_div_distrib)
    then show ?thesis by (simp add: gas_def word_sub_le)
  qed
  then have used: "ct_Gas (snd (Contract_UseGas gas (fr_contract fr))) = gas0 - gas"
    by (auto simp: Contract_UseGas_def not_less gas0_def)
  have returned: "unat (gas0 - gas + g) \<le> unat gas0" if "g \<le> gas" for g
    using unat_add_le [of "gas0 - gas" g] unat_sub [OF le] that le
    unfolding word_le_nat_alt by linarith
  have "ends (gains no_gain fr) (opCreate E R fr)"
    if "fr_stack fr = value # offset # sz # st" for "value" offset sz st
    unfolding opCreate_def that list.case Let_def gas0_def [symmetric] gas_def [symmetric] wp_bindR
    by (auto simp: gains_def create_ok_def same_run_def add_gas_def set_stack_def op_done_def
        used returned no_gain_def gas0_def [symmetric] intro!: ends_rules wp_mono [OF Create_ok [OF callee]])
  then show "ends (gains no_gain fr) (opCreate E R fr)"
    by (auto simp: opCreate_def split: list.split)
qed

section \<open>A turn\<close>

definition turn_ok :: "'db frame \<Rightarrow> 'db turn \<Rightarrow> bool" where
  "turn_ok fr t =
    (case t of
       Next fr' \<Rightarrow> same_run fr fr' \<and> gas_of fr' < gas_of fr
     | Leave ret err fr' \<Rightarrow> same_run fr fr' \<and> gas_of fr' \<le> gas_of fr)"

definition price_ok :: "nat \<Rightarrow> (Stack \<Rightarrow> u64 \<Rightarrow> nat) \<Rightarrow> bool \<Rightarrow> nat \<Rightarrow> 'db gasFunc \<Rightarrow> bool" where
  "price_ok pops gain mem lo g \<longleftrightarrow>
    (\<forall>E ms fr. pops \<le> length (fr_stack fr) \<longrightarrow>
      gspec (g E ms) fr (\<lambda>r fr'. gas_effect E fr fr' \<and>
        (\<forall>c. r = Inr c \<longrightarrow> lo + gain_of gain fr' \<le> unat c \<and>
          (mem \<longrightarrow> unat ms \<le> 0xffffffffe0))))"

lemma gas_price [gas_rules]:
  assumes "gas_ok pops lo mem g"
  shows "price_ok pops no_gain mem lo g"
  using assms by (simp add: gas_ok_def price_ok_def no_gain_def)

lemma call_price [gas_rules]:
  assumes "call_gas_ok pops valued g"
  shows "price_ok pops (call_gain valued) True 40 g"
  unfolding price_ok_def
proof (intro allI impI)
  fix E ms and fr :: "'a frame"
  assume "pops \<le> length (fr_stack fr)"
  with assms have "gspec (g E ms) fr (call_gas_post E valued ms fr)"
    unfolding call_gas_ok_def by blast
  then show "gspec (g E ms) fr (\<lambda>r fr'. gas_effect E fr fr' \<and>
      (\<forall>c. r = Inr c \<longrightarrow> 40 + gain_of (call_gain valued) fr' \<le> unat c \<and>
        (True \<longrightarrow> unat ms \<le> 0xffffffffe0)))"
    by (rule gspec_mono) (auto simp: call_gas_post_def call_gain_def gas_effect_def)
qed

definition operation_ok :: "'db operation \<Rightarrow> bool" where
  "operation_ok o' \<longleftrightarrow>
    (\<forall>E R ms fr. op_validateStack o' (fr_stack fr) = None \<longrightarrow>
      callee_ok (evm_depth (fr_evm fr)) R \<longrightarrow> ends (turn_ok fr) (pay_and_execute E R o' ms fr))"

definition checks :: "nat \<Rightarrow> (Stack \<Rightarrow> evm_err option) \<Rightarrow> bool" where
  "checks pops v \<longleftrightarrow> (\<forall>st. v st = None \<longrightarrow> pops \<le> length st)"

lemma after_execute_ok:
  assumes "same_run fr fr'" and "gas_of fr' \<le> gas_of fr"
    and "op_halts o' \<or> op_reverts o' \<or> gas_of fr' < gas_of fr"
  shows "turn_ok fr (after_execute o' ((res, err), fr'))"
  using assms by (auto simp: after_execute_def turn_ok_def same_run_def Let_def split: option.splits)

lemma operation_okI:
  assumes check: "checks pops (op_validateStack o')"
    and price: "price_ok pops gain mem lo (op_gasCost o')"
    and exec: "exec_ok gain (op_execute o')"
    and lo: "op_halts o' \<or> op_reverts o' \<or> 0 < lo"
  shows "operation_ok o'"
  unfolding operation_ok_def
proof (intro allI impI)
  fix E and R :: "'a runner" and ms and fr :: "'a frame"
  assume valid: "op_validateStack o' (fr_stack fr) = None"
    and callee: "callee_ok (evm_depth (fr_evm fr)) R"
  from check valid have "pops \<le> length (fr_stack fr)" by (simp add: checks_def)
  with price obtain r fr1 where r: "op_gasCost o' E ms fr = Inr (r, fr1)"
    and eff: "gas_effect E fr fr1" and cost: "\<And>c. r = Inr c \<Longrightarrow> lo + gain_of gain fr1 \<le> unat c"
    unfolding price_ok_def gspec_def by blast
  have run1: "same_run fr fr1" "fr_contract fr1 = fr_contract fr"
    using eff by (simp_all add: gas_effect_def same_run_def)
  show "ends (turn_ok fr) (pay_and_execute E R o' ms fr)"
  proof (cases r)
    case (Inl e)
    then show ?thesis using r run1 by (simp add: pay_and_execute_def turn_ok_def)
  next
    case (Inr c)
    show ?thesis
    proof (cases "Contract_UseGas c (fr_contract fr1)")
      case (Pair ok contract)
      show ?thesis
      proof (cases ok)
        case False
        then show ?thesis using r run1 Inr Pair by (simp add: pay_and_execute_def turn_ok_def)
      next
        case True
        let ?fr2 = "fr1\<lparr>fr_contract := contract,
          fr_memory := if 0 < ms then Memory_Resize (fr_memory fr1) ms else fr_memory fr1\<rparr>"
        have paid: "unat (ct_Gas contract) + unat c = gas_of fr"
          using UseGas_exact [of c "fr_contract fr1" contract] Pair True run1(2) by simp
        have "ends (gains gain ?fr2) (op_execute o' E R ?fr2)"
          using exec callee run1(1) by (simp add: exec_ok_def same_run_def)
        then have "ends (\<lambda>x. turn_ok fr (after_execute o' x)) (op_execute o' E R ?fr2)"
        proof (rule wp_mono)
          fix x assume x: "gains gain ?fr2 x"
          obtain res err fr' where split: "x = ((res, err), fr')" by (metis prod.exhaust)
          from x have run2: "same_run ?fr2 fr'"
            and gain: "gas_of fr' \<le> unat (ct_Gas contract) + gain_of gain fr1"
            unfolding split gains_def by simp_all
          have "gas_of fr' + lo \<le> gas_of fr" using gain paid cost [OF Inr] by linarith
          moreover have "same_run fr fr'" using run1(1) run2 by (simp add: same_run_def)
          ultimately have "same_run fr fr'" "gas_of fr' + lo \<le> gas_of fr" by simp_all
          with lo show "turn_ok fr (after_execute o' x)"
            unfolding split by (intro after_execute_ok; linarith)
        qed
        then show ?thesis using r Inr Pair True by (simp add: pay_and_execute_def)
      qed
    qed
  qed
qed

section \<open>The instruction tables\<close>

text \<open>
  A gas function with the stack check that is done before it; \<open>strict\<close> if the price is positive.
\<close>

definition priced ::
  "(Stack \<Rightarrow> u64 \<Rightarrow> nat) \<Rightarrow> bool \<Rightarrow> bool \<Rightarrow> (Stack \<Rightarrow> evm_err option) \<Rightarrow> 'db gasFunc \<Rightarrow> bool" where
  "priced gain strict mem v g \<longleftrightarrow>
    (\<exists>pops lo. checks pops v \<and> price_ok pops gain mem lo g \<and> (strict \<longrightarrow> 0 < lo))"

lemma checks_stack: "checks pops (makeStackFunc pops push)" "checks 0 v"
  by (auto simp: checks_def makeStackFunc_def Stack_require_def split: option.splits if_splits)

lemma priced_any:
  "gas_ok 0 lo mem g \<Longrightarrow> strict \<longrightarrow> 0 < lo \<Longrightarrow> priced no_gain strict mem v g"
  unfolding priced_def using checks_stack(2) gas_price by blast

lemma priced_stack:
  "gas_ok pops lo mem g \<Longrightarrow> strict \<longrightarrow> 0 < lo \<Longrightarrow>
    priced no_gain strict mem (makeStackFunc pops push) g"
  unfolding priced_def using checks_stack(1) gas_price by blast

lemma priced_call:
  "call_gas_ok pops valued g \<Longrightarrow> priced (call_gain valued) strict True (makeStackFunc pops push) g"
proof -
  assume "call_gas_ok pops valued g"
  then have "price_ok pops (call_gain valued) True 40 g" by (rule call_price)
  moreover have "strict \<longrightarrow> (0 :: nat) < 40" by simp
  ultimately show ?thesis unfolding priced_def using checks_stack(1) by blast
qed

named_theorems priced_rules \<open>prices of the instructions of the tables\<close>

lemma priced_const [priced_rules]:
  "0 < unat c \<Longrightarrow> priced no_gain strict False v (constGasFunc c)"
  "priced no_gain False False v (constGasFunc c)"
  by (rule priced_any [OF constGasFunc_ok [OF order_refl]], simp)+

lemma priced_flat [priced_rules]:
  "priced no_gain strict False v gasBalance" "priced no_gain strict False v gasExtCodeSize"
  "priced no_gain strict False v gasSLoad" "priced no_gain strict False v gasPush"
  "priced no_gain strict False v gasSwap" "priced no_gain strict False v gasDup"
  "priced no_gain strict True v gasMLoad" "priced no_gain strict True v gasMStore8"
  "priced no_gain strict True v gasMStore" "priced no_gain strict True v gasCreate"
  "priced no_gain False True v gasReturn" "priced no_gain False True v gasRevert"
  by (rule gas_flat_ok [THEN priced_any] gas_memory_ok [THEN priced_any], simp)+

lemma priced_popping [priced_rules]:
  "priced no_gain strict True (makeStackFunc 3 0) gasCallDataCopy"
  "priced no_gain strict True (makeStackFunc 3 0) gasReturnDataCopy"
  "priced no_gain strict True (makeStackFunc 3 0) gasCodeCopy"
  "priced no_gain strict True (makeStackFunc 4 0) gasExtCodeCopy"
  "priced no_gain strict True (makeStackFunc 2 1) gasSha3"
  "priced no_gain strict False (makeStackFunc 2 0) gasSStore"
  "priced no_gain False False (makeStackFunc 1 0) gasSuicide"
  "priced no_gain strict False (makeStackFunc 2 1) gasExp"
  by (rule gas_copy_ok [THEN priced_stack] gas_extcode_ok [THEN priced_stack]
      gas_word_ok [THEN priced_stack] gas_store_ok [THEN priced_stack], simp)+

lemma gas_ok_mono: "gas_ok pops lo mem g \<Longrightarrow> pops \<le> n \<Longrightarrow> gas_ok n lo mem g"
  unfolding gas_ok_def by (meson order_trans)

lemma priced_log [priced_rules]: "priced no_gain strict True (makeStackFunc (Suc (Suc n)) 0) (makeGasLog m)"
proof -
  have "gas_ok (Suc (Suc n)) 375 True (makeGasLog m)"
    by (rule gas_ok_mono [OF gas_word_ok(2)]) simp
  then show ?thesis by (rule priced_stack) simp
qed

lemma priced_calls [priced_rules]:
  "priced (call_gain True) strict True (makeStackFunc 7 1) gasCall"
  "priced (call_gain True) strict True (makeStackFunc 7 1) gasCallCode"
  "priced (call_gain False) strict True (makeStackFunc 6 1) gasDelegateCall"
  "priced (call_gain False) strict True (makeStackFunc 6 1) gasStaticCall"
  by (intro priced_call gasCall_ok gasCallCode_ok gasDelegateCall_ok gasStaticCall_ok)+

text \<open>An entry of the tables: what executes it, with a price that fits.\<close>

definition exec_class :: "(Stack \<Rightarrow> u64 \<Rightarrow> nat) \<Rightarrow> 'db executionFunc \<Rightarrow> bool" where
  "exec_class gain f \<longleftrightarrow> gain = no_gain \<and> (local_ok f \<or> f = opCreate) \<or>
    gain = call_gain True \<and> (f = opCall \<or> f = opCallCode) \<or>
    gain = call_gain False \<and> (f = opDelegateCall \<or> f = opStaticCall)"

definition table_entry :: "'db operation \<Rightarrow> bool" where
  "table_entry o' \<longleftrightarrow> (\<exists>gain. exec_class gain (op_execute o') \<and>
    priced gain (\<not> (op_halts o' \<or> op_reverts o')) (op_memorySize o' \<noteq> None)
      (op_validateStack o') (op_gasCost o'))"

lemma class_exec: "exec_class gain f \<Longrightarrow> exec_ok gain f"
  unfolding exec_class_def by (auto simp: exec_rules)

lemma entry_operation: "table_entry o' \<Longrightarrow> operation_ok o'"
  unfolding table_entry_def priced_def by (blast intro: operation_okI class_exec)

lemma entryI:
  "exec_class gain (op_execute o') \<Longrightarrow>
    priced gain (\<not> (op_halts o' \<or> op_reverts o')) (op_memorySize o' \<noteq> None)
      (op_validateStack o') (op_gasCost o') \<Longrightarrow> table_entry o'"
  unfolding table_entry_def by blast

lemma exec_classes:
  "local_ok f \<Longrightarrow> exec_class no_gain f" "exec_class no_gain opCreate"
  "exec_class (call_gain True) opCall" "exec_class (call_gain True) opCallCode"
  "exec_class (call_gain False) opDelegateCall" "exec_class (call_gain False) opStaticCall"
  by (simp_all add: exec_class_def)

lemmas entry_local = entryI [OF exec_classes(1)]
lemmas entry_call =
  entryI [where gain = "call_gain True"] entryI [where gain = "call_gain False"]

lemmas table_simps = entry_local operation_of_def local_rules priced_rules

definition table_ok :: "(byte \<times> 'db operation) list \<Rightarrow> bool" where
  "table_ok t \<longleftrightarrow> list_all table_entry (map snd t)"

lemma table_arith: "table_ok frontier_arith" "table_ok frontier_compare" "table_ok frontier_block"
  unfolding table_ok_def frontier_arith_def frontier_compare_def frontier_block_def
  by (simp_all add: table_simps del: One_nat_def)

lemma table_context: "table_ok frontier_context" "table_ok frontier_memory"
  unfolding table_ok_def frontier_context_def frontier_memory_def
  by (simp_all add: table_simps del: One_nat_def)

lemma table_families:
  "table_ok frontier_push" "table_ok frontier_dup" "table_ok frontier_swap" "table_ok frontier_log"
  unfolding table_ok_def frontier_push_def frontier_dup_def frontier_swap_def frontier_log_def
  by (simp_all add: list_all_iff table_simps del: One_nat_def)

lemma table_system: "table_ok frontier_system"
  unfolding table_ok_def frontier_system_def
  by (simp add: entry_call entryI [where gain = no_gain] table_simps exec_classes
      del: One_nat_def)

lemma frontier_ok:
  assumes "op_valid (NewFrontierInstructionSet b :: 'a operation)"
  shows "table_entry (NewFrontierInstructionSet b :: 'a operation)"
proof -
  let ?t = "frontier_operations :: (byte \<times> 'a operation) list"
  have all: "table_ok ?t"
    using table_arith table_context table_families table_system
    by (simp add: table_ok_def frontier_operations_def)
  obtain o' where o': "map_of ?t b = Some o'"
    using assms by (cases "map_of ?t b") (simp_all add: NewFrontierInstructionSet_def no_operation_def)
  then have "o' \<in> set (map snd ?t)" by (force dest: map_of_SomeD)
  with all o' show ?thesis by (auto simp: table_ok_def NewFrontierInstructionSet_def list_all_iff)
qed

lemma homestead_ok:
  assumes "op_valid (NewHomesteadInstructionSet b :: 'a operation)"
  shows "table_entry (NewHomesteadInstructionSet b :: 'a operation)"
  using assms frontier_ok [of b, where ?'a = 'a]
  by (simp add: NewHomesteadInstructionSet_def entry_call table_simps exec_classes
      split: if_splits del: One_nat_def)

lemma byzantium_ok:
  assumes "op_valid (NewByzantiumInstructionSet b :: 'a operation)"
  shows "table_entry (NewByzantiumInstructionSet b :: 'a operation)"
  using assms homestead_ok [of b, where ?'a = 'a]
  by (simp add: NewByzantiumInstructionSet_def entry_call table_simps exec_classes
      split: if_splits del: One_nat_def)

lemma constantinople_ok:
  assumes "op_valid (NewConstantinopleInstructionSet b :: 'a operation)"
  shows "table_entry (NewConstantinopleInstructionSet b :: 'a operation)"
  using assms byzantium_ok [of b, where ?'a = 'a]
  by (simp add: NewConstantinopleInstructionSet_def table_simps split: if_splits del: One_nat_def)

lemma JumpTable_entry: "op_valid (JumpTable E b) \<Longrightarrow> table_entry (JumpTable E b)"
  using frontier_ok homestead_ok byzantium_ok constantinople_ok
  by (simp add: JumpTable_def split: if_splits)

lemma JumpTable_ok: "op_valid (JumpTable E b) \<Longrightarrow> operation_ok (JumpTable E b)"
  by (rule entry_operation [OF JumpTable_entry])

section \<open>Runs\<close>

lemma same_run_refl [simp]: "same_run fr fr"
  by (simp add: same_run_def)

text \<open>The size of the memory is read off the stack, so it does not run out of fuel either.\<close>

definition sizes_ok :: "memorySizeFunc \<Rightarrow> bool" where
  "sizes_ok f \<longleftrightarrow> (\<forall>st a. f st = Inl a \<longrightarrow> a = AbortIndex)"

lemma ends_size: "sizes_ok f \<Longrightarrow> plain_abort A \<Longrightarrow> (\<And>x. P x) \<Longrightarrow> wp A P (f st)"
  by (cases "f st") (auto simp: sizes_ok_def plain_abort_def)

lemma sizes [simp]:
  "sizes_ok memorySha3" "sizes_ok memoryCallDataCopy" "sizes_ok memoryReturnDataCopy"
  "sizes_ok memoryCodeCopy" "sizes_ok memoryExtCodeCopy" "sizes_ok memoryMLoad"
  "sizes_ok memoryMStore8" "sizes_ok memoryMStore" "sizes_ok memoryCreate" "sizes_ok memoryCall"
  "sizes_ok memoryDelegateCall" "sizes_ok memoryStaticCall" "sizes_ok memoryReturn"
  "sizes_ok memoryRevert" "sizes_ok memoryLog"
  by (auto simp: sizes_ok_def memorySha3_def memoryCallDataCopy_def memoryReturnDataCopy_def
      memoryCodeCopy_def memoryExtCodeCopy_def memoryMLoad_def memoryMStore8_def memoryMStore_def
      memoryCreate_def memoryCall_def memoryDelegateCall_def memoryStaticCall_def memoryReturn_def
      memoryRevert_def memoryLog_def calcMemSize_at_def Stack_Back_def split: if_splits)

definition sized :: "'db operation \<Rightarrow> bool" where
  "sized o' \<longleftrightarrow> (case op_memorySize o' of None \<Rightarrow> True | Some f \<Rightarrow> sizes_ok f)"

lemma sized_frontier: "sized (NewFrontierInstructionSet b :: 'a operation)"
proof (cases "map_of (frontier_operations :: (byte \<times> 'a operation) list) b")
  case None
  then show ?thesis by (simp add: NewFrontierInstructionSet_def no_operation_def sized_def operation_of_def)
next
  case (Some o')
  have "list_all sized (map snd (frontier_operations :: (byte \<times> 'a operation) list))"
    by (auto simp: frontier_operations_def frontier_arith_def frontier_compare_def frontier_block_def
        frontier_context_def frontier_memory_def frontier_system_def frontier_push_def
        frontier_dup_def frontier_swap_def frontier_log_def list_all_iff sized_def operation_of_def)
  moreover have "o' \<in> set (map snd (frontier_operations :: (byte \<times> 'a operation) list))"
    using Some by (force dest: map_of_SomeD)
  ultimately show ?thesis using Some by (auto simp: NewFrontierInstructionSet_def list_all_iff)
qed

lemma sized_JumpTable: "sized (JumpTable E b)"
  by (simp add: JumpTable_def NewConstantinopleInstructionSet_def NewByzantiumInstructionSet_def
      NewHomesteadInstructionSet_def sized_frontier) (simp add: sized_def operation_of_def)

lemma run_step_ok:
  assumes callee: "callee_ok (evm_depth (fr_evm fr)) R"
  shows "ends (turn_ok fr) (run_step E R fr)"
proof -
  have leave: "turn_ok fr (Leave ret err fr)" for ret err by (simp add: turn_ok_def)
  have pay: "ends (turn_ok fr) (pay_and_execute E R (JumpTable E b) ms fr)"
    if "op_valid (JumpTable E b)" "op_validateStack (JumpTable E b) (fr_stack fr) = None" for b ms
    using JumpTable_ok [OF that(1)] that(2) callee by (simp add: operation_ok_def)
  have size: "ends P (memory_size (JumpTable E b) st)" if "\<And>x. P x" for P b st
    using sized_JumpTable [of E b] that
    by (auto simp: memory_size_def sized_def Let_def intro!: ends_size split: option.splits prod.splits)
  show ?thesis
    unfolding run_step_def Let_def
    by (auto simp: leave pay enforceRestrictions_def split: option.split sum.split
        intro!: size ends_rules)
qed

lemma interpreter_loop_ok:
  assumes "callee_ok (evm_depth (fr_evm fr)) R" and "gas_of fr < n"
  shows "ends (\<lambda>(r, evm', c'). unat (ct_Gas c') \<le> gas_of fr \<and>
      evm_depth evm' = evm_depth (fr_evm fr) \<and> evm_readOnly evm' = evm_readOnly (fr_evm fr))
    (interpreter_loop E R n fr)"
  using assms
proof (induction n arbitrary: fr)
  case (Suc n)
  have "ends (\<lambda>t. ends (\<lambda>(r, evm', c'). unat (ct_Gas c') \<le> gas_of fr \<and>
      evm_depth evm' = evm_depth (fr_evm fr) \<and> evm_readOnly evm' = evm_readOnly (fr_evm fr))
      (case t of Next fr' \<Rightarrow> interpreter_loop E R n fr'
       | Leave ret err fr' \<Rightarrow> Inr ((ret, err), fr_evm fr', fr_contract fr'))) (run_step E R fr)"
    using run_step_ok [OF Suc.prems(1)]
  proof (rule wp_mono)
    fix t assume t: "turn_ok fr t"
    show "ends (\<lambda>(r, evm', c'). unat (ct_Gas c') \<le> gas_of fr \<and>
      evm_depth evm' = evm_depth (fr_evm fr) \<and> evm_readOnly evm' = evm_readOnly (fr_evm fr))
      (case t of Next fr' \<Rightarrow> interpreter_loop E R n fr'
       | Leave ret err fr' \<Rightarrow> Inr ((ret, err), fr_evm fr', fr_contract fr'))"
    proof (cases t)
      case (Leave ret err fr')
      with t show ?thesis by (simp add: turn_ok_def same_run_def)
    next
      case (Next fr')
      with t have same: "evm_depth (fr_evm fr') = evm_depth (fr_evm fr)"
        "evm_readOnly (fr_evm fr') = evm_readOnly (fr_evm fr)" "gas_of fr' < gas_of fr"
        by (simp_all add: turn_ok_def same_run_def)
      then have "callee_ok (evm_depth (fr_evm fr')) R" "gas_of fr' < n"
        using Suc.prems by simp_all
      from wp_mono [OF Suc.IH [OF this]] same show ?thesis unfolding Next by fastforce
    qed
  qed
  then show ?case by simp
qed simp

lemma Run_with_ok:
  assumes "callee_ok (Suc d) R"
  shows "runner_ok d (Run_with E R)"
  unfolding runner_ok_def
proof (intro allI impI)
  fix evm :: "'a EVM" and c inp
  assume d: "evm_depth evm = d"
  let ?fr = "start_frame (evm\<lparr>evm_depth := evm_depth evm + 1, evm_returnData := []\<rparr>) c inp"
  have gas: "gas_of ?fr = unat (ct_Gas c)" by (simp add: start_frame_def)
  have callee: "callee_ok (evm_depth (fr_evm ?fr)) R"
    using assms d by (simp add: start_frame_def)
  have "ends (\<lambda>(r, evm', c'). unat (ct_Gas c') \<le> gas_of ?fr \<and>
      evm_depth evm' = evm_depth (fr_evm ?fr) \<and> evm_readOnly evm' = evm_readOnly (fr_evm ?fr))
    (interpreter_loop E R (unat (ct_Gas c) + 1) ?fr)"
    by (rule interpreter_loop_ok [OF callee]) (simp add: start_frame_def)
  from wp_mono [OF this] show "ends (run_ok evm c) (Run_with E R evm c inp)"
    by (fastforce simp: Run_with_def Let_def run_ok_def start_frame_def word_le_nat_alt)
qed

text \<open>
  One level for every depth up to the limit: at depth \<open>CallCreateDepth\<close> the code still runs, but
  what it calls fails at once.
\<close>

lemma Interpreter_Run_ok: "CallCreateDepth < d + n \<Longrightarrow> d \<le> CallCreateDepth \<Longrightarrow> runner_ok d (Interpreter_Run E n)"
proof (induction n arbitrary: d)
  case (Suc n)
  then have "callee_ok (Suc d) (Interpreter_Run E n)" by (simp add: callee_ok_def)
  then show ?case by (simp add: Run_with_ok)
qed simp

lemma Run_ok: "evm_depth evm \<le> CallCreateDepth \<Longrightarrow> ends (run_ok evm c) (Run E evm c inp)"
  using Interpreter_Run_ok [of "evm_depth evm" "CallCreateDepth + 1" E]
  by (simp add: Run_def runner_ok_def)

end
