(* ===== verification/Evm_Frames.thy ===== *)
theory Evm_Frames
  imports Evm_Turns
begin

text \<open>
  A turn of the interpreter keeps the frame well typed: at most 1024 words of 256 bits on the
  stack, whole words of memory, the counter at the start of an instruction, and the table of
  analysed code right about the running code.  From such a frame a turn does not panic, unless it
  calls and a callee does, or the snapshot taken before the call cannot be undone.

  What the machine relies on from outside is named: the lengths of Go slices, the balances
  and prices as 256-bit words, and the length of a hash.  Of the callees nothing is asked, but
  that the frame is right about its own code after a call only if they leave that table right.
\<close>

section \<open>Precompiled contracts do not panic when they are paid for\<close>

lemma sint_small: "unat w < 2 ^ 63 \<Longrightarrow> sint w = uint w" for w :: u64
proof -
  assume "unat w < 2 ^ 63"
  then have "int (unat w) < int (2 ^ 63)" by (simp only: of_nat_less_iff)
  then have "uint w < 2 ^ 63" by simp
  then have "signed_take_bit 63 (uint w) = uint w"
    by (intro signed_take_bit_int_eq_self order_trans [OF _ uint_ge_0]) simp_all
  then show ?thesis by (simp add: sint_uint)
qed

lemma pad_safe:
  assumes "0 \<le> l" and "l \<le> maxAlloc"
  shows "\<exists>b. RightPadBytes_int sl l = Inr b \<and> (length sl \<le> nat l \<longrightarrow> length b = nat l)"
    and "\<exists>b. LeftPadBytes_int sl l = Inr b"
  using assms by (auto simp: RightPadBytes_int_def LeftPadBytes_int_def go_make_def)

lemma getData_safe:
  assumes "length d < 2 ^ 62" and "unat sz \<le> 2 ^ 48"
  shows "\<exists>b. getData d st sz = Inr b \<and> length b = unat sz"
proof -
  define len where "len = (of_nat (length d) :: u64)"
  define st' where "st' = (if len < st then len else st)"
  define fin where "fin = (if len < st' + sz then len else st' + sz)"
  have len: "unat len = length d"
    unfolding len_def using assms(1) by (intro unat_of_nat64) simp
  have le: "unat st' \<le> length d" by (auto simp: st'_def word_less_nat_alt len)
  have sum: "unat (st' + sz) = unat st' + unat sz"
    using le assms by (intro unat_add_less) simp
  have ok: "\<not> fin < st'"
    using le len sum by (auto simp: fin_def word_less_nat_alt)
  have "unat fin - unat st' \<le> unat sz"
    using sum len by (auto simp: fin_def word_less_nat_alt)
  moreover have "int (unat sz) \<le> int (2 ^ 48)" using assms(2) by (simp only: of_nat_le_iff)
  then have "sint sz = int (unat sz)" "sint sz \<le> maxAlloc"
    using sint_small [of sz] assms(2) by (simp_all add: maxAlloc_def)
  ultimately obtain b where
    "RightPadBytes_int (take (unat fin - unat st') (drop (unat st') d)) (sint sz) = Inr b \<and> length b = unat sz"
    using pad_safe(1) [of "sint sz" "take (unat fin - unat st') (drop (unat st') d)"] by auto
  then show ?thesis
    using ok unfolding getData_def Let_def len_def [symmetric] st'_def [symmetric] fin_def [symmetric] by simp
qed

lemma modexp_len_safe:
  assumes "length d < 2 ^ 62"
  shows "\<exists>n. modexp_len d st = Inr n \<and> 0 \<le> n"
proof -
  obtain b where "getData d st 32 = Inr b" using getData_safe [OF assms, of 32 st] by auto
  then show ?thesis by (simp add: modexp_len_def big_SetBytes_def)
qed

text \<open>The price of a modular exponentiation bounds the lengths of its operands.\<close>

definition modexp_mult :: "int \<Rightarrow> int" where
  "modexp_mult x =
    (if x \<le> 64 then x * x
     else if x \<le> 1024 then big_Div (x * x) 4 + (96 * x - 3072)
     else big_Div (x * x) 16 + (480 * x - 199680))"

lemma modexp_mult_ge:
  assumes "0 < x"
  shows "x * x div 16 \<le> modexp_mult x" and "0 < modexp_mult x"
proof -
  consider "x \<le> 64" | "64 < x" "x \<le> 1024" | "1024 < x" by linarith
  then have "x * x div 16 \<le> modexp_mult x \<and> 0 < modexp_mult x"
  proof cases
    case 1
    have "0 < x * x" using assms by simp
    moreover from this have "x * x div 16 \<le> x * x" by simp
    ultimately show ?thesis using 1 by (simp add: modexp_mult_def)
  next
    case 2
    have "0 \<le> x * x" by simp
    then have "x * x div 16 \<le> x * x div 4" "0 \<le> x * x div 4"
      by (simp_all add: zdiv_mono2 pos_imp_zdiv_nonneg_iff)
    then show ?thesis using 2 by (simp add: modexp_mult_def big_Div_def)
  next
    case 3
    have "0 \<le> x * x div 16" by (simp add: pos_imp_zdiv_nonneg_iff)
    then show ?thesis using 3 by (simp add: modexp_mult_def big_Div_def)
  qed
  then show "x * x div 16 \<le> modexp_mult x" "0 < modexp_mult x" by auto
qed

lemma modexp_price:
  assumes "length inp < 2 ^ 62"
  shows "\<exists>bl el ml g. modexp_len inp 0 = Inr bl \<and> modexp_len inp 32 = Inr el \<and>
    modexp_len inp 64 = Inr ml \<and> 0 \<le> bl \<and> 0 \<le> el \<and> 0 \<le> ml \<and>
    bigModExp_RequiredGas inp = Inr g \<and>
    (unat g < 2 ^ 46 \<longrightarrow> modexp_mult (BigMax ml bl) * max 1 (8 * (el - 32)) < 20 * 2 ^ 46)"
proof -
  obtain bl el ml where len: "modexp_len inp 0 = Inr bl" "modexp_len inp 32 = Inr el"
    "modexp_len inp 64 = Inr ml" "0 \<le> bl" "0 \<le> el" "0 \<le> ml"
    using modexp_len_safe [OF assms] by metis
  define rest where "rest = (if 96 < length inp then drop 96 inp else [])"
  have rest: "length rest < 2 ^ 62" using assms by (auto simp: rest_def)
  have "\<exists>h. (if int (length rest) \<le> bl then Inr 0
      else if 32 < el then bindR (getData rest (Uint64 bl) 32) (\<lambda>b. Inr (big_SetBytes b))
      else bindR (getData rest (Uint64 bl) (Uint64 el)) (\<lambda>b. Inr (big_SetBytes b))) = Inr h"
  proof -
    have "unat (Uint64 el) \<le> 2 ^ 48" if "\<not> 32 < el" using that len(5) by (simp add: Uint64_small)
    then show ?thesis
      using getData_safe [OF rest, of 32 "Uint64 bl"] getData_safe [OF rest, of "Uint64 el" "Uint64 bl"]
      by auto
  qed
  then obtain h where h: "(if int (length rest) \<le> bl then Inr 0
      else if 32 < el then bindR (getData rest (Uint64 bl) 32) (\<lambda>b. Inr (big_SetBytes b))
      else bindR (getData rest (Uint64 bl) (Uint64 el)) (\<lambda>b. Inr (big_SetBytes b))) = Inr h" ..
  define adj where "adj = (if 32 < el then 8 * (el - 32) else 0) +
    int (if 0 < BitLen h then BitLen h - 1 else 0)"
  define gas where "gas = modexp_mult (BigMax ml bl) * BigMax adj 1 div 20"
  have "bigModExp_RequiredGas inp = Inr (if 64 < BitLen gas then MaxUint64 else Uint64 gas)"
    unfolding bigModExp_RequiredGas_def len bindR.simps Let_def rest_def [symmetric] h
      modexp_mult_def [symmetric] adj_def [symmetric] gas_def
    by (simp add: big_Div_def)
  moreover have "modexp_mult (BigMax ml bl) * max 1 (8 * (el - 32)) < 20 * 2 ^ 46"
    if "unat (if 64 < BitLen gas then MaxUint64 else Uint64 gas) < 2 ^ 46"
  proof -
    let ?x = "BigMax ml bl"
    have x: "0 \<le> ?x" using len(4,6) by (simp add: BigMax_def)
    then have m0: "0 \<le> modexp_mult ?x"
      using modexp_mult_ge(2) [of ?x] by (cases "?x = 0") (auto simp: modexp_mult_def)
    then have g0: "0 \<le> gas" by (auto simp: gas_def BigMax_def intro!: pos_imp_zdiv_nonneg_iff [THEN iffD2] mult_nonneg_nonneg)
    have "\<not> 64 < BitLen gas" using that by (auto simp: unat_MaxUint64 split: if_splits)
    then have "gas < 2 ^ 64" using g0 BitLen_le [of gas 64] by simp
    with that \<open>\<not> 64 < BitLen gas\<close> have "gas < 2 ^ 46"
      using g0 by (simp add: Uint64_small nat_less_iff)
    then have "modexp_mult ?x * BigMax adj 1 < 20 * 2 ^ 46" by (simp add: gas_def)
    moreover have "max 1 (8 * (el - 32)) \<le> BigMax adj 1" by (auto simp: BigMax_def adj_def)
    then have "modexp_mult ?x * max 1 (8 * (el - 32)) \<le> modexp_mult ?x * BigMax adj 1"
      using m0 by (intro mult_left_mono) auto
    ultimately show ?thesis by linarith
  qed
  ultimately show ?thesis using len by auto
qed

lemma modexp_safe:
  assumes "length inp < 2 ^ 62" and "bigModExp_RequiredGas inp = Inr g" and "unat g < 2 ^ 46"
  shows "\<exists>r. bigModExp_Run inp = Inr r"
proof -
  obtain bl el ml where len: "modexp_len inp 0 = Inr bl" "modexp_len inp 32 = Inr el"
    "modexp_len inp 64 = Inr ml" "0 \<le> bl" "0 \<le> el" "0 \<le> ml"
    and price: "modexp_mult (BigMax ml bl) * max 1 (8 * (el - 32)) < 20 * 2 ^ 46"
    using modexp_price [OF assms(1)] assms(2,3) by auto
  define rest where "rest = (if 96 < length inp then drop 96 inp else [])"
  have rest: "length rest < 2 ^ 62" using assms(1) by (auto simp: rest_def)
  show ?thesis
  proof (cases "Uint64 bl = 0 \<and> Uint64 ml = 0")
    case True
    then show ?thesis by (simp add: bigModExp_Run_def len)
  next
    case False
    let ?x = "BigMax ml bl"
    have "0 < ?x"
    proof (rule ccontr)
      assume "\<not> 0 < ?x"
      then have "ml = 0" "bl = 0" using len(4,6) by (auto simp: BigMax_def split: if_splits)
      with False show False by (simp add: Uint64_def)
    qed
    note m = modexp_mult_ge [OF this]
    have one: "modexp_mult ?x \<le> modexp_mult ?x * max 1 (8 * (el - 32))"
      using m(2) by simp
    have "x < 2 ^ 36" if "x * x div 16 < 20 * 2 ^ 46" "0 < x" for x :: int
    proof (rule ccontr)
      assume "\<not> x < 2 ^ 36"
      then have "2 ^ 36 * 2 ^ 36 \<le> x * x" by (intro mult_mono) auto
      then have "2 ^ 36 * 2 ^ 36 div 16 \<le> x * x div (16 :: int)" by (intro zdiv_mono1) auto
      with that(1) show False by simp
    qed
    from this [of ?x] m(1) one price \<open>0 < ?x\<close> have "?x < 2 ^ 36" by linarith
    then have "bl < 2 ^ 36" "ml < 2 ^ 36" by (auto simp: BigMax_def split: if_splits)
    moreover have "max 1 (8 * (el - 32)) \<le> modexp_mult ?x * max 1 (8 * (el - 32))"
      using m(2) mult_right_mono [of 1 "modexp_mult ?x" "max 1 (8 * (el - 32))"] by simp
    then have "8 * (el - 32) < 20 * 2 ^ 46" using price by linarith
    ultimately have small: "unat (Uint64 bl) \<le> 2 ^ 48" "unat (Uint64 el) \<le> 2 ^ 48" "unat (Uint64 ml) \<le> 2 ^ 48"
      using len(4-6) by (simp_all add: Uint64_small nat_le_iff)
    have "int (unat (Uint64 ml)) \<le> int (2 ^ 48)" using small(3) by (simp only: of_nat_le_iff)
    then have "0 \<le> sint (Uint64 ml)" "sint (Uint64 ml) \<le> maxAlloc"
      using sint_small [of "Uint64 ml"] small(3) by (simp_all add: maxAlloc_def)
    note pad = pad_safe(2) [OF this]
    note data = getData_safe [OF rest small(1), of 0] getData_safe [OF rest small(2), of "Uint64 bl"]
      getData_safe [OF rest small(3), of "Uint64 bl + Uint64 el"]
    then obtain b e m where "getData rest 0 (Uint64 bl) = Inr b"
      "getData rest (Uint64 bl) (Uint64 el) = Inr e"
      "getData rest (Uint64 bl + Uint64 el) (Uint64 ml) = Inr m" by blast
    then show ?thesis
      unfolding bigModExp_Run_def len bindR.simps Let_def rest_def [symmetric]
      using False pad [of "[]"] pad [of "big_Bytes (big_Exp_mod (big_SetBytes b) (big_SetBytes e) (big_SetBytes m))"]
      by auto
  qed
qed

definition paid_safe :: "bytes \<Rightarrow> PrecompiledContract \<Rightarrow> bool" where
  "paid_safe inp p \<longleftrightarrow>
    (\<exists>g. pc_RequiredGas p inp = Inr g \<and> (unat g < 2 ^ 46 \<longrightarrow> (\<exists>r. pc_Run p inp = Inr r)))"

lemma paid_safe_hashes:
  "paid_safe inp \<lparr>pc_RequiredGas = ecrecover_RequiredGas, pc_Run = ecrecover_Run C\<rparr>"
  "paid_safe inp \<lparr>pc_RequiredGas = sha256hash_RequiredGas, pc_Run = sha256hash_Run C\<rparr>"
  "paid_safe inp \<lparr>pc_RequiredGas = ripemd160hash_RequiredGas, pc_Run = ripemd160hash_Run C\<rparr>"
  "paid_safe inp \<lparr>pc_RequiredGas = dataCopy_RequiredGas, pc_Run = dataCopy_Run\<rparr>"
  "paid_safe inp \<lparr>pc_RequiredGas = bn256Pairing_RequiredGas, pc_Run = bn256Pairing_Run C\<rparr>"
  by (auto simp: paid_safe_def ecrecover_RequiredGas_def sha256hash_RequiredGas_def
      ripemd160hash_RequiredGas_def dataCopy_RequiredGas_def per_word_def bn256Pairing_RequiredGas_def
      ecrecover_Run_def sha256hash_Run_def ripemd160hash_Run_def dataCopy_Run_def
      bn256Pairing_Run_def Let_def split: option.split sum.split)

lemma paid_safe_curve:
  assumes "length inp < 2 ^ 62"
  shows "paid_safe inp \<lparr>pc_RequiredGas = bn256Add_RequiredGas, pc_Run = bn256Add_Run C\<rparr>"
    and "paid_safe inp \<lparr>pc_RequiredGas = bn256ScalarMul_RequiredGas, pc_Run = bn256ScalarMul_Run C\<rparr>"
proof -
  obtain x y z where "getData inp 0 64 = Inr x" "getData inp 64 64 = Inr y" "getData inp 64 32 = Inr z"
    using getData_safe [OF assms, of 64] getData_safe [OF assms, of 32] by fastforce
  then show "paid_safe inp \<lparr>pc_RequiredGas = bn256Add_RequiredGas, pc_Run = bn256Add_Run C\<rparr>"
    "paid_safe inp \<lparr>pc_RequiredGas = bn256ScalarMul_RequiredGas, pc_Run = bn256ScalarMul_Run C\<rparr>"
    by (auto simp: paid_safe_def bn256Add_RequiredGas_def bn256ScalarMul_RequiredGas_def
        bn256Add_Run_def bn256ScalarMul_Run_def split: sum.split)
qed

lemma paid_safe_modexp:
  "length inp < 2 ^ 62 \<Longrightarrow> paid_safe inp \<lparr>pc_RequiredGas = bigModExp_RequiredGas, pc_Run = bigModExp_Run\<rparr>"
  using modexp_price [of inp] modexp_safe [of inp] by (auto simp: paid_safe_def)

lemma precompile_safe:
  assumes "precompiles E a = Some p" and "length inp < 2 ^ 62" and "unat (ct_Gas c) < 2 ^ 46"
  shows "\<exists>r. RunPrecompiledContract p inp c = Inr r"
proof -
  have "paid_safe inp p"
    using assms(1) paid_safe_hashes paid_safe_curve [OF assms(2)] paid_safe_modexp [OF assms(2)]
    by (auto simp: precompiles_def PrecompiledContractsByzantium_def PrecompiledContractsHomestead_def
        split: if_splits)
  then obtain g where g: "pc_RequiredGas p inp = Inr g" "unat g < 2 ^ 46 \<Longrightarrow> \<exists>r. pc_Run p inp = Inr r"
    by (auto simp: paid_safe_def)
  show ?thesis
  proof (cases "ct_Gas c < g")
    case True
    then show ?thesis by (simp add: RunPrecompiledContract_def g Contract_UseGas_def)
  next
    case False
    then have "unat g < 2 ^ 46" using assms(3) by (simp add: word_less_nat_alt)
    with g(2) obtain r where "pc_Run p inp = Inr r" by blast
    then show ?thesis using False by (simp add: RunPrecompiledContract_def g Contract_UseGas_def)
  qed
qed

section \<open>What the machine relies on\<close>

text \<open>Lengths of Go slices fit in an \<open>int\<close> with room to spare, and amounts of money are words.\<close>

definition sound_env :: "'db VmEnv \<Rightarrow> bool" where
  "sound_env E \<longleftrightarrow> word_ok (env_GasPrice E) \<and>
    (\<forall>b. length (cr_Keccak256 (env_crypto E) b) = 32)"

definition holds_words :: "'db StateDB \<Rightarrow> 'db \<Rightarrow> bool" where
  "holds_words D db \<longleftrightarrow> (\<forall>a. word_ok (db_GetBalance D db a) \<and> db_GetCodeSize D db a < 2 ^ 62 \<and>
    length (db_GetCode D db a) < 2 ^ 62)"

text \<open>The refund counter, which paying for an instruction may raise, has no part in it.\<close>

definition sound_state :: "'db StateDB \<Rightarrow> 'db \<Rightarrow> bool" where
  "sound_state D db \<longleftrightarrow> holds_words D db \<and> (\<forall>g. holds_words D (db_AddRefund D db g))"

definition sound_contract :: "Contract \<Rightarrow> bool" where
  "sound_contract c \<longleftrightarrow> length (ct_Code c) < 2 ^ 62 \<and> length (ct_Input c) < 2 ^ 62 \<and>
    word_ok (ct_value c) \<and> unat (ct_Gas c) < 2 ^ 45"

section \<open>Who is to blame\<close>

text \<open>
  An instruction that calls may fail with a panic of a callee, or because the snapshot cannot be
  undone; \<open>c\<close> says whether it calls.
\<close>

definition blame :: "bool \<Rightarrow> 'db runner \<Rightarrow> abort \<Rightarrow> bool" where
  "blame c R a \<longleftrightarrow> c \<and> (a = AbortRevision \<or> (\<exists>evm k inp. R evm k inp = Inl a))"

lemma blame_simps [simp]: "\<not> blame False R a" "blame True R AbortRevision"
  by (auto simp: blame_def)

text \<open>What was right about any code in the table of analysed code still is.\<close>

definition analysed :: "'db EVM \<Rightarrow> 'db EVM \<Rightarrow> bool" where
  "analysed evm evm' \<longleftrightarrow> (\<forall>h code. coherent (evm_jumpdests evm) h code \<longrightarrow>
    coherent (evm_jumpdests evm') h code)"

definition tables_kept :: "'db runner \<Rightarrow> bool" where
  "tables_kept R \<longleftrightarrow> (\<forall>evm k inp r evm' k'. R evm k inp = Inr (r, evm', k') \<longrightarrow> analysed evm evm')"

abbreviation kept :: "'db runner \<Rightarrow> 'db EVM \<Rightarrow> 'db EVM \<Rightarrow> bool" where
  "kept R evm evm' \<equiv> tables_kept R \<longrightarrow> analysed evm evm'"

section \<open>Well-typed frames\<close>

definition memory_ok :: "Memory \<Rightarrow> bool" where
  "memory_ok m \<longleftrightarrow> length (mem_store m) mod 32 = 0 \<and> length (mem_store m) \<le> 0xffffffffe0"

abbreviation coherent_fr :: "'db frame \<Rightarrow> bool" where
  "coherent_fr fr \<equiv>
    coherent (evm_jumpdests (fr_evm fr)) (ct_CodeHash (fr_contract fr)) (ct_Code (fr_contract fr))"

definition frame_shape :: "'db frame \<Rightarrow> bool" where
  "frame_shape fr \<longleftrightarrow> list_all word_ok (fr_stack fr) \<and> length (fr_stack fr) \<le> StackLimit \<and>
    memory_ok (fr_memory fr) \<and> starts (ct_Code (fr_contract fr)) (unat (fr_pc fr))"

definition frame_ok :: "'db frame \<Rightarrow> bool" where
  "frame_ok fr \<longleftrightarrow> frame_shape fr \<and> coherent_fr fr"

text \<open>The frame an instruction is executed on: gas paid and memory sized.\<close>

definition ready ::
  "'db VmEnv \<Rightarrow> nat \<Rightarrow> memorySizeFunc option \<Rightarrow> (Stack \<Rightarrow> u64 \<Rightarrow> nat) \<Rightarrow> 'db frame \<Rightarrow> bool" where
  "ready E pops msize gain fr \<longleftrightarrow> sound_env E \<and> holds_words (env_db E) (fr_db fr) \<and> sound_contract (fr_contract fr) \<and>
    length (evm_returnData (fr_evm fr)) < 2 ^ 62 \<and> list_all word_ok (fr_stack fr) \<and>
    pops \<le> length (fr_stack fr) \<and> length (mem_store (fr_memory fr)) \<le> 0xffffffffe0 \<and>
    (\<forall>f m. msize = Some f \<longrightarrow> f (fr_stack fr) = Inr m \<longrightarrow> m \<le> int (length (mem_store (fr_memory fr)))) \<and>
    gain_of gain fr < 2 ^ 45 \<and> coherent_fr fr \<and>
    unat (fr_pc fr) < 2 ^ 62 + 64"

text \<open>
  What an instruction does to a frame; it moves the counter forward by \<open>k\<close> for \<open>Some k\<close>, and for
  \<open>None\<close> it steps to the next byte or jumps to the start of an instruction.
\<close>

definition goes :: "nat option \<Rightarrow> 'db frame \<Rightarrow> 'db frame \<Rightarrow> bool" where
  "goes to fr fr' =
    (case to of
       Some k \<Rightarrow> fr_pc fr' = fr_pc fr + of_nat k
     | None \<Rightarrow> fr_pc fr' = fr_pc fr + 1 \<or> starts (ct_Code (fr_contract fr)) (unat (fr_pc fr')))"

definition moves ::
  "bool \<Rightarrow> 'db runner \<Rightarrow> nat \<Rightarrow> nat \<Rightarrow> nat option \<Rightarrow> 'db frame \<Rightarrow> (bytes \<times> evm_err option) \<times> 'db frame \<Rightarrow> bool" where
  "moves c R pops pushes to fr = (\<lambda>((res, err), fr'). err = None \<longrightarrow>
    list_all word_ok (fr_stack fr') \<and> length (fr_stack fr') + pops = length (fr_stack fr) + pushes \<and>
    length (mem_store (fr_memory fr')) = length (mem_store (fr_memory fr)) \<and>
    ct_Code (fr_contract fr') = ct_Code (fr_contract fr) \<and>
    ct_CodeHash (fr_contract fr') = ct_CodeHash (fr_contract fr) \<and>
    ct_Input (fr_contract fr') = ct_Input (fr_contract fr) \<and>
    ct_value (fr_contract fr') = ct_value (fr_contract fr) \<and>
    ((c \<longrightarrow> tables_kept R) \<longrightarrow> coherent_fr fr') \<and> goes to fr fr')"

abbreviation does ::
  "bool \<Rightarrow> 'db runner \<Rightarrow> nat \<Rightarrow> nat \<Rightarrow> nat option \<Rightarrow> 'db frame \<Rightarrow>
    abort + (bytes \<times> evm_err option) \<times> 'db frame \<Rightarrow> bool" where
  "does c R pops pushes to fr \<equiv> wp (blame c R) (moves c R pops pushes to fr)"

text \<open>The size of the memory can be read off a stack that is long enough.\<close>

definition sizable :: "nat \<Rightarrow> memorySizeFunc option \<Rightarrow> bool" where
  "sizable pops msize \<longleftrightarrow>
    (\<forall>f st. msize = Some f \<longrightarrow> pops \<le> length st \<longrightarrow> (\<exists>m. f st = Inr m))"

lemmas msize_simps = memorySha3_def memoryCallDataCopy_def memoryReturnDataCopy_def memoryCodeCopy_def
  memoryExtCodeCopy_def memoryMLoad_def memoryMStore8_def memoryMStore_def memoryCreate_def
  memoryCall_def memoryDelegateCall_def memoryStaticCall_def memoryReturn_def memoryRevert_def
  memoryLog_def calcMemSize_at_def Stack_Back_def

lemma sizable [simp]:
  "sizable n None" "sizable 2 (Some memorySha3)" "sizable 3 (Some memoryCallDataCopy)"
  "sizable 3 (Some memoryReturnDataCopy)" "sizable 3 (Some memoryCodeCopy)"
  "sizable 4 (Some memoryExtCodeCopy)" "sizable (Suc 0) (Some memoryMLoad)"
  "sizable 2 (Some memoryMStore8)" "sizable 2 (Some memoryMStore)" "sizable 3 (Some memoryCreate)"
  "sizable 7 (Some memoryCall)" "sizable 6 (Some memoryDelegateCall)"
  "sizable 6 (Some memoryStaticCall)" "sizable 2 (Some memoryReturn)"
  "sizable 2 (Some memoryRevert)" "sizable (Suc (Suc k)) (Some memoryLog)"
  by (auto simp: sizable_def msize_simps)

definition effect ::
  "bool \<Rightarrow> (Stack \<Rightarrow> evm_err option) \<Rightarrow> memorySizeFunc option \<Rightarrow> (Stack \<Rightarrow> u64 \<Rightarrow> nat) \<Rightarrow> nat option \<Rightarrow>
    'db executionFunc \<Rightarrow> bool" where
  "effect c v msize gain to f \<longleftrightarrow>
    (\<exists>pops pushes. (\<forall>st. v st = None \<longrightarrow> pops \<le> length st \<and> length st + pushes \<le> StackLimit + pops) \<and>
      sizable pops msize \<and>
      (\<forall>E R fr. ready E pops msize gain fr \<longrightarrow> does c R pops pushes to fr (f E R fr)))"

lemma effect_local:
  assumes "effect False v msize gain to f"
  shows "effect c v msize gain to f"
proof -
  obtain pops pushes where v: "\<forall>st. v st = None \<longrightarrow> pops \<le> length st \<and> length st + pushes \<le> StackLimit + pops"
      "sizable pops msize"
    and f: "\<And>E R fr. ready E pops msize gain fr \<Longrightarrow> does False R pops pushes to fr (f E R fr)"
    using assms unfolding effect_def by blast
  have "does c R pops pushes to fr (f E R fr)" if "ready E pops msize gain fr" for E R fr
    using f [OF that, of R] by (cases "f E R fr") (auto simp: moves_def split: prod.splits)
  with v show ?thesis unfolding effect_def by blast
qed

lemma effectI:
  assumes "\<And>E R fr. ready E pops msize gain fr \<Longrightarrow> does c R pops pushes to fr (f E R fr)"
    and "sizable pops msize"
  shows "effect c (makeStackFunc pops pushes) msize gain to f"
proof -
  have "makeStackFunc pops pushes st = None \<longrightarrow>
      pops \<le> length st \<and> length st + pushes \<le> StackLimit + pops" for st
    by (auto simp: makeStackFunc_def Stack_require_def StackLimit_def split: option.splits if_splits)
  with assms show ?thesis unfolding effect_def by blast
qed

named_theorems effect_rules \<open>what the instructions do to a frame\<close>

lemmas move_simps = moves_def goes_def op_push_def op_done_def op_fail_def set_stack_def set_db_def
  ready_def Let_def

section \<open>Instructions\<close>

lemma stack_op_effect:
  assumes "stack_op_ok pops pushes f"
  shows "effect False (makeStackFunc pops pushes) None no_gain (Some 0) (stack_op f)"
proof (rule effectI)
  fix E and R :: "'a runner" and fr :: "'a frame"
  assume "ready E pops None no_gain fr"
  then show "does False R pops pushes (Some 0) fr (stack_op f E R fr)"
    using assms by (auto simp: stack_op_ok_def stack_op_def move_simps)
qed simp

lemmas stack_effects [effect_rules] = alu_stack_ok [THEN stack_op_effect] opPop_ok [THEN stack_op_effect]

lemma family_effects [effect_rules]:
  "0 < n \<Longrightarrow> effect False (makeDupStackFunc n) None no_gain (Some 0) (stack_op (makeDup n))"
  "effect False (makeSwapStackFunc (n + 1)) None no_gain (Some 0) (stack_op (makeSwap n))"
  using stack_op_effect [OF makeDup_ok, of n] stack_op_effect [OF makeSwap_ok, of n]
  by (simp_all add: makeDupStackFunc_def makeSwapStackFunc_def)

lemma word_small: "n < 2 ^ 62 \<Longrightarrow> word_ok (int n)"
  by (simp add: word_ok_def)

lemma word_01 [simp]: "word_ok 0" "word_ok 1"
  by (simp_all add: word_ok_def)

lemma word_bytes: "length b \<le> 32 \<Longrightarrow> word_ok (big_SetBytes b)"
proof -
  assume "length b \<le> 32"
  then have "(256 :: nat) ^ length b \<le> 256 ^ 32" by (intro power_increasing) auto
  with be_val_less [of b] have "be_val b < 256 ^ 32" by linarith
  then show ?thesis by (simp add: word_ok_def big_SetBytes_def)
qed

lemma word_Hash [simp]: "word_ok (Hash_Big h)" "word_ok (Address_Big a)"
  by (simp_all add: Hash_Big_def Address_Big_def word_bytes Hash_Bytes_def Address_Bytes_def
      HashLength_def AddressLength_def)

lemma word_u64 [simp]: "word_ok (uint (x :: u64))"
proof -
  have "uint x < 2 ^ 64" using unsigned_less [of x] by simp
  then show ?thesis by (simp add: word_ok_def)
qed

lemma op_push_effect:
  assumes "\<And>E R fr. ready E 0 None no_gain fr \<Longrightarrow> \<exists>x. f E R fr = op_push x fr \<and> word_ok x"
  shows "effect False (makeStackFunc 0 1) None no_gain (Some 0) f"
proof (rule effectI)
  fix E and R :: "'a runner" and fr :: "'a frame"
  assume r: "ready E 0 None no_gain fr"
  from assms [OF r, of R] r show "does False R 0 1 (Some 0) fr (f E R fr)"
    by (auto simp: move_simps)
qed simp

lemma push_effects [effect_rules]:
  "effect False (makeStackFunc 0 1) None no_gain (Some 0) opAddress"
  "effect False (makeStackFunc 0 1) None no_gain (Some 0) opOrigin"
  "effect False (makeStackFunc 0 1) None no_gain (Some 0) opCaller"
  "effect False (makeStackFunc 0 1) None no_gain (Some 0) opCallValue"
  "effect False (makeStackFunc 0 1) None no_gain (Some 0) opCallDataSize"
  "effect False (makeStackFunc 0 1) None no_gain (Some 0) opReturnDataSize"
  "effect False (makeStackFunc 0 1) None no_gain (Some 0) opCodeSize"
  "effect False (makeStackFunc 0 1) None no_gain (Some 0) opGasprice"
  "effect False (makeStackFunc 0 1) None no_gain (Some 0) opCoinbase"
  "effect False (makeStackFunc 0 1) None no_gain (Some 0) opTimestamp"
  "effect False (makeStackFunc 0 1) None no_gain (Some 0) opNumber"
  "effect False (makeStackFunc 0 1) None no_gain (Some 0) opDifficulty"
  "effect False (makeStackFunc 0 1) None no_gain (Some 0) opGasLimit"
  "effect False (makeStackFunc 0 1) None no_gain (Some 0) opPc"
  "effect False (makeStackFunc 0 1) None no_gain (Some 0) opMsize"
  "effect False (makeStackFunc 0 1) None no_gain (Some 0) opGas"
  by (rule op_push_effect, simp add: opAddress_def opOrigin_def opCaller_def opCallValue_def
      opCallDataSize_def opReturnDataSize_def opCodeSize_def opGasprice_def opCoinbase_def
      opTimestamp_def opNumber_def opDifficulty_def opGasLimit_def opPc_def opMsize_def opGas_def,
      rule exI, rule conjI, rule refl,
      simp add: ready_def sound_env_def sound_contract_def word_small Memory_Len_def)+

lemma none_effects [effect_rules]:
  "effect False (makeStackFunc 0 0) None no_gain (Some 0) opStop"
  "effect False (makeStackFunc 0 0) None no_gain (Some 0) opJumpdest"
  by (rule effectI, simp_all add: opStop_def opJumpdest_def move_simps)+

lemma getDataBig_safe:
  assumes "length d < 2 ^ 62" and "0 \<le> x" and "0 \<le> n" and "n \<le> maxAlloc"
  shows "\<exists>b. getDataBig d x n = Inr b \<and> length b = nat n"
proof -
  define s where "s = BigMin x (int (length d))"
  define e where "e = BigMin (s + n) (int (length d))"
  have se: "0 \<le> s" "s \<le> e" "e \<le> s + n" "e \<le> int (length d)" "e < 2 ^ 62"
    using assms by (auto simp: s_def e_def BigMin_def)
  then have u: "unat (Uint64 s) = nat s" "unat (Uint64 e) = nat e" "unat (Uint64 n) = nat n"
    using assms(3,4) by (simp_all add: Uint64_small maxAlloc_def)
  have "int (unat (Uint64 n)) < int (2 ^ 63)" using u(3) assms(3,4) by (simp add: maxAlloc_def)
  then have "sint (Uint64 n) = int (unat (Uint64 n))"
    using sint_small [of "Uint64 n"] by (simp only: of_nat_less_iff uint_nat)
  then have sz: "sint (Uint64 n) = n" using u(3) assms(3) by simp
  have "\<not> (Uint64 e < Uint64 s \<or> length d < unat (Uint64 e))"
    using u se by (auto simp: word_less_nat_alt)
  moreover have "length (take (nat e - nat s) (drop (nat s) d)) \<le> nat n"
    using se by auto
  ultimately show ?thesis
    using pad_safe(1) [OF assms(3,4), of "take (nat e - nat s) (drop (nat s) d)"]
    unfolding getDataBig_def Let_def s_def [symmetric] e_def [symmetric] sz u by simp
qed

lemma getDataBig_word:
  assumes "length d < 2 ^ 62" and "0 \<le> x" and "\<And>b. length b = 32 \<Longrightarrow> P b"
  shows "wp A P (getDataBig d x 32)"
  using getDataBig_safe [OF assms(1,2), of 32] assms(3) by (auto simp: maxAlloc_def)

lemma word_ok_nonneg: "word_ok x \<Longrightarrow> 0 \<le> x"
  by (simp add: word_ok_def)

lemma state_effects [effect_rules]:
  "effect False (makeStackFunc 1 1) None no_gain (Some 0) opBalance"
  "effect False (makeStackFunc 1 1) None no_gain (Some 0) opCallDataLoad"
  "effect False (makeStackFunc 1 1) None no_gain (Some 0) opExtCodeSize"
  "effect False (makeStackFunc 1 1) None no_gain (Some 0) opBlockhash"
  "effect False (makeStackFunc 1 1) None no_gain (Some 0) opSload"
  "effect False (makeStackFunc 2 0) None no_gain (Some 0) opSstore"
  "effect False (makeStackFunc 1 0) None no_gain (Some 0) opSuicide"
  by (rule effectI, auto simp: move_simps opBalance_def opCallDataLoad_def opExtCodeSize_def
      opBlockhash_def opSload_def opSstore_def opSuicide_def holds_words_def word_small
      word_bytes sound_contract_def word_ok_nonneg split: list.splits intro!: getDataBig_word)+

section \<open>Memory\<close>

lemma Memory_Get_32:
  assumes "0 \<le> off" and "calcMemSize off 32 \<le> int (length (mem_store m))" and "length (mem_store m) < 2 ^ 63"
  shows "Memory_Get m (Int64 off) 32 = Inr (take 32 (drop (nat off) (mem_store m)))"
  using Memory_Get_sized [OF assms(1) _ assms(2,3)] by (simp add: Int64_small)

lemma Memory_Set_32:
  assumes "0 \<le> off" and "calcMemSize off 32 \<le> int (length (mem_store m))" and "length (mem_store m) < 2 ^ 63"
  shows "Memory_Set m (Uint64 off) 32 v =
    Inr (m\<lparr>mem_store := go_copy (mem_store m) (nat off) (take 32 v)\<rparr>)"
proof -
  have "Uint64 32 = 32" by (simp add: Uint64_def)
  then show ?thesis using Memory_Set_sized [OF assms(1) _ assms(2,3), of v] by simp
qed

lemma list_all_drop: "list_all P xs \<Longrightarrow> list_all P (drop n xs)"
  by (auto simp: list_all_iff dest: in_set_dropD)

lemma no_wrap:
  assumes "0 \<le> a" "0 \<le> b" "\<not> 64 < BitLen (a + b)"
  shows "\<not> Uint64 (a + b) < Uint64 a"
proof -
  have "a + b < 2 ^ 64" using assms BitLen_le [of "a + b" 64] by simp
  then show ?thesis using assms by (simp add: word_less_nat_alt Uint64_small)
qed

lemma mem_bound: "n \<le> 0xffffffffe0 \<Longrightarrow> n < (2 :: nat) ^ 63"
  by simp

lemmas access = Memory_Get_sized Memory_GetPtr_sized Memory_Set_sized Memory_Get_32 Memory_Set_32
  no_wrap list_all_drop word_ok_nonneg mem_bound

lemma memory_effects [effect_rules]:
  "effect False (makeStackFunc 2 1) (Some memorySha3) no_gain (Some 0) opSha3"
  "effect False (makeStackFunc 1 1) (Some memoryMLoad) no_gain (Some 0) opMload"
  "effect False (makeStackFunc 2 0) (Some memoryReturn) no_gain (Some 0) opReturn"
  "effect False (makeStackFunc 2 0) (Some memoryRevert) no_gain (Some 0) opRevert"
  by (rule effectI, auto simp: move_simps msize_simps sizable_def access opSha3_def opMload_def opReturn_def
      opRevert_def sound_env_def word_bytes split: list.splits)+

lemma mstore8_in:
  "word_ok x \<Longrightarrow> x + 1 \<le> int n \<Longrightarrow> n \<le> 0xffffffffe0 \<Longrightarrow> 0 \<le> Int64 x \<and> Int64 x < int n"
  by (subst Int64_small; simp add: word_ok_def)+

lemma mstore_effects [effect_rules]:
  "effect False (makeStackFunc 2 0) (Some memoryMStore) no_gain (Some 0) opMstore"
  "effect False (makeStackFunc 2 0) (Some memoryMStore8) no_gain (Some 0) opMstore8"
  by (rule effectI, auto simp: move_simps msize_simps sizable_def access opMstore_def opMstore8_def
      calcMemSize_def [of _ 1] mstore8_in split: list.splits)+

lemma log_effects [effect_rules]:
  "effect False (makeStackFunc (Suc (Suc n)) 0) (Some memoryLog) no_gain (Some 0) (makeLog n)"
  by (rule effectI, auto simp: move_simps msize_simps sizable_def access makeLog_def split: list.splits)

text \<open>What a copy instruction reads fits in the memory it is copied to.\<close>

lemma op_copy_safe:
  assumes "length d < 2 ^ 62" and "word_ok x" and "word_ok m" and "word_ok n"
    and mem: "calcMemSize m n \<le> int (length (mem_store (fr_memory fr)))" "length (mem_store (fr_memory fr)) \<le> 0xffffffffe0"
    and P: "\<And>mem. length (mem_store mem) = length (mem_store (fr_memory fr)) \<Longrightarrow>
      P (([], None), set_stack st (fr\<lparr>fr_memory := mem\<rparr>))"
  shows "wp A (\<lambda>b. wp A P (op_copy m n b st fr)) (getDataBig d x n)"
proof -
  have word: "0 \<le> x" "0 \<le> m" "0 \<le> n" using assms(2-4) by (simp_all add: word_ok_def)
  have "n \<le> maxAlloc"
    using word mem by (auto simp: calcMemSize_def sgn_if maxAlloc_def split: if_splits)
  then obtain b where "getDataBig d x n = Inr b" using getDataBig_safe [OF assms(1) word(1,3)] by blast
  moreover have "wp A P (op_copy m n b st fr)"
    using Memory_Set_sized [OF word(2,3) mem(1), of b] mem(2) P by (simp add: op_copy_def op_done_def)
  ultimately show ?thesis by simp
qed

lemma copy_effects [effect_rules]:
  "effect False (makeStackFunc 3 0) (Some memoryCallDataCopy) no_gain (Some 0) opCallDataCopy"
  "effect False (makeStackFunc 3 0) (Some memoryCodeCopy) no_gain (Some 0) opCodeCopy"
  "effect False (makeStackFunc 4 0) (Some memoryExtCodeCopy) no_gain (Some 0) opExtCodeCopy"
  by (rule effectI, auto simp: move_simps msize_simps sizable_def opCallDataCopy_def
      opCodeCopy_def opExtCodeCopy_def sound_contract_def holds_words_def
      split: list.splits intro!: op_copy_safe)+

lemma return_copy_effect [effect_rules]:
  "effect False (makeStackFunc 3 0) (Some memoryReturnDataCopy) no_gain (Some 0) opReturnDataCopy"
  by (rule effectI, auto simp: move_simps msize_simps sizable_def access op_copy_def opReturnDataCopy_def
      split: list.splits)

section \<open>Pushes and jumps\<close>

lemma sint_next: "unat w < 2 ^ 62 + 64 \<Longrightarrow> sint (w + 1) = uint w + 1" for w :: u64
proof -
  assume w: "unat w < 2 ^ 62 + 64"
  then have u: "unat (w + 1) = unat w + 1" using unat_add_less [of w 1] by simp
  then have "uint (w + 1) = uint w + 1" by (metis of_nat_unat of_nat_add of_nat_1)
  then show ?thesis using sint_small [of "w + 1"] u w by simp
qed

lemma push_effect [effect_rules]:
  assumes "n \<le> 32"
  shows "effect False (makeStackFunc 0 1) None no_gain (Some n) (makePush (of_nat n) n)"
proof (rule effectI)
  fix E and R :: "'a runner" and fr :: "'a frame"
  assume r: "ready E 0 None no_gain fr"
  let ?code = "ct_Code (fr_contract fr)"
  have p: "sint (fr_pc fr + 1) = uint (fr_pc fr) + 1"
    using r by (intro sint_next) (simp add: ready_def)
  define st where "st = (if uint (fr_pc fr) + 1 < int (length ?code)
    then uint (fr_pc fr) + 1 else int (length ?code))"
  define en where "en = (if st + int n < int (length ?code) then st + int n else int (length ?code))"
  define x where "x = big_SetBytes (RightPadBytes (take (nat (en - st)) (drop (nat st) ?code)) n)"
  have "0 \<le> st" by (simp add: st_def add_nonneg_nonneg)
  then have push: "makePush (of_nat n) n E R fr =
      op_done ((set_stack (x # fr_stack fr) fr)\<lparr>fr_pc := fr_pc fr + of_nat n\<rparr>)"
    unfolding makePush_def Let_def p st_def [symmetric] en_def [symmetric] x_def [symmetric] by simp
  have "nat (en - st) \<le> n" by (simp add: en_def nat_le_iff)
  then have "word_ok x"
    unfolding x_def using assms by (intro word_bytes) (auto simp: RightPadBytes_def)
  with r show "does False R 0 1 (Some n) fr (makePush (of_nat n) n E R fr)"
    unfolding push by (simp add: move_simps)
qed simp

lemma coherent_mput: "codeBitmap code = Inr m \<Longrightarrow> coherent (mput h m d) h code"
  by (simp add: coherent_def mget_mput)

lemma jump_safe:
  assumes "coherent_fr fr" "sound_contract (fr_contract fr)" "word_ok pos" "list_all word_ok st"
    and "length st + pops = length (fr_stack fr)"
  shows "does False R pops 0 None fr (jump_to pos st fr)"
proof -
  let ?c = "fr_contract fr" and ?d = "evm_jumpdests (fr_evm fr)"
  obtain d' where d': "destinations_has ?d (ct_CodeHash ?c) (ct_Code ?c) pos =
      Inr (valid_jump (ct_Code ?c) pos, d')" "coherent d' (ct_CodeHash ?c) (ct_Code ?c)"
    using destinations_has_ok [of pos ?d "ct_CodeHash ?c" "ct_Code ?c"] assms coherent_mput
    by (auto simp: sound_contract_def)
  have "starts (ct_Code ?c) (unat (Uint64 pos))" if "valid_jump (ct_Code ?c) pos"
    using that assms(2,3) by (simp add: valid_jump_def sound_contract_def Uint64_small word_ok_def)
  then show ?thesis
    using assms d' by (cases "valid_jump (ct_Code ?c) pos")
      (simp_all add: jump_to_def moves_def goes_def op_fail_def op_done_def set_stack_def)
qed

lemma jump_effects [effect_rules]: "effect False (makeStackFunc 1 0) None no_gain None opJump"
proof (rule effectI)
  fix E and R :: "'a runner" and fr :: "'a frame"
  assume r: "ready E 1 None no_gain fr"
  then obtain pos st where st: "fr_stack fr = pos # st" by (cases "fr_stack fr") (auto simp: ready_def)
  with r show "does False R 1 0 None fr (opJump E R fr)"
    by (simp add: opJump_def) (rule jump_safe, simp_all add: ready_def)
qed simp

lemma jumpi_effects [effect_rules]: "effect False (makeStackFunc 2 0) None no_gain None opJumpi"
proof (rule effectI)
  fix E and R :: "'a runner" and fr :: "'a frame"
  assume r: "ready E 2 None no_gain fr"
  then obtain pos c st where st: "fr_stack fr = pos # c # st"
    by (cases "fr_stack fr"; cases "tl (fr_stack fr)") (auto simp: ready_def)
  show "does False R 2 0 None fr (opJumpi E R fr)"
  proof (cases "sgn c = 0")
    case True
    then show ?thesis using r st by (simp add: opJumpi_def move_simps)
  next
    case False
    have "does False R 2 0 None fr (jump_to pos st fr)"
      using r st by (intro jump_safe) (simp_all add: ready_def)
    then show ?thesis using False st by (simp add: opJumpi_def)
  qed
qed simp

section \<open>Calls\<close>

lemma analysed_same: "evm_jumpdests evm' = evm_jumpdests evm \<Longrightarrow> analysed evm evm'"
  by (simp add: analysed_def)

lemma evm_run_safe:
  assumes "length inp < 2 ^ 62" "unat (ct_Gas c) < 2 ^ 46"
  shows "wp (blame True R) (\<lambda>(r, evm', c'). kept R evm evm') (evm_run E R evm c inp)"
proof (cases "case ct_CodeAddr c of None \<Rightarrow> None | Some a \<Rightarrow> precompiles E a")
  case None
  have "blame True R a" if "R evm c inp = Inl a" for a using that by (auto simp: blame_def)
  moreover have "kept R evm evm'" if "R evm c inp = Inr (r, evm', c')" for r evm' c'
    using that unfolding tables_kept_def by blast
  ultimately show ?thesis using None by (cases "R evm c inp") (auto simp: evm_run_def)
next
  case (Some p)
  then obtain a where "precompiles E a = Some p" by (auto split: option.splits)
  from precompile_safe [OF this assms(1,2)] Some show ?thesis
    by (auto simp: evm_run_def analysed_same)
qed

lemma safe_revert: "(\<And>x. P x) \<Longrightarrow> wp (blame True R) P (RevertToSnapshot D db n)"
  by (auto simp: RevertToSnapshot_def split: option.splits)

lemma call_end_safe:
  "kept R evm0 evm \<Longrightarrow> wp (blame True R) (\<lambda>(x, evm'). kept R evm0 evm') (call_end E n (r, evm, c))"
  by (cases r) (auto simp: call_end_def Let_def analysed_def intro!: safe_revert split: option.splits)

lemma create_end_safe:
  "kept R evm0 evm \<Longrightarrow> wp (blame True R) (\<lambda>(x, evm'). kept R evm0 evm') (create_end E n a (r, evm, c))"
  by (cases r) (auto simp: create_end_def Let_def analysed_def intro!: safe_revert split: prod.splits)

lemma run_then_safe:
  assumes "length inp < 2 ^ 62" "unat (ct_Gas c) < 2 ^ 46"
    and "evm_jumpdests evm1 = evm_jumpdests evm"
    and "\<And>r evm2 c2. kept R evm evm2 \<Longrightarrow> wp (blame True R) Q (k (r, evm2, c2))"
  shows "wp (blame True R) (\<lambda>r. wp (blame True R) Q (k r)) (evm_run E R evm1 c inp)"
proof (rule wp_mono [OF evm_run_safe [OF assms(1,2)]])
  fix x :: "(bytes \<times> evm_err option) \<times> 'a EVM \<times> Contract"
  assume "case x of (r, evm', c') \<Rightarrow> kept R evm1 evm'"
  then show "wp (blame True R) Q (k x)" using assms(3,4) by (cases x) (simp add: analysed_def)
qed

lemma NewContract_of:
  "NewContract (ContractOf p) obj v gas d = (c, d') \<Longrightarrow> ct_Gas c = gas \<and> d' = d"
  by (auto simp: NewContract_def)

lemma AsDelegate_of: "\<exists>c'. AsDelegate (ContractOf p) c = Inr c' \<and> ct_Gas c' = ct_Gas c"
  by (simp add: AsDelegate_def)

lemma analysed_refl [simp]: "analysed evm evm"
  by (simp add: analysed_def)

lemma analysed_upd [simp]:
  "analysed evm (evm1\<lparr>evm_StateDB := db\<rparr>) = analysed evm evm1"
  "analysed evm (evm1\<lparr>evm_readOnly := b\<rparr>) = analysed evm evm1"
  "analysed (evm1\<lparr>evm_StateDB := db\<rparr>) evm = analysed evm1 evm"
  "analysed (evm1\<lparr>evm_readOnly := b\<rparr>) evm = analysed evm1 evm"
  "analysed (evm1\<lparr>evm_StateDB := db, evm_readOnly := b\<rparr>) evm = analysed evm1 evm"
  by (simp_all add: analysed_def)

lemma Call_safe:
  assumes "length inp < 2 ^ 62" "unat gas < 2 ^ 46"
  shows "wp (blame True R) (\<lambda>(x, evm'). kept R evm evm') (Call E R evm (ContractOf p) a inp gas v)"
  using assms
  by (auto simp: Call_def Let_def split: prod.splits dest!: NewContract_of
      intro!: run_then_safe call_end_safe)

lemma CallCode_safe:
  assumes "length inp < 2 ^ 62" "unat gas < 2 ^ 46"
  shows "wp (blame True R) (\<lambda>(x, evm'). kept R evm evm') (CallCode E R evm (ContractOf p) a inp gas v)"
  using assms
  by (auto simp: CallCode_def Let_def split: prod.splits dest!: NewContract_of
      intro!: run_then_safe call_end_safe)

lemma DelegateCall_safe:
  assumes "length inp < 2 ^ 62" "unat gas < 2 ^ 46"
  shows "wp (blame True R) (\<lambda>(x, evm'). kept R evm evm') (DelegateCall E R evm (ContractOf p) a inp gas)"
  using assms
  by (auto simp: DelegateCall_def AsDelegate_def Let_def split: prod.splits dest!: NewContract_of
      intro!: run_then_safe call_end_safe)

lemma StaticCall_safe:
  assumes "length inp < 2 ^ 62" "unat gas < 2 ^ 46"
  shows "wp (blame True R) (\<lambda>(x, evm'). kept R evm evm') (StaticCall E R evm (ContractOf p) a inp gas)"
  using assms
  by (auto simp: StaticCall_def Let_def split: prod.splits dest!: NewContract_of
      intro!: run_then_safe wp_mono [OF call_end_safe])

lemma Create_safe:
  assumes "unat gas < 2 ^ 46"
  shows "wp (blame True R) (\<lambda>(x, evm'). kept R evm evm') (Create E R evm (ContractOf p) code gas v)"
  using assms
  by (auto simp: Create_def Let_def split: prod.splits dest!: NewContract_of
      intro!: run_then_safe create_end_safe)

text \<open>What a call instruction does with the result keeps the frame as it should be.\<close>

lemma after_call_safe:
  assumes "kept R (fr_evm fr) evm" and "coherent_fr fr"
    and "0 \<le> o1" "0 \<le> s1" "calcMemSize o1 s1 \<le> int (length (mem_store (fr_memory fr)))"
    and "length (mem_store (fr_memory fr)) < 2 ^ 63"
    and "list_all word_ok st" and "length (fr_stack fr) = length st + pops"
  shows "does True R pops 1 (Some 0) fr (after_call o1 s1 st fr (r, evm))"
  using assms
  by (cases r) (auto simp: after_call_def moves_def goes_def set_stack_def add_gas_def Let_def
      analysed_def Memory_Set_sized)

lemma call_then_safe:
  assumes "wp (blame True R) (\<lambda>(x, evm'). kept R (fr_evm fr) evm') call" and "coherent_fr fr"
    and "0 \<le> o1" "0 \<le> s1" "calcMemSize o1 s1 \<le> int (length (mem_store (fr_memory fr)))"
    and "length (mem_store (fr_memory fr)) < 2 ^ 63"
    and "list_all word_ok st" and "length (fr_stack fr) = length st + pops"
  shows "wp (blame True R) (\<lambda>r. does True R pops 1 (Some 0) fr (after_call o1 s1 st fr r)) call"
  using assms(1)
proof (rule wp_mono)
  fix x :: "(bytes \<times> u64 \<times> evm_err option) \<times> 'a EVM"
  assume x: "case x of (x, evm') \<Rightarrow> kept R (fr_evm fr) evm'"
  obtain r evm where "x = (r, evm)" by (cases x)
  with after_call_safe [OF _ assms(2-), of R evm r] x
  show "does True R pops 1 (Some 0) fr (after_call o1 s1 st fr x)" by simp
qed

lemma stack_7: "7 \<le> length st \<Longrightarrow> \<exists>a b c d e f g st'. st = a # b # c # d # e # f # g # st'"
  by (auto simp: Suc_le_length_iff numeral_eq_Suc)

lemma stack_6: "6 \<le> length st \<Longrightarrow> \<exists>a b c d e f st'. st = a # b # c # d # e # f # st'"
  by (auto simp: Suc_le_length_iff numeral_eq_Suc)

lemma stack_3: "3 \<le> length st \<Longrightarrow> \<exists>a b c st'. st = a # b # c # st'"
  by (auto simp: Suc_le_length_iff numeral_eq_Suc)

lemma BigMax_le: "BigMax x y \<le> z \<longleftrightarrow> x \<le> z \<and> y \<le> z"
  by (auto simp: BigMax_def)

lemma stipend_bound: "unat g < 2 ^ 45 \<Longrightarrow> unat (g + CallStipend) < 2 ^ 46"
  using unat_add_le [of g CallStipend] by simp

lemma call_effects:
  assumes r: "ready E 7 (Some memoryCall) (call_gain True) fr"
  shows "does True R 7 1 (Some 0) fr (opCall E R fr)"
    and "does True R 7 1 (Some 0) fr (opCallCode E R fr)"
proof -
  have "7 \<le> length (fr_stack fr)" using r by (simp only: ready_def)
  then obtain g a v i1 i2 o1 o2 st where st: "fr_stack fr = g # a # v # i1 # i2 # o1 # o2 # st"
    using stack_7 by blast
  have mem: "calcMemSize i1 i2 \<le> int (length (mem_store (fr_memory fr)))"
    "calcMemSize o1 o2 \<le> int (length (mem_store (fr_memory fr)))"
    using r by (auto simp: ready_def st msize_simps BigMax_le)
  have gas: "unat (if b then evm_callGasTemp (fr_evm fr) + CallStipend else evm_callGasTemp (fr_evm fr))
      < 2 ^ 46" for b
    using r stipend_bound [of "evm_callGasTemp (fr_evm fr)"] by (auto simp: ready_def call_gain_def)
  have words: "0 \<le> i1" "0 \<le> i2" "0 \<le> o1" "0 \<le> o2" "list_all word_ok st"
    using r by (auto simp: ready_def st word_ok_def)
  have len: "length (mem_store (fr_memory fr)) < 2 ^ 62" "coherent_fr fr"
    using r by (auto simp: ready_def)
  define inp where "inp = take (nat i2) (drop (nat i1) (mem_store (fr_memory fr)))"
  have inp: "Memory_Get (fr_memory fr) (Int64 i1) (Int64 i2) = Inr inp" "length inp < 2 ^ 62"
    using Memory_Get_sized [of i1 i2 "fr_memory fr"] words mem len by (auto simp: inp_def)
  note after = call_then_safe [OF _ len(2) words(3,4) mem(2) _ words(5)]
  show "does True R 7 1 (Some 0) fr (opCall E R fr)"
    unfolding opCall_def st list.case Let_def inp(1) bindR.simps wp_bindR
    by (rule after [OF Call_safe [OF inp(2) gas]]) (use len st in auto)
  show "does True R 7 1 (Some 0) fr (opCallCode E R fr)"
    unfolding opCallCode_def st list.case Let_def inp(1) bindR.simps wp_bindR
    by (rule after [OF CallCode_safe [OF inp(2) gas]]) (use len st in auto)
qed

lemma delegate_effects:
  assumes r: "ready E 6 (Some memoryDelegateCall) (call_gain False) fr"
  shows "does True R 6 1 (Some 0) fr (opDelegateCall E R fr)"
    and "does True R 6 1 (Some 0) fr (opStaticCall E R fr)"
proof -
  have "6 \<le> length (fr_stack fr)" using r by (simp only: ready_def)
  then obtain g a i1 i2 o1 o2 st where st: "fr_stack fr = g # a # i1 # i2 # o1 # o2 # st"
    using stack_6 by blast
  have mem: "calcMemSize i1 i2 \<le> int (length (mem_store (fr_memory fr)))"
    "calcMemSize o1 o2 \<le> int (length (mem_store (fr_memory fr)))"
    using r by (auto simp: ready_def st msize_simps BigMax_le)
  have gas: "unat (evm_callGasTemp (fr_evm fr)) < 2 ^ 46"
    using r by (auto simp: ready_def call_gain_def)
  have words: "0 \<le> i1" "0 \<le> i2" "0 \<le> o1" "0 \<le> o2" "list_all word_ok st"
    using r by (auto simp: ready_def st word_ok_def)
  have len: "length (mem_store (fr_memory fr)) < 2 ^ 62" "coherent_fr fr"
    using r by (auto simp: ready_def)
  define inp where "inp = take (nat i2) (drop (nat i1) (mem_store (fr_memory fr)))"
  have inp: "Memory_Get (fr_memory fr) (Int64 i1) (Int64 i2) = Inr inp" "length inp < 2 ^ 62"
    using Memory_Get_sized [of i1 i2 "fr_memory fr"] words mem len by (auto simp: inp_def)
  note after = call_then_safe [OF _ len(2) words(3,4) mem(2) _ words(5)]
  show "does True R 6 1 (Some 0) fr (opDelegateCall E R fr)"
    unfolding opDelegateCall_def st list.case Let_def inp(1) bindR.simps wp_bindR
    by (rule after [OF DelegateCall_safe [OF inp(2) gas]]) (use len st in auto)
  show "does True R 6 1 (Some 0) fr (opStaticCall E R fr)"
    unfolding opStaticCall_def st list.case Let_def inp(1) bindR.simps wp_bindR
    by (rule after [OF StaticCall_safe [OF inp(2) gas]]) (use len st in auto)
qed

lemma calls_effects [effect_rules]:
  "effect True (makeStackFunc 7 1) (Some memoryCall) (call_gain True) (Some 0) opCall"
  "effect True (makeStackFunc 7 1) (Some memoryCall) (call_gain True) (Some 0) opCallCode"
  "effect True (makeStackFunc 6 1) (Some memoryDelegateCall) (call_gain False) (Some 0) opDelegateCall"
  "effect True (makeStackFunc 6 1) (Some memoryStaticCall) (call_gain False) (Some 0) opStaticCall"
proof -
  have "memoryStaticCall = memoryDelegateCall"
    by (intro ext) (simp add: memoryStaticCall_def memoryDelegateCall_def)
  then show
    "effect True (makeStackFunc 7 1) (Some memoryCall) (call_gain True) (Some 0) opCall"
    "effect True (makeStackFunc 7 1) (Some memoryCall) (call_gain True) (Some 0) opCallCode"
    "effect True (makeStackFunc 6 1) (Some memoryDelegateCall) (call_gain False) (Some 0) opDelegateCall"
    "effect True (makeStackFunc 6 1) (Some memoryStaticCall) (call_gain False) (Some 0) opStaticCall"
    using call_effects delegate_effects by (auto intro!: effectI)
qed

lemma create_effects [effect_rules]:
  "effect True (makeStackFunc 3 1) (Some memoryCreate) no_gain (Some 0) opCreate"
proof (rule effectI)
  fix E and R :: "'a runner" and fr :: "'a frame"
  assume r: "ready E 3 (Some memoryCreate) no_gain fr"
  then have "3 \<le> length (fr_stack fr)" by (simp only: ready_def)
  then obtain v i1 i2 st where st: "fr_stack fr = v # i1 # i2 # st"
    using stack_3 by blast
  have mem: "calcMemSize i1 i2 \<le> int (length (mem_store (fr_memory fr)))"
    and words: "0 \<le> i1" "0 \<le> i2" "list_all word_ok st"
    and len: "length (mem_store (fr_memory fr)) < 2 ^ 62" "coherent_fr fr"
      "unat (ct_Gas (fr_contract fr)) < 2 ^ 45"
    using r by (auto simp: ready_def st msize_simps word_ok_def sound_contract_def)
  define inp where "inp = take (nat i2) (drop (nat i1) (mem_store (fr_memory fr)))"
  have inp: "Memory_Get (fr_memory fr) (Int64 i1) (Int64 i2) = Inr inp"
    using Memory_Get_sized [of i1 i2 "fr_memory fr"] words mem len by (auto simp: inp_def)
  define gas where "gas = (if IsEIP150 E then ct_Gas (fr_contract fr) - ct_Gas (fr_contract fr) div 64
    else ct_Gas (fr_contract fr))"
  define c where "c = snd (Contract_UseGas gas (fr_contract fr))"
  have c: "ct_Code c = ct_Code (fr_contract fr)" "ct_CodeHash c = ct_CodeHash (fr_contract fr)"
    "ct_Input c = ct_Input (fr_contract fr)" "ct_value c = ct_value (fr_contract fr)"
    by (simp_all add: c_def Contract_UseGas_def)
  have "unat gas \<le> unat (ct_Gas (fr_contract fr))"
    by (auto simp: gas_def unat_sub unat_div_distrib word_le_nat_alt)
  then have gas: "unat gas < 2 ^ 46" using len(3) by simp
  show "does True R 3 1 (Some 0) fr (opCreate E R fr)"
    unfolding opCreate_def st list.case Let_def inp(1) bindR.simps wp_bindR gas_def [symmetric] c_def [symmetric]
    by (rule wp_mono [OF Create_safe [OF gas]])
      (use len(2) words(3) st c in \<open>auto simp: moves_def goes_def op_done_def set_stack_def add_gas_def analysed_def\<close>)
qed simp

section \<open>The instruction tables\<close>

text \<open>The instructions that hand control to other code.\<close>

definition calls_out :: "byte \<Rightarrow> bool" where
  "calls_out b \<longleftrightarrow>
    b = OP_CREATE \<or> b = OP_CALL \<or> b = OP_CALLCODE \<or> b = OP_DELEGATECALL \<or> b = OP_STATICCALL"

definition typed :: "byte \<Rightarrow> 'db operation \<Rightarrow> bool" where
  "typed b o' \<longleftrightarrow> (op_jumps o' \<longrightarrow> push_size b = 0) \<and>
    (\<exists>gain strict.
      effect (calls_out b) (op_validateStack o') (op_memorySize o') gain
        (if op_jumps o' then None else Some (push_size b)) (op_execute o') \<and>
      priced gain strict (op_memorySize o' \<noteq> None) (op_validateStack o') (op_gasCost o'))"

lemma calls_out [simp]:
  "calls_out OP_CREATE" "calls_out OP_CALL" "calls_out OP_CALLCODE" "calls_out OP_DELEGATECALL"
  "calls_out OP_STATICCALL"
  by (simp_all add: calls_out_def)

lemma typed_local:
  assumes "op_jumps o' \<longrightarrow> push_size b = 0"
    and "effect False (op_validateStack o') (op_memorySize o') no_gain
      (if op_jumps o' then None else Some (push_size b)) (op_execute o')"
    and "priced no_gain (\<not> (op_halts o' \<or> op_reverts o')) (op_memorySize o' \<noteq> None)
      (op_validateStack o') (op_gasCost o')"
  shows "typed b o'"
  using assms(1,3) effect_local [OF assms(2)] unfolding typed_def by blast

lemma typed_callI:
  assumes "calls_out b" and "op_jumps o' \<longrightarrow> push_size b = 0"
    and "effect True (op_validateStack o') (op_memorySize o') gain
      (if op_jumps o' then None else Some (push_size b)) (op_execute o')"
    and "priced gain (\<not> (op_halts o' \<or> op_reverts o')) (op_memorySize o' \<noteq> None)
      (op_validateStack o') (op_gasCost o')"
  shows "typed b o'"
  using assms unfolding typed_def by (simp only: simp_thms) blast

lemmas typed_call = typed_callI [where gain = "call_gain True"] typed_callI [where gain = "call_gain False"]
  typed_callI [where gain = no_gain]
lemmas typed_simps = operation_of_def effect_rules priced_rules

abbreviation typed_table :: "(byte \<times> 'db operation) list \<Rightarrow> bool" where
  "typed_table t \<equiv> list_all (\<lambda>(b, o'). typed b o') t"

lemma push_size_01 [simp]: "push_size 0 = 0" "push_size 1 = 0" "push_size OP_JUMPDEST = 0"
  by (simp_all add: push_size_def OP_PUSH1_def OP_PUSH32_def OP_JUMPDEST_def word_le_nat_alt)

lemma push_size_numeral:
  "push_size (numeral k) =
    (if 0x60 \<le> (numeral k :: byte) \<and> (numeral k :: byte) \<le> 0x7f then unat (numeral k - 0x60 :: byte) + 1 else 0)"
  by (simp add: push_size_def OP_PUSH1_def OP_PUSH32_def)

lemma push_size_system:
  "push_size OP_CREATE = 0" "push_size OP_CALL = 0" "push_size OP_CALLCODE = 0" "push_size OP_RETURN = 0"
  "push_size OP_DELEGATECALL = 0" "push_size OP_STATICCALL = 0" "push_size OP_REVERT = 0"
  "push_size OP_SELFDESTRUCT = 0" "push_size OP_RETURNDATASIZE = 0" "push_size OP_RETURNDATACOPY = 0"
  by (simp_all add: push_size_numeral)

lemma typed_arith: "typed_table frontier_arith" "typed_table frontier_compare" "typed_table frontier_block"
  unfolding frontier_arith_def frontier_compare_def frontier_block_def
  by (simp_all add: typed_local typed_simps push_size_numeral del: One_nat_def)

lemma typed_context: "typed_table frontier_context" "typed_table frontier_memory"
  unfolding frontier_context_def frontier_memory_def
  by (simp_all add: typed_local typed_simps push_size_numeral del: One_nat_def)

lemma typed_system: "typed_table frontier_system"
  unfolding frontier_system_def
  by (simp add: typed_local typed_call typed_simps push_size_system del: One_nat_def)

lemma push_size_PUSH:
  assumes "1 \<le> n" "n < 33"
  shows "push_size (OP_PUSH n) = n"
proof -
  have "unat (OP_PUSH n) = 0x60 + (n - 1)"
    using assms by (simp add: OP_PUSH_def unat_word_ariths unat_of_nat)
  then have "0x60 \<le> OP_PUSH n" "OP_PUSH n \<le> 0x7f" "unat (OP_PUSH n - 0x60) = n - 1"
    using assms by (simp_all add: word_le_nat_alt unat_sub)
  then show ?thesis using assms by (simp add: push_size_def OP_PUSH1_def OP_PUSH32_def)
qed

lemma push_size_above: "0x7f < unat b \<Longrightarrow> push_size b = 0"
  by (simp add: push_size_def OP_PUSH32_def word_le_nat_alt)

lemma push_size_families:
  "n < 17 \<Longrightarrow> push_size (OP_DUP n) = 0" "n < 17 \<Longrightarrow> push_size (OP_SWAP n) = 0"
  "n < 5 \<Longrightarrow> push_size (OP_LOG n) = 0"
  by (rule push_size_above, simp add: OP_DUP_def OP_SWAP_def OP_LOG_def unat_word_ariths unat_of_nat)+

lemma typed_families:
  "typed_table frontier_push" "typed_table frontier_dup" "typed_table frontier_swap" "typed_table frontier_log"
  unfolding frontier_push_def frontier_dup_def frontier_swap_def frontier_log_def
  by (auto simp: list_all_iff push_size_PUSH push_size_families typed_local typed_simps simp del: One_nat_def)

lemma typed_frontier:
  assumes "op_valid (NewFrontierInstructionSet b :: 'a operation)"
  shows "typed b (NewFrontierInstructionSet b :: 'a operation)"
proof -
  let ?t = "frontier_operations :: (byte \<times> 'a operation) list"
  have "typed_table ?t"
    using typed_arith typed_context typed_system typed_families by (simp add: frontier_operations_def)
  moreover obtain o' where "map_of ?t b = Some o'"
    using assms by (cases "map_of ?t b") (auto simp: NewFrontierInstructionSet_def no_operation_def)
  ultimately show ?thesis
    by (auto simp: NewFrontierInstructionSet_def list_all_iff dest: map_of_SomeD)
qed

lemma typed_homestead:
  "op_valid (NewHomesteadInstructionSet b :: 'a operation) \<Longrightarrow>
    typed b (NewHomesteadInstructionSet b :: 'a operation)"
  by (auto simp: NewHomesteadInstructionSet_def typed_frontier typed_call typed_simps push_size_system
      simp del: One_nat_def split: if_splits)

lemma typed_byzantium:
  "op_valid (NewByzantiumInstructionSet b :: 'a operation) \<Longrightarrow>
    typed b (NewByzantiumInstructionSet b :: 'a operation)"
  by (auto simp: NewByzantiumInstructionSet_def typed_homestead typed_local typed_call typed_simps
      push_size_system simp del: One_nat_def split: if_splits)

lemma typed_constantinople:
  "op_valid (NewConstantinopleInstructionSet b :: 'a operation) \<Longrightarrow>
    typed b (NewConstantinopleInstructionSet b :: 'a operation)"
  by (auto simp: NewConstantinopleInstructionSet_def typed_byzantium typed_local typed_simps
      push_size_numeral simp del: One_nat_def split: if_splits)

lemma typed_JumpTable: "op_valid (JumpTable E b) \<Longrightarrow> typed b (JumpTable E b)"
  using typed_frontier typed_homestead typed_byzantium typed_constantinople
  by (auto simp: JumpTable_def split: if_splits)

section \<open>A turn\<close>

lemma starts_bound: "starts code pc \<Longrightarrow> pc \<le> length code + 32"
proof (induction rule: starts.induct)
  case (starts_next pc)
  then show ?case using push_size_le [of "code ! pc"] by (simp add: next_start_def)
qed simp

lemma memory_size_sized:
  assumes "memory_size o' st = Inr (Inr ms)"
  shows "(op_memorySize o' = None \<and> ms = 0) \<or>
    (\<exists>f m. op_memorySize o' = Some f \<and> f st = Inr m \<and> m \<le> int (unat ms) \<and> unat ms mod 32 = 0)"
proof (cases "op_memorySize o'")
  case None
  then show ?thesis using assms by (simp add: memory_size_def)
next
  case (Some f)
  obtain m where m: "f st = Inr m" using assms Some by (cases "f st") (simp_all add: memory_size_def)
  have fit: "\<not> 64 < BitLen m" and mul: "SafeMul (toWordSize (Uint64 m)) 32 = (ms, False)"
    using assms Some m
    by (auto simp: memory_size_def bigUint64_def Let_def split: if_splits prod.splits)
  from mul have "unat (toWordSize (Uint64 m)) * unat (32 :: u64) < 2 ^ 64"
    and eq: "ms = toWordSize (Uint64 m) * 32"
    unfolding SafeMul_ok by blast+
  then have "unat ms = unat (toWordSize (Uint64 m)) * 32" by (simp add: unat_word_ariths)
  then have ms: "unat ms = 32 * ((unat (Uint64 m) + 31) div 32)" by (simp add: toWordSize_correct)
  have "m \<le> int (unat ms)"
  proof (cases "0 \<le> m")
    case True
    then have "m < 2 ^ 64" using fit BitLen_le [of m 64] by simp
    then have "unat (Uint64 m) = nat m" using True by (simp add: Uint64_small)
    moreover have "nat m \<le> 32 * ((nat m + 31) div 32)" by simp
    ultimately have "nat m \<le> unat ms" using ms by simp
    then show ?thesis by linarith
  next
    case False
    then show ?thesis using of_nat_0_le_iff [of "unat ms", where ?'a = int] by linarith
  qed
  then show ?thesis using Some m ms by auto
qed

text \<open>
  The frame of the next turn: its shape, the running contract, and the table of analysed code, for
  a call as long as the callees leave that table right.
\<close>

definition next_typed :: "bool \<Rightarrow> 'db runner \<Rightarrow> 'db frame \<Rightarrow> 'db frame \<Rightarrow> bool" where
  "next_typed c R fr fr' \<longleftrightarrow> frame_shape fr' \<and>
    ct_Code (fr_contract fr') = ct_Code (fr_contract fr) \<and>
    ct_CodeHash (fr_contract fr') = ct_CodeHash (fr_contract fr) \<and>
    ct_Input (fr_contract fr') = ct_Input (fr_contract fr) \<and>
    ct_value (fr_contract fr') = ct_value (fr_contract fr) \<and>
    ((c \<longrightarrow> tables_kept R) \<longrightarrow> coherent_fr fr')"

definition turn_typed :: "bool \<Rightarrow> 'db runner \<Rightarrow> 'db frame \<Rightarrow> 'db turn \<Rightarrow> bool" where
  "turn_typed c R fr t =
    (case t of Next fr' \<Rightarrow> next_typed c R fr fr' | Leave ret err fr' \<Rightarrow> True)"

lemma after_execute_typed:
  assumes "moves c R pops pushes (if op_jumps o' then None else Some (push_size b)) fr x"
    and "length (fr_stack fr) + pushes \<le> StackLimit + pops"
    and "memory_ok (fr_memory fr)" and "starts (ct_Code (fr_contract fr)) (unat (fr_pc fr))"
    and "length (ct_Code (fr_contract fr)) < 2 ^ 62"
    and "b = Contract_GetOp (fr_contract fr) (fr_pc fr)"
    and "op_jumps o' \<longrightarrow> push_size b = 0"
    and "op_halts o' \<or> unat (fr_pc fr) < length (ct_Code (fr_contract fr))"
  shows "turn_typed c R fr (after_execute o' x)"
proof -
  let ?code = "ct_Code (fr_contract fr)" and ?pc = "unat (fr_pc fr)"
  obtain res err fr' where x: "x = ((res, err), fr')" by (metis prod.exhaust)
  show ?thesis
  proof (cases "err = None \<and> \<not> op_reverts o' \<and> \<not> op_halts o'")
    case False
    then show ?thesis by (auto simp: x after_execute_def turn_typed_def Let_def split: option.split)
  next
    case True
    define pc' where "pc' = (if op_jumps o' then fr_pc fr' else fr_pc fr' + 1)"
    have in_code: "?pc < length ?code" using assms(8) True by simp
    have "unat (of_nat (length ?code) :: u64) = length ?code" using assms(5) by (intro unat_of_nat64) simp
    then have b: "b = ?code ! ?pc"
      using in_code assms(6) by (simp add: Contract_GetOp_def Contract_GetByte_def word_less_nat_alt)
    have m: "list_all word_ok (fr_stack fr')" "length (fr_stack fr') \<le> StackLimit"
      "length (mem_store (fr_memory fr')) = length (mem_store (fr_memory fr))"
      "ct_Code (fr_contract fr') = ?code"
      and same: "ct_CodeHash (fr_contract fr') = ct_CodeHash (fr_contract fr)"
        "ct_Input (fr_contract fr') = ct_Input (fr_contract fr)" "ct_value (fr_contract fr') = ct_value (fr_contract fr)"
        "(c \<longrightarrow> tables_kept R) \<longrightarrow> coherent_fr fr'"
      and goes: "goes (if op_jumps o' then None else Some (push_size b)) fr fr'"
      using assms(1,2) True by (auto simp: x moves_def)
    have step: "starts ?code (unat (fr_pc fr + of_nat (push_size b) + 1))"
    proof -
      have "push_size b \<le> 32" by (rule push_size_le)
      then have "unat (fr_pc fr + of_nat (push_size b) + 1) = ?pc + push_size b + 1"
        using in_code assms(5) by (simp add: unat_word_ariths unat_of_nat)
      then show ?thesis using starts_next [OF assms(4) in_code] b by (simp add: next_start_def)
    qed
    have "starts ?code (unat pc')"
      using goes step assms(7) by (auto simp: goes_def pc'_def split: if_splits)
    then have "frame_shape (fr'\<lparr>fr_pc := pc'\<rparr>)"
      using m assms(3) by (simp add: frame_shape_def memory_ok_def)
    then show ?thesis
      using True m(4) same unfolding x after_execute_def turn_typed_def next_typed_def pc'_def
      by (simp add: Let_def frame_shape_def split: if_splits)
  qed
qed

lemma pay_and_execute_typed:
  assumes typed: "typed b o'" and ok: "frame_ok fr" and sound: "sound_env E" "sound_contract (fr_contract fr)"
    "sound_state (env_db E) (fr_db fr)"
    "length (evm_returnData (fr_evm fr)) < 2 ^ 62"
    and check: "op_validateStack o' (fr_stack fr) = None"
    and msize: "memory_size o' (fr_stack fr) = Inr (Inr ms)"
    and b: "b = Contract_GetOp (fr_contract fr) (fr_pc fr)"
    and live: "op_halts o' \<or> unat (fr_pc fr) < length (ct_Code (fr_contract fr))"
  shows "wp (blame (calls_out b) R) (turn_typed (calls_out b) R fr) (pay_and_execute E R o' ms fr)"
proof -
  let ?to = "if op_jumps o' then None else Some (push_size b)"
  obtain gain pops pushes pops' lo where
    grows: "op_validateStack o' (fr_stack fr) = None \<Longrightarrow>
      pops \<le> length (fr_stack fr) \<and> length (fr_stack fr) + pushes \<le> StackLimit + pops"
    and exec: "\<And>E R fr. ready E pops (op_memorySize o') gain fr \<Longrightarrow>
      does (calls_out b) R pops pushes ?to fr (op_execute o' E R fr)"
    and price: "checks pops' (op_validateStack o')" "price_ok pops' gain (op_memorySize o' \<noteq> None) lo (op_gasCost o')"
    and jumps: "op_jumps o' \<longrightarrow> push_size b = 0"
    using typed unfolding typed_def effect_def priced_def by blast
  have "pops' \<le> length (fr_stack fr)" using price(1) check by (simp add: checks_def)
  with price(2) have "gspec (op_gasCost o' E ms) fr (\<lambda>r fr'. gas_effect E fr fr' \<and>
      (\<forall>c. r = Inr c \<longrightarrow> lo + gain_of gain fr' \<le> unat c \<and>
        (op_memorySize o' \<noteq> None \<longrightarrow> unat ms \<le> 0xffffffffe0)))"
    unfolding price_ok_def by blast
  then obtain r fr1 where r: "op_gasCost o' E ms fr = Inr (r, fr1)"
    and eff: "gas_effect E fr fr1"
    and cost0: "\<forall>c. r = Inr c \<longrightarrow> lo + gain_of gain fr1 \<le> unat c \<and>
      (op_memorySize o' \<noteq> None \<longrightarrow> unat ms \<le> 0xffffffffe0)"
    unfolding gspec_def by blast
  have cost: "gain_of gain fr1 \<le> unat c" "op_memorySize o' \<noteq> None \<longrightarrow> unat ms \<le> 0xffffffffe0"
    if "r = Inr c" for c
    using cost0 that by auto
  show ?thesis
  proof (cases "\<exists>c. r = Inr c \<and> \<not> ct_Gas (fr_contract fr1) < c")
    case False
    then show ?thesis
      using r by (cases r) (auto simp: pay_and_execute_def Contract_UseGas_def turn_typed_def)
  next
    case True
    then obtain c where c: "r = Inr c" "c \<le> ct_Gas (fr_contract fr1)" by auto
    define fr2 where "fr2 = fr1\<lparr>fr_contract := (fr_contract fr1)\<lparr>ct_Gas := ct_Gas (fr_contract fr1) - c\<rparr>,
      fr_memory := if 0 < ms then Memory_Resize (fr_memory fr1) ms else fr_memory fr1\<rparr>"
    have pay: "pay_and_execute E R o' ms fr =
        bindR (op_execute o' E R fr2) (\<lambda>r. Inr (after_execute o' r))"
    proof -
      have "\<not> ct_Gas (fr_contract fr1) < c" using c(2) by (simp add: not_less)
      then show ?thesis by (simp add: pay_and_execute_def r c(1) Contract_UseGas_def fr2_def)
    qed
    have same: "fr_stack fr2 = fr_stack fr" "fr_pc fr2 = fr_pc fr"
      "ct_Code (fr_contract fr2) = ct_Code (fr_contract fr)"
      "ct_CodeHash (fr_contract fr2) = ct_CodeHash (fr_contract fr)"
      "ct_Input (fr_contract fr2) = ct_Input (fr_contract fr)"
      "ct_value (fr_contract fr2) = ct_value (fr_contract fr)"
      "evm_jumpdests (fr_evm fr2) = evm_jumpdests (fr_evm fr)"
      "evm_returnData (fr_evm fr2) = evm_returnData (fr_evm fr)"
      "evm_callGasTemp (fr_evm fr2) = evm_callGasTemp (fr_evm fr1)" "fr_stack fr1 = fr_stack fr"
      and store: "mem_store (fr_memory fr1) = mem_store (fr_memory fr)"
      and gas1: "ct_Gas (fr_contract fr1) = ct_Gas (fr_contract fr)"
      using eff by (simp_all add: gas_effect_def fr2_def)
    have state: "holds_words (env_db E) (fr_db fr2)"
      using eff sound(3) by (auto simp: gas_effect_def fr2_def sound_state_def)
    have gas: "unat (ct_Gas (fr_contract fr2)) \<le> unat (ct_Gas (fr_contract fr))"
      using c(2) gas1 by (simp add: fr2_def unat_sub)
    have "unat c < 2 ^ 45"
      using c(2) gas1 sound(2) by (auto simp: sound_contract_def word_le_nat_alt)
    then have gain: "gain_of gain fr2 < 2 ^ 45" using cost [OF c(1)] same by simp
    have sized: "(op_memorySize o' = None \<and> ms = 0) \<or>
        (\<exists>f m. op_memorySize o' = Some f \<and> f (fr_stack fr) = Inr m \<and> m \<le> int (unat ms) \<and> unat ms mod 32 = 0)"
      by (rule memory_size_sized [OF msize])
    have len: "length (mem_store (fr_memory fr2)) = max (length (mem_store (fr_memory fr))) (unat ms)"
      by (cases "ms = 0") (simp_all add: fr2_def Memory_Resize_length store word_neq_0_conv)
    have small: "unat ms \<le> 0xffffffffe0" "unat ms mod 32 = 0"
      using sized cost [OF c(1)] by auto
    have mem: "memory_ok (fr_memory fr2)"
      using ok small by (auto simp: memory_ok_def len frame_ok_def frame_shape_def max_def)
    have pc: "unat (fr_pc fr) < 2 ^ 62 + 64"
      using starts_bound [of "ct_Code (fr_contract fr)" "unat (fr_pc fr)"] ok sound(2)
      by (simp add: frame_ok_def frame_shape_def sound_contract_def)
    have ready: "ready E pops (op_memorySize o') gain fr2"
    proof -
      have "m \<le> int (length (mem_store (fr_memory fr2)))"
        if "op_memorySize o' = Some f" "f (fr_stack fr2) = Inr m" for f m
        using sized that same(1) by (auto simp: len of_nat_max le_max_iff_disj)
      moreover have "sound_contract (fr_contract fr2)"
        using sound(2) gas by (simp add: sound_contract_def same)
      ultimately show ?thesis
        using sound state ok grows [OF check] mem gain pc
        by (simp add: ready_def same frame_ok_def frame_shape_def memory_ok_def)
    qed
    have "wp (blame (calls_out b) R) (\<lambda>x. turn_typed (calls_out b) R fr (after_execute o' x)) (op_execute o' E R fr2)"
      using exec [OF ready]
    proof (rule wp_mono)
      fix x assume "moves (calls_out b) R pops pushes ?to fr2 x"
      then have "turn_typed (calls_out b) R fr2 (after_execute o' x)"
        using grows [OF check] mem ok sound(2) b jumps live
        by (intro after_execute_typed [of _ _ pops pushes o' b])
          (simp_all add: same frame_ok_def frame_shape_def sound_contract_def Contract_GetOp_def Contract_GetByte_def)
      then show "turn_typed (calls_out b) R fr (after_execute o' x)"
        by (auto simp: turn_typed_def next_typed_def same split: turn.splits)
    qed
    then show ?thesis unfolding pay by simp
  qed
qed

lemma memory_size_safe:
  assumes "typed b o'" and "op_validateStack o' (fr_stack fr) = None"
  shows "\<exists>r. memory_size o' (fr_stack fr) = Inr r"
proof (cases "op_memorySize o'")
  case None
  then show ?thesis by (simp add: memory_size_def)
next
  case (Some f)
  then obtain m where "f (fr_stack fr) = Inr m"
    using assms unfolding typed_def effect_def sizable_def by metis
  then show ?thesis using Some by (auto simp: memory_size_def Let_def split: prod.splits)
qed

text \<open>Where there is no code left, the byte read is \<open>STOP\<close>.\<close>

lemma stop_halts: "op_halts (JumpTable E 0)"
  by (simp add: JumpTable_def NewConstantinopleInstructionSet_def NewByzantiumInstructionSet_def
      NewHomesteadInstructionSet_def NewFrontierInstructionSet_def frontier_operations_def
      frontier_arith_def)

lemma in_code_or_halts:
  assumes "length (ct_Code c) < 2 ^ 62"
  shows "op_halts (JumpTable E (Contract_GetOp c pc)) \<or> unat pc < length (ct_Code c)"
proof (cases "unat pc < length (ct_Code c)")
  case False
  have "unat (of_nat (length (ct_Code c)) :: u64) = length (ct_Code c)"
    using assms by (intro unat_of_nat64) simp
  then have "Contract_GetOp c pc = 0"
    using False by (simp add: Contract_GetOp_def Contract_GetByte_def word_less_nat_alt)
  then show ?thesis using stop_halts [of E] by simp
qed simp

text \<open>The check that \<open>CALL\<close> finds its value on the stack comes before the one that looks at it.\<close>

abbreviation call_entry :: "byte \<times> 'db operation \<Rightarrow> bool" where
  "call_entry \<equiv> \<lambda>(b, o'). b = OP_CALL \<longrightarrow> op_validateStack o' = makeStackFunc 7 1"

lemma families_not_call:
  "1 \<le> n \<Longrightarrow> n < 33 \<Longrightarrow> OP_PUSH n \<noteq> OP_CALL" "n < 17 \<Longrightarrow> OP_DUP n \<noteq> OP_CALL"
  "n < 17 \<Longrightarrow> OP_SWAP n \<noteq> OP_CALL" "n < 5 \<Longrightarrow> OP_LOG n \<noteq> OP_CALL"
  by (rule notI, drule arg_cong [where f = unat],
      simp add: OP_PUSH_def OP_DUP_def OP_SWAP_def OP_LOG_def unat_word_ariths unat_of_nat)+

lemma call_checks:
  assumes "op_valid (JumpTable E OP_CALL)"
  shows "op_validateStack (JumpTable E OP_CALL) = makeStackFunc 7 1"
proof -
  let ?t = "frontier_operations :: (byte \<times> 'a operation) list"
  have "list_all call_entry ?t"
    by (auto simp: frontier_operations_def frontier_arith_def frontier_compare_def frontier_context_def
        frontier_block_def frontier_memory_def frontier_system_def operation_of_def
        frontier_push_def frontier_dup_def frontier_swap_def frontier_log_def list_all_iff
        OP_JUMPDEST_def dest: families_not_call families_not_call(1) [simplified])
  then have entry: "op_validateStack o' = makeStackFunc 7 1" if "map_of ?t OP_CALL = Some o'" for o'
    using that by (force simp: list_all_iff dest: map_of_SomeD)
  have "JumpTable E OP_CALL = NewFrontierInstructionSet OP_CALL"
    by (simp add: JumpTable_def NewConstantinopleInstructionSet_def NewByzantiumInstructionSet_def
        NewHomesteadInstructionSet_def)
  with assms entry show ?thesis
    by (cases "map_of ?t OP_CALL") (simp_all add: NewFrontierInstructionSet_def no_operation_def)
qed

lemma run_step_typed:
  assumes ok: "frame_ok fr" and sound: "sound_env E" "sound_contract (fr_contract fr)"
    "sound_state (env_db E) (fr_db fr)"
    "length (evm_returnData (fr_evm fr)) < 2 ^ 62"
  defines "b \<equiv> Contract_GetOp (fr_contract fr) (fr_pc fr)"
  shows "wp (blame (calls_out b) R) (turn_typed (calls_out b) R fr) (run_step E R fr)"
proof -
  let ?o = "JumpTable E b"
  have leave: "turn_typed (calls_out b) R fr (Leave ret err fr')" for ret err fr' by (simp add: turn_typed_def)
  show ?thesis
  proof (cases "op_valid ?o \<and> op_validateStack ?o (fr_stack fr) = None")
    case False
    then show ?thesis
      by (auto simp: run_step_def b_def [symmetric] Let_def leave split: option.splits)
  next
    case True
    then have typed: "typed b ?o" by (simp add: typed_JumpTable)
    obtain e where e: "enforceRestrictions E b ?o fr = Inr e"
    proof -
      have "2 < length (fr_stack fr)" if "b = OP_CALL"
        using True call_checks [of E] that
        by (auto simp: makeStackFunc_def Stack_require_def split: option.splits if_splits)
      then have "\<exists>e. enforceRestrictions E b ?o fr = Inr e"
        by (auto simp: enforceRestrictions_def Stack_Back_def)
      with that show thesis by blast
    qed
    obtain s where s: "memory_size ?o (fr_stack fr) = Inr s"
      using memory_size_safe [OF typed] True by blast
    have pay: "wp (blame (calls_out b) R) (turn_typed (calls_out b) R fr) (pay_and_execute E R ?o ms fr)" if "s = Inr ms" for ms
      using pay_and_execute_typed [OF typed ok sound _ _ b_def [THEN meta_eq_to_obj_eq]] True s that
        in_code_or_halts [of "fr_contract fr" E "fr_pc fr"] sound(2)
      by (simp add: b_def sound_contract_def)
    show ?thesis
      using True e s pay
      by (auto simp: run_step_def b_def [symmetric] Let_def leave split: option.split sum.split)
  qed
qed

text \<open>The contract of the next turn is sound again, as long as no callee hands back more gas than it got.\<close>

lemma run_step_sound:
  assumes "run_step E R fr = Inr (Next fr')" and "sound_contract (fr_contract fr)"
    and "callee_ok (evm_depth (fr_evm fr)) R" and "next_typed c R fr fr'"
  shows "sound_contract (fr_contract fr')"
proof -
  have "gas_of fr' < gas_of fr"
    using run_step_ok [OF assms(3), of E] assms(1) by (simp add: turn_ok_def)
  with assms(2,4) show ?thesis by (simp add: sound_contract_def next_typed_def)
qed

end
