(* ===== verification/Evm_Undo.thy ===== *)
theory Evm_Undo
  imports Evm_Frames
begin

text \<open>
  What the virtual machine relies on when it undoes a failed call: the interface of a state database
  with snapshots, as two locales.  \<open>db_steps\<close>: the operations that change the state keep the snapshots
  that were taken (\<open>marks n v db\<close>: the snapshot \<open>n\<close> is valid in \<open>db\<close> and shows the world \<open>v\<close>).
  \<open>db_snapshots\<close> adds that a snapshot marks the present world and that a revert restores it.  Under
  these laws no run of the interpreter loses a snapshot of its caller, so reverting never
  panics, and a call that returns an error leaves the world as it was.
\<close>

abbreviation sure :: "('a \<Rightarrow> bool) \<Rightarrow> abort + 'a \<Rightarrow> bool" where
  "sure \<equiv> wp (\<lambda>a. a \<noteq> AbortRevision)"

definition keeps :: "('db \<Rightarrow> bool) \<Rightarrow> (nat \<Rightarrow> 'w \<Rightarrow> 'db \<Rightarrow> bool) \<Rightarrow> 'db \<Rightarrow> 'db \<Rightarrow> bool" where
  "keeps ok marks db db' \<longleftrightarrow> ok db' \<and> (\<forall>n v. marks n v db \<longrightarrow> marks n v db')"

lemma keeps_ok [dest]: "keeps ok marks db db' \<Longrightarrow> ok db'"
  by (simp add: keeps_def)

lemma keeps_refl [simp]: "ok db \<Longrightarrow> keeps ok marks db db"
  by (simp add: keeps_def)

lemma keeps_trans: "keeps ok marks db1 db2 \<Longrightarrow> keeps ok marks db2 db3 \<Longrightarrow> keeps ok marks db1 db3"
  by (simp add: keeps_def)

text \<open>A run, an instruction and a turn that keep what a relation \<open>K\<close> on states keeps.\<close>

definition runner_keeps :: "('db \<Rightarrow> bool) \<Rightarrow> ('db \<Rightarrow> 'db \<Rightarrow> bool) \<Rightarrow> 'db runner \<Rightarrow> bool" where
  "runner_keeps ok K R \<longleftrightarrow>
    (\<forall>evm c inp. ok (evm_StateDB evm) \<longrightarrow>
      sure (\<lambda>(r, evm', c'). K (evm_StateDB evm) (evm_StateDB evm')) (R evm c inp))"

definition exec_keeps ::
  "'db StateDB \<Rightarrow> ('db \<Rightarrow> bool) \<Rightarrow> ('db \<Rightarrow> 'db \<Rightarrow> bool) \<Rightarrow> 'db executionFunc \<Rightarrow> bool" where
  "exec_keeps D ok K f \<longleftrightarrow> (\<forall>E R fr. env_db E = D \<longrightarrow> ok (fr_db fr) \<longrightarrow> runner_keeps ok K R \<longrightarrow>
    sure (\<lambda>(x, fr'). K (fr_db fr) (fr_db fr')) (f E R fr))"

definition turn_keeps :: "('db \<Rightarrow> 'db \<Rightarrow> bool) \<Rightarrow> 'db frame \<Rightarrow> 'db turn \<Rightarrow> bool" where
  "turn_keeps K fr t =
    (case t of Next fr' \<Rightarrow> K (fr_db fr) (fr_db fr') | Leave ret err fr' \<Rightarrow> K (fr_db fr) (fr_db fr'))"

definition call_undone ::
  "('db \<Rightarrow> 'db \<Rightarrow> bool) \<Rightarrow> ('db \<Rightarrow> 'w) \<Rightarrow> 'db EVM \<Rightarrow> (bytes \<times> u64 \<times> evm_err option) \<times> 'db EVM \<Rightarrow> bool" where
  "call_undone K view evm = (\<lambda>((ret, g, err), evm'). K (evm_StateDB evm) (evm_StateDB evm') \<and>
    (err \<noteq> None \<longrightarrow> view (evm_StateDB evm') = view (evm_StateDB evm)))"

text \<open>
  A failed \<open>Create\<close> leaves the increased nonce of its caller; before Homestead it also keeps an account
  whose code could not be paid for.
\<close>

definition create_undone ::
  "'db VmEnv \<Rightarrow> ('db \<Rightarrow> 'db \<Rightarrow> bool) \<Rightarrow> ('db \<Rightarrow> 'w) \<Rightarrow> 'db EVM \<Rightarrow> address
    \<Rightarrow> (bytes \<times> address \<times> u64 \<times> evm_err option) \<times> 'db EVM \<Rightarrow> bool" where
  "create_undone E K view evm sender = (\<lambda>((ret, a, g, err), evm').
    (let D = env_db E; db = evm_StateDB evm; db' = evm_StateDB evm' in
     K db db' \<and>
     (err \<noteq> None \<and> (IsHomestead E \<or> err \<noteq> Some ErrCodeStoreOutOfGas) \<longrightarrow>
       view db' = view db \<or> view db' = view (db_SetNonce D db sender (db_GetNonce D db sender + 1)))))"

section \<open>Operations that change the state\<close>

locale db_steps =
  fixes D :: "'db StateDB" and ok :: "'db \<Rightarrow> bool" and marks :: "nat \<Rightarrow> 'w \<Rightarrow> 'db \<Rightarrow> bool"
  assumes CreateAccount_keeps: "ok db \<Longrightarrow> keeps ok marks db (db_CreateAccount D db a)"
    and SubBalance_keeps: "ok db \<Longrightarrow> keeps ok marks db (db_SubBalance D db a v)"
    and AddBalance_keeps: "ok db \<Longrightarrow> keeps ok marks db (db_AddBalance D db a v)"
    and SetNonce_keeps: "ok db \<Longrightarrow> keeps ok marks db (db_SetNonce D db a n)"
    and SetCode_keeps: "ok db \<Longrightarrow> keeps ok marks db (db_SetCode D db a c)"
    and AddRefund_keeps: "ok db \<Longrightarrow> keeps ok marks db (db_AddRefund D db g)"
    and SetState_keeps: "ok db \<Longrightarrow> keeps ok marks db (db_SetState D db a k w)"
    and Suicide_keeps: "ok db \<Longrightarrow> keeps ok marks db (db_Suicide D db a)"
    and AddLog_keeps: "ok db \<Longrightarrow> keeps ok marks db (db_AddLog D db lg)"
    and AddPreimage_keeps: "ok db \<Longrightarrow> keeps ok marks db (db_AddPreimage D db h p)"
begin

lemmas step_laws = CreateAccount_keeps SubBalance_keeps AddBalance_keeps SetNonce_keeps SetCode_keeps
  AddRefund_keeps SetState_keeps Suicide_keeps AddLog_keeps AddPreimage_keeps

lemma mutates_keeps: "mutates D db db' \<Longrightarrow> ok db \<Longrightarrow> keeps ok marks db db'"
  by (induction rule: mutates.induct) (auto intro: keeps_trans step_laws dest: keeps_ok)

lemma local_keeps:
  assumes "local_ok f" and "env_db E = D" and "ok (fr_db fr)"
  shows "sure (\<lambda>(r, fr'). keeps ok marks (fr_db fr) (fr_db fr')) (f E R fr)"
proof (rule wp_mono)
  show "sure (stays E fr) (f E R fr)" using assms(1) by (simp add: local_ok_def)
qed (use assms in \<open>auto simp: stays_def mutates_keeps\<close>)

end

section \<open>Snapshots\<close>

locale db_snapshots = db_steps D ok marks
  for D :: "'db StateDB" and ok :: "'db \<Rightarrow> bool" and marks :: "nat \<Rightarrow> 'w \<Rightarrow> 'db \<Rightarrow> bool" +
  fixes view :: "'db \<Rightarrow> 'w"
  assumes Snapshot_keeps: "ok db \<Longrightarrow> db_Snapshot D db = (n, db') \<Longrightarrow> keeps ok marks db db'"
    and Snapshot_marks: "ok db \<Longrightarrow> db_Snapshot D db = (n, db') \<Longrightarrow> marks n (view db) db'"
    and Snapshot_view: "ok db \<Longrightarrow> db_Snapshot D db = (n, db') \<Longrightarrow> view db' = view db"
    and Snapshot_fresh: "ok db \<Longrightarrow> db_Snapshot D db = (n, db') \<Longrightarrow> marks m v db \<Longrightarrow> m < n"
    and Revert_restores: "ok db \<Longrightarrow> marks n v db \<Longrightarrow>
      \<exists>db'. db_RevertToSnapshot D db n = Some db' \<and> ok db' \<and> view db' = v \<and>
        (\<forall>m u. m < n \<and> marks m u db \<longrightarrow> marks m u db')"
begin

text \<open>Taking a snapshot, changing the state, and going back.\<close>

lemma undo_after:
  assumes "ok db" and "db_Snapshot D db = (n, db1)" and "keeps ok marks db1 db2"
  shows "sure (\<lambda>db'. keeps ok marks db db' \<and> view db' = view db) (RevertToSnapshot D db2 n)"
proof -
  have "marks n (view db) db2" "ok db2"
    using assms Snapshot_marks [OF assms(1,2)] by (auto simp: keeps_def)
  from Revert_restores [OF this(2,1)] obtain db' where
    "db_RevertToSnapshot D db2 n = Some db'" "ok db'" "view db' = view db"
    "\<forall>m u. m < n \<and> marks m u db2 \<longrightarrow> marks m u db'" by blast
  moreover have "keeps ok marks db db2"
    using Snapshot_keeps [OF assms(1,2)] assms(3) by (rule keeps_trans)
  ultimately show ?thesis
    using Snapshot_fresh [OF assms(1,2)] by (auto simp: RevertToSnapshot_def keeps_def)
qed

lemma evm_run_keeps:
  assumes "runner_keeps ok (keeps ok marks) R" and "ok (evm_StateDB evm)"
  shows "sure (\<lambda>(r, evm', c'). keeps ok marks (evm_StateDB evm) (evm_StateDB evm')) (evm_run E R evm c inp)"
proof (cases "case ct_CodeAddr c of None \<Rightarrow> None | Some a \<Rightarrow> precompiles E a")
  case None
  then show ?thesis using assms by (simp add: evm_run_def runner_keeps_def)
next
  case (Some p)
  then obtain a where "precompiles E a = Some p" by (auto split: option.splits)
  from run_precompiled [OF this plain_abort_simps(2)]
  have "sure (\<lambda>(r, c'). True) (RunPrecompiledContract p inp c)" by (rule wp_mono) auto
  then show ?thesis using Some assms(2) by (auto simp: evm_run_def elim!: wp_mono)
qed

lemma call_end_undo:
  assumes "env_db E = D" and "ok db" and "db_Snapshot D db = (n, db1)"
    and "keeps ok marks db1 (evm_StateDB evm)"
  shows "sure (\<lambda>((ret, g, err), evm'). keeps ok marks db (evm_StateDB evm') \<and>
      (err \<noteq> None \<longrightarrow> view (evm_StateDB evm') = view db)) (call_end E n ((ret, err), evm, c))"
proof (cases err)
  case None
  then show ?thesis
    using keeps_trans [OF Snapshot_keeps [OF assms(2,3)] assms(4)] by (simp add: call_end_def)
next
  case (Some e)
  show ?thesis
    using undo_after [OF assms(2-4)] by (auto simp: call_end_def Some assms(1) Let_def elim!: wp_mono)
qed

text \<open>What every call does: snapshot, change the state, run, end.\<close>

lemma run_and_undo:
  assumes R: "runner_keeps ok (keeps ok marks) R" and E: "env_db E = D"
    and snap: "ok db" "db_Snapshot D db = (n, db1)" and m: "mutates D db1 (evm_StateDB evm)"
    and Q: "\<And>ret g err evm'. keeps ok marks db (evm_StateDB evm') \<Longrightarrow>
      (err \<noteq> None \<longrightarrow> view (evm_StateDB evm') = view db) \<Longrightarrow> Q ((ret, g, err), evm')"
  shows "sure (\<lambda>r. sure Q (call_end E n r)) (evm_run E R evm c inp)"
proof (rule wp_mono)
  have "ok db1" using Snapshot_keeps [OF snap] by blast
  from mutates_keeps [OF m this] have k: "keeps ok marks db1 (evm_StateDB evm)" .
  then have "ok (evm_StateDB evm)" by blast
  from evm_run_keeps [OF R this]
  show "sure (\<lambda>(r, evm', c'). keeps ok marks (evm_StateDB evm) (evm_StateDB evm')) (evm_run E R evm c inp)" .
  fix x :: "(bytes \<times> evm_err option) \<times> 'db EVM \<times> Contract"
  assume "case x of (r, evm', c') \<Rightarrow> keeps ok marks (evm_StateDB evm) (evm_StateDB evm')"
  moreover obtain ret err evm' c' where x: "x = ((ret, err), evm', c')" by (metis prod.exhaust)
  ultimately have "keeps ok marks db1 (evm_StateDB evm')" using keeps_trans [OF k] by simp
  from call_end_undo [OF E snap this] show "sure Q (call_end E n x)"
    unfolding x by (rule wp_mono) (auto intro: Q)
qed

lemma Call_undone:
  assumes "runner_keeps ok (keeps ok marks) R" and "env_db E = D" and "ok (evm_StateDB evm)"
  shows "sure (call_undone (keeps ok marks) view evm) (Call E R evm caller addr inp gas v)"
proof (cases "db_Snapshot D (evm_StateDB evm)")
  case (Pair n db1)
  show ?thesis
    using assms Snapshot_keeps [OF assms(3) Pair]
    by (auto simp: Call_def Let_def Pair call_undone_def Transfer_def split: prod.splits
        intro!: run_and_undo [OF assms Pair])
qed

lemma CallCode_undone:
  assumes "runner_keeps ok (keeps ok marks) R" and "env_db E = D" and "ok (evm_StateDB evm)"
  shows "sure (call_undone (keeps ok marks) view evm) (CallCode E R evm caller addr inp gas v)"
proof (cases "db_Snapshot D (evm_StateDB evm)")
  case (Pair n db1)
  show ?thesis
    using assms
    by (auto simp: CallCode_def Let_def Pair call_undone_def split: prod.splits
        intro!: run_and_undo [OF assms Pair])
qed

lemma DelegateCall_undone:
  assumes "runner_keeps ok (keeps ok marks) R" and "env_db E = D" and "ok (evm_StateDB evm)"
  shows "sure (call_undone (keeps ok marks) view evm) (DelegateCall E R evm caller addr inp gas)"
proof (cases "db_Snapshot D (evm_StateDB evm)")
  case (Pair n db1)
  show ?thesis
    using assms
    by (auto simp: DelegateCall_def Let_def Pair call_undone_def AsDelegate_def
        split: prod.splits ContractRef.splits intro!: run_and_undo [OF assms Pair])
qed

lemma StaticCall_undone:
  assumes "runner_keeps ok (keeps ok marks) R" and "env_db E = D" and "ok (evm_StateDB evm)"
  shows "sure (call_undone (keeps ok marks) view evm) (StaticCall E R evm caller addr inp gas)"
proof (cases "db_Snapshot D (evm_StateDB evm)")
  case (Pair n db1)
  show ?thesis
    using assms
    by (auto simp: StaticCall_def Let_def Pair call_undone_def split: prod.splits
        intro!: run_and_undo [OF assms Pair])
qed

lemma create_end_undo:
  assumes "env_db E = D" and "ok db" and "db_Snapshot D db = (n, db1)"
    and k: "keeps ok marks db1 (evm_StateDB evm)"
  shows "sure (\<lambda>((ret, a, g, err), evm'). keeps ok marks db (evm_StateDB evm') \<and>
      (err \<noteq> None \<and> (IsHomestead E \<or> err \<noteq> Some ErrCodeStoreOutOfGas) \<longrightarrow>
        view (evm_StateDB evm') = view db)) (create_end E n addr ((ret, err), evm, c))"
proof -
  have k0: "keeps ok marks db (evm_StateDB evm)"
    using keeps_trans [OF Snapshot_keeps [OF assms(2,3)] k] .
  then have "keeps ok marks db (db_SetCode D (evm_StateDB evm) addr ret)"
    using SetCode_keeps [of "evm_StateDB evm" addr ret] unfolding keeps_def by blast
  note kc = this
  have back_to: "sure P (RevertToSnapshot D (evm_StateDB evm) n)"
    if "\<And>db'. keeps ok marks db db' \<Longrightarrow> view db' = view db \<Longrightarrow> P db'" for P
    using undo_after [OF assms(2-4)] by (rule wp_mono) (use that in blast)
  show ?thesis
  proof (cases "IsEIP158 E \<and> MaxCodeSize < length ret")
    case True
    then show ?thesis by (simp add: create_end_def Let_def assms(1)) (auto intro!: back_to)
  next
    case False
    show ?thesis
    proof (cases err)
      case None
      obtain b c' where u: "Contract_UseGas (of_nat (length ret) * CreateDataGas) c = (b, c')" by fastforce
      show ?thesis
        using False k0 kc
        by (simp add: create_end_def Let_def assms(1) None u) (auto intro!: back_to)
    next
      case (Some e)
      show ?thesis
        using False k0 by (simp add: create_end_def Let_def assms(1) Some) (auto intro!: back_to)
    qed
  qed
qed

lemma run_and_uncreate:
  assumes R: "runner_keeps ok (keeps ok marks) R" and E: "env_db E = D"
    and snap: "ok db" "db_Snapshot D db = (n, db1)" and m: "mutates D db1 (evm_StateDB evm)"
    and Q: "\<And>ret b g err evm'. keeps ok marks db (evm_StateDB evm') \<Longrightarrow>
      (err \<noteq> None \<and> (IsHomestead E \<or> err \<noteq> Some ErrCodeStoreOutOfGas) \<longrightarrow>
        view (evm_StateDB evm') = view db) \<Longrightarrow> Q ((ret, b, g, err), evm')"
  shows "sure (\<lambda>r. sure Q (create_end E n a r)) (evm_run E R evm c inp)"
proof (rule wp_mono)
  have "ok db1" using Snapshot_keeps [OF snap] by blast
  from mutates_keeps [OF m this] have k: "keeps ok marks db1 (evm_StateDB evm)" .
  then have "ok (evm_StateDB evm)" by blast
  from evm_run_keeps [OF R this]
  show "sure (\<lambda>(r, evm', c'). keeps ok marks (evm_StateDB evm) (evm_StateDB evm')) (evm_run E R evm c inp)" .
  fix x :: "(bytes \<times> evm_err option) \<times> 'db EVM \<times> Contract"
  assume "case x of (r, evm', c') \<Rightarrow> keeps ok marks (evm_StateDB evm) (evm_StateDB evm')"
  moreover obtain ret err evm' c' where x: "x = ((ret, err), evm', c')" by (metis prod.exhaust)
  ultimately have "keeps ok marks db1 (evm_StateDB evm')" using keeps_trans [OF k] by simp
  from create_end_undo [OF E snap this, of a ret err c'] show "sure Q (create_end E n a x)"
    unfolding x by (rule wp_mono) (auto intro: Q)
qed

lemma Create_undone:
  assumes "runner_keeps ok (keeps ok marks) R" and "env_db E = D" and "ok (evm_StateDB evm)"
  shows "sure (create_undone E (keeps ok marks) view evm (ContractRef_Address caller))
    (Create E R evm caller code gas v)"
proof -
  let ?a = "ContractRef_Address caller"
  let ?db1 = "db_SetNonce D (evm_StateDB evm) ?a (db_GetNonce D (evm_StateDB evm) ?a + 1)"
  have k: "keeps ok marks (evm_StateDB evm) ?db1" using SetNonce_keeps [OF assms(3)] .
  then have ok1: "ok ?db1" by blast
  obtain n db2 where snap: "db_Snapshot D ?db1 = (n, db2)" by (cases "db_Snapshot D ?db1")
  have k2: "keeps ok marks (evm_StateDB evm) db2" using keeps_trans [OF k Snapshot_keeps [OF ok1 snap]] .
  have m: "keeps ok marks (evm_StateDB evm) db" if "mutates D db2 db" for db
    using keeps_trans [OF k2 mutates_keeps [OF that]] k2 by blast
  have fin: "create_undone E (keeps ok marks) view evm ?a ((ret, b, g, err), evm')"
    if "keeps ok marks ?db1 (evm_StateDB evm')"
      "err \<noteq> None \<and> (IsHomestead E \<or> err \<noteq> Some ErrCodeStoreOutOfGas) \<longrightarrow>
        view (evm_StateDB evm') = view ?db1" for ret b g err evm'
    using that keeps_trans [OF k that(1)] by (simp add: create_undone_def Let_def assms(2))
  have early: "create_undone E (keeps ok marks) view evm ?a ((ret, b, g, err), evm)" for ret b g err
    using assms(3) by (simp add: create_undone_def Let_def)
  have last: "create_undone E (keeps ok marks) view evm ?a ((ret, b, g, err), evm')"
    if "mutates D db2 (evm_StateDB evm')" "err = None" for ret b g err evm'
    using m [OF that(1)] that(2) by (simp add: create_undone_def Let_def)
  have run: "sure (create_undone E (keeps ok marks) view evm ?a)
      (bindR (evm_run E R evm1 c1 []) (create_end E n a))"
    if "mutates D db2 (evm_StateDB evm1)" for evm1 c1 a
    unfolding wp_bindR by (rule run_and_uncreate [OF assms(1,2) ok1 snap that]) (rule fin)
  have collide: "create_undone E (keeps ok marks) view evm ?a ((ret, b, g, err), evm\<lparr>evm_StateDB := ?db1\<rparr>)"
    for ret b g err
    by (rule fin) (use ok1 in simp_all)
  show ?thesis
    unfolding Create_def Let_def assms(2) snap prod.case
    by (auto simp: early collide Transfer_def simp del: wp_bindR intro!: run last split: prod.split)
qed

section \<open>Instructions\<close>

lemma after_call_keeps:
  assumes "call_undone (keeps ok marks) view (fr_evm fr) r"
  shows "sure (\<lambda>(x, fr'). keeps ok marks (fr_db fr) (fr_db fr')) (after_call o1 s1 st fr r)"
  using assms
  by (cases r) (auto simp: call_undone_def after_call_def Let_def add_gas_def set_stack_def intro!: ends_rules)

lemma calls_keep: "exec_keeps D ok (keeps ok marks) opCall" "exec_keeps D ok (keeps ok marks) opCallCode" "exec_keeps D ok (keeps ok marks) opDelegateCall"
    "exec_keeps D ok (keeps ok marks) opStaticCall"
  by (auto simp: exec_keeps_def opCall_def opCallCode_def opDelegateCall_def opStaticCall_def Let_def
      intro!: ends_rules wp_mono [OF Call_undone after_call_keeps] wp_mono [OF CallCode_undone after_call_keeps]
        wp_mono [OF DelegateCall_undone after_call_keeps] wp_mono [OF StaticCall_undone after_call_keeps]
      split: list.splits)

lemma create_keeps: "exec_keeps D ok (keeps ok marks) opCreate"
  by (auto simp: exec_keeps_def opCreate_def Let_def create_undone_def add_gas_def set_stack_def op_done_def
      intro!: ends_rules wp_mono [OF Create_undone] split: list.splits)

lemma class_keeps: "exec_class gain f \<Longrightarrow> exec_keeps D ok (keeps ok marks) f"
  using calls_keep create_keeps local_keeps by (auto simp: exec_class_def exec_keeps_def)

section \<open>Turns and runs\<close>

lemma after_execute_keeps:
  "keeps ok marks (fr_db fr) (fr_db fr') \<Longrightarrow> turn_keeps (keeps ok marks) fr (after_execute o' (x, fr'))"
  by (cases x) (auto simp: after_execute_def turn_keeps_def Let_def split: option.split)

lemma pay_and_execute_keeps:
  assumes entry: "table_entry o'" and valid: "op_validateStack o' (fr_stack fr) = None"
    and E: "env_db E = D" and ok: "ok (fr_db fr)" and R: "runner_keeps ok (keeps ok marks) R"
  shows "sure (turn_keeps (keeps ok marks) fr) (pay_and_execute E R o' ms fr)"
proof -
  obtain gain pops mem lo where exec: "exec_keeps D ok (keeps ok marks) (op_execute o')"
    and check: "checks pops (op_validateStack o')" and price: "price_ok pops gain mem lo (op_gasCost o')"
    using entry class_keeps unfolding table_entry_def priced_def by blast
  from check valid have "pops \<le> length (fr_stack fr)" by (simp add: checks_def)
  with price obtain r fr1 where r: "op_gasCost o' E ms fr = Inr (r, fr1)" and eff: "gas_effect E fr fr1"
    unfolding price_ok_def gspec_def by blast
  have "mutates D (fr_db fr) (fr_db fr1)" using eff E by (auto simp: gas_effect_def)
  from mutates_keeps [OF this ok] have k: "keeps ok marks (fr_db fr) (fr_db fr1)" .
  show ?thesis
  proof (cases r)
    case (Inl e)
    then show ?thesis using r k by (simp add: pay_and_execute_def turn_keeps_def)
  next
    case (Inr c)
    obtain paid contract where u: "Contract_UseGas c (fr_contract fr1) = (paid, contract)" by fastforce
    let ?fr2 = "fr1\<lparr>fr_contract := contract,
      fr_memory := if 0 < ms then Memory_Resize (fr_memory fr1) ms else fr_memory fr1\<rparr>"
    have "ok (fr_db ?fr2)" using k by auto
    with exec E R have "sure (\<lambda>(x, fr'). keeps ok marks (fr_db ?fr2) (fr_db fr')) (op_execute o' E R ?fr2)"
      unfolding exec_keeps_def by blast
    then have "sure (\<lambda>y. turn_keeps (keeps ok marks) fr (after_execute o' y)) (op_execute o' E R ?fr2)"
    proof (rule wp_mono)
      fix y :: "(bytes \<times> evm_err option) \<times> 'db frame"
      assume "case y of (x, fr') \<Rightarrow> keeps ok marks (fr_db ?fr2) (fr_db fr')"
      then show "turn_keeps (keeps ok marks) fr (after_execute o' y)"
        using keeps_trans [OF k] by (cases y) (simp add: after_execute_keeps)
    qed
    then show ?thesis using r Inr u k by (simp add: pay_and_execute_def turn_keeps_def)
  qed
qed

lemma run_step_keeps:
  assumes "env_db E = D" and "ok (fr_db fr)" and "runner_keeps ok (keeps ok marks) R"
  shows "sure (turn_keeps (keeps ok marks) fr) (run_step E R fr)"
proof -
  have leave: "turn_keeps (keeps ok marks) fr (Leave ret err fr)" for ret err
    using assms(2) by (simp add: turn_keeps_def)
  have size: "sure P (memory_size (JumpTable E b) st)" if "\<And>x. P x" for P b st
    using sized_JumpTable [of E b] that
    by (auto simp: memory_size_def sized_def Let_def intro!: ends_size split: option.splits prod.splits)
  show ?thesis
    unfolding run_step_def Let_def
    by (auto simp: leave enforceRestrictions_def split: option.split sum.split
        intro!: size ends_rules pay_and_execute_keeps [OF JumpTable_entry _ assms])
qed

lemma interpreter_loop_keeps:
  assumes "env_db E = D" and "ok (fr_db fr)" and "runner_keeps ok (keeps ok marks) R"
  shows "sure (\<lambda>(r, evm', c'). keeps ok marks (fr_db fr) (evm_StateDB evm')) (interpreter_loop E R n fr)"
  using assms(2)
proof (induction n arbitrary: fr)
  case (Suc n)
  have "sure (\<lambda>t. sure (\<lambda>(r, evm', c'). keeps ok marks (fr_db fr) (evm_StateDB evm'))
      (case t of Next fr' \<Rightarrow> interpreter_loop E R n fr'
       | Leave ret err fr' \<Rightarrow> Inr ((ret, err), fr_evm fr', fr_contract fr'))) (run_step E R fr)"
    using run_step_keeps [OF assms(1) Suc.prems assms(3)]
  proof (rule wp_mono)
    fix t assume t: "turn_keeps (keeps ok marks) fr t"
    show "sure (\<lambda>(r, evm', c'). keeps ok marks (fr_db fr) (evm_StateDB evm'))
      (case t of Next fr' \<Rightarrow> interpreter_loop E R n fr'
       | Leave ret err fr' \<Rightarrow> Inr ((ret, err), fr_evm fr', fr_contract fr'))"
    proof (cases t)
      case (Leave ret err fr')
      with t show ?thesis by (simp add: turn_keeps_def)
    next
      case (Next fr')
      with t have k: "keeps ok marks (fr_db fr) (fr_db fr')" by (simp add: turn_keeps_def)
      then have "ok (fr_db fr')" by blast
      from wp_mono [OF Suc.IH [OF this]] keeps_trans [OF k] show ?thesis
        unfolding Next by fastforce
    qed
  qed
  then show ?case by simp
qed simp

lemma Run_with_keeps:
  assumes "env_db E = D" and "runner_keeps ok (keeps ok marks) R"
  shows "runner_keeps ok (keeps ok marks) (Run_with E R)"
  unfolding runner_keeps_def
proof (intro allI impI)
  fix evm :: "'db EVM" and c inp
  assume "ok (evm_StateDB evm)"
  let ?fr = "start_frame (evm\<lparr>evm_depth := evm_depth evm + 1, evm_returnData := []\<rparr>) c inp"
  have "ok (fr_db ?fr)" using \<open>ok (evm_StateDB evm)\<close> by (simp add: start_frame_def)
  from interpreter_loop_keeps [OF assms(1) this assms(2), of "unat (ct_Gas c) + 1"] \<open>ok (evm_StateDB evm)\<close>
  show "sure (\<lambda>(r, evm', c'). keeps ok marks (evm_StateDB evm) (evm_StateDB evm')) (Run_with E R evm c inp)"
    by (auto simp: Run_with_def Let_def start_frame_def elim!: wp_mono)
qed

lemma Interpreter_Run_keeps: "env_db E = D \<Longrightarrow> runner_keeps ok (keeps ok marks) (Interpreter_Run E n)"
  by (induction n) (simp_all add: Run_with_keeps, simp add: runner_keeps_def)

text \<open>The interpreter never panics on a revert, and a call that fails leaves the world as it was.\<close>

theorem Run_keeps: "env_db E = D \<Longrightarrow> runner_keeps ok (keeps ok marks) (Run E)"
  unfolding Run_def by (rule Interpreter_Run_keeps)

lemmas calls_undone =
  Call_undone [OF Run_keeps] CallCode_undone [OF Run_keeps] DelegateCall_undone [OF Run_keeps]
  StaticCall_undone [OF Run_keeps] Create_undone [OF Run_keeps]

end

end
