(* ===== verification/State_Transition.thy ===== *)
theory State_Transition
  imports Evm_Undo
begin

text \<open>
  Applying a message to the state, \<open>src/gttc/core/state_transition.go\<close> and \<open>gaspool.go\<close>: the nonce
  check, buying gas from the block's pool, the intrinsic price of a transaction, the call or
  creation, and the refund.  The transition works on the state of its machine; an error leaves
  the transition as it is at that point, as in the code, and what the callers do then is theirs.
\<close>

section \<open>The gas pool of a block\<close>

type_synonym GasPool = u64

datatype tx_err =
  errInsufficientBalanceForGas | ErrGasLimitReached | ErrNonceTooHigh | ErrNonceTooLow
| ErrSender | VmErr evm_err

definition GasPool_AddGas :: "u64 \<Rightarrow> GasPool \<Rightarrow> abort + GasPool" where
  "GasPool_AddGas amount gp = (if MaxUint64 - amount < gp then Inl AbortGasPool else Inr (gp + amount))"

definition GasPool_SubGas :: "u64 \<Rightarrow> GasPool \<Rightarrow> tx_err option \<times> GasPool" where
  "GasPool_SubGas amount gp = (if gp < amount then (Some ErrGasLimitReached, gp) else (None, gp - amount))"

section \<open>Messages\<close>

record Message =
  msg_to :: "address option"
  msg_from :: address
  msg_nonce :: u64
  msg_amount :: int
  msg_gasLimit :: u64
  msg_gasPrice :: int
  msg_data :: bytes
  msg_checkNonce :: bool

definition TxGas :: u64 where "TxGas = 21000"
definition TxGasContractCreation :: u64 where "TxGasContractCreation = 53000"
definition TxDataZeroGas :: u64 where "TxDataZeroGas = 4"
definition TxDataNonZeroGas :: u64 where "TxDataNonZeroGas = 68"

definition IntrinsicGas :: "bytes \<Rightarrow> bool \<Rightarrow> bool \<Rightarrow> evm_err + u64" where
  "IntrinsicGas d contractCreation homestead =
    (let gas = (if contractCreation \<and> homestead then TxGasContractCreation else TxGas) in
     if 0 < length d then
       (let nz = of_nat (length (filter (\<lambda>byt. byt \<noteq> 0) d)) in
        if (MaxUint64 - gas) div TxDataNonZeroGas < nz then Inl ErrOutOfGas
        else
          (let gas1 = gas + nz * TxDataNonZeroGas;
               z = of_nat (length d) - nz
           in if (MaxUint64 - gas1) div TxDataZeroGas < z then Inl ErrOutOfGas
              else Inr (gas1 + z * TxDataZeroGas)))
     else Inr gas)"

section \<open>Transitions\<close>

text \<open>The field \<open>state\<close> is the state database of the machine, \<open>tr_db\<close>.\<close>

record 'db StateTransition =
  tr_gp :: GasPool
  tr_msg :: Message
  tr_gas :: u64
  tr_gasPrice :: int
  tr_initialGas :: u64
  tr_value :: int
  tr_data :: bytes
  tr_evm :: "'db EVM"

abbreviation tr_db :: "'db StateTransition \<Rightarrow> 'db" where
  "tr_db st \<equiv> evm_StateDB (tr_evm st)"

definition set_tr_db :: "'db \<Rightarrow> 'db StateTransition \<Rightarrow> 'db StateTransition" where
  "set_tr_db db st = st\<lparr>tr_evm := (tr_evm st)\<lparr>evm_StateDB := db\<rparr>\<rparr>"

definition NewStateTransition :: "'db EVM \<Rightarrow> Message \<Rightarrow> GasPool \<Rightarrow> 'db StateTransition" where
  "NewStateTransition evm msg gp =
    \<lparr>tr_gp = gp, tr_msg = msg, tr_gas = 0, tr_gasPrice = msg_gasPrice msg, tr_initialGas = 0,
     tr_value = msg_amount msg, tr_data = msg_data msg, tr_evm = evm\<rparr>"

definition tr_to :: "'db StateTransition \<Rightarrow> address" where
  "tr_to st = (case msg_to (tr_msg st) of None \<Rightarrow> 0 | Some a \<Rightarrow> a)"

definition useGas :: "u64 \<Rightarrow> 'db StateTransition \<Rightarrow> evm_err option \<times> 'db StateTransition" where
  "useGas amount st =
    (if tr_gas st < amount then (Some ErrOutOfGas, st) else (None, st\<lparr>tr_gas := tr_gas st - amount\<rparr>))"

definition buyGas :: "'db VmEnv \<Rightarrow> 'db StateTransition \<Rightarrow> tx_err option \<times> 'db StateTransition" where
  "buyGas E st =
    (let D = env_db E; msg = tr_msg st;
         mgval = uint (msg_gasLimit msg) * tr_gasPrice st
     in if db_GetBalance D (tr_db st) (msg_from msg) < mgval
        then (Some errInsufficientBalanceForGas, st)
        else
          (case GasPool_SubGas (msg_gasLimit msg) (tr_gp st) of
             (Some err, gp) \<Rightarrow> (Some err, st\<lparr>tr_gp := gp\<rparr>)
           | (None, gp) \<Rightarrow>
               (None, set_tr_db (db_SubBalance D (tr_db st) (msg_from msg) mgval)
                  (st\<lparr>tr_gp := gp, tr_gas := tr_gas st + msg_gasLimit msg,
                      tr_initialGas := msg_gasLimit msg\<rparr>))))"

definition preCheck :: "'db VmEnv \<Rightarrow> 'db StateTransition \<Rightarrow> tx_err option \<times> 'db StateTransition" where
  "preCheck E st =
    (let msg = tr_msg st; nonce = db_GetNonce (env_db E) (tr_db st) (msg_from msg) in
     if msg_checkNonce msg \<and> nonce < msg_nonce msg then (Some ErrNonceTooHigh, st)
     else if msg_checkNonce msg \<and> msg_nonce msg < nonce then (Some ErrNonceTooLow, st)
     else buyGas E st)"

definition tr_gasUsed :: "'db StateTransition \<Rightarrow> u64" where
  "tr_gasUsed st = tr_initialGas st - tr_gas st"

definition refundGas :: "'db VmEnv \<Rightarrow> 'db StateTransition \<Rightarrow> abort + 'db StateTransition" where
  "refundGas E st =
    (let D = env_db E;
         half = tr_gasUsed st div 2;
         refund = (if db_GetRefund D (tr_db st) < half then db_GetRefund D (tr_db st) else half);
         st1 = st\<lparr>tr_gas := tr_gas st + refund\<rparr>;
         remaining = uint (tr_gas st1) * tr_gasPrice st1;
         st2 = set_tr_db (db_AddBalance D (tr_db st1) (msg_from (tr_msg st1)) remaining) st1
     in bindR (GasPool_AddGas (tr_gas st2) (tr_gp st2)) (\<lambda>gp. Inr (st2\<lparr>tr_gp := gp\<rparr>)))"

text \<open>The call or the creation, with the gas that is left of it.\<close>

definition execute_message ::
  "'db VmEnv \<Rightarrow> 'db StateTransition \<Rightarrow> abort + (bytes \<times> evm_err option) \<times> 'db StateTransition" where
  "execute_message E st =
    (let D = env_db E; msg = tr_msg st; sender = AccountRef (msg_from msg) in
     if msg_to msg = None then
       bindR (Create E (Run E) (tr_evm st) sender (tr_data st) (tr_gas st) (tr_value st))
         (\<lambda>((ret, addr, gas, vmerr), evm). Inr ((ret, vmerr), st\<lparr>tr_gas := gas, tr_evm := evm\<rparr>))
     else
       (let nonce = db_GetNonce D (tr_db st) (msg_from msg);
            st1 = set_tr_db (db_SetNonce D (tr_db st) (msg_from msg) (nonce + 1)) st
        in bindR (Call E (Run E) (tr_evm st1) sender (tr_to st1) (tr_data st1) (tr_gas st1) (tr_value st1))
             (\<lambda>((ret, gas, vmerr), evm). Inr ((ret, vmerr), st1\<lparr>tr_gas := gas, tr_evm := evm\<rparr>))))"

text \<open>
  The results are \<open>ret\<close>, \<open>usedGas\<close>, \<open>failed\<close> and \<open>err\<close>.  \<open>settle\<close> is the end of \<open>TransitionDb\<close>: an error of the
  machine is not one of the transition, unless the balance does not cover the transfer.
\<close>

definition settle ::
  "'db VmEnv \<Rightarrow> (bytes \<times> evm_err option) \<times> 'db StateTransition \<Rightarrow>
    abort + (bytes \<times> u64 \<times> bool \<times> tx_err option) \<times> 'db StateTransition" where
  "settle E = (\<lambda>((ret, vmerr), st).
    if vmerr = Some ErrInsufficientBalance
    then Inr (([], 0, False, Some (VmErr ErrInsufficientBalance)), st)
    else
      bindR (refundGas E st) (\<lambda>st1.
        (let fee = uint (tr_gasUsed st1) * tr_gasPrice st1;
             st2 = set_tr_db (db_AddBalance (env_db E) (tr_db st1) (env_Coinbase E) fee) st1
         in Inr ((ret, tr_gasUsed st2, vmerr \<noteq> None, None), st2))))"

definition TransitionDb ::
  "'db VmEnv \<Rightarrow> 'db StateTransition \<Rightarrow>
    abort + (bytes \<times> u64 \<times> bool \<times> tx_err option) \<times> 'db StateTransition" where
  "TransitionDb E st0 =
    (case preCheck E st0 of
       (Some err, st) \<Rightarrow> Inr (([], 0, False, Some err), st)
     | (None, st) \<Rightarrow>
         (case IntrinsicGas (tr_data st) (msg_to (tr_msg st) = None) (IsHomestead E) of
            Inl err \<Rightarrow> Inr (([], 0, False, Some (VmErr err)), st)
          | Inr gas \<Rightarrow>
              (case useGas gas st of
                 (Some err, st1) \<Rightarrow> Inr (([], 0, False, Some (VmErr err)), st1)
               | (None, st1) \<Rightarrow> bindR (execute_message E st1) (settle E))))"

definition ApplyMessage ::
  "'db VmEnv \<Rightarrow> 'db EVM \<Rightarrow> Message \<Rightarrow> GasPool \<Rightarrow>
    abort + (bytes \<times> u64 \<times> bool \<times> tx_err option) \<times> 'db StateTransition" where
  "ApplyMessage E evm msg gp = TransitionDb E (NewStateTransition evm msg gp)"


section \<open>Gas\<close>

text \<open>The price of a transaction does not wrap: it is the base and 68 or 4 for every byte.\<close>

lemma div_fits: "\<not> (MaxUint64 - g) div k < n \<Longrightarrow> k \<noteq> 0 \<Longrightarrow> unat g + unat n * unat k < 2 ^ 64" for g k n :: u64
proof -
  assume n: "\<not> (MaxUint64 - g) div k < n" and "k \<noteq> 0"
  have "unat g < 2 ^ 64" using unsigned_less [of g, where ?'a = nat] by simp
  then have "g \<le> MaxUint64" by (simp add: word_le_nat_alt unat_MaxUint64)
  then have "unat (MaxUint64 - g) = 2 ^ 64 - 1 - unat g" by (simp add: unat_sub unat_MaxUint64)
  then have "unat n \<le> (2 ^ 64 - 1 - unat g) div unat k"
    using n by (simp add: word_less_nat_alt not_less unat_div)
  then have "unat n * unat k \<le> 2 ^ 64 - 1 - unat g"
    by (meson div_times_less_eq_dividend le_trans mult_le_mono1)
  with \<open>unat g < 2 ^ 64\<close> show ?thesis by linarith
qed

lemma IntrinsicGas_exact:
  assumes "IntrinsicGas d c h = Inr g" and "length d < 2 ^ 64"
  shows "unat g = (if c \<and> h then 53000 else 21000) +
    68 * length (filter (\<lambda>b. b \<noteq> 0) d) + 4 * length (filter (\<lambda>b. b = 0) d)"
proof -
  define gas where "gas = (if c \<and> h then TxGasContractCreation else TxGas)"
  define k where "k = length (filter (\<lambda>b. b \<noteq> 0) d)"
  define nz z where "nz = (of_nat k :: u64)" and "z = of_nat (length d) - nz"
  have base: "unat gas = (if c \<and> h then 53000 else 21000)"
    by (simp add: gas_def TxGas_def TxGasContractCreation_def)
  have len: "length (filter (\<lambda>b. b = 0) d) = length d - k" "k \<le> length d"
    using sum_length_filter_compl [of "\<lambda>b. b \<noteq> 0" d] by (simp_all add: k_def)
  have u: "unat nz = k" "unat z = length d - k"
    using assms(2) len by (simp_all add: nz_def z_def unat_of_nat64 unat_sub word_le_nat_alt)
  show ?thesis
  proof (cases "d = []")
    case True
    then show ?thesis using assms(1) base by (auto simp: IntrinsicGas_def gas_def)
  next
    case False
    then have n: "\<not> (MaxUint64 - gas) div TxDataNonZeroGas < nz"
      and z: "\<not> (MaxUint64 - (gas + nz * TxDataNonZeroGas)) div TxDataZeroGas < z"
      and g: "g = gas + nz * TxDataNonZeroGas + z * TxDataZeroGas"
      using assms(1) by (auto simp: IntrinsicGas_def Let_def gas_def nz_def z_def k_def split: if_splits)
    have 1: "unat (gas + nz * TxDataNonZeroGas) = unat gas + 68 * k"
      using div_fits [OF n] u by (simp add: TxDataNonZeroGas_def unat_word_ariths)
    have "unat g = unat (gas + nz * TxDataNonZeroGas) + 4 * (length d - k)"
      using div_fits [OF z] u unfolding g by (simp add: TxDataZeroGas_def unat_word_ariths 1)
    then show ?thesis using 1 base len by (simp add: k_def)
  qed
qed

lemma callee_Run: "callee_ok d (Run E)"
  by (simp add: callee_ok_def runner_ok_def Run_ok)

text \<open>What the parts of a transition do to gas and pool.\<close>

definition same_deal :: "'db StateTransition \<Rightarrow> 'db StateTransition \<Rightarrow> bool" where
  "same_deal st st' \<longleftrightarrow> tr_msg st' = tr_msg st \<and> tr_gasPrice st' = tr_gasPrice st \<and>
    tr_initialGas st' = tr_initialGas st \<and> tr_gp st' = tr_gp st"

lemma execute_message_ok:
  "ends (\<lambda>((ret, vmerr), st'). tr_gas st' \<le> tr_gas st \<and> same_deal st st') (execute_message E st)"
proof (cases "msg_to (tr_msg st)")
  case None
  have "ends (\<lambda>((ret, a, gas, vmerr), evm). gas \<le> tr_gas st)
    (Create E (Run E) (tr_evm st) (AccountRef (msg_from (tr_msg st))) (tr_data st) (tr_gas st) (tr_value st))"
    using Create_ok [OF callee_Run] by (rule wp_mono) (auto simp: create_ok_def)
  then show ?thesis
    using None by (auto simp: execute_message_def Let_def same_deal_def elim!: wp_mono)
next
  case (Some a)
  define st1 where "st1 = set_tr_db (db_SetNonce (env_db E) (tr_db st) (msg_from (tr_msg st))
    (db_GetNonce (env_db E) (tr_db st) (msg_from (tr_msg st)) + 1)) st"
  have same: "tr_gas st1 = tr_gas st" "same_deal st st1" by (simp_all add: st1_def set_tr_db_def same_deal_def)
  have "ends (\<lambda>((ret, gas, vmerr), evm). gas \<le> tr_gas st1)
    (Call E (Run E) (tr_evm st1) (AccountRef (msg_from (tr_msg st))) (tr_to st1) (tr_data st1) (tr_gas st1) (tr_value st1))"
    using Call_ok [OF callee_Run] by (rule wp_mono) (auto simp: call_ok_def)
  then show ?thesis
    using Some same
    by (auto simp: execute_message_def Let_def same_deal_def st1_def [symmetric] elim!: wp_mono)
qed

lemma preCheck_bought:
  assumes "preCheck E (NewStateTransition evm msg gp) = (None, st)"
  shows "msg_gasLimit msg \<le> gp"
    and "uint (msg_gasLimit msg) * msg_gasPrice msg \<le> db_GetBalance (env_db E) (evm_StateDB evm) (msg_from msg)"
    and "msg_checkNonce msg \<Longrightarrow> msg_nonce msg = db_GetNonce (env_db E) (evm_StateDB evm) (msg_from msg)"
    and "st = (NewStateTransition evm msg gp)\<lparr>tr_gp := gp - msg_gasLimit msg, tr_gas := msg_gasLimit msg,
      tr_initialGas := msg_gasLimit msg, tr_evm := evm\<lparr>evm_StateDB := db_SubBalance (env_db E) (evm_StateDB evm)
        (msg_from msg) (uint (msg_gasLimit msg) * msg_gasPrice msg)\<rparr>\<rparr>"
  using assms
  by (auto simp: preCheck_def buyGas_def Let_def GasPool_SubGas_def NewStateTransition_def set_tr_db_def
      not_less split: if_splits)

lemma preCheck_refused:
  assumes "preCheck E st = (Some e, st')"
  shows "st' = st" and "e \<noteq> VmErr e'"
  using assms
  by (auto simp: preCheck_def buyGas_def Let_def GasPool_SubGas_def split: if_splits)

text \<open>The refund is at most half of the gas used, and what is left goes back to the pool.\<close>

lemma refundGas_ok:
  assumes le: "tr_gas st \<le> tr_initialGas st" and room: "unat (tr_gp st) + unat (tr_initialGas st) < 2 ^ 64"
  shows "\<exists>g. refundGas E st = Inr ((set_tr_db (db_AddBalance (env_db E) (tr_db st) (msg_from (tr_msg st))
      (uint g * tr_gasPrice st)) st)\<lparr>tr_gas := g, tr_gp := tr_gp st + g\<rparr>) \<and>
    g \<le> tr_initialGas st \<and> unat (tr_gp st + g) = unat (tr_gp st) + unat g \<and>
    unat (tr_initialGas st) - unat (tr_gas st) \<le> 2 * (unat (tr_initialGas st) - unat g) \<and>
    (db_GetRefund (env_db E) (tr_db st) = 0 \<longrightarrow> g = tr_gas st)"
proof -
  define half where "half = tr_gasUsed st div 2"
  define r where "r = (if db_GetRefund (env_db E) (tr_db st) < half then db_GetRefund (env_db E) (tr_db st) else half)"
  define g where "g = tr_gas st + r"
  have half: "unat half = (unat (tr_initialGas st) - unat (tr_gas st)) div 2"
    using le by (simp add: half_def tr_gasUsed_def unat_div unat_sub)
  have r: "unat r \<le> unat half" by (auto simp: r_def word_less_nat_alt)
  have g: "unat g = unat (tr_gas st) + unat r"
    using le r half unsigned_less [of "tr_initialGas st", where ?'a = nat]
    unfolding g_def by (intro unat_add_less) (simp add: word_le_nat_alt)
  have le': "unat g \<le> unat (tr_initialGas st)"
    using g r half le by (simp add: word_le_nat_alt)
  have pool: "unat (tr_gp st + g) = unat (tr_gp st) + unat g"
    using le' room by (intro unat_add_less) simp
  have "\<not> MaxUint64 - g < tr_gp st"
  proof -
    have "unat g < 2 ^ 64" using unsigned_less [of g, where ?'a = nat] by simp
    then have "g \<le> MaxUint64" by (simp add: word_le_nat_alt unat_MaxUint64)
    then have "unat (MaxUint64 - g) = 2 ^ 64 - 1 - unat g" by (simp add: unat_sub unat_MaxUint64)
    then show ?thesis using le' room by (simp add: word_less_nat_alt)
  qed
  then have "refundGas E st = Inr ((set_tr_db (db_AddBalance (env_db E) (tr_db st) (msg_from (tr_msg st))
      (uint g * tr_gasPrice st)) st)\<lparr>tr_gas := g, tr_gp := tr_gp st + g\<rparr>)"
    by (simp add: refundGas_def Let_def half_def [symmetric] r_def [symmetric] g_def [symmetric]
        GasPool_AddGas_def set_tr_db_def)
  moreover have "unat (tr_initialGas st) - unat (tr_gas st) \<le> 2 * (unat (tr_initialGas st) - unat g)"
    using g r half by linarith
  moreover have "g = tr_gas st" if "db_GetRefund (env_db E) (tr_db st) = 0"
    using that by (auto simp: g_def r_def word_gt_0)
  ultimately show ?thesis using le' pool by (auto simp: word_le_nat_alt)
qed

text \<open>
  The gas of a whole transition: what is used is taken from the block's pool and nothing else, it
  is at most the limit of the message and at least half its intrinsic price.  A message that
  is refused leaves everything as it was; one that fails on its intrinsic gas or on the balance
  for its transfer keeps the gas it has bought out of the pool.
\<close>

definition transition_ok ::
  "'db VmEnv \<Rightarrow> 'db EVM \<Rightarrow> Message \<Rightarrow> GasPool \<Rightarrow>
    (bytes \<times> u64 \<times> bool \<times> tx_err option) \<times> 'db StateTransition \<Rightarrow> bool" where
  "transition_ok E evm msg gp = (\<lambda>((ret, used, failed, err), st).
    (case err of
       None \<Rightarrow> used \<le> msg_gasLimit msg \<and> unat (tr_gp st) + unat used = unat gp \<and>
         (\<exists>ig. IntrinsicGas (msg_data msg) (msg_to msg = None) (IsHomestead E) = Inr ig \<and>
           unat ig \<le> 2 * unat used)
     | Some (VmErr e) \<Rightarrow> unat (tr_gp st) + unat (msg_gasLimit msg) = unat gp
     | Some e \<Rightarrow> st = NewStateTransition evm msg gp))"

lemma fail_ok:
  "unat (tr_gp st) + unat (msg_gasLimit msg) = unat gp \<Longrightarrow>
    transition_ok E evm msg gp (([], 0, False, Some (VmErr e)), st)"
  by (simp add: transition_ok_def)

lemma settle_ok:
  assumes gp: "unat (tr_gp st) + unat (msg_gasLimit msg) = unat gp" and L: "tr_initialGas st = msg_gasLimit msg"
    and ig: "IntrinsicGas (msg_data msg) (msg_to msg = None) (IsHomestead E) = Inr ig"
    and gas: "unat (tr_gas st) + unat ig \<le> unat (msg_gasLimit msg)"
  shows "ends (transition_ok E evm msg gp) (settle E ((ret, vmerr), st))"
proof -
  let ?L = "msg_gasLimit msg"
  have "tr_gas st \<le> tr_initialGas st" using gas by (simp add: L word_le_nat_alt)
  moreover have "unat (tr_gp st) + unat (tr_initialGas st) < 2 ^ 64"
    using gp unsigned_less [of gp, where ?'a = nat] by (simp add: L)
  ultimately obtain g where g: "refundGas E st = Inr ((set_tr_db (db_AddBalance (env_db E) (tr_db st)
      (msg_from (tr_msg st)) (uint g * tr_gasPrice st)) st)\<lparr>tr_gas := g, tr_gp := tr_gp st + g\<rparr>)"
    "g \<le> ?L" "unat (tr_gp st + g) = unat (tr_gp st) + unat g"
    "unat ?L - unat (tr_gas st) \<le> 2 * (unat ?L - unat g)"
    using refundGas_ok [of st E] by (auto simp: L)
  have used: "unat (?L - g) = unat ?L - unat g" using g(2) by (simp add: unat_sub)
  have "unat ig \<le> 2 * unat (?L - g)" using g(4) gas unfolding used by linarith
  moreover have "?L - g \<le> ?L" "unat (tr_gp st + g) + unat (?L - g) = unat gp"
    using g(2,3) gp used by (simp_all add: word_le_nat_alt)
  ultimately show ?thesis
    using ig gp by (simp add: settle_def fail_ok g(1) L Let_def transition_ok_def set_tr_db_def tr_gasUsed_def)
qed

lemma TransitionDb_ok: "ends (transition_ok E evm msg gp) (TransitionDb E (NewStateTransition evm msg gp))"
proof -
  obtain refused st where p: "preCheck E (NewStateTransition evm msg gp) = (refused, st)" by fastforce
  show ?thesis
  proof (cases refused)
    case (Some e)
    have "transition_ok E evm msg gp (([], 0, False, Some e), NewStateTransition evm msg gp)"
      using preCheck_refused(2) [OF p [unfolded Some]] by (cases e) (auto simp: transition_ok_def)
    then show ?thesis using preCheck_refused(1) [OF p [unfolded Some]] p Some by (simp add: TransitionDb_def)
  next
    case None
    note b = preCheck_bought [OF p [unfolded None]]
    let ?L = "msg_gasLimit msg"
    have st: "tr_gas st = ?L" "tr_initialGas st = ?L" "tr_msg st = msg" "tr_data st = msg_data msg"
      and pool: "unat (tr_gp st) + unat ?L = unat gp"
      unfolding b(4) using b(1) by (simp_all add: NewStateTransition_def unat_sub word_le_nat_alt)
    show ?thesis
    proof (cases "IntrinsicGas (msg_data msg) (msg_to msg = None) (IsHomestead E)")
      case (Inl e)
      then show ?thesis using p None st pool by (simp add: TransitionDb_def fail_ok)
    next
      case (Inr ig)
      show ?thesis
      proof (cases "?L < ig")
        case True
        then show ?thesis using p None st pool Inr by (simp add: TransitionDb_def useGas_def fail_ok)
      next
        case False
        define st1 where "st1 = st\<lparr>tr_gas := ?L - ig\<rparr>"
        have use: "useGas ig st = (None, st1)" using False st by (simp add: useGas_def st1_def)
        have left: "unat (tr_gas st1) + unat ig = unat ?L"
          using False by (simp add: st1_def unat_sub not_less word_le_nat_alt)
        have "ends (\<lambda>x. ends (transition_ok E evm msg gp) (settle E x)) (execute_message E st1)"
          using execute_message_ok
          by (rule wp_mono) (use Inr left st pool in \<open>auto simp: same_deal_def st1_def word_le_nat_alt intro!: settle_ok\<close>)
        then show ?thesis using p None st Inr use by (simp add: TransitionDb_def)
      qed
    qed
  qed
qed

end
