(* ===== verification/State_DB.thy ===== *)
theory State_DB
  imports Evm_Frames
begin

text \<open>
  The state database of \<open>src/gttc/core/state\<close>: account objects (\<open>state_object.go\<close>), the journal of
  changes (\<open>journal.go\<close>) and \<open>StateDB\<close> with its snapshots (\<open>statedb.go\<close>), and that it provides the
  interface the virtual machine works on.

  The tries and the code store are read through the functions of a \<open>Database\<close> record; the accounts
  in the trie are a map that \<open>Finalise\<close> updates.  Errors of the database are not modelled, and
  a getter returns no new state: the object and the storage it would cache are those that the
  trie has.  Objects are pointers in the code, but an object is reachable under its own address
  or from the journal only, and never changes while it is in the journal.
\<close>

section \<open>Data\<close>

record Account =
  acc_Nonce :: u64
  acc_Balance :: int
  acc_Root :: hash
  acc_CodeHash :: bytes

record stateObject =
  so_address :: address
  so_data :: Account
  so_code :: "bytes option"
  so_cachedStorage :: "(hash, hash) gomap"
  so_dirtyStorage :: "(hash, hash) gomap"
  so_dirtyCode :: bool
  so_suicided :: bool
  so_deleted :: bool

text \<open>
  What lies below: the hash, the storage tries (by root), the code store, and the root of a storage
  trie after writes, and the root of the trie of accounts.
\<close>

record Database =
  dbs_Keccak256Hash :: "bytes \<Rightarrow> hash"
  dbs_storage :: "address \<Rightarrow> hash \<Rightarrow> hash \<Rightarrow> hash"
  dbs_ContractCode :: "hash \<Rightarrow> bytes"
  dbs_updateRoot :: "address \<Rightarrow> hash \<Rightarrow> (hash, hash) gomap \<Rightarrow> hash"
  dbs_trieHash :: "(address \<Rightarrow> Account option) \<Rightarrow> hash"

datatype journalEntry =
  createObjectChange address
| resetObjectChange stateObject
| suicideChange address bool int
| balanceChange address int
| nonceChange address u64
| storageChange address hash hash
| codeChange address "bytes option" bytes
| refundChange u64
| addLogChange hash
| addPreimageChange hash
| touchChange address

text \<open>A log with the fields \<open>AddLog\<close> fills in.\<close>

record TxLog = Log +
  log_TxHash :: hash
  log_BlockHash :: hash
  log_TxIndex :: nat
  log_Index :: nat

record statedb =
  st_trie :: "address \<Rightarrow> Account option"
  st_stateObjects :: "(address, stateObject) gomap"
  st_stateObjectsDirty :: "(address, unit) gomap"
  st_refund :: u64
  st_thash :: hash
  st_bhash :: hash
  st_txIndex :: nat
  st_logs :: "(hash, TxLog list) gomap"
  st_logSize :: nat
  st_preimages :: "(hash, bytes) gomap"
  st_entries :: "journalEntry list"
  st_dirties :: "(address, int) gomap"
  st_validRevisions :: "(nat \<times> nat) list"
  st_nextRevisionId :: nat

section \<open>The journal\<close>

fun dirtied :: "journalEntry \<Rightarrow> address option" where
  "dirtied (createObjectChange a) = Some a"
| "dirtied (resetObjectChange prev) = None"
| "dirtied (suicideChange a prev prevbalance) = Some a"
| "dirtied (balanceChange a prev) = Some a"
| "dirtied (nonceChange a prev) = Some a"
| "dirtied (storageChange a key prevalue) = Some a"
| "dirtied (codeChange a prevcode prevhash) = Some a"
| "dirtied (refundChange prev) = None"
| "dirtied (addLogChange txhash) = None"
| "dirtied (addPreimageChange hash) = None"
| "dirtied (touchChange a) = Some a"

definition dirty_count :: "statedb \<Rightarrow> address \<Rightarrow> int" where
  "dirty_count st a = (case mget (st_dirties st) a of Some n \<Rightarrow> n | None \<Rightarrow> 0)"

definition journal_dirty :: "address \<Rightarrow> statedb \<Rightarrow> statedb" where
  "journal_dirty a st = st\<lparr>st_dirties := mput a (dirty_count st a + 1) (st_dirties st)\<rparr>"

definition journal_append :: "journalEntry \<Rightarrow> statedb \<Rightarrow> statedb" where
  "journal_append entry st =
    (let st1 = st\<lparr>st_entries := st_entries st @ [entry]\<rparr> in
     case dirtied entry of None \<Rightarrow> st1 | Some a \<Rightarrow> journal_dirty a st1)"

section \<open>Account objects\<close>

definition emptyCodeHash :: "Database \<Rightarrow> bytes" where
  "emptyCodeHash B = Hash_Bytes (dbs_Keccak256Hash B [])"

definition newObject :: "Database \<Rightarrow> address \<Rightarrow> Account \<Rightarrow> stateObject" where
  "newObject B addr data =
    \<lparr>so_address = addr,
     so_data = (if acc_CodeHash data = [] then data\<lparr>acc_CodeHash := emptyCodeHash B\<rparr> else data),
     so_code = None, so_cachedStorage = [], so_dirtyStorage = [], so_dirtyCode = False,
     so_suicided = False, so_deleted = False\<rparr>"

definition new_Account :: Account where
  "new_Account = \<lparr>acc_Nonce = 0, acc_Balance = 0, acc_Root = 0, acc_CodeHash = []\<rparr>"

definition stateObject_empty :: "Database \<Rightarrow> stateObject \<Rightarrow> bool" where
  "stateObject_empty B o' \<longleftrightarrow> acc_Nonce (so_data o') = 0 \<and> sgn (acc_Balance (so_data o')) = 0 \<and>
    acc_CodeHash (so_data o') = emptyCodeHash B"

definition markSuicided :: "stateObject \<Rightarrow> stateObject" where
  "markSuicided o' = o'\<lparr>so_suicided := True\<rparr>"

definition stateObject_GetState :: "Database \<Rightarrow> stateObject \<Rightarrow> hash \<Rightarrow> hash" where
  "stateObject_GetState B o' key =
    (case mget (so_cachedStorage o') key of
       Some value \<Rightarrow> value
     | None \<Rightarrow> dbs_storage B (so_address o') (acc_Root (so_data o')) key)"

definition stateObject_Code :: "Database \<Rightarrow> stateObject \<Rightarrow> bytes option" where
  "stateObject_Code B o' =
    (case so_code o' of
       Some c \<Rightarrow> Some c
     | None \<Rightarrow>
         if acc_CodeHash (so_data o') = emptyCodeHash B then None
         else Some (dbs_ContractCode B (BytesToHash (acc_CodeHash (so_data o')))))"

definition stateObject_setBalance :: "int \<Rightarrow> stateObject \<Rightarrow> stateObject" where
  "stateObject_setBalance amount o' = o'\<lparr>so_data := (so_data o')\<lparr>acc_Balance := amount\<rparr>\<rparr>"

definition stateObject_setNonce :: "u64 \<Rightarrow> stateObject \<Rightarrow> stateObject" where
  "stateObject_setNonce nonce o' = o'\<lparr>so_data := (so_data o')\<lparr>acc_Nonce := nonce\<rparr>\<rparr>"

definition stateObject_setCode :: "hash \<Rightarrow> bytes option \<Rightarrow> stateObject \<Rightarrow> stateObject" where
  "stateObject_setCode codeHash code o' =
    o'\<lparr>so_code := code, so_data := (so_data o')\<lparr>acc_CodeHash := Hash_Bytes codeHash\<rparr>, so_dirtyCode := True\<rparr>"

definition stateObject_setState :: "hash \<Rightarrow> hash \<Rightarrow> stateObject \<Rightarrow> stateObject" where
  "stateObject_setState key val o' =
    o'\<lparr>so_cachedStorage := mput key val (so_cachedStorage o'),
       so_dirtyStorage := mput key val (so_dirtyStorage o')\<rparr>"

section \<open>Finding objects\<close>

definition setStateObject :: "stateObject \<Rightarrow> statedb \<Rightarrow> statedb" where
  "setStateObject o' st = st\<lparr>st_stateObjects := mput (so_address o') o' (st_stateObjects st)\<rparr>"

definition getStateObject :: "Database \<Rightarrow> address \<Rightarrow> statedb \<Rightarrow> stateObject option \<times> statedb" where
  "getStateObject B addr st =
    (case mget (st_stateObjects st) addr of
       Some obj \<Rightarrow> (if so_deleted obj then (None, st) else (Some obj, st))
     | None \<Rightarrow>
         (case st_trie st addr of
            None \<Rightarrow> (None, st)
          | Some data \<Rightarrow> (let obj = newObject B addr data in (Some obj, setStateObject obj st))))"

definition createObject :: "Database \<Rightarrow> address \<Rightarrow> statedb \<Rightarrow> (stateObject \<times> stateObject option) \<times> statedb" where
  "createObject B addr st =
    (let (prev, st1) = getStateObject B addr st;
         newobj = stateObject_setNonce 0 (newObject B addr new_Account);
         st2 = (case prev of
                  None \<Rightarrow> journal_append (createObjectChange addr) st1
                | Some p \<Rightarrow> journal_append (resetObjectChange p) st1)
     in ((newobj, prev), setStateObject newobj st2))"

definition GetOrNewStateObject :: "Database \<Rightarrow> address \<Rightarrow> statedb \<Rightarrow> stateObject \<times> statedb" where
  "GetOrNewStateObject B addr st =
    (case getStateObject B addr st of
       (Some obj, st1) \<Rightarrow>
         (if so_deleted obj then (let ((newobj, prev), st2) = createObject B addr st1 in (newobj, st2))
          else (obj, st1))
     | (None, st1) \<Rightarrow> (let ((newobj, prev), st2) = createObject B addr st1 in (newobj, st2)))"

definition CreateAccount :: "Database \<Rightarrow> statedb \<Rightarrow> address \<Rightarrow> statedb" where
  "CreateAccount B st addr =
    (let ((newobj, prev), st1) = createObject B addr st in
     case prev of
       None \<Rightarrow> st1
     | Some p \<Rightarrow> setStateObject (stateObject_setBalance (acc_Balance (so_data p)) newobj) st1)"

section \<open>Changing objects\<close>

definition ripemd :: address where
  "ripemd = 3"

definition stateObject_touch :: "stateObject \<Rightarrow> statedb \<Rightarrow> statedb" where
  "stateObject_touch o' st =
    (let st1 = journal_append (touchChange (so_address o')) st in
     if so_address o' = ripemd then journal_dirty (so_address o') st1 else st1)"

definition stateObject_SetBalance :: "int \<Rightarrow> stateObject \<Rightarrow> statedb \<Rightarrow> statedb" where
  "stateObject_SetBalance amount o' st =
    setStateObject (stateObject_setBalance amount o')
      (journal_append (balanceChange (so_address o') (acc_Balance (so_data o'))) st)"

definition stateObject_AddBalance :: "Database \<Rightarrow> int \<Rightarrow> stateObject \<Rightarrow> statedb \<Rightarrow> statedb" where
  "stateObject_AddBalance B amount o' st =
    (if sgn amount = 0 then (if stateObject_empty B o' then stateObject_touch o' st else st)
     else stateObject_SetBalance (acc_Balance (so_data o') + amount) o' st)"

definition stateObject_SubBalance :: "int \<Rightarrow> stateObject \<Rightarrow> statedb \<Rightarrow> statedb" where
  "stateObject_SubBalance amount o' st =
    (if sgn amount = 0 then st
     else stateObject_SetBalance (acc_Balance (so_data o') - amount) o' st)"

definition stateObject_SetNonce :: "u64 \<Rightarrow> stateObject \<Rightarrow> statedb \<Rightarrow> statedb" where
  "stateObject_SetNonce nonce o' st =
    setStateObject (stateObject_setNonce nonce o')
      (journal_append (nonceChange (so_address o') (acc_Nonce (so_data o'))) st)"

definition stateObject_SetCode :: "Database \<Rightarrow> hash \<Rightarrow> bytes \<Rightarrow> stateObject \<Rightarrow> statedb \<Rightarrow> statedb" where
  "stateObject_SetCode B codeHash code o' st =
    setStateObject (stateObject_setCode codeHash (Some code) o')
      (journal_append (codeChange (so_address o') (stateObject_Code B o') (acc_CodeHash (so_data o'))) st)"

definition stateObject_SetState :: "Database \<Rightarrow> hash \<Rightarrow> hash \<Rightarrow> stateObject \<Rightarrow> statedb \<Rightarrow> statedb" where
  "stateObject_SetState B key val o' st =
    setStateObject (stateObject_setState key val o')
      (journal_append (storageChange (so_address o') key (stateObject_GetState B o' key)) st)"

text \<open>The setters of \<open>StateDB\<close> go through \<open>GetOrNewStateObject\<close>.\<close>

definition on_object ::
  "Database \<Rightarrow> statedb \<Rightarrow> address \<Rightarrow> (stateObject \<Rightarrow> statedb \<Rightarrow> statedb) \<Rightarrow> statedb" where
  "on_object B st addr f = (let (o', st1) = GetOrNewStateObject B addr st in f o' st1)"

definition StateDB_AddBalance :: "Database \<Rightarrow> statedb \<Rightarrow> address \<Rightarrow> int \<Rightarrow> statedb" where
  "StateDB_AddBalance B st addr amount = on_object B st addr (stateObject_AddBalance B amount)"

definition StateDB_SubBalance :: "Database \<Rightarrow> statedb \<Rightarrow> address \<Rightarrow> int \<Rightarrow> statedb" where
  "StateDB_SubBalance B st addr amount = on_object B st addr (stateObject_SubBalance amount)"

definition StateDB_SetBalance :: "Database \<Rightarrow> statedb \<Rightarrow> address \<Rightarrow> int \<Rightarrow> statedb" where
  "StateDB_SetBalance B st addr amount = on_object B st addr (stateObject_SetBalance amount)"

definition StateDB_SetNonce :: "Database \<Rightarrow> statedb \<Rightarrow> address \<Rightarrow> u64 \<Rightarrow> statedb" where
  "StateDB_SetNonce B st addr nonce = on_object B st addr (stateObject_SetNonce nonce)"

definition StateDB_SetCode :: "Database \<Rightarrow> statedb \<Rightarrow> address \<Rightarrow> bytes \<Rightarrow> statedb" where
  "StateDB_SetCode B st addr code =
    on_object B st addr (stateObject_SetCode B (dbs_Keccak256Hash B code) code)"

definition StateDB_SetState :: "Database \<Rightarrow> statedb \<Rightarrow> address \<Rightarrow> hash \<Rightarrow> hash \<Rightarrow> statedb" where
  "StateDB_SetState B st addr key val = on_object B st addr (stateObject_SetState B key val)"

definition StateDB_Suicide :: "Database \<Rightarrow> statedb \<Rightarrow> address \<Rightarrow> bool \<times> statedb" where
  "StateDB_Suicide B st addr =
    (case getStateObject B addr st of
       (None, st1) \<Rightarrow> (False, st1)
     | (Some o', st1) \<Rightarrow>
         (True, setStateObject (stateObject_setBalance 0 (markSuicided o'))
            (journal_append (suicideChange addr (so_suicided o') (acc_Balance (so_data o'))) st1)))"

section \<open>Reading\<close>

definition live_object :: "Database \<Rightarrow> statedb \<Rightarrow> address \<Rightarrow> stateObject option" where
  "live_object B st addr = fst (getStateObject B addr st)"

definition StateDB_Exist :: "Database \<Rightarrow> statedb \<Rightarrow> address \<Rightarrow> bool" where
  "StateDB_Exist B st addr \<longleftrightarrow> live_object B st addr \<noteq> None"

definition StateDB_Empty :: "Database \<Rightarrow> statedb \<Rightarrow> address \<Rightarrow> bool" where
  "StateDB_Empty B st addr \<longleftrightarrow>
    (case live_object B st addr of None \<Rightarrow> True | Some o' \<Rightarrow> stateObject_empty B o')"

definition StateDB_GetBalance :: "Database \<Rightarrow> statedb \<Rightarrow> address \<Rightarrow> int" where
  "StateDB_GetBalance B st addr =
    (case live_object B st addr of None \<Rightarrow> 0 | Some o' \<Rightarrow> acc_Balance (so_data o'))"

definition StateDB_GetNonce :: "Database \<Rightarrow> statedb \<Rightarrow> address \<Rightarrow> u64" where
  "StateDB_GetNonce B st addr =
    (case live_object B st addr of None \<Rightarrow> 0 | Some o' \<Rightarrow> acc_Nonce (so_data o'))"

definition StateDB_GetCode :: "Database \<Rightarrow> statedb \<Rightarrow> address \<Rightarrow> bytes" where
  "StateDB_GetCode B st addr =
    (case live_object B st addr of
       None \<Rightarrow> []
     | Some o' \<Rightarrow> (case stateObject_Code B o' of None \<Rightarrow> [] | Some c \<Rightarrow> c))"

definition StateDB_GetCodeSize :: "Database \<Rightarrow> statedb \<Rightarrow> address \<Rightarrow> nat" where
  "StateDB_GetCodeSize B st addr =
    (case live_object B st addr of
       None \<Rightarrow> 0
     | Some o' \<Rightarrow>
         (case so_code o' of
            Some c \<Rightarrow> length c
          | None \<Rightarrow> length (dbs_ContractCode B (BytesToHash (acc_CodeHash (so_data o'))))))"

definition StateDB_GetCodeHash :: "Database \<Rightarrow> statedb \<Rightarrow> address \<Rightarrow> hash" where
  "StateDB_GetCodeHash B st addr =
    (case live_object B st addr of None \<Rightarrow> 0 | Some o' \<Rightarrow> BytesToHash (acc_CodeHash (so_data o')))"

definition StateDB_GetState :: "Database \<Rightarrow> statedb \<Rightarrow> address \<Rightarrow> hash \<Rightarrow> hash" where
  "StateDB_GetState B st addr key =
    (case live_object B st addr of None \<Rightarrow> 0 | Some o' \<Rightarrow> stateObject_GetState B o' key)"

definition StateDB_HasSuicided :: "Database \<Rightarrow> statedb \<Rightarrow> address \<Rightarrow> bool" where
  "StateDB_HasSuicided B st addr =
    (case live_object B st addr of None \<Rightarrow> False | Some o' \<Rightarrow> so_suicided o')"

section \<open>Logs, preimages, refunds\<close>

definition logs_of :: "statedb \<Rightarrow> hash \<Rightarrow> TxLog list" where
  "logs_of st h = (case mget (st_logs st) h of Some l \<Rightarrow> l | None \<Rightarrow> [])"

definition StateDB_AddLog :: "statedb \<Rightarrow> Log \<Rightarrow> statedb" where
  "StateDB_AddLog st lg =
    (let st1 = journal_append (addLogChange (st_thash st)) st;
         l = Log.extend lg \<lparr>log_TxHash = st_thash st, log_BlockHash = st_bhash st,
               log_TxIndex = st_txIndex st, log_Index = st_logSize st\<rparr>
     in st1\<lparr>st_logs := mput (st_thash st) (logs_of st (st_thash st) @ [l]) (st_logs st1),
            st_logSize := st_logSize st1 + 1\<rparr>)"

definition StateDB_AddPreimage :: "statedb \<Rightarrow> hash \<Rightarrow> bytes \<Rightarrow> statedb" where
  "StateDB_AddPreimage st hash preimage =
    (if mhas (st_preimages st) hash then st
     else
       (let st1 = journal_append (addPreimageChange hash) st in
        st1\<lparr>st_preimages := mput hash preimage (st_preimages st1)\<rparr>))"

definition StateDB_AddRefund :: "statedb \<Rightarrow> u64 \<Rightarrow> statedb" where
  "StateDB_AddRefund st gas =
    (let st1 = journal_append (refundChange (st_refund st)) st in st1\<lparr>st_refund := st_refund st1 + gas\<rparr>)"

section \<open>Undoing\<close>

definition StateDB_GetRefund :: "statedb \<Rightarrow> u64" where
  "StateDB_GetRefund st = st_refund st"

text \<open>\<open>s.getStateObject(*ch.account).f(..)\<close> dereferences nil when there is no such object.\<close>

definition at_object :: "Database \<Rightarrow> statedb \<Rightarrow> address \<Rightarrow> (stateObject \<Rightarrow> stateObject) \<Rightarrow> statedb option" where
  "at_object B st addr f =
    (case getStateObject B addr st of
       (None, st1) \<Rightarrow> None
     | (Some o', st1) \<Rightarrow> Some (setStateObject (f o') st1))"

fun revert_entry :: "Database \<Rightarrow> journalEntry \<Rightarrow> statedb \<Rightarrow> statedb option" where
  "revert_entry B (createObjectChange a) st =
    Some (st\<lparr>st_stateObjects := mdel a (st_stateObjects st),
             st_stateObjectsDirty := mdel a (st_stateObjectsDirty st)\<rparr>)"
| "revert_entry B (resetObjectChange prev) st = Some (setStateObject prev st)"
| "revert_entry B (suicideChange a prev prevbalance) st =
    (case getStateObject B a st of
       (None, st1) \<Rightarrow> Some st1
     | (Some obj, st1) \<Rightarrow>
         Some (setStateObject (stateObject_setBalance prevbalance (obj\<lparr>so_suicided := prev\<rparr>)) st1))"
| "revert_entry B (touchChange a) st = Some st"
| "revert_entry B (balanceChange a prev) st = at_object B st a (stateObject_setBalance prev)"
| "revert_entry B (nonceChange a prev) st = at_object B st a (stateObject_setNonce prev)"
| "revert_entry B (codeChange a prevcode prevhash) st =
    at_object B st a (stateObject_setCode (BytesToHash prevhash) prevcode)"
| "revert_entry B (storageChange a key prevalue) st = at_object B st a (stateObject_setState key prevalue)"
| "revert_entry B (refundChange prev) st = Some (st\<lparr>st_refund := prev\<rparr>)"
| "revert_entry B (addLogChange txhash) st =
    (let logs = logs_of st txhash in
     if length logs = 1
     then Some (st\<lparr>st_logs := mdel txhash (st_logs st), st_logSize := st_logSize st - 1\<rparr>)
     else if logs = [] then None
     else Some (st\<lparr>st_logs := mput txhash (butlast logs) (st_logs st), st_logSize := st_logSize st - 1\<rparr>))"
| "revert_entry B (addPreimageChange hash) st = Some (st\<lparr>st_preimages := mdel hash (st_preimages st)\<rparr>)"

definition journal_undirty :: "address \<Rightarrow> statedb \<Rightarrow> statedb" where
  "journal_undirty a st =
    (let n = dirty_count st a - 1 in
     if n = 0 then st\<lparr>st_dirties := mdel a (st_dirties st)\<rparr>
     else st\<lparr>st_dirties := mput a n (st_dirties st)\<rparr>)"

text \<open>The loop over the entries, the newest first.\<close>

fun journal_revert_loop :: "Database \<Rightarrow> journalEntry list \<Rightarrow> statedb \<Rightarrow> statedb option" where
  "journal_revert_loop B [] st = Some st"
| "journal_revert_loop B (entry # es) st =
    (case revert_entry B entry st of
       None \<Rightarrow> None
     | Some st1 \<Rightarrow>
         journal_revert_loop B es
           (case dirtied entry of None \<Rightarrow> st1 | Some a \<Rightarrow> journal_undirty a st1))"

definition journal_revert :: "Database \<Rightarrow> nat \<Rightarrow> statedb \<Rightarrow> statedb option" where
  "journal_revert B snapshot st =
    (case journal_revert_loop B (rev (drop snapshot (st_entries st))) st of
       None \<Rightarrow> None
     | Some st1 \<Rightarrow> Some (st1\<lparr>st_entries := take snapshot (st_entries st1)\<rparr>))"

section \<open>Snapshots\<close>

definition StateDB_Snapshot :: "statedb \<Rightarrow> nat \<times> statedb" where
  "StateDB_Snapshot st =
    (let id = st_nextRevisionId st in
     (id, st\<lparr>st_nextRevisionId := id + 1,
             st_validRevisions := st_validRevisions st @ [(id, length (st_entries st))]\<rparr>))"

text \<open>\<open>sort.Search\<close> on \<open>[i, j)\<close>.\<close>

function sort_Search :: "(nat \<Rightarrow> bool) \<Rightarrow> nat \<Rightarrow> nat \<Rightarrow> nat" where
  "sort_Search f i j =
    (if i < j then
       (let h = (i + j) div 2 in if \<not> f h then sort_Search f (h + 1) j else sort_Search f i h)
     else i)"
  by pat_completeness auto

termination
  by (relation "measure (\<lambda>(f, i, j). j - i)") auto

declare sort_Search.simps [simp del]

definition StateDB_RevertToSnapshot :: "Database \<Rightarrow> statedb \<Rightarrow> nat \<Rightarrow> statedb option" where
  "StateDB_RevertToSnapshot B st revid =
    (let revs = st_validRevisions st;
         idx = sort_Search (\<lambda>i. revid \<le> fst (revs ! i)) 0 (length revs)
     in if idx = length revs \<or> fst (revs ! idx) \<noteq> revid then None
        else
          (case journal_revert B (snd (revs ! idx)) st of
             None \<Rightarrow> None
           | Some st1 \<Rightarrow> Some (st1\<lparr>st_validRevisions := take idx (st_validRevisions st1)\<rparr>)))"

section \<open>Between transactions\<close>

definition StateDB_New :: "(address \<Rightarrow> Account option) \<Rightarrow> statedb" where
  "StateDB_New tr =
    \<lparr>st_trie = tr, st_stateObjects = [], st_stateObjectsDirty = [], st_refund = 0, st_thash = 0,
     st_bhash = 0, st_txIndex = 0, st_logs = [], st_logSize = 0, st_preimages = [], st_entries = [],
     st_dirties = [], st_validRevisions = [], st_nextRevisionId = 0\<rparr>"

definition StateDB_Prepare :: "hash \<Rightarrow> hash \<Rightarrow> nat \<Rightarrow> statedb \<Rightarrow> statedb" where
  "StateDB_Prepare thash bhash ti st = st\<lparr>st_thash := thash, st_bhash := bhash, st_txIndex := ti\<rparr>"

definition clearJournalAndRefund :: "statedb \<Rightarrow> statedb" where
  "clearJournalAndRefund st =
    st\<lparr>st_entries := [], st_dirties := [], st_validRevisions := [], st_refund := 0\<rparr>"

definition StateDB_Reset :: "(address \<Rightarrow> Account option) \<Rightarrow> statedb \<Rightarrow> statedb" where
  "StateDB_Reset tr st =
    clearJournalAndRefund
      (st\<lparr>st_trie := tr, st_stateObjects := [], st_stateObjectsDirty := [], st_thash := 0,
          st_bhash := 0, st_txIndex := 0, st_logs := [], st_logSize := 0, st_preimages := []\<rparr>)"

definition deleteStateObject :: "stateObject \<Rightarrow> statedb \<Rightarrow> statedb" where
  "deleteStateObject o' st =
    (let st1 = setStateObject (o'\<lparr>so_deleted := True\<rparr>) st in
     st1\<lparr>st_trie := (st_trie st1)(so_address o' := None)\<rparr>)"

definition updateStateObject :: "stateObject \<Rightarrow> statedb \<Rightarrow> statedb" where
  "updateStateObject o' st = st\<lparr>st_trie := (st_trie st)(so_address o' := Some (so_data o'))\<rparr>"

definition updateRoot :: "Database \<Rightarrow> stateObject \<Rightarrow> stateObject" where
  "updateRoot B o' =
    o'\<lparr>so_dirtyStorage := [],
       so_data := (so_data o')\<lparr>acc_Root :=
         dbs_updateRoot B (so_address o') (acc_Root (so_data o')) (so_dirtyStorage o')\<rparr>\<rparr>"

definition finalise_address :: "Database \<Rightarrow> bool \<Rightarrow> statedb \<Rightarrow> address \<Rightarrow> statedb" where
  "finalise_address B deleteEmptyObjects st addr =
    (case mget (st_stateObjects st) addr of
       None \<Rightarrow> st
     | Some o' \<Rightarrow>
         (let st1 =
            (if so_suicided o' \<or> deleteEmptyObjects \<and> stateObject_empty B o' then deleteStateObject o' st
             else (let o1 = updateRoot B o' in updateStateObject o1 (setStateObject o1 st)))
          in st1\<lparr>st_stateObjectsDirty := mput addr () (st_stateObjectsDirty st1)\<rparr>))"

definition StateDB_Finalise :: "Database \<Rightarrow> bool \<Rightarrow> statedb \<Rightarrow> statedb" where
  "StateDB_Finalise B deleteEmptyObjects st =
    clearJournalAndRefund (foldl (finalise_address B deleteEmptyObjects) st (mkeys (st_dirties st)))"

definition StateDB_IntermediateRoot :: "Database \<Rightarrow> bool \<Rightarrow> statedb \<Rightarrow> hash \<times> statedb" where
  "StateDB_IntermediateRoot B deleteEmptyObjects st =
    (let st1 = StateDB_Finalise B deleteEmptyObjects st in (dbs_trieHash B (st_trie st1), st1))"

section \<open>Copies\<close>

definition deepCopy :: "Database \<Rightarrow> stateObject \<Rightarrow> stateObject" where
  "deepCopy B o' =
    (newObject B (so_address o') (so_data o'))
      \<lparr>so_code := so_code o', so_dirtyStorage := so_dirtyStorage o',
       so_cachedStorage := so_dirtyStorage o', so_suicided := so_suicided o',
       so_dirtyCode := so_dirtyCode o', so_deleted := so_deleted o'\<rparr>"

definition copy_object :: "Database \<Rightarrow> statedb \<Rightarrow> statedb \<Rightarrow> address \<Rightarrow> statedb" where
  "copy_object B st state addr =
    (case mget (st_stateObjects st) addr of
       None \<Rightarrow> state
     | Some o' \<Rightarrow>
         state\<lparr>st_stateObjects := mput addr (deepCopy B o') (st_stateObjects state),
               st_stateObjectsDirty := mput addr () (st_stateObjectsDirty state)\<rparr>)"

text \<open>
  The second loop of \<open>Copy\<close> dereferences the object of every address in \<open>stateObjectsDirty\<close>.
\<close>

fun copy_dirty :: "Database \<Rightarrow> statedb \<Rightarrow> statedb \<Rightarrow> address list \<Rightarrow> statedb option" where
  "copy_dirty B st state [] = Some state"
| "copy_dirty B st state (addr # as) =
    (if mhas (st_stateObjects state) addr then copy_dirty B st state as
     else if mget (st_stateObjects st) addr = None then None
     else copy_dirty B st (copy_object B st state addr) as)"

definition StateDB_Copy :: "Database \<Rightarrow> statedb \<Rightarrow> statedb option" where
  "StateDB_Copy B st =
    (let state0 = (StateDB_New (st_trie st))\<lparr>st_refund := st_refund st, st_logSize := st_logSize st\<rparr>;
         state1 = foldl (copy_object B st) state0 (mkeys (st_dirties st))
     in case copy_dirty B st state1 (mkeys (st_stateObjectsDirty st)) of
          None \<Rightarrow> None
        | Some state2 \<Rightarrow> Some (state2\<lparr>st_logs := st_logs st, st_preimages := st_preimages st\<rparr>))"

section \<open>The interface of the virtual machine\<close>

definition state_db :: "Database \<Rightarrow> statedb StateDB" where
  "state_db B =
    \<lparr>db_CreateAccount = CreateAccount B, db_SubBalance = StateDB_SubBalance B,
     db_AddBalance = StateDB_AddBalance B, db_GetBalance = StateDB_GetBalance B,
     db_GetNonce = StateDB_GetNonce B, db_SetNonce = StateDB_SetNonce B,
     db_GetCodeHash = StateDB_GetCodeHash B, db_GetCode = StateDB_GetCode B,
     db_SetCode = StateDB_SetCode B, db_GetCodeSize = StateDB_GetCodeSize B,
     db_AddRefund = StateDB_AddRefund, db_GetRefund = StateDB_GetRefund, db_GetState = StateDB_GetState B,
     db_SetState = StateDB_SetState B, db_Suicide = (\<lambda>st addr. snd (StateDB_Suicide B st addr)),
     db_HasSuicided = StateDB_HasSuicided B, db_Exist = StateDB_Exist B, db_Empty = StateDB_Empty B,
     db_Snapshot = StateDB_Snapshot, db_RevertToSnapshot = StateDB_RevertToSnapshot B,
     db_AddLog = StateDB_AddLog, db_AddPreimage = StateDB_AddPreimage\<rparr>"

end
