(* ===== verification/State_Journal.thy ===== *)
theory State_Journal
  imports State_DB
begin

text \<open>
  Snapshots of the state database undo what happened since they were taken.  The abstract state
  is what the getters show (\<open>world\<close>); every entry of the journal undoes one change of it (\<open>undo\<close>), and
  \<open>revert_entry\<close> refines that.  Every operation of \<open>StateDB\<close> appends entries that undo exactly what it
  did, so a snapshot keeps pointing to the world it was taken of (\<open>marks\<close>).
\<close>

section \<open>What the getters show\<close>

record account_view =
  av_Nonce :: u64
  av_Balance :: int
  av_Root :: hash
  av_CodeHash :: bytes
  av_Code :: bytes
  av_Storage :: "hash \<Rightarrow> hash"
  av_suicided :: bool

record world =
  w_accounts :: "address \<Rightarrow> account_view option"
  w_trie :: "address \<Rightarrow> Account option"
  w_refund :: u64
  w_tx :: "hash \<times> hash \<times> nat"
  w_logs :: "hash \<Rightarrow> TxLog list"
  w_logSize :: nat
  w_preimages :: "hash \<Rightarrow> bytes option"

definition code_of :: "Database \<Rightarrow> bytes option \<Rightarrow> bytes \<Rightarrow> bytes" where
  "code_of B code codeHash =
    (case code of
       Some c \<Rightarrow> c
     | None \<Rightarrow> if codeHash = emptyCodeHash B then [] else dbs_ContractCode B (BytesToHash codeHash))"

definition view_object :: "Database \<Rightarrow> stateObject \<Rightarrow> account_view" where
  "view_object B o' =
    \<lparr>av_Nonce = acc_Nonce (so_data o'), av_Balance = acc_Balance (so_data o'), av_Root = acc_Root (so_data o'),
     av_CodeHash = acc_CodeHash (so_data o'), av_Code = code_of B (so_code o') (acc_CodeHash (so_data o')),
     av_Storage = stateObject_GetState B o', av_suicided = so_suicided o'\<rparr>"

definition world_of :: "Database \<Rightarrow> statedb \<Rightarrow> world" where
  "world_of B st =
    \<lparr>w_accounts = (\<lambda>a. map_option (view_object B) (live_object B st a)), w_trie = st_trie st,
     w_refund = st_refund st, w_tx = (st_thash st, st_bhash st, st_txIndex st), w_logs = logs_of st,
     w_logSize = st_logSize st, w_preimages = mget (st_preimages st)\<rparr>"

section \<open>Undoing a change of the world\<close>

definition at_account ::
  "world \<Rightarrow> address \<Rightarrow> (account_view \<Rightarrow> account_view) \<Rightarrow> world option" where
  "at_account w a f =
    (case w_accounts w a of
       None \<Rightarrow> None
     | Some v \<Rightarrow> Some (w\<lparr>w_accounts := (w_accounts w)(a \<mapsto> f v)\<rparr>))"

fun undo :: "Database \<Rightarrow> journalEntry \<Rightarrow> world \<Rightarrow> world option" where
  "undo B (createObjectChange a) w =
    Some (w\<lparr>w_accounts := (w_accounts w)
      (a := map_option (\<lambda>d. view_object B (newObject B a d)) (w_trie w a))\<rparr>)"
| "undo B (resetObjectChange prev) w =
    Some (w\<lparr>w_accounts := (w_accounts w)(so_address prev \<mapsto> view_object B prev)\<rparr>)"
| "undo B (suicideChange a prev prevbalance) w =
    (if w_accounts w a = None then Some w
     else at_account w a (\<lambda>v. v\<lparr>av_suicided := prev, av_Balance := prevbalance\<rparr>))"
| "undo B (touchChange a) w = Some w"
| "undo B (balanceChange a prev) w = at_account w a (\<lambda>v. v\<lparr>av_Balance := prev\<rparr>)"
| "undo B (nonceChange a prev) w = at_account w a (\<lambda>v. v\<lparr>av_Nonce := prev\<rparr>)"
| "undo B (codeChange a prevcode prevhash) w =
    at_account w a (\<lambda>v. v\<lparr>av_CodeHash := Hash_Bytes (BytesToHash prevhash),
      av_Code := code_of B prevcode (Hash_Bytes (BytesToHash prevhash))\<rparr>)"
| "undo B (storageChange a key prevalue) w =
    at_account w a (\<lambda>v. v\<lparr>av_Storage := (av_Storage v)(key := prevalue)\<rparr>)"
| "undo B (refundChange prev) w = Some (w\<lparr>w_refund := prev\<rparr>)"
| "undo B (addLogChange txhash) w =
    (if w_logs w txhash = [] then None
     else Some (w\<lparr>w_logs := (w_logs w)(txhash := butlast (w_logs w txhash)), w_logSize := w_logSize w - 1\<rparr>))"
| "undo B (addPreimageChange hash) w = Some (w\<lparr>w_preimages := (w_preimages w)(hash := None)\<rparr>)"

fun undo_all :: "Database \<Rightarrow> journalEntry list \<Rightarrow> world \<Rightarrow> world option" where
  "undo_all B [] w = Some w"
| "undo_all B (e # es) w = (case undo B e w of None \<Rightarrow> None | Some w1 \<Rightarrow> undo_all B es w1)"

lemma undo_all_append:
  "undo_all B (es @ fs) w = (case undo_all B es w of None \<Rightarrow> None | Some w1 \<Rightarrow> undo_all B fs w1)"
  by (induction es arbitrary: w) (auto split: option.splits)

section \<open>Well-formed states\<close>

definition account_ok :: "Account \<Rightarrow> bool" where
  "account_ok d \<longleftrightarrow> length (acc_CodeHash d) = 32"

definition entry_ok :: "journalEntry \<Rightarrow> bool" where
  "entry_ok e \<longleftrightarrow> (\<forall>prev. e = resetObjectChange prev \<longrightarrow> \<not> so_deleted prev \<and> account_ok (so_data prev))"

definition objects_ok :: "statedb \<Rightarrow> bool" where
  "objects_ok st \<longleftrightarrow>
    (\<forall>a o'. mget (st_stateObjects st) a = Some o' \<longrightarrow> so_address o' = a \<and> account_ok (so_data o') \<and>
      (so_deleted o' \<longrightarrow> st_trie st a = None)) \<and>
    (\<forall>a d. st_trie st a = Some d \<longrightarrow> account_ok d)"

definition revisions_ok :: "statedb \<Rightarrow> bool" where
  "revisions_ok st \<longleftrightarrow>
    sorted_wrt (\<lambda>x y. fst x < fst y \<and> snd x \<le> snd y) (st_validRevisions st) \<and>
    (\<forall>(n, i) \<in> set (st_validRevisions st). n < st_nextRevisionId st \<and> i \<le> length (st_entries st))"

definition state_ok :: "Database \<Rightarrow> statedb \<Rightarrow> bool" where
  "state_ok B st \<longleftrightarrow> objects_ok st \<and> revisions_ok st \<and> list_all entry_ok (st_entries st) \<and>
    dbs_ContractCode B (BytesToHash (emptyCodeHash B)) = []"

section \<open>Objects\<close>

lemma account_ok_setters [simp]:
  "account_ok (d\<lparr>acc_Balance := b\<rparr>) = account_ok d" "account_ok (d\<lparr>acc_Nonce := n\<rparr>) = account_ok d"
  "account_ok (d\<lparr>acc_CodeHash := Hash_Bytes h\<rparr>)"
  by (simp_all add: account_ok_def)

lemma newObject_ok [simp]:
  "so_address (newObject B a d) = a" "\<not> so_deleted (newObject B a d)"
  "account_ok d \<Longrightarrow> so_data (newObject B a d) = d"
  "account_ok (so_data (newObject B a new_Account))"
  by (auto simp: newObject_def account_ok_def emptyCodeHash_def new_Account_def)

lemma live_object_eq:
  "live_object B st a =
    (case mget (st_stateObjects st) a of
       Some o' \<Rightarrow> if so_deleted o' then None else Some o'
     | None \<Rightarrow> map_option (newObject B a) (st_trie st a))"
  by (auto simp: live_object_def getStateObject_def Let_def split: option.splits)

lemma live_object_set:
  "live_object B (setStateObject o' st) a =
    (if a = so_address o' then (if so_deleted o' then None else Some o') else live_object B st a)"
  by (simp add: live_object_eq setStateObject_def mget_mput split: option.split)

lemma live_object_cong:
  "st_stateObjects st' = st_stateObjects st \<Longrightarrow> st_trie st' = st_trie st \<Longrightarrow>
    live_object B st' = live_object B st"
  by (rule ext) (simp add: live_object_eq split: option.split)

lemma journal_append_fields [simp]:
  "st_entries (journal_append e st) = st_entries st @ [e]"
  "st_stateObjects (journal_append e st) = st_stateObjects st"
  "st_trie (journal_append e st) = st_trie st" "st_refund (journal_append e st) = st_refund st"
  "st_thash (journal_append e st) = st_thash st" "st_bhash (journal_append e st) = st_bhash st"
  "st_txIndex (journal_append e st) = st_txIndex st" "st_logs (journal_append e st) = st_logs st"
  "st_logSize (journal_append e st) = st_logSize st" "st_preimages (journal_append e st) = st_preimages st"
  "st_validRevisions (journal_append e st) = st_validRevisions st"
  "st_nextRevisionId (journal_append e st) = st_nextRevisionId st"
  by (simp_all add: journal_append_def journal_dirty_def Let_def split: option.split)

lemma setStateObject_fields [simp]:
  "st_entries (setStateObject o' st) = st_entries st" "st_trie (setStateObject o' st) = st_trie st"
  "st_refund (setStateObject o' st) = st_refund st" "st_thash (setStateObject o' st) = st_thash st"
  "st_bhash (setStateObject o' st) = st_bhash st" "st_txIndex (setStateObject o' st) = st_txIndex st"
  "st_logs (setStateObject o' st) = st_logs st" "st_logSize (setStateObject o' st) = st_logSize st"
  "st_preimages (setStateObject o' st) = st_preimages st"
  "st_validRevisions (setStateObject o' st) = st_validRevisions st"
  "st_nextRevisionId (setStateObject o' st) = st_nextRevisionId st"
  by (simp_all add: setStateObject_def)

lemma objects_ok_set:
  "objects_ok st \<Longrightarrow> account_ok (so_data o') \<Longrightarrow> \<not> so_deleted o' \<Longrightarrow> objects_ok (setStateObject o' st)"
  by (auto simp: objects_ok_def setStateObject_def mget_mput)

lemma logs_of_cong: "st_logs st' = st_logs st \<Longrightarrow> logs_of st' = logs_of st"
  by (rule ext) (simp add: logs_of_def)

lemma logs_of_fields [simp]:
  "logs_of (setStateObject o' st) = logs_of st" "logs_of (journal_append e st) = logs_of st"
  by (rule logs_of_cong, simp)+

text \<open>Finding an object changes nothing that can be seen, and what is found is sound.\<close>

definition silent :: "Database \<Rightarrow> statedb \<Rightarrow> statedb \<Rightarrow> bool" where
  "silent B st st' \<longleftrightarrow> world_of B st' = world_of B st \<and> objects_ok st' \<and>
    st_entries st' = st_entries st \<and> st_validRevisions st' = st_validRevisions st \<and>
    st_nextRevisionId st' = st_nextRevisionId st"

lemma getStateObject_silent:
  assumes "objects_ok st" and "getStateObject B a st = (r, st')"
  shows "silent B st st' \<and> r = live_object B st a \<and> live_object B st' = live_object B st \<and>
    (\<forall>o'. r = Some o' \<longrightarrow> so_address o' = a \<and> \<not> so_deleted o' \<and> account_ok (so_data o'))"
proof -
  have r: "r = live_object B st a" using assms(2) by (simp add: live_object_def)
  show ?thesis
  proof (cases "mget (st_stateObjects st) a = None \<and> st_trie st a \<noteq> None")
    case True
    then obtain d where d: "st_trie st a = Some d" by auto
    then have ok: "account_ok d" using assms(1) by (auto simp: objects_ok_def)
    have st': "st' = setStateObject (newObject B a d) st" "r = Some (newObject B a d)"
      using assms(2) True d by (auto simp: getStateObject_def Let_def)
    have live: "live_object B st' = live_object B st"
      using True d by (intro ext) (simp add: st' live_object_set, simp add: live_object_eq)
    moreover from live have "world_of B st' = world_of B st"
      unfolding world_of_def by (simp only: live) (simp add: st'(1))
    moreover have "objects_ok st'" using ok assms(1) by (simp add: st'(1) objects_ok_set)
    moreover have "so_address (newObject B a d) = a \<and> \<not> so_deleted (newObject B a d) \<and>
        account_ok (so_data (newObject B a d))" using ok by simp
    ultimately show ?thesis
      unfolding silent_def using live r st' by (metis option.inject setStateObject_fields(1,10,11))
  next
    case False
    have same: "st' = st"
    proof (cases "mget (st_stateObjects st) a")
      case None
      then show ?thesis using False assms(2) by (simp add: getStateObject_def)
    next
      case (Some obj)
      then show ?thesis using assms(2) by (simp add: getStateObject_def split: if_splits)
    qed
    have "so_address o' = a \<and> \<not> so_deleted o' \<and> account_ok (so_data o')" if "r = Some o'" for o'
    proof (cases "mget (st_stateObjects st) a")
      case None
      then show ?thesis using False that r by (simp add: live_object_eq)
    next
      case (Some obj)
      then show ?thesis
        using that r assms(1) by (simp add: live_object_eq objects_ok_def split: if_splits)
    qed
    then show ?thesis using r assms(1) by (simp add: same silent_def)
  qed
qed

text \<open>What a change of one object, or of the rest, does to the world.\<close>

lemma world_of_set:
  "\<not> so_deleted o' \<Longrightarrow> world_of B (setStateObject o' st) =
    (world_of B st)\<lparr>w_accounts := (w_accounts (world_of B st))(so_address o' \<mapsto> view_object B o')\<rparr>"
  by (auto simp: world_of_def live_object_set)

lemma world_of_append [simp]: "world_of B (journal_append e st) = world_of B st"
  by (simp add: world_of_def live_object_cong [of "journal_append e st" st])

lemma objects_ok_append [simp]: "objects_ok (journal_append e st) = objects_ok st"
  by (simp add: objects_ok_def)

lemma view_object_setters:
  "view_object B (stateObject_setBalance b o') = (view_object B o')\<lparr>av_Balance := b\<rparr>"
  "view_object B (stateObject_setNonce n o') = (view_object B o')\<lparr>av_Nonce := n\<rparr>"
  "view_object B (stateObject_setCode h c o') =
    (view_object B o')\<lparr>av_CodeHash := Hash_Bytes h, av_Code := code_of B c (Hash_Bytes h)\<rparr>"
  "view_object B (stateObject_setState k v o') =
    (view_object B o')\<lparr>av_Storage := (av_Storage (view_object B o'))(k := v)\<rparr>"
  "view_object B (o'\<lparr>so_suicided := s\<rparr>) = (view_object B o')\<lparr>av_suicided := s\<rparr>"
  by (auto simp: view_object_def stateObject_setBalance_def stateObject_setNonce_def
      stateObject_setCode_def stateObject_setState_def stateObject_GetState_def mget_mput fun_eq_iff
      split: option.split)

lemma setters_keep [simp]:
  "so_address (stateObject_setBalance b o') = so_address o'" "so_deleted (stateObject_setBalance b o') = so_deleted o'"
  "so_address (stateObject_setNonce n o') = so_address o'" "so_deleted (stateObject_setNonce n o') = so_deleted o'"
  "so_address (stateObject_setCode h c o') = so_address o'" "so_deleted (stateObject_setCode h c o') = so_deleted o'"
  "so_address (stateObject_setState k v o') = so_address o'" "so_deleted (stateObject_setState k v o') = so_deleted o'"
  "account_ok (so_data (stateObject_setBalance b o')) = account_ok (so_data o')"
  "account_ok (so_data (stateObject_setNonce n o')) = account_ok (so_data o')"
  "account_ok (so_data (stateObject_setCode h c o'))"
  "account_ok (so_data (stateObject_setState k v o')) = account_ok (so_data o')"
  by (simp_all add: stateObject_setBalance_def stateObject_setNonce_def stateObject_setCode_def
      stateObject_setState_def)

section \<open>Reverting an entry undoes it\<close>

definition same_books :: "statedb \<Rightarrow> statedb \<Rightarrow> bool" where
  "same_books st st' \<longleftrightarrow> st_entries st' = st_entries st \<and> st_validRevisions st' = st_validRevisions st \<and>
    st_nextRevisionId st' = st_nextRevisionId st"

definition refines_undo :: "Database \<Rightarrow> statedb \<Rightarrow> statedb option \<Rightarrow> world option \<Rightarrow> bool" where
  "refines_undo B st r w \<longleftrightarrow>
    (case r of
       None \<Rightarrow> w = None
     | Some st' \<Rightarrow> w = Some (world_of B st') \<and> objects_ok st' \<and> same_books st st')"

lemma w_accounts_of: "w_accounts (world_of B st) a = map_option (view_object B) (live_object B st a)"
  by (simp add: world_of_def)

lemma at_object_refines:
  assumes ok: "objects_ok st"
    and f: "\<And>o'. view_object B (f o') = g (view_object B o')"
      "\<And>o'. so_address (f o') = so_address o' \<and> so_deleted (f o') = so_deleted o' \<and>
        (account_ok (so_data o') \<longrightarrow> account_ok (so_data (f o')))"
  shows "refines_undo B st (at_object B st a f) (at_account (world_of B st) a g)"
proof -
  obtain r st1 where r: "getStateObject B a st = (r, st1)" by (cases "getStateObject B a st")
  note found = getStateObject_silent [OF ok r]
  show ?thesis
  proof (cases r)
    case None
    then show ?thesis
      using found by (simp add: refines_undo_def at_object_def r at_account_def w_accounts_of)
  next
    case (Some o')
    with found have o': "so_address o' = a" "\<not> so_deleted o'" "account_ok (so_data o')"
      "live_object B st a = Some o'" and s: "silent B st st1" by auto
    have "world_of B (setStateObject (f o') st1) =
        (world_of B st)\<lparr>w_accounts := (w_accounts (world_of B st))(a \<mapsto> g (view_object B o'))\<rparr>"
      using s o' f by (subst world_of_set) (simp_all add: silent_def)
    then show ?thesis
      using Some o' s f
      by (simp add: refines_undo_def at_object_def r at_account_def w_accounts_of same_books_def
          silent_def objects_ok_set)
  qed
qed

lemma world_simps:
  "world_of B (st\<lparr>st_refund := x\<rparr>) = (world_of B st)\<lparr>w_refund := x\<rparr>"
  "world_of B (st\<lparr>st_preimages := p\<rparr>) = (world_of B st)\<lparr>w_preimages := mget p\<rparr>"
  "world_of B (st\<lparr>st_dirties := d\<rparr>) = world_of B st"
  "world_of B (st\<lparr>st_entries := es\<rparr>) = world_of B st"
  "world_of B (st\<lparr>st_validRevisions := r\<rparr>) = world_of B st"
  "world_of B (st\<lparr>st_nextRevisionId := k\<rparr>) = world_of B st"
  by (simp_all add: world_of_def fun_eq_iff logs_of_def live_object_eq split: option.split)

lemma objects_ok_simps:
  "objects_ok (st\<lparr>st_refund := x\<rparr>) = objects_ok st" "objects_ok (st\<lparr>st_preimages := p\<rparr>) = objects_ok st"
  "objects_ok (st\<lparr>st_dirties := d\<rparr>) = objects_ok st" "objects_ok (st\<lparr>st_entries := es\<rparr>) = objects_ok st"
  "objects_ok (st\<lparr>st_validRevisions := r\<rparr>) = objects_ok st"
  "objects_ok (st\<lparr>st_nextRevisionId := k\<rparr>) = objects_ok st"
  "objects_ok (st\<lparr>st_logs := l, st_logSize := n\<rparr>) = objects_ok st"
  by (simp_all add: objects_ok_def)

lemma revert_refines:
  assumes ok: "objects_ok st" and e: "entry_ok e"
  shows "refines_undo B st (revert_entry B e st) (undo B e (world_of B st))"
proof (cases e)
  case (createObjectChange a)
  let ?st = "st\<lparr>st_stateObjects := mdel a (st_stateObjects st),
             st_stateObjectsDirty := mdel a (st_stateObjectsDirty st)\<rparr>"
  have "live_object B ?st = (live_object B st)(a := map_option (newObject B a) (st_trie st a))"
    by (rule ext) (simp add: live_object_eq mget_mdel split: option.split)
  then have "world_of B ?st = (world_of B st)\<lparr>w_accounts := (w_accounts (world_of B st))
      (a := map_option (\<lambda>d. view_object B (newObject B a d)) (st_trie st a))\<rparr>"
    by (auto simp: world_of_def logs_of_def option.map_comp comp_def)
  moreover have "objects_ok ?st" using ok by (auto simp: objects_ok_def mget_mdel)
  ultimately show ?thesis
    by (simp add: createObjectChange refines_undo_def same_books_def) (simp add: world_of_def)
next
  case (resetObjectChange prev)
  then show ?thesis
    using e ok by (simp add: refines_undo_def entry_ok_def world_of_set objects_ok_set same_books_def)
next
  case (suicideChange a prev bal)
  obtain r st1 where r: "getStateObject B a st = (r, st1)" by (cases "getStateObject B a st")
  note found = getStateObject_silent [OF ok r]
  show ?thesis
  proof (cases r)
    case None
    then show ?thesis
      using found by (simp add: suicideChange r refines_undo_def w_accounts_of silent_def same_books_def)
  next
    case (Some o')
    let ?f = "\<lambda>o'. stateObject_setBalance bal (o'\<lparr>so_suicided := prev\<rparr>)"
    have "refines_undo B st (at_object B st a ?f)
        (at_account (world_of B st) a (\<lambda>v. v\<lparr>av_suicided := prev, av_Balance := bal\<rparr>))"
      by (rule at_object_refines [OF ok]) (simp_all add: view_object_setters)
    moreover have "w_accounts (world_of B st) a \<noteq> None" using found Some
      by (metis w_accounts_of option.map_disc_iff option.distinct(1))
    ultimately show ?thesis
      by (simp only: suicideChange undo.simps revert_entry.simps r at_object_def Some) simp
  qed
next
  case (addLogChange h)
  have l: "w_logs (world_of B st) h = logs_of st h" by (simp add: world_of_def)
  have new: "logs_of (st\<lparr>st_logs := m, st_logSize := n\<rparr>) = (logs_of st)(h := butlast (logs_of st h))"
    if "m = mdel h (st_logs st) \<and> length (logs_of st h) = 1 \<or> m = mput h (butlast (logs_of st h)) (st_logs st)" for m n
    using that by (auto simp: logs_of_def fun_eq_iff mget_mdel mget_mput length_Suc_conv)
  have w: "world_of B (st\<lparr>st_logs := m, st_logSize := n\<rparr>) =
      (world_of B st)\<lparr>w_logs := logs_of (st\<lparr>st_logs := m, st_logSize := n\<rparr>), w_logSize := n\<rparr>" for m n
    by (simp add: world_of_def fun_eq_iff live_object_eq split: option.split)
  show ?thesis
    using ok by (auto simp: addLogChange refines_undo_def l w new same_books_def objects_ok_simps Let_def
        world_of_def [of B st])
next
  case (balanceChange a prev)
  then show ?thesis by (simp add: at_object_refines [OF ok] view_object_setters)
next
  case (nonceChange a prev)
  then show ?thesis by (simp add: at_object_refines [OF ok] view_object_setters)
next
  case (storageChange a key prev)
  then show ?thesis by (simp add: at_object_refines [OF ok] view_object_setters)
next
  case (codeChange a prevcode prevhash)
  then show ?thesis by (simp add: at_object_refines [OF ok] view_object_setters)
next
  case (addPreimageChange h)
  then show ?thesis using ok
    by (simp add: refines_undo_def same_books_def world_simps objects_ok_simps)
      (simp add: world_of_def fun_eq_iff mget_mdel)
qed (simp_all add: ok refines_undo_def same_books_def world_simps objects_ok_simps)

end
