(* ===== verification/State_Snapshots.thy ===== *)
theory State_Snapshots
  imports State_Journal Evm_Undo
begin

text \<open>
  Every operation of \<open>StateDB\<close> journals what undoes it (\<open>extends\<close>), so reverting to a snapshot restores
  the world of the snapshot, whatever ran in between, and keeps the snapshots that are older.
\<close>

section \<open>Operations journal what undoes them\<close>

definition extends :: "Database \<Rightarrow> statedb \<Rightarrow> statedb \<Rightarrow> bool" where
  "extends B st st' \<longleftrightarrow>
    (\<exists>es. st_entries st' = st_entries st @ es \<and> list_all entry_ok es \<and> objects_ok st' \<and>
      undo_all B (rev es) (world_of B st') = Some (world_of B st)) \<and>
    st_validRevisions st' = st_validRevisions st \<and> st_nextRevisionId st' = st_nextRevisionId st"

lemma extends_trans:
  assumes "extends B st1 st2" and "extends B st2 st3"
  shows "extends B st1 st3"
proof -
  obtain es fs where
    "st_entries st2 = st_entries st1 @ es" "list_all entry_ok es"
    "undo_all B (rev es) (world_of B st2) = Some (world_of B st1)"
    "st_entries st3 = st_entries st2 @ fs" "list_all entry_ok fs" "objects_ok st3"
    "undo_all B (rev fs) (world_of B st3) = Some (world_of B st2)"
    using assms unfolding extends_def by blast
  then have "st_entries st3 = st_entries st1 @ (es @ fs) \<and> list_all entry_ok (es @ fs) \<and> objects_ok st3 \<and>
      undo_all B (rev (es @ fs)) (world_of B st3) = Some (world_of B st1)"
    by (simp add: undo_all_append)
  then show ?thesis using assms unfolding extends_def by metis
qed

lemma silent_extends: "silent B st st' \<Longrightarrow> extends B st st'"
  by (simp add: silent_def extends_def)

lemma extends_refl: "objects_ok st \<Longrightarrow> extends B st st"
  by (simp add: extends_def)

lemma extends_one:
  assumes "st_entries st' = st_entries st @ [e]" and "entry_ok e" and "objects_ok st'"
    and "undo B e (world_of B st') = Some (world_of B st)"
    and "st_validRevisions st' = st_validRevisions st" "st_nextRevisionId st' = st_nextRevisionId st"
  shows "extends B st st'"
  unfolding extends_def using assms by (intro conjI exI [of _ "[e]"]) simp_all

text \<open>A changed object with the entry that gives its old view back.\<close>

lemma extends_set:
  assumes "objects_ok st" and "live_object B st a = Some old"
    and "so_address new = a" and "\<not> so_deleted new" and "account_ok (so_data new)" and "entry_ok e"
    and "\<And>w. w_accounts w a = Some (view_object B new) \<Longrightarrow>
      undo B e w = Some (w\<lparr>w_accounts := (w_accounts w)(a \<mapsto> view_object B old)\<rparr>)"
  shows "extends B st (setStateObject new (journal_append e st))"
proof (rule extends_one)
  have was: "w_accounts (world_of B st) a = Some (view_object B old)"
    using assms(2) by (simp add: w_accounts_of)
  show "undo B e (world_of B (setStateObject new (journal_append e st))) = Some (world_of B st)"
    using assms(3,4,7) was by (simp add: world_of_set fun_upd_idem)
qed (use assms in \<open>simp_all add: objects_ok_set same_books_def\<close>)

lemma Hash_Bytes_BytesToHash: "length b = 32 \<Longrightarrow> Hash_Bytes (BytesToHash b) = b"
proof -
  assume l: "length b = 32"
  then have "be_val b < 256 ^ 32" using be_val_less [of b] by simp
  then have "unat (of_nat (be_val b) :: hash) = be_val b" by (simp add: unat_of_nat)
  moreover have "BytesToHash b = of_nat (be_val b)"
    using l by (simp add: BytesToHash_def SetBytes_def HashLength_def)
  ultimately show ?thesis using l to_be_be_val [of b] by (simp add: Hash_Bytes_def HashLength_def)
qed

lemma account_hash: "account_ok d \<Longrightarrow> Hash_Bytes (BytesToHash (acc_CodeHash d)) = acc_CodeHash d"
  by (simp add: account_ok_def Hash_Bytes_BytesToHash)

section \<open>Finding and creating objects\<close>

lemma createObject_extends:
  assumes ok: "objects_ok st" and r: "createObject B a st = ((newobj, prev), st')"
  shows "newobj = stateObject_setNonce 0 (newObject B a new_Account)"
    and "prev = live_object B st a"
    and "so_address o2 = a \<Longrightarrow> \<not> so_deleted o2 \<Longrightarrow> account_ok (so_data o2) \<Longrightarrow>
      extends B st (setStateObject o2 st')"
    and "extends B st st'"
proof -
  obtain q st1 where q: "getStateObject B a st = (q, st1)" by (cases "getStateObject B a st")
  note found = getStateObject_silent [OF ok q]
  have s: "silent B st st1" and live: "q = live_object B st a" "live_object B st1 a = q" using found by simp_all
  show new: "newobj = stateObject_setNonce 0 (newObject B a new_Account)" and "prev = live_object B st a"
    using r q live by (auto simp: createObject_def Let_def split: prod.splits)
  define e where "e = (case q of None \<Rightarrow> createObjectChange a | Some p \<Rightarrow> resetObjectChange p)"
  have st': "st' = setStateObject newobj (journal_append e st1)"
    using r q by (auto simp: createObject_def Let_def e_def split: option.splits)
  have ok1: "objects_ok st1" and w1: "world_of B st1 = world_of B st" using s by (simp_all add: silent_def)
  have e_ok: "entry_ok e" using found by (auto simp: entry_ok_def e_def split: option.split)
  have trie: "st_trie st1 a = None" if "q = None"
    using ok1 live(2) that by (auto simp: objects_ok_def live_object_eq split: option.splits if_splits)
  have undone: "undo B e ((world_of B st)\<lparr>w_accounts := (w_accounts (world_of B st))(a \<mapsto> v)\<rparr>) =
      Some (world_of B st)" for v
  proof (cases q)
    case None
    then show ?thesis
      using live(1) trie w1 by (simp add: e_def w1 [symmetric])
        (simp add: world_of_def fun_upd_idem live(2))
  next
    case (Some p)
    then show ?thesis using found by (simp add: e_def w_accounts_of fun_upd_idem)
  qed
  have new_ok: "so_address newobj = a" "\<not> so_deleted newobj" "account_ok (so_data newobj)"
    by (simp_all add: new)
  show "extends B st st'"
    by (rule extends_one [of _ _ e])
      (use s in \<open>simp_all add: st' e_ok objects_ok_set ok1 new_ok world_of_set w1 undone silent_def\<close>)
  show "extends B st (setStateObject o2 st')"
    if o2: "so_address o2 = a" "\<not> so_deleted o2" "account_ok (so_data o2)"
    by (rule extends_one [of _ _ e])
      (use s in \<open>simp_all add: st' e_ok objects_ok_set ok1 o2 new_ok world_of_set w1 undone silent_def\<close>)
qed

text \<open>What \<open>GetOrNewStateObject\<close> returns is the object of the address.\<close>

definition object_at :: "Database \<Rightarrow> statedb \<Rightarrow> address \<Rightarrow> stateObject \<Rightarrow> bool" where
  "object_at B st a o' \<longleftrightarrow> live_object B st a = Some o' \<and> so_address o' = a \<and> \<not> so_deleted o' \<and>
    account_ok (so_data o') \<and> objects_ok st"

lemma GetOrNew_extends:
  assumes ok: "objects_ok st" and r: "GetOrNewStateObject B a st = (o', st')"
  shows "extends B st st'" and "object_at B st' a o'"
proof -
  obtain q st1 where q: "getStateObject B a st = (q, st1)" by (cases "getStateObject B a st")
  note found = getStateObject_silent [OF ok q]
  then have ok1: "objects_ok st1" and ext: "extends B st st1"
    by (simp_all add: silent_def silent_extends)
  have "extends B st st' \<and> object_at B st' a o'"
  proof (cases q)
    case (Some obj)
    then have "o' = obj" "st' = st1" using r q found by (auto simp: GetOrNewStateObject_def)
    then show ?thesis using found Some ext ok1 by (simp add: object_at_def)
  next
    case None
    obtain newobj prev st2 where c: "createObject B a st1 = ((newobj, prev), st2)" by (metis prod.exhaust)
    have "o' = newobj" "st' = st2" using r q None c by (simp_all add: GetOrNewStateObject_def)
    moreover have new: "newobj = stateObject_setNonce 0 (newObject B a new_Account)"
      and st2: "extends B st1 st2" using createObject_extends [OF ok1 c] by simp_all
    moreover obtain e where "st2 = setStateObject newobj (journal_append e (snd (getStateObject B a st1)))"
      using c by (auto simp: createObject_def Let_def split: prod.splits option.splits)
    ultimately show ?thesis
      using extends_trans [OF ext st2] by (auto simp: object_at_def live_object_set extends_def)
  qed
  then show "extends B st st'" and "object_at B st' a o'" by simp_all
qed

text \<open>So a setter only has to journal what undoes its change of the object.\<close>

definition object_step :: "Database \<Rightarrow> (stateObject \<Rightarrow> statedb \<Rightarrow> statedb) \<Rightarrow> bool" where
  "object_step B f \<longleftrightarrow> (\<forall>st a o'. object_at B st a o' \<longrightarrow> extends B st (f o' st))"

lemma on_object_extends:
  assumes "object_step B f" and "objects_ok st"
  shows "extends B st (on_object B st a f)"
proof -
  obtain o' st1 where r: "GetOrNewStateObject B a st = (o', st1)" by (metis prod.exhaust)
  note found = GetOrNew_extends [OF assms(2) r]
  then have "extends B st1 (f o' st1)" using assms(1) by (simp add: object_step_def)
  then show ?thesis using extends_trans [OF found(1)] by (simp add: on_object_def r)
qed

lemma stepI:
  assumes "\<And>o'. so_address (g o') = so_address o' \<and> so_deleted (g o') = so_deleted o' \<and>
      (account_ok (so_data o') \<longrightarrow> account_ok (so_data (g o')))"
    and "\<And>o'. entry_ok (e o')"
    and "\<And>o' w. account_ok (so_data o') \<Longrightarrow> w_accounts w (so_address o') = Some (view_object B (g o')) \<Longrightarrow>
      undo B (e o') w = Some (w\<lparr>w_accounts := (w_accounts w)(so_address o' \<mapsto> view_object B o')\<rparr>)"
    and "object_at B st a o'"
  shows "extends B st (setStateObject (g o') (journal_append (e o') st))"
  using assms(4) by (intro extends_set [where old = o' and a = a]) (auto simp: object_at_def assms(1-3))

lemma entry_ok_simps [simp]:
  "entry_ok (createObjectChange a)" "entry_ok (suicideChange a s b)" "entry_ok (balanceChange a b)"
  "entry_ok (nonceChange a n)" "entry_ok (storageChange a k v)" "entry_ok (codeChange a c h)"
  "entry_ok (refundChange g)" "entry_ok (addLogChange h1)" "entry_ok (addPreimageChange h1)"
  "entry_ok (touchChange a)"
  by (simp_all add: entry_ok_def)

lemma touch_extends: "object_step B stateObject_touch"
proof -
  have w: "world_of B (journal_dirty a st) = world_of B st" for a st
    by (simp add: journal_dirty_def world_simps)
  have "extends B st (stateObject_touch o' st)" if "objects_ok st" for st o'
    by (rule extends_one [of _ _ "touchChange (so_address o')"])
      (use that in \<open>simp_all add: stateObject_touch_def Let_def journal_dirty_def objects_ok_simps world_simps\<close>)
  then show ?thesis by (simp add: object_step_def object_at_def)
qed

lemma SetBalance_step: "object_step B (stateObject_SetBalance b)"
  unfolding object_step_def stateObject_SetBalance_def
  by (intro allI impI, rule stepI [where g = "stateObject_setBalance b"
        and e = "\<lambda>o'. balanceChange (so_address o') (acc_Balance (so_data o'))"])
    (auto simp: at_account_def view_object_setters, simp add: view_object_def)

lemma SetNonce_step: "object_step B (stateObject_SetNonce n)"
  unfolding object_step_def stateObject_SetNonce_def
  by (intro allI impI, rule stepI [where g = "stateObject_setNonce n"
        and e = "\<lambda>o'. nonceChange (so_address o') (acc_Nonce (so_data o'))"])
    (auto simp: at_account_def view_object_setters, simp add: view_object_def)

lemma SetState_step: "object_step B (stateObject_SetState B k v)"
  unfolding object_step_def stateObject_SetState_def
  by (intro allI impI, rule stepI [where g = "stateObject_setState k v"
        and e = "\<lambda>o'. storageChange (so_address o') k (stateObject_GetState B o' k)"])
    (auto simp: at_account_def view_object_setters, simp add: view_object_def)

lemma code_of_Code: "code_of B (stateObject_Code B o') (acc_CodeHash (so_data o')) =
    code_of B (so_code o') (acc_CodeHash (so_data o'))"
  by (simp add: code_of_def stateObject_Code_def split: option.split)

lemma SetCode_step: "object_step B (stateObject_SetCode B h c)"
  unfolding object_step_def stateObject_SetCode_def
  by (intro allI impI, rule stepI [where g = "stateObject_setCode h (Some c)"
        and e = "\<lambda>o'. codeChange (so_address o') (stateObject_Code B o') (acc_CodeHash (so_data o'))"])
    (auto simp: at_account_def view_object_setters account_hash code_of_Code,
      simp add: view_object_def)

lemma AddBalance_step: "object_step B (stateObject_AddBalance B b)"
  using SetBalance_step touch_extends
  by (auto simp: object_step_def stateObject_AddBalance_def object_at_def extends_refl)

lemma SubBalance_step: "object_step B (stateObject_SubBalance b)"
  using SetBalance_step by (auto simp: object_step_def stateObject_SubBalance_def object_at_def extends_refl)

lemma Suicide_extends: "objects_ok st \<Longrightarrow> extends B st (snd (StateDB_Suicide B st a))"
proof -
  assume ok: "objects_ok st"
  obtain r st1 where r: "getStateObject B a st = (r, st1)" by (cases "getStateObject B a st")
  note found = getStateObject_silent [OF ok r]
  then have ext: "extends B st st1" by (simp add: silent_extends)
  show ?thesis
  proof (cases r)
    case None
    then show ?thesis using ext by (simp add: StateDB_Suicide_def r)
  next
    case (Some o')
    have o': "live_object B st1 a = Some o'" "so_address o' = a" "\<not> so_deleted o'" "account_ok (so_data o')"
      "objects_ok st1" using found Some by (auto simp: silent_def)
    let ?o = "stateObject_setBalance 0 (markSuicided o')"
    have undone: "undo B (suicideChange a (so_suicided o') (acc_Balance (so_data o'))) w =
        Some (w\<lparr>w_accounts := (w_accounts w)(a \<mapsto> view_object B o')\<rparr>)"
      if "w_accounts w a = Some (view_object B ?o)" for w
      using that by (simp add: at_account_def view_object_setters markSuicided_def) (simp add: view_object_def)
    have "extends B st1 (setStateObject ?o
        (journal_append (suicideChange a (so_suicided o') (acc_Balance (so_data o'))) st1))"
      by (rule extends_set [OF o'(5,1)]) (simp_all only: undone, simp_all add: o' markSuicided_def)
    from extends_trans [OF ext this] show ?thesis by (simp add: StateDB_Suicide_def r Some)
  qed
qed

lemma CreateAccount_extends: "objects_ok st \<Longrightarrow> extends B st (CreateAccount B st a)"
proof -
  assume ok: "objects_ok st"
  obtain newobj prev st1 where c: "createObject B a st = ((newobj, prev), st1)" by (metis prod.exhaust)
  note made = createObject_extends [OF ok c]
  show ?thesis
  proof (cases prev)
    case None
    then show ?thesis using made(4) by (simp add: CreateAccount_def c)
  next
    case (Some p)
    then show ?thesis
      using made(3) [of "stateObject_setBalance (acc_Balance (so_data p)) newobj"]
      by (simp add: CreateAccount_def c made(1))
  qed
qed

text \<open>Logs, preimages and refunds.\<close>

lemma AddLog_extends: "objects_ok st \<Longrightarrow> extends B st (StateDB_AddLog st lg)"
proof (rule extends_one [of _ _ "addLogChange (st_thash st)"])
  let ?h = "st_thash st" and ?st' = "StateDB_AddLog st lg"
  obtain l where st': "?st' = (journal_append (addLogChange ?h) st)
      \<lparr>st_logs := mput ?h (logs_of st ?h @ [l]) (st_logs st), st_logSize := st_logSize st + 1\<rparr>"
    by (simp add: StateDB_AddLog_def Let_def)
  have logs: "logs_of ?st' = (logs_of st)(?h := logs_of st ?h @ [l])"
    by (auto simp: st' logs_of_def mget_mput fun_eq_iff)
  have w: "world_of B ?st' = (world_of B st)\<lparr>w_logs := (logs_of st)(?h := logs_of st ?h @ [l]),
      w_logSize := st_logSize st + 1\<rparr>"
    unfolding logs [symmetric]
    by (simp add: st' world_of_def fun_eq_iff live_object_eq split: option.split)
  show "undo B (addLogChange ?h) (world_of B ?st') = Some (world_of B st)"
    unfolding w by (simp add: world_of_def)
qed (simp_all add: StateDB_AddLog_def Let_def objects_ok_simps)

lemma AddPreimage_extends: "objects_ok st \<Longrightarrow> extends B st (StateDB_AddPreimage st h p)"
proof (cases "mhas (st_preimages st) h")
  case True
  then show "objects_ok st \<Longrightarrow> ?thesis" by (simp add: StateDB_AddPreimage_def extends_refl)
next
  case False
  then have none: "mget (st_preimages st) h = None" by (simp add: mhas_def)
  assume "objects_ok st"
  then show ?thesis
    by (intro extends_one [of _ _ "addPreimageChange h"])
      (simp_all add: StateDB_AddPreimage_def False Let_def objects_ok_simps world_simps,
       simp add: world_of_def mget_mput none fun_upd_idem)
qed

lemma AddRefund_extends: "objects_ok st \<Longrightarrow> extends B st (StateDB_AddRefund st g)"
  by (rule extends_one [of _ _ "refundChange (st_refund st)"])
    (simp_all add: StateDB_AddRefund_def Let_def objects_ok_simps world_simps, simp add: world_of_def)

section \<open>Snapshots\<close>

text \<open>
  \<open>marks B n v st\<close>: the revision \<open>n\<close> is valid, and undoing what was journalled since it was taken gives
  the world \<open>v\<close>.
\<close>

definition marks :: "Database \<Rightarrow> nat \<Rightarrow> world \<Rightarrow> statedb \<Rightarrow> bool" where
  "marks B n v st \<longleftrightarrow>
    (\<exists>i. (n, i) \<in> set (st_validRevisions st) \<and>
      undo_all B (rev (drop i (st_entries st))) (world_of B st) = Some v)"

lemma revision_bounds:
  "revisions_ok st \<Longrightarrow> (n, i) \<in> set (st_validRevisions st) \<Longrightarrow>
    n < st_nextRevisionId st \<and> i \<le> length (st_entries st)"
  by (auto simp: revisions_ok_def)

lemma revisions_less:
  assumes "revisions_ok st" and "x < y" and "y < length (st_validRevisions st)"
  shows "fst (st_validRevisions st ! x) < fst (st_validRevisions st ! y)"
    and "snd (st_validRevisions st ! x) \<le> snd (st_validRevisions st ! y)"
  using assms sorted_wrt_nth_less [of "\<lambda>x y. fst x < fst y \<and> snd x \<le> snd y" "st_validRevisions st" x y]
  by (simp_all add: revisions_ok_def)

lemma extends_keeps:
  assumes ok: "state_ok B st" and ext: "extends B st st'"
  shows "keeps (state_ok B) (marks B) st st'"
proof -
  obtain es where es: "st_entries st' = st_entries st @ es" "list_all entry_ok es" "objects_ok st'"
    "undo_all B (rev es) (world_of B st') = Some (world_of B st)"
    and revs: "st_validRevisions st' = st_validRevisions st" "st_nextRevisionId st' = st_nextRevisionId st"
    using ext unfolding extends_def by blast
  have "revisions_ok st'" using ok es(1) revs by (fastforce simp: state_ok_def revisions_ok_def)
  then have "state_ok B st'" using ok es by (simp add: state_ok_def)
  moreover have "marks B n v st'" if m: "marks B n v st" for n v
  proof -
    obtain i where i: "(n, i) \<in> set (st_validRevisions st)"
      "undo_all B (rev (drop i (st_entries st))) (world_of B st) = Some v"
      using m by (auto simp: marks_def)
    then have "i \<le> length (st_entries st)" using ok revision_bounds by (auto simp: state_ok_def)
    then show ?thesis using i es revs by (auto simp: marks_def undo_all_append)
  qed
  ultimately show ?thesis by (simp add: keeps_def)
qed

lemma Snapshot_marks:
  assumes ok: "state_ok B st" and r: "StateDB_Snapshot st = (n, st')"
  shows "keeps (state_ok B) (marks B) st st'" "world_of B st' = world_of B st" "marks B n (world_of B st) st'"
    "marks B m v st \<Longrightarrow> m < n"
proof -
  have st': "st' = st\<lparr>st_nextRevisionId := st_nextRevisionId st + 1,
      st_validRevisions := st_validRevisions st @ [(st_nextRevisionId st, length (st_entries st))]\<rparr>"
    and n: "n = st_nextRevisionId st" using r by (auto simp: StateDB_Snapshot_def Let_def)
  show w: "world_of B st' = world_of B st" by (simp add: st' world_simps)
  show "marks B n (world_of B st) st'" by (auto simp: marks_def st' n world_simps)
  show "marks B m v st \<Longrightarrow> m < n" using ok revision_bounds by (auto simp: marks_def n state_ok_def)
  have "revisions_ok st'" using ok
    by (fastforce simp: state_ok_def revisions_ok_def st' sorted_wrt_append)
  then have "state_ok B st'" using ok by (simp add: state_ok_def st' objects_ok_simps)
  moreover have "marks B m v st'" if "marks B m v st" for m v
    using that w by (auto simp: marks_def st')
  ultimately show "keeps (state_ok B) (marks B) st st'" by (simp add: keeps_def)
qed

text \<open>The loop of \<open>revert\<close> refines \<open>undo_all\<close>.\<close>

lemma revert_loop_refines:
  "objects_ok st \<Longrightarrow> list_all entry_ok es \<Longrightarrow>
    refines_undo B st (journal_revert_loop B es st) (undo_all B es (world_of B st))"
proof (induction es arbitrary: st)
  case Nil
  then show ?case by (simp add: refines_undo_def same_books_def)
next
  case (Cons e es)
  then have one: "refines_undo B st (revert_entry B e st) (undo B e (world_of B st))"
    by (simp add: revert_refines)
  show ?case
  proof (cases "revert_entry B e st")
    case None
    then show ?thesis using one by (simp add: refines_undo_def)
  next
    case (Some st1)
    define st2 where "st2 = (case dirtied e of None \<Rightarrow> st1 | Some a \<Rightarrow> journal_undirty a st1)"
    have st2: "world_of B st2 = world_of B st1" "objects_ok st2 = objects_ok st1" "same_books st1 st2"
      by (auto simp: st2_def journal_undirty_def Let_def world_simps objects_ok_simps same_books_def
          split: option.split)
    have u: "undo B e (world_of B st) = Some (world_of B st2)" "objects_ok st2" "same_books st st2"
      using one Some st2 by (simp_all add: refines_undo_def same_books_def)
    from Cons.IH [OF u(2)] Cons.prems(2)
    have "refines_undo B st2 (journal_revert_loop B es st2) (undo_all B es (world_of B st2))" by simp
    then show ?thesis
      using u by (simp add: Some st2_def [symmetric] refines_undo_def same_books_def split: option.splits)
  qed
qed

text \<open>\<open>sort.Search\<close> finds the first index where a monotone condition holds.\<close>

lemma sort_Search_first:
  "i \<le> k \<Longrightarrow> k \<le> j \<Longrightarrow> \<forall>x. i \<le> x \<and> x < j \<longrightarrow> f x = (k \<le> x) \<Longrightarrow> sort_Search f i j = k"
proof (induction f i j rule: sort_Search.induct)
  case (1 f i j)
  note mono = 1(5)
  show ?case
  proof (cases "i < j")
    case False
    then show ?thesis using 1(3,4) by (subst sort_Search.simps) simp
  next
    case True
    define h where "h = (i + j) div 2"
    have h: "i \<le> h" "h < j" using True by (simp_all add: h_def)
    then have f: "f h = (k \<le> h)" using mono by simp
    show ?thesis
    proof (cases "k \<le> h")
      case True
      then have "sort_Search f i h = k"
        using 1(2) [OF \<open>i < j\<close> h_def] f 1(3) mono h by simp
      then show ?thesis
        using \<open>i < j\<close> f True by (subst sort_Search.simps) (simp add: Let_def h_def [symmetric])
    next
      case False
      then have "sort_Search f (h + 1) j = k"
        using 1(1) [OF \<open>i < j\<close> h_def] f 1(4) mono h by simp
      then show ?thesis
        using \<open>i < j\<close> f False by (subst sort_Search.simps) (simp add: Let_def h_def [symmetric])
    qed
  qed
qed

lemma find_revision:
  assumes ok: "revisions_ok st" and m: "(n, i) \<in> set (st_validRevisions st)"
  obtains k where "k < length (st_validRevisions st)" "st_validRevisions st ! k = (n, i)"
    "sort_Search (\<lambda>x. n \<le> fst (st_validRevisions st ! x)) 0 (length (st_validRevisions st)) = k"
proof -
  let ?r = "st_validRevisions st"
  obtain k where k: "k < length ?r" "?r ! k = (n, i)" using m by (auto simp: in_set_conv_nth)
  note less = revisions_less(1) [OF ok]
  have "(n \<le> fst (?r ! x)) = (k \<le> x)" if "x < length ?r" for x
    using less [of x k] less [of k x] k that by (cases x k rule: linorder_cases) auto
  then have "sort_Search (\<lambda>x. n \<le> fst (?r ! x)) 0 (length ?r) = k"
    using k by (intro sort_Search_first) auto
  with k show ?thesis by (rule that)
qed

text \<open>Reverting to a valid revision.\<close>

lemma Revert_marks:
  assumes ok: "state_ok B st" and m: "marks B n v st"
  shows "\<exists>st'. StateDB_RevertToSnapshot B st n = Some st' \<and> state_ok B st' \<and> world_of B st' = v \<and>
    (\<forall>m u. m < n \<and> marks B m u st \<longrightarrow> marks B m u st')"
proof -
  let ?r = "st_validRevisions st" and ?es = "st_entries st"
  have revs: "revisions_ok st" and objs: "objects_ok st" "list_all entry_ok ?es"
    using ok by (simp_all add: state_ok_def)
  obtain i where i: "(n, i) \<in> set ?r" and v: "undo_all B (rev (drop i ?es)) (world_of B st) = Some v"
    using m by (auto simp: marks_def)
  obtain k where k: "k < length ?r" "?r ! k = (n, i)"
    and search: "sort_Search (\<lambda>x. n \<le> fst (?r ! x)) 0 (length ?r) = k"
    using find_revision [OF revs i] .
  have "list_all entry_ok (rev (drop i ?es))"
    using objs(2) by (auto simp: list_all_iff dest: in_set_dropD)
  from revert_loop_refines [OF objs(1) this, of B] v obtain st1 where
    st1: "journal_revert_loop B (rev (drop i ?es)) st = Some st1" "world_of B st1 = v" "objects_ok st1"
      "same_books st st1"
    by (auto simp: refines_undo_def split: option.splits)
  define st' where "st' = st1\<lparr>st_entries := take i ?es, st_validRevisions := take k ?r\<rparr>"
  have revert: "StateDB_RevertToSnapshot B st n = Some st'"
    using k search st1 by (simp add: StateDB_RevertToSnapshot_def Let_def journal_revert_def st'_def same_books_def)
  have older: "x < n \<and> y \<le> i" if xy: "(x, y) \<in> set (take k ?r)" for x y
  proof -
    obtain l where l: "l < k" "?r ! l = (x, y)" using xy k(1) by (auto simp: in_set_conv_nth)
    then show ?thesis using revisions_less [OF revs l(1) k(1)] k(2) by simp
  qed
  have i_le: "i \<le> length ?es" using revision_bounds [OF revs i] by simp
  have "sorted_wrt (\<lambda>x y. fst x < fst y \<and> snd x \<le> snd y) (take k ?r)"
    using revs by (simp add: revisions_ok_def sorted_wrt_take)
  moreover have "x < st_nextRevisionId st" if "(x, y) \<in> set (take k ?r)" for x y
    using revision_bounds [OF revs] that by (auto dest: in_set_takeD)
  ultimately have "revisions_ok st'"
    using older st1(4) i_le by (auto simp: revisions_ok_def st'_def same_books_def min_def)
  then have "state_ok B st'"
    using ok st1(3) by (auto simp: state_ok_def st'_def objects_ok_simps list_all_iff dest: in_set_takeD)
  moreover have "world_of B st' = v" using st1(2) by (simp add: st'_def world_simps)
  moreover have "marks B m u st'" if mn: "m < n" and mu: "marks B m u st" for m u
  proof -
    obtain j where j: "(m, j) \<in> set ?r" "undo_all B (rev (drop j ?es)) (world_of B st) = Some u"
      using mu by (auto simp: marks_def)
    then obtain l where l: "l < length ?r" "?r ! l = (m, j)" by (auto simp: in_set_conv_nth)
    have "l < k"
    proof (rule ccontr)
      assume "\<not> l < k"
      then have "n \<le> m"
        using revisions_less(1) [OF revs, of k l] k l by (cases "l = k") simp_all
      with mn show False by simp
    qed
    then have in_take: "(m, j) \<in> set (take k ?r)"
      using l k(1) nth_mem [of l "take k ?r"] by simp
    then have "j \<le> i" using older by simp
    then have "drop j ?es = drop j (take i ?es) @ drop i ?es"
      using append_take_drop_id [of "i - j" "drop j ?es"] by (simp add: drop_take)
    then have "undo_all B (rev (drop j (take i ?es))) v = Some u"
      using j(2) v by (simp only: rev_append undo_all_append) simp
    then show ?thesis
      using in_take st1(2) by (auto simp: marks_def st'_def world_simps)
  qed
  ultimately show ?thesis using revert by blast
qed

section \<open>The interface of the virtual machine\<close>

lemma state_ok_objects: "state_ok B st \<Longrightarrow> objects_ok st"
  by (simp add: state_ok_def)

lemma on_object_keeps:
  "object_step B f \<Longrightarrow> state_ok B st \<Longrightarrow> keeps (state_ok B) (marks B) st (on_object B st a f)"
  by (intro extends_keeps on_object_extends state_ok_objects)

lemmas setter_defs = StateDB_SubBalance_def StateDB_AddBalance_def StateDB_SetNonce_def
  StateDB_SetCode_def StateDB_SetState_def

lemmas object_steps = SubBalance_step AddBalance_step SetNonce_step SetCode_step SetState_step

lemmas state_extends = CreateAccount_extends Suicide_extends AddLog_extends AddPreimage_extends
  AddRefund_extends

interpretation state_steps: db_steps "state_db B" "state_ok B" "marks B" for B
  by unfold_locales
    (simp_all add: state_db_def setter_defs on_object_keeps object_steps extends_keeps state_extends
      state_ok_objects)

interpretation state_snapshots: db_snapshots "state_db B" "state_ok B" "marks B" "world_of B" for B
  by unfold_locales
    (auto simp: state_db_def Snapshot_marks(4) intro: Snapshot_marks(1,2,3) dest: Revert_marks)

end
