(* ===== verification/State_Accounts.thy ===== *)
theory State_Accounts
  imports State_Snapshots
begin

text \<open>
  What the operations of \<open>StateDB\<close> do to what its getters show: a setter changes its own field of its
  own account, a transfer moves value without making or losing any, and \<open>Finalise\<close> removes the
  accounts that ended themselves.
\<close>

section \<open>Setters and getters\<close>

text \<open>\<open>f\<close> makes \<open>g o'\<close> of the object it is given, up to the journal.\<close>

definition changes_to :: "Database \<Rightarrow> (stateObject \<Rightarrow> statedb \<Rightarrow> statedb) \<Rightarrow> (stateObject \<Rightarrow> stateObject) \<Rightarrow> bool" where
  "changes_to B f g \<longleftrightarrow>
    (\<forall>st a o'. object_at B st a o' \<longrightarrow> live_object B (f o' st) = (live_object B st)(a \<mapsto> g o'))"

definition object_or_new :: "Database \<Rightarrow> statedb \<Rightarrow> address \<Rightarrow> stateObject" where
  "object_or_new B st a =
    (case live_object B st a of Some o' \<Rightarrow> o' | None \<Rightarrow> stateObject_setNonce 0 (newObject B a new_Account))"

lemma createObject_live:
  assumes ok: "objects_ok st" and c: "createObject B a st = ((newobj, prev), st')"
  shows "live_object B st' = (live_object B st)(a \<mapsto> newobj)"
proof -
  obtain r st1 where g: "getStateObject B a st = (r, st1)" by fastforce
  have live: "live_object B st1 = live_object B st" using getStateObject_silent [OF ok g] by simp
  have new: "newobj = stateObject_setNonce 0 (newObject B a new_Account)"
    using createObject_extends [OF ok c] by simp
  have "st' = setStateObject newobj (journal_append
      (case r of None \<Rightarrow> createObjectChange a | Some p \<Rightarrow> resetObjectChange p) st1)"
    using c g by (auto simp: createObject_def Let_def split: option.splits)
  then show ?thesis
    using live new
    by (auto simp: live_object_set fun_eq_iff live_object_cong [of "journal_append e st1" st1 for e])
qed

lemma GetOrNew_object:
  assumes ok: "objects_ok st" and r: "GetOrNewStateObject B a st = (o', st')"
  shows "o' = object_or_new B st a" and "live_object B st' = (live_object B st)(a \<mapsto> o')"
proof -
  obtain q st1 where q: "getStateObject B a st = (q, st1)" by (cases "getStateObject B a st")
  note found = getStateObject_silent [OF ok q]
  then have ok1: "objects_ok st1" by (simp add: silent_def)
  have "o' = object_or_new B st a \<and> live_object B st' = (live_object B st)(a \<mapsto> o')"
  proof (cases q)
    case (Some obj)
    then have "o' = obj" "st' = st1" using r q found by (auto simp: GetOrNewStateObject_def)
    moreover have "live_object B st a = Some obj" using found Some by metis
    ultimately show ?thesis using found by (simp add: object_or_new_def fun_upd_idem)
  next
    case None
    obtain newobj prev st2 where c: "createObject B a st1 = ((newobj, prev), st2)" by (metis prod.exhaust)
    have "o' = newobj" "st' = st2" using r q None c by (simp_all add: GetOrNewStateObject_def)
    moreover have new: "newobj = stateObject_setNonce 0 (newObject B a new_Account)"
      using createObject_extends [OF ok1 c] by simp
    moreover have "live_object B st2 = (live_object B st)(a \<mapsto> newobj)"
      using createObject_live [OF ok1 c] found by simp
    ultimately show ?thesis using None found by (simp add: object_or_new_def)
  qed
  then show "o' = object_or_new B st a" and "live_object B st' = (live_object B st)(a \<mapsto> o')" by simp_all
qed

lemma on_object_live:
  assumes "changes_to B f g" and "objects_ok st"
  shows "live_object B (on_object B st a f) = (live_object B st)(a \<mapsto> g (object_or_new B st a))"
proof -
  obtain o' st1 where r: "GetOrNewStateObject B a st = (o', st1)" by (metis prod.exhaust)
  have "object_at B st1 a o'" using GetOrNew_extends [OF assms(2) r] by simp
  then have "live_object B (f o' st1) = (live_object B st1)(a \<mapsto> g o')"
    using assms(1) by (simp add: changes_to_def)
  then show ?thesis using GetOrNew_object [OF assms(2) r] by (simp add: on_object_def r)
qed

lemma changes_toI:
  assumes "\<And>o'. so_address (g o') = so_address o' \<and> so_deleted (g o') = so_deleted o'"
  shows "changes_to B (\<lambda>o' st. setStateObject (g o') (journal_append (e o' st) st)) g"
  using assms
  by (auto simp: changes_to_def object_at_def live_object_set fun_eq_iff
      live_object_cong [of "journal_append e st" st for e st])

lemma setters_change:
  "changes_to B (stateObject_SetBalance b) (stateObject_setBalance b)"
  "changes_to B (stateObject_SetNonce n) (stateObject_setNonce n)"
  "changes_to B (stateObject_SetCode B h c) (stateObject_setCode h (Some c))"
  "changes_to B (stateObject_SetState B k v) (stateObject_setState k v)"
  unfolding stateObject_SetBalance_def [abs_def] stateObject_SetNonce_def [abs_def]
    stateObject_SetCode_def [abs_def] stateObject_SetState_def [abs_def]
  by (intro changes_toI, simp)+

lemma same_balance: "stateObject_setBalance (acc_Balance (so_data o')) o' = o'"
  by (simp add: stateObject_setBalance_def)

lemma live_touch: "live_object B (stateObject_touch o' st) = live_object B st"
  by (rule live_object_cong) (simp_all add: stateObject_touch_def journal_dirty_def Let_def)

lemma AddBalance_change:
  "changes_to B (stateObject_AddBalance B v) (\<lambda>o'. stateObject_setBalance (acc_Balance (so_data o') + v) o')"
  "changes_to B (stateObject_SubBalance v) (\<lambda>o'. stateObject_setBalance (acc_Balance (so_data o') - v) o')"
  using setters_change(1) [of B]
  by (auto simp: changes_to_def stateObject_AddBalance_def stateObject_SubBalance_def same_balance
      object_at_def fun_upd_idem live_touch sgn_0_0)

section \<open>Balances\<close>

lemma GetBalance_new: "StateDB_GetBalance B st a = acc_Balance (so_data (object_or_new B st a))"
  by (simp add: StateDB_GetBalance_def object_or_new_def stateObject_setNonce_def newObject_def
      new_Account_def split: option.split)

lemma GetBalance_Add:
  assumes "objects_ok st"
  shows "StateDB_GetBalance B (StateDB_AddBalance B st a v) =
    (StateDB_GetBalance B st)(a := StateDB_GetBalance B st a + v)"
  using on_object_live [OF AddBalance_change(1) assms, where a = a]
  by (auto simp: StateDB_AddBalance_def fun_eq_iff GetBalance_new [of B st a])
    (auto simp: StateDB_GetBalance_def stateObject_setBalance_def)

lemma GetBalance_Sub:
  assumes "objects_ok st"
  shows "StateDB_GetBalance B (StateDB_SubBalance B st a v) =
    (StateDB_GetBalance B st)(a := StateDB_GetBalance B st a - v)"
  using on_object_live [OF AddBalance_change(2) assms, where a = a]
  by (auto simp: StateDB_SubBalance_def fun_eq_iff GetBalance_new [of B st a])
    (auto simp: StateDB_GetBalance_def stateObject_setBalance_def)

text \<open>The sum of all balances.\<close>

definition total_supply :: "Database \<Rightarrow> statedb \<Rightarrow> int" where
  "total_supply B st = (\<Sum>a\<in>UNIV. StateDB_GetBalance B st a)"

lemma sum_upd: "(\<Sum>a\<in>(UNIV :: 'a :: finite set). (f(b := x)) a) = (\<Sum>a\<in>UNIV. f a) - f b + (x :: int)"
proof -
  have "(\<Sum>a\<in>UNIV. (f(b := x)) a) = x + (\<Sum>a\<in>UNIV - {b}. (f(b := x)) a)"
    by (subst sum.remove [of _ b]) simp_all
  also have "(\<Sum>a\<in>UNIV - {b}. (f(b := x)) a) = (\<Sum>a\<in>UNIV - {b}. f a)" by (rule sum.cong) auto
  also have "\<dots> = (\<Sum>a\<in>UNIV. f a) - f b" by (subst sum.remove [of UNIV b]) simp_all
  finally show ?thesis by simp
qed

lemma GetBalance_Transfer:
  assumes "objects_ok st"
  shows "StateDB_GetBalance B (Transfer (state_db B) st sender recipient v) =
    (let f = (StateDB_GetBalance B st)(sender := StateDB_GetBalance B st sender - v)
     in f(recipient := f recipient + v))"
proof -
  have "objects_ok (StateDB_SubBalance B st sender v)"
    using on_object_extends [OF SubBalance_step assms] by (auto simp: StateDB_SubBalance_def extends_def)
  then show ?thesis
    by (simp add: Transfer_def state_db_def GetBalance_Add GetBalance_Sub assms Let_def del: fun_upd_apply)
qed

lemma total_supply_Transfer:
  "objects_ok st \<Longrightarrow> total_supply B (Transfer (state_db B) st sender recipient v) = total_supply B st"
  by (simp add: total_supply_def GetBalance_Transfer Let_def sum_upd del: fun_upd_apply)

section \<open>What was written is read back\<close>

lemma GetNonce_Set:
  assumes "objects_ok st"
  shows "StateDB_GetNonce B (StateDB_SetNonce B st a n) = (StateDB_GetNonce B st)(a := n)"
  using on_object_live [OF setters_change(2) assms, where a = a]
  by (auto simp: StateDB_SetNonce_def StateDB_GetNonce_def stateObject_setNonce_def fun_eq_iff)

lemma GetCode_Set:
  assumes "objects_ok st"
  shows "StateDB_GetCode B (StateDB_SetCode B st a c) = (StateDB_GetCode B st)(a := c)"
  using on_object_live [OF setters_change(3) assms, where a = a]
  by (auto simp: StateDB_SetCode_def StateDB_GetCode_def stateObject_Code_def stateObject_setCode_def fun_eq_iff)

lemma GetCodeSize_Set:
  assumes "objects_ok st"
  shows "StateDB_GetCodeSize B (StateDB_SetCode B st a c) = (StateDB_GetCodeSize B st)(a := length c)"
  using on_object_live [OF setters_change(3) assms, where a = a]
  by (auto simp: StateDB_SetCode_def StateDB_GetCodeSize_def stateObject_setCode_def fun_eq_iff)

lemma CreateAccount_live:
  assumes "objects_ok st"
  shows "live_object B (CreateAccount B st a) = (live_object B st)(a \<mapsto>
    stateObject_setBalance (StateDB_GetBalance B st a) (stateObject_setNonce 0 (newObject B a new_Account)))"
proof -
  obtain newobj prev st1 where c: "createObject B a st = ((newobj, prev), st1)" by (metis prod.exhaust)
  note made = createObject_extends [OF assms c] and live = createObject_live [OF assms c]
  show ?thesis
  proof (cases prev)
    case None
    then have "StateDB_GetBalance B st a = 0" using made(2) by (simp add: StateDB_GetBalance_def)
    then show ?thesis
      using None made(1) live
      by (simp add: CreateAccount_def c) (simp add: stateObject_setBalance_def stateObject_setNonce_def
          newObject_def new_Account_def)
  next
    case (Some p)
    then have "StateDB_GetBalance B st a = acc_Balance (so_data p)"
      using made(2) by (simp add: StateDB_GetBalance_def split: option.splits)
    then show ?thesis
      using Some made(1) live by (auto simp: CreateAccount_def c live_object_set fun_eq_iff)
  qed
qed

text \<open>A contract that is created at an address with a balance carries the balance over.\<close>

lemma CreateAccount_getters:
  assumes "objects_ok st"
  shows "StateDB_GetBalance B (CreateAccount B st a) = StateDB_GetBalance B st"
    and "StateDB_GetNonce B (CreateAccount B st a) = (StateDB_GetNonce B st)(a := 0)"
    and "StateDB_GetCode B (CreateAccount B st a) = (StateDB_GetCode B st)(a := [])"
  unfolding StateDB_GetBalance_def StateDB_GetNonce_def StateDB_GetCode_def fun_eq_iff CreateAccount_live [OF assms]
  by (auto simp: StateDB_GetBalance_def stateObject_setBalance_def stateObject_setNonce_def stateObject_Code_def
      newObject_def new_Account_def)

section \<open>A change of the world\<close>

text \<open>An account as the getters show it, or a new one where there is none.\<close>

definition account_in :: "Database \<Rightarrow> world \<Rightarrow> address \<Rightarrow> account_view" where
  "account_in B w a =
    (case w_accounts w a of
       Some v \<Rightarrow> v
     | None \<Rightarrow> view_object B (stateObject_setNonce 0 (newObject B a new_Account)))"

lemma view_new: "view_object B (object_or_new B st a) = account_in B (world_of B st) a"
  by (simp add: account_in_def object_or_new_def world_of_def split: option.split)

lemma getters_of_account:
  "StateDB_GetBalance B st a = av_Balance (account_in B (world_of B st) a)"
  "StateDB_GetNonce B st a = av_Nonce (account_in B (world_of B st) a)"
  by (simp_all add: GetBalance_new view_new [symmetric] view_object_def StateDB_GetNonce_def object_or_new_def
      stateObject_setNonce_def split: option.split)

lemma account_set:
  assumes "changes_to B f g" and "objects_ok st"
  shows "account_in B (world_of B (on_object B st a f)) =
    (account_in B (world_of B st))(a := view_object B (g (object_or_new B st a)))"
  using on_object_live [OF assms, of a] by (auto simp: account_in_def world_of_def fun_eq_iff)

lemma objects_ok_on_object: "object_step B f \<Longrightarrow> objects_ok st \<Longrightarrow> objects_ok (on_object B st a f)"
  using on_object_extends [of B f st a] by (auto simp: extends_def)

text \<open>The parts of the world that are not accounts.\<close>

definition apart :: "statedb \<Rightarrow> statedb \<Rightarrow> bool" where
  "apart st st' \<longleftrightarrow> st_trie st' = st_trie st \<and> st_refund st' = st_refund st \<and> st_thash st' = st_thash st \<and>
    st_bhash st' = st_bhash st \<and> st_txIndex st' = st_txIndex st \<and> st_logs st' = st_logs st \<and>
    st_logSize st' = st_logSize st \<and> st_preimages st' = st_preimages st"

lemma apart_refl [simp]: "apart st st"
  by (simp add: apart_def)

lemma apart_steps [simp]:
  "apart st (setStateObject o' st') = apart st st'"
  "apart st (journal_append e st') = apart st st'"
  "apart st (journal_dirty b st') = apart st st'"
  by (auto simp: apart_def setStateObject_def journal_append_def journal_dirty_def Let_def split: option.split)

lemma apart_get: "getStateObject B a st = (r, st') \<Longrightarrow> apart st0 st' = apart st0 st"
  by (auto simp: getStateObject_def Let_def split: option.splits if_splits)

lemma apart_create: "createObject B a st = (r, st') \<Longrightarrow> apart st0 st' = apart st0 st"
  by (auto simp: createObject_def Let_def apart_get split: option.splits prod.splits)

lemma apart_GetOrNew: "GetOrNewStateObject B a st = (o', st') \<Longrightarrow> apart st0 st' = apart st0 st"
  by (auto simp: GetOrNewStateObject_def Let_def split: option.splits prod.splits if_splits
      dest!: apart_get [of _ _ _ _ _ st0] apart_create [of _ _ _ _ _ st0])

lemma apart_CreateAccount: "apart st (CreateAccount B st a)"
  by (auto simp: CreateAccount_def Let_def split: option.splits prod.splits dest!: apart_create [of _ _ _ _ _ st])

lemma on_object_apart:
  assumes "\<And>o' st'. apart st st' \<Longrightarrow> apart st (f o' st')"
  shows "apart st (on_object B st a f)"
  using assms by (auto simp: on_object_def split: prod.splits dest!: apart_GetOrNew [of _ _ _ _ _ st])

definition with_account :: "address \<Rightarrow> account_view \<Rightarrow> world \<Rightarrow> world" where
  "with_account a v w = w\<lparr>w_accounts := (w_accounts w)(a \<mapsto> v)\<rparr>"

lemma world_with:
  assumes "apart st st'" and "live_object B st' = (live_object B st)(a \<mapsto> o')"
  shows "world_of B st' = with_account a (view_object B o') (world_of B st)"
  using assms by (auto simp: world_of_def with_account_def apart_def logs_of_def fun_eq_iff)

text \<open>The setters write one field of one account, and nothing else in the world changes.\<close>

lemma world_on_object:
  assumes "changes_to B f g" and "objects_ok st" and "\<And>o' st'. apart st st' \<Longrightarrow> apart st (f o' st')"
  shows "world_of B (on_object B st a f) = with_account a (view_object B (g (object_or_new B st a))) (world_of B st)"
  by (rule world_with [OF on_object_apart [OF assms(3)] on_object_live [OF assms(1,2)]])

lemma setters_apart:
  assumes "apart st st'"
  shows "apart st (stateObject_SetBalance b o' st')" "apart st (stateObject_SetNonce n o' st')"
    "apart st (stateObject_SetCode B h c o' st')" "apart st (stateObject_SetState B k v o' st')"
    "apart st (stateObject_AddBalance B x o' st')" "apart st (stateObject_SubBalance x o' st')"
  using assms
  by (simp_all add: stateObject_SetBalance_def stateObject_SetNonce_def stateObject_SetCode_def stateObject_SetState_def
      stateObject_AddBalance_def stateObject_SubBalance_def stateObject_touch_def Let_def)

lemma balance_of_new: "acc_Balance (so_data (object_or_new B st a)) = av_Balance (account_in B (world_of B st) a)"
  by (simp flip: view_new) (simp add: view_object_def)

lemma world_setters:
  assumes "objects_ok st"
  shows "world_of B (StateDB_SetNonce B st a n) =
      with_account a ((account_in B (world_of B st) a)\<lparr>av_Nonce := n\<rparr>) (world_of B st)"
    and "world_of B (StateDB_SetCode B st a c) =
      with_account a ((account_in B (world_of B st) a)\<lparr>av_CodeHash := Hash_Bytes (dbs_Keccak256Hash B c), av_Code := c\<rparr>)
        (world_of B st)"
    and "world_of B (StateDB_SetState B st a k v) =
      with_account a ((account_in B (world_of B st) a)
        \<lparr>av_Storage := (av_Storage (account_in B (world_of B st) a))(k := v)\<rparr>) (world_of B st)"
    and "world_of B (StateDB_AddBalance B st a x) =
      with_account a ((account_in B (world_of B st) a)\<lparr>av_Balance := av_Balance (account_in B (world_of B st) a) + x\<rparr>)
        (world_of B st)"
    and "world_of B (StateDB_SubBalance B st a x) =
      with_account a ((account_in B (world_of B st) a)\<lparr>av_Balance := av_Balance (account_in B (world_of B st) a) - x\<rparr>)
        (world_of B st)"
  unfolding StateDB_SetNonce_def StateDB_SetCode_def StateDB_SetState_def StateDB_AddBalance_def StateDB_SubBalance_def
  by (simp_all add: world_on_object [OF setters_change(2) assms] world_on_object [OF setters_change(3) assms]
      world_on_object [OF setters_change(4) assms] world_on_object [OF AddBalance_change(1) assms]
      world_on_object [OF AddBalance_change(2) assms] setters_apart view_object_setters view_new code_of_def balance_of_new)

text \<open>A slot that is not written keeps its value; a new account has the slots under the root \<open>0\<close>.\<close>

lemma GetState_Set:
  assumes "objects_ok st"
  shows "StateDB_GetState B (StateDB_SetState B st a k v) b j =
    (if b = a then if j = k then v else av_Storage (account_in B (world_of B st) a) j
     else StateDB_GetState B st b j)"
  using on_object_live [OF setters_change(4) assms, where a = a]
  by (auto simp: StateDB_SetState_def StateDB_GetState_def stateObject_setState_def stateObject_GetState_def
      mget_mput view_object_def simp flip: view_new split: option.split)

text \<open>An account made afresh keeps the balance that was at its address, and nothing else.\<close>

lemma world_CreateAccount:
  assumes "objects_ok st"
  shows "world_of B (CreateAccount B st a) = with_account a
    \<lparr>av_Nonce = 0, av_Balance = StateDB_GetBalance B st a, av_Root = 0, av_CodeHash = emptyCodeHash B, av_Code = [],
     av_Storage = dbs_storage B a 0, av_suicided = False\<rparr> (world_of B st)"
  using world_with [OF apart_CreateAccount CreateAccount_live [OF assms]]
  by (simp add: view_object_def stateObject_setBalance_def stateObject_setNonce_def newObject_def new_Account_def
      code_of_def stateObject_GetState_def [abs_def])

section \<open>Ending an account\<close>

definition addressed :: "statedb \<Rightarrow> bool" where
  "addressed st \<longleftrightarrow> (\<forall>a o'. mget (st_stateObjects st) a = Some o' \<longrightarrow> so_address o' = a)"

lemma finalise_other:
  assumes "addressed st"
  shows "addressed (finalise_address B d st b)"
    and "a \<noteq> b \<Longrightarrow> mget (st_stateObjects (finalise_address B d st b)) a = mget (st_stateObjects st) a"
    and "a \<noteq> b \<Longrightarrow> st_trie (finalise_address B d st b) a = st_trie st a"
  using assms
  by (auto simp: finalise_address_def Let_def addressed_def deleteStateObject_def updateStateObject_def
      updateRoot_def setStateObject_def mget_mput split: option.split)

definition doomed :: "Database \<Rightarrow> bool \<Rightarrow> stateObject \<Rightarrow> bool" where
  "doomed B d o' \<longleftrightarrow> so_suicided o' \<or> d \<and> stateObject_empty B o'"

lemma finalise_doomed:
  assumes "addressed st" and "mget (st_stateObjects st) a = Some o'" and "doomed B d o'"
  shows "st_trie (finalise_address B d st a) a = None"
    and "mget (st_stateObjects (finalise_address B d st a)) a = Some (o'\<lparr>so_deleted := True\<rparr>)"
  using assms
  by (auto simp: finalise_address_def Let_def addressed_def deleteStateObject_def doomed_def
      setStateObject_def mget_mput)

lemma finalise_loop_other:
  "addressed st \<Longrightarrow> a \<notin> set as \<Longrightarrow>
    mget (st_stateObjects (foldl (finalise_address B d) st as)) a = mget (st_stateObjects st) a \<and>
    st_trie (foldl (finalise_address B d) st as) a = st_trie st a"
  by (induction as arbitrary: st) (simp_all add: finalise_other)

lemma finalise_loop_doomed:
  "addressed st \<Longrightarrow> mget (st_stateObjects st) a = Some o' \<Longrightarrow> doomed B d o' \<Longrightarrow>
    a \<in> set as \<or> so_deleted o' \<and> st_trie st a = None \<Longrightarrow>
    \<exists>o1. mget (st_stateObjects (foldl (finalise_address B d) st as)) a = Some o1 \<and> so_deleted o1 \<and>
      st_trie (foldl (finalise_address B d) st as) a = None"
proof (induction as arbitrary: st o')
  case (Cons b as)
  show ?case
  proof (cases "a = b")
    case True
    have "doomed B d (o'\<lparr>so_deleted := True\<rparr>)"
      using Cons.prems(3) by (simp add: doomed_def stateObject_empty_def)
    then show ?thesis
      using Cons.IH [OF finalise_other(1) [OF Cons.prems(1), of B d a] finalise_doomed(2) [OF Cons.prems(1-3)]]
        finalise_doomed(1) [OF Cons.prems(1-3)] True by simp
  next
    case False
    then show ?thesis
      using Cons.IH [OF finalise_other(1) [OF Cons.prems(1), of B d b], of o'] Cons.prems
      by (simp add: finalise_other)
  qed
qed simp

lemma objects_addressed: "objects_ok st \<Longrightarrow> addressed st"
  by (auto simp: objects_ok_def addressed_def)

text \<open>\<open>Finalise\<close> deletes the dirty accounts that ended themselves, or are empty.\<close>

lemma Finalise_fields:
  "st_stateObjects (clearJournalAndRefund st) = st_stateObjects st"
  "st_trie (clearJournalAndRefund st) = st_trie st"
  by (simp_all add: clearJournalAndRefund_def)

lemma Finalise_doomed:
  assumes "objects_ok st" and "a \<in> set (mkeys (st_dirties st))"
    and "mget (st_stateObjects st) a = Some o'" and "doomed B d o'"
  shows "live_object B (StateDB_Finalise B d st) a = None"
    and "st_trie (StateDB_Finalise B d st) a = None"
  using finalise_loop_doomed [OF objects_addressed [OF assms(1)] assms(3,4), of "mkeys (st_dirties st)"] assms(2)
  by (auto simp: StateDB_Finalise_def live_object_eq Finalise_fields)

lemma Finalise_other:
  assumes "objects_ok st" and "a \<notin> set (mkeys (st_dirties st))"
  shows "live_object B (StateDB_Finalise B d st) a = live_object B st a"
    and "st_trie (StateDB_Finalise B d st) a = st_trie st a"
  using finalise_loop_other [OF objects_addressed [OF assms(1)] assms(2), of B d]
  by (simp_all add: StateDB_Finalise_def live_object_eq Finalise_fields split: option.split)

lemma Suicide_object:
  assumes ok: "objects_ok st" and ex: "StateDB_Exist B st a"
  shows "fst (StateDB_Suicide B st a)"
    and "\<exists>o'. mget (st_stateObjects (snd (StateDB_Suicide B st a))) a = Some o' \<and> so_suicided o' \<and>
      acc_Balance (so_data o') = 0 \<and> \<not> so_deleted o'"
    and "a \<in> set (mkeys (st_dirties (snd (StateDB_Suicide B st a))))"
    and "objects_ok (snd (StateDB_Suicide B st a))"
proof -
  obtain r st1 where r: "getStateObject B a st = (r, st1)" by fastforce
  note found = getStateObject_silent [OF ok r]
  obtain o' where o': "r = Some o'" using found ex by (auto simp: StateDB_Exist_def)
  with found have "so_address o' = a" "\<not> so_deleted o'" by auto
  then show "fst (StateDB_Suicide B st a)"
    and "\<exists>o'. mget (st_stateObjects (snd (StateDB_Suicide B st a))) a = Some o' \<and> so_suicided o' \<and>
      acc_Balance (so_data o') = 0 \<and> \<not> so_deleted o'"
    and "a \<in> set (mkeys (st_dirties (snd (StateDB_Suicide B st a))))"
    by (simp_all add: StateDB_Suicide_def r o' setStateObject_def mget_mput stateObject_setBalance_def
        markSuicided_def journal_append_def journal_dirty_def Let_def keys_mput)
  show "objects_ok (snd (StateDB_Suicide B st a))"
    using Suicide_extends [OF ok] by (auto simp: extends_def)
qed

lemma Suicide_then_Finalise:
  assumes "objects_ok st" and "StateDB_Exist B st a"
  shows "StateDB_GetBalance B (snd (StateDB_Suicide B st a)) a = 0"
    and "StateDB_HasSuicided B (snd (StateDB_Suicide B st a)) a"
    and "\<not> StateDB_Exist B (StateDB_Finalise B d (snd (StateDB_Suicide B st a))) a"
    and "st_trie (StateDB_Finalise B d (snd (StateDB_Suicide B st a))) a = None"
proof -
  note s = Suicide_object [OF assms]
  obtain o' where o': "mget (st_stateObjects (snd (StateDB_Suicide B st a))) a = Some o'" "so_suicided o'"
    "acc_Balance (so_data o') = 0" "\<not> so_deleted o'" using s(2) by blast
  then show "StateDB_GetBalance B (snd (StateDB_Suicide B st a)) a = 0"
    and "StateDB_HasSuicided B (snd (StateDB_Suicide B st a)) a"
    by (simp_all add: StateDB_GetBalance_def StateDB_HasSuicided_def live_object_eq)
  have "doomed B d o'" using o' by (simp add: doomed_def)
  then show "\<not> StateDB_Exist B (StateDB_Finalise B d (snd (StateDB_Suicide B st a))) a"
    and "st_trie (StateDB_Finalise B d (snd (StateDB_Suicide B st a))) a = None"
    using Finalise_doomed [OF s(4,3) o'(1)] by (simp_all add: StateDB_Exist_def)
qed

end
