(* ===== verification/State_Fees.thy ===== *)
theory State_Fees
  imports State_Transition State_Accounts
begin

text \<open>
  What a transaction costs on the state database: a message whose call fails changes the nonce of
  its sender and moves the fee to the coinbase, and nothing else.
\<close>

definition pay :: "int \<Rightarrow> address \<Rightarrow> (address \<Rightarrow> account_view) \<Rightarrow> address \<Rightarrow> account_view" where
  "pay v a f = f(a := (f a)\<lparr>av_Balance := av_Balance (f a) + v\<rparr>)"

definition bump :: "address \<Rightarrow> (address \<Rightarrow> account_view) \<Rightarrow> address \<Rightarrow> account_view" where
  "bump a f = f(a := (f a)\<lparr>av_Nonce := av_Nonce (f a) + 1\<rparr>)"

lemma pay_bump: "pay v a (bump a (pay w a f)) = pay (w + v) a (bump a f)"
  by (simp add: pay_def bump_def fun_eq_iff)

lemma pay_pay: "pay v a (pay w a f) = pay (w + v) a f"
  by (simp add: pay_def fun_eq_iff)

text \<open>The operations that a transition uses, on the accounts of the world.\<close>

lemma account_AddBalance:
  "objects_ok st \<Longrightarrow> account_in B (world_of B (StateDB_AddBalance B st a v)) = pay v a (account_in B (world_of B st))"
  by (simp add: StateDB_AddBalance_def account_set [OF AddBalance_change(1)] view_object_setters view_new pay_def balance_of_new)

lemma account_SubBalance:
  "objects_ok st \<Longrightarrow> account_in B (world_of B (StateDB_SubBalance B st a v)) = pay (- v) a (account_in B (world_of B st))"
  by (simp add: StateDB_SubBalance_def account_set [OF AddBalance_change(2)] view_object_setters view_new pay_def balance_of_new)

lemma account_SetNonce:
  assumes "objects_ok st"
  shows "account_in B (world_of B (StateDB_SetNonce B st a (StateDB_GetNonce B st a + 1))) =
    bump a (account_in B (world_of B st))"
  using assms
  by (simp add: StateDB_SetNonce_def account_set [OF setters_change(2)] view_object_setters view_new bump_def getters_of_account)

lemma on_object_refund:
  assumes "\<And>o' st. st_refund (f o' st) = st_refund st"
  shows "st_refund (on_object B st a f) = st_refund st"
  using assms
  by (auto simp: on_object_def GetOrNewStateObject_def createObject_def getStateObject_def Let_def
      split: option.split prod.splits)

lemma setters_refund [simp]:
  "st_refund (StateDB_SubBalance B st a v) = st_refund st"
  "st_refund (StateDB_SetNonce B st a n) = st_refund st"
  unfolding StateDB_SubBalance_def StateDB_SetNonce_def
  by (rule on_object_refund, simp add: stateObject_SubBalance_def stateObject_SetBalance_def
      stateObject_SetNonce_def)+

section \<open>A message that fails\<close>

text \<open>How a transition gets to its end: the state after the gas is bought, and the run.\<close>

lemma transition_steps:
  assumes run: "TransitionDb E (NewStateTransition evm msg gp) = Inr ((ret, used, failed, None), tr)"
  obtains st ig st2 vmerr where
    "st = (NewStateTransition evm msg gp)\<lparr>tr_gp := gp - msg_gasLimit msg, tr_gas := msg_gasLimit msg - ig,
      tr_initialGas := msg_gasLimit msg, tr_evm := evm\<lparr>evm_StateDB := db_SubBalance (env_db E) (evm_StateDB evm)
        (msg_from msg) (uint (msg_gasLimit msg) * msg_gasPrice msg)\<rparr>\<rparr>"
    and "msg_gasLimit msg \<le> gp" and "ig \<le> msg_gasLimit msg"
    and "execute_message E st = Inr ((ret, vmerr), st2)" and "vmerr \<noteq> Some ErrInsufficientBalance"
    and "settle E ((ret, vmerr), st2) = Inr ((ret, used, failed, None), tr)" and "failed \<longleftrightarrow> vmerr \<noteq> None"
proof -
  obtain st0 where p: "preCheck E (NewStateTransition evm msg gp) = (None, st0)"
    using run by (cases "preCheck E (NewStateTransition evm msg gp)")
      (auto simp: TransitionDb_def split: option.splits)
  note b = preCheck_bought [OF p]
  have st0: "tr_data st0 = msg_data msg" "tr_msg st0 = msg" "tr_gas st0 = msg_gasLimit msg"
    unfolding b(4) by (simp_all add: NewStateTransition_def)
  obtain ig where ig: "IntrinsicGas (msg_data msg) (msg_to msg = None) (IsHomestead E) = Inr ig"
    "\<not> msg_gasLimit msg < ig"
    using run p st0 by (auto simp: TransitionDb_def useGas_def split: sum.splits if_splits)
  then have use: "useGas ig st0 = (None, st0\<lparr>tr_gas := msg_gasLimit msg - ig\<rparr>)" by (simp add: useGas_def st0)
  have rest: "bindR (execute_message E (st0\<lparr>tr_gas := msg_gasLimit msg - ig\<rparr>)) (settle E) =
      Inr ((ret, used, failed, None), tr)"
    using run p st0 ig use by (simp add: TransitionDb_def)
  then obtain ret' vmerr st2 where x: "execute_message E (st0\<lparr>tr_gas := msg_gasLimit msg - ig\<rparr>) = Inr ((ret', vmerr), st2)"
    and set: "settle E ((ret', vmerr), st2) = Inr ((ret, used, failed, None), tr)"
    by (cases "execute_message E (st0\<lparr>tr_gas := msg_gasLimit msg - ig\<rparr>)") auto
  have "vmerr \<noteq> Some ErrInsufficientBalance" "ret' = ret" "failed \<longleftrightarrow> vmerr \<noteq> None"
    using set by (cases "refundGas E st2"; auto simp: settle_def Let_def split: if_splits)+
  with x set b(1) ig(2) show thesis
    by (intro that [of "st0\<lparr>tr_gas := msg_gasLimit msg - ig\<rparr>" ig vmerr st2])
      (simp_all add: b(4) NewStateTransition_def not_less)
qed

lemma failed_no_error:
  assumes "TransitionDb E st = Inr ((ret, used, True, err), tr)"
  shows "err = None"
proof -
  have settled: "e = None" if "settle E x = Inr ((r, u, True, e), t)" for x r u e t
  proof -
    obtain r' v st' where "x = ((r', v), st')" by (metis prod.exhaust)
    with that show ?thesis
      by (cases "refundGas E st'") (auto simp: settle_def Let_def split: if_splits)
  qed
  obtain refused st0 where p: "preCheck E st = (refused, st0)" by (cases "preCheck E st")
  have none: "refused = None" using assms p by (cases refused) (simp_all add: TransitionDb_def)
  show ?thesis
  proof (cases "IntrinsicGas (tr_data st0) (msg_to (tr_msg st0) = None) (IsHomestead E)")
    case (Inl e)
    then show ?thesis using assms p none by (simp add: TransitionDb_def)
  next
    case (Inr ig)
    obtain e1 st1 where u: "useGas ig st0 = (e1, st1)" by fastforce
    then have "e1 = None" using assms p none Inr by (cases e1) (simp_all add: TransitionDb_def)
    with assms p none Inr u obtain x where "settle E x = Inr ((ret, used, True, err), tr)"
      by (cases "execute_message E st1") (auto simp: TransitionDb_def)
    then show ?thesis by (rule settled)
  qed
qed

lemma state_db_fields:
  assumes "env_db E = state_db B"
  shows "db_SubBalance (env_db E) = StateDB_SubBalance B" "db_AddBalance (env_db E) = StateDB_AddBalance B"
    "db_GetNonce (env_db E) = StateDB_GetNonce B" "db_SetNonce (env_db E) = StateDB_SetNonce B"
    "db_GetRefund (env_db E) = StateDB_GetRefund" "db_GetBalance (env_db E) = StateDB_GetBalance B"
  by (simp_all add: assms state_db_def)

text \<open>A call that fails leaves the state as it is after the nonce is raised.\<close>

lemma failed_run:
  assumes E: "env_db E = state_db B" and ok: "state_ok B (tr_db st)" and to: "msg_to (tr_msg st) = Some callee"
    and x: "execute_message E st = Inr ((ret, Some e), st2)"
  defines "who \<equiv> msg_from (tr_msg st)"
  defines "db \<equiv> StateDB_SetNonce B (tr_db st) who (StateDB_GetNonce B (tr_db st) who + 1)"
  shows "state_ok B (tr_db st2)" and "world_of B (tr_db st2) = world_of B db"
    and "tr_gas st2 \<le> tr_gas st" and "same_deal st st2"
proof -
  define evm1 where "evm1 = (tr_evm st)\<lparr>evm_StateDB := db\<rparr>"
  have k: "state_ok B (evm_StateDB evm1)"
    using state_steps.SetNonce_keeps [OF ok, of who "StateDB_GetNonce B (tr_db st) who + 1"]
    by (auto simp: evm1_def db_def state_db_def)
  obtain gas evm2 where c: "Call E (Run E) evm1 (AccountRef who) callee (tr_data st) (tr_gas st) (tr_value st) =
      Inr ((ret, gas, Some e), evm2)" and st2: "tr_evm st2 = evm2"
    using x to
    by (cases "Call E (Run E) evm1 (AccountRef who) callee (tr_data st) (tr_gas st) (tr_value st)")
      (auto simp: execute_message_def Let_def state_db_fields [OF E] tr_to_def set_tr_db_def evm1_def db_def who_def)
  have "sure (call_undone (keeps (state_ok B) (marks B)) (world_of B) evm1)
      (Call E (Run E) evm1 (AccountRef who) callee (tr_data st) (tr_gas st) (tr_value st))"
    by (rule state_snapshots.calls_undone(1) [OF E E k])
  then show "state_ok B (tr_db st2)" and "world_of B (tr_db st2) = world_of B db"
    unfolding c by (auto simp: call_undone_def evm1_def st2)
  show "tr_gas st2 \<le> tr_gas st" and "same_deal st st2"
    using execute_message_ok [of st E] unfolding x by simp_all
qed

lemma failed_message:
  assumes E: "env_db E = state_db B" and ok: "state_ok B (evm_StateDB evm)"
    and refund: "st_refund (evm_StateDB evm) = 0" and to: "msg_to msg = Some callee"
    and run: "TransitionDb E (NewStateTransition evm msg gp) = Inr ((ret, used, True, None), tr)"
  defines "fee \<equiv> uint used * msg_gasPrice msg"
  shows "account_in B (world_of B (tr_db tr)) = pay fee (env_Coinbase E)
    (pay (- fee) (msg_from msg) (bump (msg_from msg) (account_in B (world_of B (evm_StateDB evm)))))"
proof -
  let ?L = "msg_gasLimit msg" and ?who = "msg_from msg" and ?p = "msg_gasPrice msg" and ?st0 = "evm_StateDB evm"
  note D = state_db_fields [OF E]
  obtain st ig st2 vmerr where
    st: "st = (NewStateTransition evm msg gp)\<lparr>tr_gp := gp - ?L, tr_gas := ?L - ig,
      tr_initialGas := ?L, tr_evm := evm\<lparr>evm_StateDB := db_SubBalance (env_db E) ?st0 ?who (uint ?L * ?p)\<rparr>\<rparr>"
    and le: "?L \<le> gp" "ig \<le> ?L" and x: "execute_message E st = Inr ((ret, vmerr), st2)"
    and vmerr: "vmerr \<noteq> Some ErrInsufficientBalance"
    and set: "settle E ((ret, vmerr), st2) = Inr ((ret, used, True, None), tr)"
    and failed: "True \<longleftrightarrow> vmerr \<noteq> None"
    by (rule transition_steps [OF run])
  obtain e where e: "vmerr = Some e" using failed by blast
  define db1 where "db1 = StateDB_SubBalance B ?st0 ?who (uint ?L * ?p)"
  have st1: "tr_db st = db1" "tr_msg st = msg" "tr_gas st = ?L - ig" "tr_initialGas st = ?L"
    "tr_gp st = gp - ?L" "tr_gasPrice st = ?p"
    unfolding st by (simp_all add: D db1_def NewStateTransition_def)
  have k1: "state_ok B db1"
    using state_steps.SubBalance_keeps [OF ok, of ?who "uint ?L * ?p"] by (auto simp: db1_def state_db_def)
  note f = failed_run [OF E _ _ x [unfolded e], unfolded st1, OF k1 to]
  have deal: "tr_msg st2 = msg" "tr_initialGas st2 = ?L" "tr_gp st2 = gp - ?L" "tr_gasPrice st2 = ?p"
    using f(4) by (simp_all add: same_deal_def st1)
  have gas: "tr_gas st2 \<le> ?L" using f(3) le(2) by (auto simp: word_le_nat_alt unat_sub)
  have "st_refund (tr_db st2) = 0"
    using f(2) refund by (metis setters_refund db1_def world.select_convs(3) world_of_def)
  then obtain g where g: "refundGas E st2 = Inr ((set_tr_db (db_AddBalance (env_db E) (tr_db st2) (msg_from (tr_msg st2))
      (uint g * tr_gasPrice st2)) st2)\<lparr>tr_gas := g, tr_gp := tr_gp st2 + g\<rparr>)" "g = tr_gas st2"
    using refundGas_ok [of st2 E] gas le(1) unsigned_less [of gp, where ?'a = nat]
    by (auto simp: deal D StateDB_GetRefund_def unat_sub word_le_nat_alt)
  have used: "used = ?L - tr_gas st2"
    and db: "tr_db tr = StateDB_AddBalance B (StateDB_AddBalance B (tr_db st2) ?who (uint (tr_gas st2) * ?p))
      (env_Coinbase E) (uint used * ?p)"
    using set vmerr by (auto simp: settle_def Let_def g D deal set_tr_db_def tr_gasUsed_def)
  have "uint ?L = uint used + uint (tr_gas st2)" using gas by (simp add: used uint_sub_if' word_le_def)
  then have fee: "- (uint ?L * ?p) + uint (tr_gas st2) * ?p = - fee" by (simp add: fee_def distrib_right)
  have "account_in B (world_of B (tr_db st2)) =
      bump ?who (pay (- (uint ?L * ?p)) ?who (account_in B (world_of B ?st0)))"
    unfolding f(2) using k1 ok by (simp add: db1_def account_SetNonce account_SubBalance state_ok_objects)
  moreover have "objects_ok (StateDB_AddBalance B (tr_db st2) ?who (uint (tr_gas st2) * ?p))"
    unfolding StateDB_AddBalance_def by (rule objects_ok_on_object [OF AddBalance_step state_ok_objects [OF f(1)]])
  ultimately show ?thesis
    using f(1) fee unfolding db by (simp add: account_AddBalance state_ok_objects pay_pay pay_bump fee_def)
qed

end
