(* ===== verification/State_Samples.thy ===== *)
theory State_Samples
  imports State_Fees
begin

text \<open>
  A small state with two accounts, an environment that works on it and a contract that adds two
  numbers, on which the properties of the virtual machine and of the state are exercised.
\<close>

definition sample_db :: Database where
  "sample_db =
    \<lparr>dbs_Keccak256Hash = (\<lambda>b. of_nat (length b)), dbs_storage = (\<lambda>a r k. 0), dbs_ContractCode = (\<lambda>h. []),
     dbs_updateRoot = (\<lambda>a r w. 0), dbs_trieHash = (\<lambda>t. 0)\<rparr>"

definition sample_account :: "int \<Rightarrow> Account" where
  "sample_account b = \<lparr>acc_Nonce = 0, acc_Balance = b, acc_Root = 0, acc_CodeHash = replicate 32 0\<rparr>"

definition sample_state :: statedb where
  "sample_state =
    StateDB_New (\<lambda>a. if a = 1 then Some (sample_account 100) else if a = 2 then Some (sample_account 5) else None)"

definition sample_crypto :: Crypto where
  "sample_crypto =
    \<lparr>cr_Keccak256 = (\<lambda>b. replicate 32 0), cr_sha256 = (\<lambda>b. replicate 32 0),
     cr_ripemd160 = (\<lambda>b. replicate 20 0),
     cr_Ecrecover = (\<lambda>h s. None), cr_newCurvePoint = (\<lambda>b. Inl ''''), cr_newTwistPoint = (\<lambda>b. Inl ''''),
     cr_bn256Add = (\<lambda>a b. []), cr_bn256ScalarMult = (\<lambda>a n. []), cr_bn256PairingCheck = (\<lambda>cs ts. False)\<rparr>"

definition sample_rules :: ChainConfig where
  "sample_rules =
    \<lparr>cc_HomesteadBlock = Some 0, cc_EIP150Block = Some 0, cc_EIP158Block = Some 0,
     cc_ByzantiumBlock = Some 0, cc_ConstantinopleBlock = None\<rparr>"

definition sample_machine :: "'db StateDB \<Rightarrow> 'db VmEnv" where
  "sample_machine D =
    \<lparr>env_db = D, env_crypto = sample_crypto, env_chainConfig = sample_rules, env_GetHash = (\<lambda>n. 0),
     env_Origin = 1, env_GasPrice = 1, env_Coinbase = 7, env_GasLimit = 1000000, env_BlockNumber = 1,
     env_Time = 1, env_Difficulty = 1, env_NoRecursion = False, env_EnablePreimageRecording = False\<rparr>"

definition sample_vm :: "statedb VmEnv" where
  "sample_vm = sample_machine (state_db sample_db)"

text \<open>\<open>PUSH1 2 PUSH1 3 ADD STOP\<close>\<close>

definition sample_code :: bytes where
  "sample_code = [0x60, 2, 0x60, 3, 0x01, 0x00]"

definition sample_contract :: Contract where
  "sample_contract =
    \<lparr>ct_CallerAddress = 1, ct_self = 2, ct_Code = sample_code, ct_CodeHash = 1,
     ct_CodeAddr = None, ct_Input = [], ct_Gas = 100, ct_value = 0, ct_DelegateCall = False\<rparr>"

lemma sample_account_ok [simp]: "account_ok (sample_account b)"
  by (simp add: account_ok_def sample_account_def)

lemma sample_state_ok [simp]: "state_ok sample_db sample_state"
  by (simp add: state_ok_def objects_ok_def revisions_ok_def sample_state_def StateDB_New_def sample_db_def)

lemma sample_objects_ok [simp]: "objects_ok sample_state"
  using sample_state_ok by (rule state_ok_objects)

lemma sample_vm_db [simp]: "env_db sample_vm = state_db sample_db"
  by (simp add: sample_vm_def sample_machine_def)

lemma NewEVM_db [simp]: "evm_StateDB (NewEVM st) = st"
  by (simp add: NewEVM_def)

lemma sample_frame_ok [simp]: "frame_ok (start_frame (NewEVM st) sample_contract [])"
  by (simp add: frame_ok_def frame_shape_def start_frame_def memory_ok_def NewMemory_def coherent_def NewEVM_def starts_0)

lemma sample_ContractCode [simp]: "dbs_ContractCode sample_db h = []"
  by (simp add: sample_db_def)

lemma sample_object:
  "live_object sample_db sample_state a =
    (if a = 1 then Some (newObject sample_db 1 (sample_account 100))
     else if a = 2 then Some (newObject sample_db 2 (sample_account 5)) else None)"
  by (simp add: live_object_def getStateObject_def sample_state_def StateDB_New_def Let_def)

lemma sample_balance [simp]:
  "StateDB_GetBalance sample_db sample_state a = (if a = 1 then 100 else if a = 2 then 5 else 0)"
  by (simp add: StateDB_GetBalance_def sample_object newObject_def sample_account_def)

lemma sample_exist [simp]: "StateDB_Exist sample_db sample_state 1"
  by (simp add: StateDB_Exist_def sample_object)

lemma sample_sound [simp]: "sound_state (state_db sample_db) sample_state"
proof -
  have live: "live_object B (StateDB_AddRefund st g) = live_object B st" for B st g
    by (rule live_object_cong) (simp_all add: StateDB_AddRefund_def journal_append_def Let_def)
  show ?thesis
    by (simp add: sound_state_def holds_words_def state_db_def StateDB_GetBalance_def StateDB_GetCodeSize_def StateDB_GetCode_def stateObject_Code_def
        live sample_object newObject_def sample_account_def word_ok_def)
qed

lemma sample_env_ok [simp]: "sound_env (sample_machine D)"
  by (simp add: sound_env_def sample_machine_def sample_crypto_def word_ok_def)

lemma sample_contract_ok [simp]: "sound_contract sample_contract"
  by (simp add: sound_contract_def sample_contract_def sample_code_def word_ok_def)

text \<open>
  A message that calls the precompiled contract 8 with less gas than it asks for, from an account
  that can pay for it.
\<close>

definition rich_state :: statedb where
  "rich_state = StateDB_New (\<lambda>a. if a = 1 then Some (sample_account 100000) else None)"

definition sample_message :: Message where
  "sample_message =
    \<lparr>msg_to = Some 8, msg_from = 1, msg_nonce = 0, msg_amount = 5, msg_gasLimit = 30000, msg_gasPrice = 2,
     msg_data = [1], msg_checkNonce = True\<rparr>"

lemma rich_state_ok [simp]: "state_ok sample_db rich_state"
  by (simp add: state_ok_def objects_ok_def revisions_ok_def rich_state_def StateDB_New_def sample_db_def)

lemma rich_refund [simp]: "st_refund rich_state = 0"
  by (simp add: rich_state_def StateDB_New_def)

lemma sample_message_fails:
  "case TransitionDb sample_vm (NewStateTransition (NewEVM rich_state) sample_message 50000) of
      Inl p \<Rightarrow> False | Inr (r, tr) \<Rightarrow> r = ([], 30000, True, None)"
  by code_simp

end
