(* ===== verification/Core_Bloom.thy ===== *)
theory Core_Bloom
  imports Evm_Gas
begin

text \<open>
  The bloom filter of the logs of a block, \<open>src/gttc/core/types/bloom9.go\<close>: 2048 bits, three of them
  for every address and topic, chosen by the hash (an argument).  A lookup has no false negatives.
\<close>

unbundle bit_operations_syntax

type_synonym Bloom = bytes

definition BloomByteLength :: nat where
  "BloomByteLength = 256"

definition BloomBitLength :: nat where
  "BloomBitLength = 8 * BloomByteLength"

text \<open>\<open>copy(b[BloomByteLength-len(d):], d)\<close>; too long a slice is a panic.\<close>

definition Bloom_SetBytes :: "bytes \<Rightarrow> Bloom \<Rightarrow> abort + Bloom" where
  "Bloom_SetBytes d b =
    (if length b < length d then Inl AbortSlice else Inr (take (BloomByteLength - length d) b @ d))"

definition BytesToBloom :: "bytes \<Rightarrow> abort + Bloom" where
  "BytesToBloom b = Bloom_SetBytes b (replicate BloomByteLength 0)"

text \<open>The bit for the two bytes at \<open>i\<close> of the hash, and the filter of one value.\<close>

definition bloom9_bit :: "bytes \<Rightarrow> nat \<Rightarrow> nat" where
  "bloom9_bit h i = unat (((ucast (h ! (i + 1)) + push_bit 8 (ucast (h ! i))) :: u64) AND 2047)"

definition bloom9 :: "(bytes \<Rightarrow> bytes) \<Rightarrow> bytes \<Rightarrow> int" where
  "bloom9 keccak b =
    (let h = keccak b in foldl (\<lambda>r i. r OR push_bit (bloom9_bit h i) 1) 0 [0, 2, 4])"

definition Bloom_Big :: "Bloom \<Rightarrow> int" where
  "Bloom_Big b = big_SetBytes b"

definition Bloom_Add :: "(bytes \<Rightarrow> bytes) \<Rightarrow> int \<Rightarrow> Bloom \<Rightarrow> abort + Bloom" where
  "Bloom_Add keccak d b = Bloom_SetBytes (big_Bytes (big_SetBytes b OR bloom9 keccak (big_Bytes d))) b"

definition BloomLookup :: "(bytes \<Rightarrow> bytes) \<Rightarrow> Bloom \<Rightarrow> bytes \<Rightarrow> bool" where
  "BloomLookup keccak bin topic =
    (let bloom = Bloom_Big bin; cmp = bloom9 keccak topic in bloom AND cmp = cmp)"

definition Bloom_Test :: "(bytes \<Rightarrow> bytes) \<Rightarrow> int \<Rightarrow> Bloom \<Rightarrow> bool" where
  "Bloom_Test keccak test b = BloomLookup keccak b (big_Bytes test)"

definition Bloom_TestBytes :: "(bytes \<Rightarrow> bytes) \<Rightarrow> bytes \<Rightarrow> Bloom \<Rightarrow> bool" where
  "Bloom_TestBytes keccak test b = Bloom_Test keccak (big_SetBytes test) b"

definition LogsBloom :: "(bytes \<Rightarrow> bytes) \<Rightarrow> Log list \<Rightarrow> int" where
  "LogsBloom keccak logs =
    foldl (\<lambda>bin lg. foldl (\<lambda>bin b. bin OR bloom9 keccak (Hash_Bytes b))
      (bin OR bloom9 keccak (Address_Bytes (log_Address lg))) (log_Topics lg)) 0 logs"

text \<open>The receipts of a block are given by their logs.\<close>

definition CreateBloom :: "(bytes \<Rightarrow> bytes) \<Rightarrow> Log list list \<Rightarrow> abort + Bloom" where
  "CreateBloom keccak receipts =
    BytesToBloom (big_Bytes (foldl (\<lambda>bin logs. bin OR LogsBloom keccak logs) 0 receipts))"

section \<open>No false negatives\<close>

text \<open>\<open>within x\<close>: a number that fits in the filter.  \<open>covers x y\<close>: every bit of \<open>y\<close> is one of \<open>x\<close>.\<close>

definition within :: "int \<Rightarrow> bool" where
  "within x \<longleftrightarrow> 0 \<le> x \<and> x < 2 ^ BloomBitLength"

definition covers :: "int \<Rightarrow> int \<Rightarrow> bool" where
  "covers x y \<longleftrightarrow> x AND y = y"

lemma covers_iff: "covers x y \<longleftrightarrow> (\<forall>n. bit y n \<longrightarrow> bit x n)"
  unfolding covers_def by (subst bit_eq_iff) (auto simp: bit_and_iff)

lemma covers_or [simp]: "covers (x OR y) x" "covers (x OR y) y"
  by (simp_all add: covers_iff bit_or_iff)

lemma covers_refl [simp]: "covers x x"
  by (simp add: covers_iff)

lemma covers_trans: "covers x y \<Longrightarrow> covers y z \<Longrightarrow> covers x z"
  by (simp add: covers_iff)

lemma within_iff: "within x \<longleftrightarrow> take_bit BloomBitLength x = x"
  by (auto simp: within_def take_bit_int_eq_self_iff)

lemma within_or [simp]: "within x \<Longrightarrow> within y \<Longrightarrow> within (x OR y)"
  by (simp add: within_iff take_bit_or)

lemma within_0 [simp]: "within 0"
  by (simp add: within_def)

lemma bloom9_bit_less: "bloom9_bit h i < BloomBitLength"
proof -
  have "x AND 2047 = take_bit 11 x" for x :: u64
    using take_bit_eq_mask [of 11 x] by (simp add: mask_eq_exp_minus_1)
  then have "bloom9_bit h i = take_bit 11 (unat ((ucast (h ! (i + 1)) + push_bit 8 (ucast (h ! i))) :: u64))"
    unfolding bloom9_bit_def by (simp add: unsigned_take_bit_eq)
  then show ?thesis
    using take_bit_nat_less_exp [of 11] by (simp add: BloomBitLength_def BloomByteLength_def)
qed

lemma bloom9_within [simp]: "within (bloom9 keccak b)"
proof -
  have "within (push_bit (bloom9_bit h i) 1)" for h i
    using bloom9_bit_less [of h i] by (simp add: within_def push_bit_eq_mult)
  then show ?thesis by (simp add: bloom9_def Let_def)
qed

text \<open>A fold of \<open>OR\<close> covers its start and every operand.\<close>

lemma fold_or:
  assumes "within x" and "\<And>y. y \<in> set ys \<Longrightarrow> within (f y)"
  shows "within (foldl (\<lambda>bin y. bin OR f y) x ys)" and "covers (foldl (\<lambda>bin y. bin OR f y) x ys) x"
    and "y \<in> set ys \<Longrightarrow> covers (foldl (\<lambda>bin y. bin OR f y) x ys) (f y)"
  using assms
proof (induction ys arbitrary: x)
  case (Cons z zs)
  { case 1 then show ?case using Cons.IH(1) [of "x OR f z"] by simp }
  { case 2 then show ?case using covers_trans [OF Cons.IH(2) covers_or(1)] by simp }
  { case 3 then show ?case
      using covers_trans [OF Cons.IH(2) covers_or(2) [of x "f z"]] Cons.IH(3) [of "x OR f z"] by auto }
qed simp_all

lemma fold_shape: "foldl (\<lambda>bin b. bin OR g b) (x OR y) bs = x OR foldl (\<lambda>bin b. bin OR g b) y bs" for x y :: int
  by (induction bs arbitrary: y) (simp_all add: or.assoc)

text \<open>What one log adds.\<close>

definition log_bloom :: "(bytes \<Rightarrow> bytes) \<Rightarrow> Log \<Rightarrow> int" where
  "log_bloom keccak lg =
    foldl (\<lambda>bin b. bin OR bloom9 keccak (Hash_Bytes b)) (bloom9 keccak (Address_Bytes (log_Address lg))) (log_Topics lg)"

lemma LogsBloom_fold: "LogsBloom keccak logs = foldl (\<lambda>bin lg. bin OR log_bloom keccak lg) 0 logs"
  by (simp add: LogsBloom_def log_bloom_def fold_shape)

lemma log_bloom_ok:
  "within (log_bloom keccak lg)" "covers (log_bloom keccak lg) (bloom9 keccak (Address_Bytes (log_Address lg)))"
  "t \<in> set (log_Topics lg) \<Longrightarrow> covers (log_bloom keccak lg) (bloom9 keccak (Hash_Bytes t))"
  unfolding log_bloom_def
  using fold_or [of "bloom9 keccak (Address_Bytes (log_Address lg))" "log_Topics lg"
      "\<lambda>b. bloom9 keccak (Hash_Bytes b)"] by simp_all

lemma LogsBloom_ok:
  "within (LogsBloom keccak logs)" "lg \<in> set logs \<Longrightarrow> covers (LogsBloom keccak logs) (log_bloom keccak lg)"
  unfolding LogsBloom_fold using fold_or [of 0 logs "log_bloom keccak"] log_bloom_ok(1) by simp_all

lemma SetBytes_value:
  assumes "within x" and "length b = BloomByteLength" and "covers x (big_SetBytes b)"
  shows "\<exists>b'. Bloom_SetBytes (big_Bytes x) b = Inr b' \<and> length b' = BloomByteLength \<and> covers (Bloom_Big b') x"
proof -
  let ?d = "big_Bytes x"
  have "nat x < 256 ^ BloomByteLength"
    using assms(1) by (simp add: within_def BloomBitLength_def power_mult nat_less_iff)
  then have len: "length ?d \<le> BloomByteLength"
    using assms(1) by (simp add: big_Bytes_def within_def length_be_bytes_le)
  let ?b' = "take (BloomByteLength - length ?d) b @ ?d"
  have "Bloom_SetBytes ?d b = Inr ?b'" using len assms(2) by (simp add: Bloom_SetBytes_def)
  moreover have "covers (Bloom_Big ?b') x"
  proof -
    have "be_val ?b' = be_val (take (BloomByteLength - length ?d) b) * 256 ^ length ?d + nat x"
      using assms(1) by (simp add: be_val_append big_Bytes_def within_def)
    moreover have "nat x < 256 ^ length ?d"
      using be_val_less [of ?d] assms(1) by (simp add: big_Bytes_def within_def)
    moreover have "(256 :: int) ^ length ?d = 2 ^ (8 * length ?d)" by (simp add: power_mult)
    ultimately have "Bloom_Big ?b' = push_bit (8 * length ?d) (int (be_val (take (BloomByteLength - length ?d) b))) + x"
      and "x < 2 ^ (8 * length ?d)"
      using assms(1) by (simp_all add: Bloom_Big_def big_SetBytes_def push_bit_eq_mult within_def nat_less_iff)
    moreover from this(2) have "take_bit (8 * length ?d) x = x"
      using assms(1) by (simp add: within_def take_bit_int_eq_self)
    ultimately have "take_bit (8 * length ?d) (Bloom_Big ?b') = x"
      by (metis add_0 take_bit_add take_bit_push_bit diff_self_eq_0 take_bit_0 push_bit_of_0)
    then show ?thesis by (metis bit_take_bit_iff covers_iff)
  qed
  ultimately show ?thesis using len assms(2) by auto
qed

lemma BloomLookup_covers: "BloomLookup keccak b x \<longleftrightarrow> covers (Bloom_Big b) (bloom9 keccak x)"
  by (simp add: BloomLookup_def covers_def Let_def)

text \<open>The filter of a block's receipts can be built, and finds every address and topic of their logs.\<close>

lemma CreateBloom_finds:
  "\<exists>b. CreateBloom keccak receipts = Inr b \<and> length b = BloomByteLength \<and>
    (\<forall>logs \<in> set receipts. \<forall>lg \<in> set logs. BloomLookup keccak b (Address_Bytes (log_Address lg)) \<and>
      (\<forall>t \<in> set (log_Topics lg). BloomLookup keccak b (Hash_Bytes t)))"
proof -
  let ?x = "foldl (\<lambda>bin logs. bin OR LogsBloom keccak logs) 0 receipts"
  have x: "within ?x" "logs \<in> set receipts \<Longrightarrow> covers ?x (LogsBloom keccak logs)" for logs
    using fold_or [of 0 receipts "LogsBloom keccak"] LogsBloom_ok(1) by simp_all
  have "be_val (replicate n 0) = 0" for n by (induction n) (simp_all add: be_val_def)
  then have "covers ?x (big_SetBytes (replicate BloomByteLength 0))"
    by (simp add: big_SetBytes_def covers_def)
  from SetBytes_value [OF x(1) _ this] obtain b where
    b: "CreateBloom keccak receipts = Inr b" "length b = BloomByteLength" and all: "covers (Bloom_Big b) ?x"
    by (auto simp: CreateBloom_def BytesToBloom_def)
  have lg: "covers (Bloom_Big b) (log_bloom keccak lg)" if "logs \<in> set receipts" "lg \<in> set logs" for logs lg
    using covers_trans [OF all covers_trans [OF x(2) LogsBloom_ok(2)]] that by blast
  have "BloomLookup keccak b (Address_Bytes (log_Address lg)) \<and>
      (\<forall>t \<in> set (log_Topics lg). BloomLookup keccak b (Hash_Bytes t))"
    if "logs \<in> set receipts" "lg \<in> set logs" for logs lg
    unfolding BloomLookup_covers using covers_trans [OF lg [OF that]] log_bloom_ok(2,3) by blast
  with b show ?thesis by blast
qed

text \<open>What is added is found, and what was found before still is.\<close>

lemma Bloom_Add_finds:
  assumes "length b = BloomByteLength"
  shows "\<exists>b'. Bloom_Add keccak d b = Inr b' \<and> length b' = BloomByteLength \<and> Bloom_Test keccak d b' \<and>
    (\<forall>x. BloomLookup keccak b x \<longrightarrow> BloomLookup keccak b' x)"
proof -
  have "nat (big_SetBytes b) < 256 ^ BloomByteLength"
    using be_val_less [of b] assms by (simp add: big_SetBytes_def)
  then have "within (big_SetBytes b)"
    by (simp add: within_def BloomBitLength_def power_mult big_SetBytes_def)
  from SetBytes_value [OF within_or [OF this bloom9_within] assms covers_or(1)] obtain b' where
    "Bloom_Add keccak d b = Inr b'" "length b' = BloomByteLength"
    "covers (Bloom_Big b') (big_SetBytes b OR bloom9 keccak (big_Bytes d))"
    unfolding Bloom_Add_def by blast
  moreover from this(3) have "covers (Bloom_Big b') (bloom9 keccak (big_Bytes d))" "covers (Bloom_Big b') (Bloom_Big b)"
    using covers_trans covers_or unfolding Bloom_Big_def by blast+
  ultimately show ?thesis
    unfolding Bloom_Test_def BloomLookup_covers using covers_trans by blast
qed

end
