(* ===== verification/Further_Results.thy ===== *)
theory Further_Results
  imports Alien_Samples State_Samples Core_Bloom
begin

text \<open>
  Facts about the model beside the main properties: smaller operations, text forms, and behaviours
  of the engine that its callers may not expect.
\<close>

text \<open>
  A hostile input that the decoder never finishes. When the next item of a list is the single byte
  0x00 and the elements are one-byte arrays, decodeByteArray answers 0 without consuming the byte,
  so the element loop of a slice stays where it is: it runs out of every amount of fuel and the
  stream never moves.
\<close>

theorem rlp_single_byte_array_hangs:
  assumes "st_kind s = Some Byte" and "st_kinderr s = None" and "st_byteval s = 0"
  shows "decodeByteArray 1 s = (s, Inr (VByteArray [0])) \<and>
    (\<forall>fuel. decodeSliceElems fuel (decodeByteArray 1) s = (s, Inl OutOfFuel))"
  using decodeByteArray_stuck [OF assms] decodeSliceElems_stuck [OF assms] by simp_all

theorem rlp_single_byte_array_hangs_witness:
  "\<forall>fuel. snd (decodeSliceElems fuel (decodeByteArray 1)
     (fst (Stream_Kind (fst (Stream_List (NewStream [0xc1, 0] 2)))))) = Inl OutOfFuel"
proof -
  let ?s = "fst (Stream_Kind (fst (Stream_List (NewStream [0xc1, 0] 2))))"
  have "st_kind ?s = Some Byte" "st_kinderr ?s = None" "st_byteval ?s = 0" by code_simp+
  from rlp_single_byte_array_hangs [OF this] show ?thesis by simp
qed

text \<open>
  The raw scanner agrees with the format. On an encoded string or list followed by anything, Split
  returns its content and exactly what follows; SplitString and SplitList accept the right kind
  and reject the other; ListSize is the length of the encoded list; and CountValues of a
  concatenation of encoded items is their number.
\<close>

theorem raw_split_sound:
  assumes "length b < 2 ^ 62" "length rest < 2 ^ 62"
  shows "Split (enc_list b @ rest) = Inr (List, b, rest) \<and>
    (\<exists>k. Split (enc_string b @ rest) = Inr (k, b, rest) \<and> k \<noteq> List) \<and>
    SplitString (enc_string b @ rest) = Inr (b, rest) \<and> SplitList (enc_list b @ rest) = Inr (b, rest) \<and>
    SplitList (enc_string b @ rest) = Inl ErrExpectedList \<and> SplitString (enc_list b @ rest) = Inl ErrExpectedString \<and>
    unat (ListSize (of_nat (length b))) = length (enc_list b) \<and>
    (list_all rlp_item bs \<longrightarrow> length (concat bs) < 2 ^ 62 \<longrightarrow> CountValues (concat bs) = Inr (length bs))"
  using assms CountValues_from_items [of bs 0] Split_enc_list Split_enc_string SplitString_enc_string SplitString_enc_list
    SplitList_enc_list SplitList_enc_string ListSize_enc_list by (simp_all add: CountValues_def)

theorem raw_split_sound_witness:
  "Split [0xc2, 5, 6, 0x81, 0x90] = Inr (List, [5, 6], [0x81, 0x90])"
proof -
  have "enc_list [5, 6] = [0xc2, 5, 6]" by code_simp
  then show ?thesis using raw_split_sound [of "[5, 6]" "[0x81, 0x90]"] by simp
qed

text \<open>
  Votes that break the books. On a well-formed ledger, let two voters that have not voted before
  vote in the same block for a candidate without a tally entry, the second with a stake other than
  zero. The first vote's stake cell is stored as the tally itself and the second stake is added to
  that very cell, so the first voter is credited with both stakes, and the recount of the snapshot
  as it is after these votes fails with errIncorrectTallyCount.
\<close>

theorem two_first_votes_rejected:
  assumes L: "ledger s" and c: "c \<notin> fst ` set (s_Tally s)" and v: "v1 \<noteq> v2"
    and n1: "v1 \<notin> fst ` set (s_Votes s)" and n2: "v2 \<notin> fst ` set (s_Votes s)" and y: "y \<noteq> 0"
  shows "\<exists>s'. updateSnapshotByVotes pd [\<lparr>v_Voter = v1, v_Candidate = c, v_Stake = x\<rparr>,
      \<lparr>v_Voter = v2, v_Candidate = c, v_Stake = y\<rparr>] n s = Inr s' \<and>
    vote_view s' v1 = Some (v1, c, x + y) \<and> verifyTallyCnt s' = Inl errIncorrectTallyCount"
  by (rule two_votes_new_candidate [OF assms])

theorem two_first_votes_rejected_witness:
  "\<exists>s'. updateSnapshotByVotes True [\<lparr>v_Voter = 5, v_Candidate = 9, v_Stake = 10\<rparr>,
      \<lparr>v_Voter = 6, v_Candidate = 9, v_Stake = 20\<rparr>] 4 sample_genesis = Inr s' \<and>
    vote_view s' 5 = Some (5, 9, 10 + 20) \<and> verifyTallyCnt s' = Inl errIncorrectTallyCount"
  by (rule two_first_votes_rejected [OF sample_ledger]) (simp_all add: sample_genesis_def)

text \<open>
  A crash two corrections after genesis. From a genesis whose only vote is a candidate's vote for
  itself, a correction of that stake to zero followed by the expiry sweep deletes the tally and
  keeps the vote; the recount passes, and the next correction of that voter's stake, on a copy of
  the snapshot, dereferences the missing tally and panics.
\<close>

theorem spent_candidate_panics:
  assumes "newSnapshot now cfg h [\<lparr>v_Voter = a, v_Candidate = a, v_Stake = x\<rparr>] lcrs = Inr s"
  shows "\<exists>s1 s2.
    updateSnapshotByMPVotes [\<lparr>v_Voter = a, v_Candidate = 0, v_Stake = 0\<rparr>] s = Inr s1 \<and>
    updateSnapshotForExpired s1 = Inr s2 \<and> verifyTallyCnt s2 = Inr () \<and>
    updateSnapshotByMPVotes [\<lparr>v_Voter = a, v_Candidate = 0, v_Stake = y\<rparr>] (Snapshot_copy s2) = Inl PanicNil"
  by (rule spent_voter_panics [OF assms])

theorem spent_candidate_panics_witness:
  "\<exists>s s2. newSnapshot 2000 sample_config 77 [\<lparr>v_Voter = 1, v_Candidate = 1, v_Stake = 100\<rparr>] 2 = Inr s \<and>
    verifyTallyCnt s2 = Inr () \<and>
    updateSnapshotByMPVotes [\<lparr>v_Voter = 1, v_Candidate = 0, v_Stake = 40\<rparr>] (Snapshot_copy s2) = Inl PanicNil"
proof -
  have "\<exists>s. newSnapshot 2000 sample_config 77 [\<lparr>v_Voter = 1, v_Candidate = 1, v_Stake = 100\<rparr>] 2 = Inr s"
    by (simp add: newSnapshot_def Let_def sample_config_def)
  then show ?thesis using spent_candidate_panics by blast
qed

text \<open>
  The punishment account. One block raises the punishment of an address by 100 for each time it is
  listed as missing, lowers it by 10 if it sealed the block, and by 1 for everyone, stopping at
  zero; the three passes over the map, with their unsigned subtractions and deletions, compute
  exactly that.
\<close>

theorem punish_balance:
  assumes "distinct (mkeys (s_Punished s))"
    and "punish_level (s_Punished s) a + 100 * count_list missing a < 2 ^ 64"
  shows "punish_level (s_Punished (updateSnapshotForPunish missing n coinbase s)) a =
    punish_level (s_Punished s) a + 100 * count_list missing a - (if a = coinbase then 10 else 0) - 1"
  by (rule updateSnapshotForPunish_level [OF assms])

theorem punish_balance_witness:
  "punish_level (s_Punished (updateSnapshotForPunish [1, 2] 5 3
      (sample_genesis\<lparr>s_Punished := [(1, 50), (3, 4)]\<rparr>))) 1 = 149"
  using punish_balance [of "sample_genesis\<lparr>s_Punished := [(1, 50), (3, 4)]\<rparr>" 1 "[1, 2]" 5 3]
  by (simp add: punish_level_def)

text \<open>
  Who confirmed a block. After a batch of confirmations the list kept for a block number holds,
  without repetition, the earlier confirmers and every signer of the batch that named that number,
  where the number is taken modulo 2^64.
\<close>

theorem confirmations_are_sets:
  assumes "distinct (confirmers (s_Confirmations s) n)"
  shows "distinct (confirmers (s_Confirmations (updateSnapshotByConfirmations cs s)) n)"
    and "set (confirmers (s_Confirmations (updateSnapshotByConfirmations cs s)) n) =
      set (confirmers (s_Confirmations s) n) \<union> c_Signer ` {c \<in> set cs. Uint64 (c_BlockNumber c) = n}"
  using confirmers_fold [OF assms] by (simp_all add: updateSnapshotByConfirmations_def)

theorem confirmations_are_sets_witness:
  "set (confirmers (s_Confirmations (updateSnapshotByConfirmations
     [\<lparr>c_Signer = 2, c_BlockNumber = 6\<rparr>, \<lparr>c_Signer = 1, c_BlockNumber = 7\<rparr>, \<lparr>c_Signer = 2, c_BlockNumber = 6\<rparr>]
     (sample_genesis\<lparr>s_Confirmations := [(6, [3])]\<rparr>))) 6) = {2, 3}"
proof -
  let ?s = "sample_genesis\<lparr>s_Confirmations := [(6, [3])]\<rparr>"
  let ?cs = "[\<lparr>c_Signer = 2, c_BlockNumber = 6\<rparr>, \<lparr>c_Signer = 1, c_BlockNumber = 7\<rparr>, \<lparr>c_Signer = 2, c_BlockNumber = 6\<rparr>]"
  have "filter (\<lambda>c. Uint64 (c_BlockNumber c) = 6) ?cs = [?cs ! 0, ?cs ! 2]" by code_simp
  then have "{c \<in> set ?cs. Uint64 (c_BlockNumber c) = 6} = {?cs ! 0}" unfolding set_filter [symmetric] by simp
  moreover have "confirmers (s_Confirmations ?s) 6 = [3]" by (simp add: confirmers_def)
  ultimately show ?thesis using confirmations_are_sets(2) [of ?s 6 ?cs] by auto
qed

text \<open>
  The last confirmed block number. The downward search over the snapshot's and the block's
  confirmations ends at a number r, at most the current one, such that no later block has a quorum
  of more than two thirds of the signers, and r has one itself unless the search stopped at its
  lower bound, where nothing is checked and an unconfirmed number is returned; the bound is a
  wrapped 64-bit value for the first blocks.
\<close>

theorem last_confirmed_block:
  fixes s cs
  defines "m \<equiv> foldl addConfirmation (s_Confirmations s) cs"
    and "need \<equiv> cfg_MaxSignerCount (s_config s) * 2 div 3"
  shows "\<exists>r. getLastConfirmedBlockNumber s cs = sint r \<and> r \<le> s_Number s \<and>
    (s_Number s - need + 1 < r \<longrightarrow> quorum m need r) \<and> (\<forall>j. r < j \<and> j \<le> s_Number s \<longrightarrow> \<not> quorum m need j)"
  using lastConfirmed_spec [of m need "s_Number s - need + 1" "s_Number s"]
  by (auto simp: getLastConfirmedBlockNumber_def Let_def m_def need_def)

theorem last_confirmed_block_witness:
  "getLastConfirmedBlockNumber (sample_genesis\<lparr>s_Number := 9, s_Confirmations := [(9, [1, 2, 3])]\<rparr>)
     [\<lparr>c_Signer = 1, c_BlockNumber = 8\<rparr>] = 9"
proof -
  let ?s = "sample_genesis\<lparr>s_Number := 9, s_Confirmations := [(9, [1, 2, 3])]\<rparr>"
  let ?cs = "[\<lparr>c_Signer = 1, c_BlockNumber = 8\<rparr>]"
  have q: "quorum (foldl addConfirmation (s_Confirmations ?s) ?cs) (cfg_MaxSignerCount (s_config ?s) * 2 div 3) 9"
    by code_simp
  obtain r where r: "getLastConfirmedBlockNumber ?s ?cs = sint r" "r \<le> 9"
    "\<forall>j. r < j \<and> j \<le> 9 \<longrightarrow> \<not> quorum (foldl addConfirmation (s_Confirmations ?s) ?cs) (cfg_MaxSignerCount (s_config ?s) * 2 div 3) j"
    using last_confirmed_block [of ?s ?cs] by auto
  have "\<not> r < 9" using q r(3) by blast
  with r show ?thesis by simp
qed

text \<open>
  Whose turn it is. For a header whose time is k periods and j seconds after the start of the
  loop, with no 64-bit overflow, inturn answers without panicking, and holds exactly for the
  signer in slot k modulo the length of the queue.
\<close>

theorem turn_taking:
  assumes p: "0 < unat (cfg_Period (s_config s))" and q: "s_Signers s \<noteq> []"
    and j: "j < unat (cfg_Period (s_config s))" and k: "k < 2 ^ 63"
    and ov: "unat (s_LoopStartTime s) + k * unat (cfg_Period (s_config s)) + j < 2 ^ 64"
  shows "inturn s signer (s_LoopStartTime s + of_nat (k * unat (cfg_Period (s_config s)) + j)) =
    Inr (s_Signers s ! (k mod length (s_Signers s)) = signer)"
  by (rule inturn_slot [OF assms])

theorem turn_taking_witness:
  "inturn sample_genesis 2 1022 = Inr True"
  using turn_taking [of sample_genesis 1 7 2] by (simp add: sample_genesis_def sample_config_def)

text \<open>
  The voters' share is neither exceeded nor wasted. When somebody with a positive total stake
  votes for the sealer, the rewards are all non-negative, sum to at most the share, and fall short
  of it by at most one unit per voter, for any distribution of stakes.
\<close>

theorem voters_share:
  assumes "\<forall>v \<in> snd ` set (s_Votes s). 0 \<le> deref s (sv_Stake v)" "0 \<le> votersReward"
    and "0 < votesum s coinbase"
  shows "\<exists>rewards. calculateVoteReward s coinbase votersReward = Inr rewards \<and>
    (\<Sum>(a, x) \<leftarrow> rewards. x) \<le> votersReward \<and>
    votersReward - int (length rewards) \<le> (\<Sum>(a, x) \<leftarrow> rewards. x) \<and>
    (\<forall>(a, x) \<in> set rewards. 0 \<le> x)"
  by (rule calculateVoteReward_total [OF assms])

theorem voters_share_witness:
  "\<exists>rewards. calculateVoteReward sample_genesis 1 1000 = Inr rewards \<and> (\<Sum>(a, x) \<leftarrow> rewards. x) \<le> 1000"
proof -
  have "\<forall>v \<in> snd ` set (s_Votes sample_genesis). 0 \<le> deref sample_genesis (sv_Stake v)"
    "0 < votesum sample_genesis 1" by (simp_all add: sample_genesis_def deref_def votesum_def)
  from voters_share [OF this(1) _ this(2), of 1000] show ?thesis by fastforce
qed

text \<open>
  What counts as a declaration. When no two recorded proposals share an object, a block's
  declarations add to each proposal exactly those that name it, come from a candidate and arrive
  by its end block, the first of each declarer only, in order; nobody is counted twice.
\<close>

theorem declarations_collected:
  assumes "props_ok s" "distinct (map snd (s_Proposals s))"
  shows "proposal_view (updateSnapshotByDeclares ds n s) h =
    map_option (\<lambda>p. p\<lparr>p_Declares := foldl first_of_each (p_Declares p)
      (filter (\<lambda>d. d_ProposalHash d = h \<and> in_time s n p d) ds)\<rparr>) (proposal_view s h) \<and>
    (one_each s \<longrightarrow> one_each (updateSnapshotByDeclares ds n s))"
  using byDeclares_view [OF assms] byDeclares_one_each by blast

theorem declarations_collected_witness:
  "map_option p_Declares (proposal_view (updateSnapshotByDeclares
      [\<lparr>d_ProposalHash = 55, d_Declarer = 2, d_Decision = True\<rparr>, \<lparr>d_ProposalHash = 55, d_Declarer = 2, d_Decision = False\<rparr>,
       \<lparr>d_ProposalHash = 55, d_Declarer = 77, d_Decision = True\<rparr>] 6 sample_voting) 55) =
   Some [\<lparr>d_ProposalHash = 55, d_Declarer = 1, d_Decision = True\<rparr>, \<lparr>d_ProposalHash = 55, d_Declarer = 2, d_Decision = True\<rparr>]"
proof -
  have t: "in_time sample_voting 6 sample_proposal \<lparr>d_ProposalHash = 55, d_Declarer = 2, d_Decision = b\<rparr>"
    "\<not> in_time sample_voting 6 sample_proposal \<lparr>d_ProposalHash = 55, d_Declarer = 77, d_Decision = b\<rparr>" for b
    unfolding in_time_def by code_simp+
  have d: "p_Declares sample_proposal = [\<lparr>d_ProposalHash = 55, d_Declarer = 1, d_Decision = True\<rparr>]"
    by (simp add: sample_proposal_def)
  show ?thesis
    unfolding declarations_collected [OF sample_voting_ok, THEN conjunct1]
    by (simp add: sample_voting_view t first_of_each_def d)
qed

text \<open>
  Where apply leaves a snapshot. On success the number has advanced by the number of headers, the
  hash is that of the last header and is also the last of the history, the history stays within
  two loops, the configuration is unchanged and the tally has been recounted.
\<close>

theorem apply_position:
  assumes "Snapshot_apply recover hashf sortT pd (s, m) hs = Inr (s', m')" "hs \<noteq> []"
  shows "s_Number s' = s_Number s + of_nat (length hs) \<and> s_Hash s' = hashf (last hs) \<and>
    last (s_HistoryHash s') = hashf (last hs) \<and> verifyTallyCnt s' = Inr () \<and> s_config s' = s_config s \<and>
    (int (length (s_HistoryHash s)) \<le> sint (cfg_MaxSignerCount (s_config s) * 2) \<and>
     0 < sint (cfg_MaxSignerCount (s_config s) * 2) \<longrightarrow>
     int (length (s_HistoryHash s')) \<le> sint (cfg_MaxSignerCount (s_config s) * 2))"
  using Snapshot_apply_position [OF assms] by blast

theorem apply_position_witness:
  "\<exists>s' m'. Snapshot_apply (\<lambda>h. Inr 1) (\<lambda>h. 99) sample_sort False (sample_genesis, 618) [sample_header] = Inr (s', m') \<and>
    s_Hash s' = 99 \<and> last (s_HistoryHash s') = 99 \<and> s_Number s' = 1"
proof -
  obtain s' m' where
    s': "Snapshot_apply (\<lambda>h. Inr 1) (\<lambda>h. 99) sample_sort False (sample_genesis, 618) [sample_header] = Inr (s', m')"
    using sample_apply by blast
  show ?thesis using s' apply_position [OF s'] by (auto simp: sample_genesis_def)
qed

text \<open>
  A side chain is paid a hundred times its share. The credits of a full period add up to 100 for
  every configured length, but the payment divides by the reward sum (at least 1000) only, so a
  side chain entitled to r per thousand whose coinbase holds the full credit receives r div 10
  whole miner rewards instead of r per thousand of one.
\<close>

theorem side_chain_overpaid:
  assumes "IsTrantor (s_config s) (uint (s_Number s))"
    and "s_SCAllReward s = [(h, [(s_Number s - 2 * cfg_MaxSignerCount (s_config s), [(a, 100)])])]"
    and "s_SCConfirmation s = [(h, rec)]" "scr_RewardPerPeriod rec \<le> 1000" "1 \<le> p"
  shows "(\<Sum>k \<leftarrow> [1..<Suc (min (unat p) 6)]. calculateCurrentBlockReward (of_nat k) p) = 100 \<and>
    calculateSCReward s minerReward = [(a, uint (scr_RewardPerPeriod rec) div 10 * minerReward)]"
proof -
  have "uint (scr_RewardPerPeriod rec) \<le> 1000" using assms(4) by (simp add: word_le_def)
  then have "scRewardSum s = 1000" using assms(3) by (auto simp: scRewardSum_def Uint64_def word_less_def Let_def)
  then show ?thesis
    using reward_rows [OF assms(5)] assms(1-3) singleReward_full [OF assms(4)]
    by (simp add: calculateSCReward_def scRewardDelayLoopCount_def addReward_def)
qed

theorem side_chain_overpaid_witness:
  "calculateSCReward (sample_genesis\<lparr>s_Number := 9, s_SCAllReward := [(4, [(3, [(2, 100)])])],
     s_SCConfirmation := [(4, \<lparr>scr_Record = [], scr_LastConfirmedNumber = 0, scr_MaxHeaderNumber = 0,
       scr_CountPerPeriod = 6, scr_RewardPerPeriod = 50\<rparr>)]\<rparr>) 1000 = [(2, 5000)]"
proof -
  let ?rec = "\<lparr>scr_Record = [], scr_LastConfirmedNumber = 0, scr_MaxHeaderNumber = 0,
       scr_CountPerPeriod = 6, scr_RewardPerPeriod = 50\<rparr>"
  let ?s = "sample_genesis\<lparr>s_Number := 9, s_SCAllReward := [(4, [(3, [(2, 100)])])], s_SCConfirmation := [(4, ?rec)]\<rparr>"
  have "IsTrantor (s_config ?s) (uint (s_Number ?s))"
    "s_SCAllReward ?s = [(4, [(s_Number ?s - 2 * cfg_MaxSignerCount (s_config ?s), [(2, 100)])])]"
    "s_SCConfirmation ?s = [(4, ?rec)]"
    by (simp_all add: sample_genesis_def sample_config_def IsTrantor_def isForked_def)
  from side_chain_overpaid [OF this, of 1 1000] show ?thesis by simp
qed

text \<open>
  Two ordinary transactions crash the node that processes the block. A contract creation that
  carries value reaches the code that reads the recipient, which is nil; and the data
  ufo:1:event:confirm, sent by a candidate without a block number, passes the length test and is
  indexed one past its end.
\<close>

theorem transactions_that_panic:
  assumes "sender tx = Some a"
  shows "(tx_To tx = None \<and> 0 < tx_Value tx \<and> 1 < number \<and>
        strings_Split (CHR '':'') (bytes_str (tx_Data tx)) ! 0 \<noteq> ''ufo'' \<longrightarrow>
      processTx config pd mrpt sender balance getH (Some s) number st tx = Inl PanicNil) \<and>
    (isCandidate s a \<and> tx_Data tx = str_bytes ''ufo:1:event:confirm'' \<longrightarrow>
      processTx config pd mrpt sender balance getH (Some s) number st tx = Inl PanicIndex)"
  using processTx_creation [where ?sender = sender] processTx_short_confirm [where ?sender = sender] assms by blast

theorem transactions_that_panic_witness:
  "processTx sample_config False 618 (\<lambda>tx. Some 1) (\<lambda>a. 0) (\<lambda>n. None) (Some sample_genesis) 5 (new_HeaderExtra, [])
     \<lparr>tx_Hash = 1, tx_To = None, tx_Value = 3, tx_GasPrice = 2, tx_Data = [0x60, 0x60]\<rparr> = Inl PanicNil \<and>
   processTx sample_config False 618 (\<lambda>tx. Some 1) (\<lambda>a. 0) (\<lambda>n. None) (Some sample_genesis) 5 (new_HeaderExtra, [])
     \<lparr>tx_Hash = 1, tx_To = Some 2, tx_Value = 0, tx_GasPrice = 2, tx_Data = str_bytes ''ufo:1:event:confirm''\<rparr> =
     Inl PanicIndex"
proof -
  have w: "strings_Split (CHR '':'') (bytes_str [0x60, 0x60]) ! 0 \<noteq> ''ufo''" by code_simp
  have c: "isCandidate sample_genesis 1" by code_simp
  show ?thesis
    using transactions_that_panic [where a = 1 and sender = "\<lambda>tx. Some 1"
        and tx = "\<lparr>tx_Hash = 1, tx_To = None, tx_Value = 3, tx_GasPrice = 2, tx_Data = [0x60, 0x60]\<rparr>"]
      transactions_that_panic [where a = 1 and sender = "\<lambda>tx. Some 1"
        and tx = "\<lparr>tx_Hash = 1, tx_To = Some 2, tx_Value = 0, tx_GasPrice = 2, tx_Data = str_bytes ''ufo:1:event:confirm''\<rparr>"]
      w c by simp
qed

text \<open>
  Gas refunds add up. The refund map, built by multiplying gas prices in place in cells shared
  between two maps, holds for each address exactly the sum of price times gas over the block's
  successful receipts of the transactions recorded for it.
\<close>

theorem refunds_add_up:
  assumes "distinct (map rc_TxHash receipts)"
  shows "(case mget (refund_values (foldl refundReceipt (rh, []) receipts)) a of Some v \<Rightarrow> v | None \<Rightarrow> 0) =
    (\<Sum>r \<leftarrow> receipts. refund_due rh a r)"
  unfolding refund_values_of refund_total [OF assms, symmetric]
  by (cases "mget (snd (foldl refundReceipt (rh, []) receipts)) a") (simp_all add: refund_of_def)

theorem refunds_add_up_witness:
  "(case mget (refund_values (foldl refundReceipt ([(1, (5, 2)), (2, (5, 3))], [])
       [\<lparr>rc_TxHash = 1, rc_Status = 1, rc_GasUsed = 10\<rparr>, \<lparr>rc_TxHash = 2, rc_Status = 1, rc_GasUsed = 100\<rparr>])) 5 of
     Some v \<Rightarrow> v | None \<Rightarrow> 0) = 320"
  using refunds_add_up [of "[\<lparr>rc_TxHash = 1, rc_Status = 1, rc_GasUsed = 10\<rparr>, \<lparr>rc_TxHash = 2, rc_Status = 1, rc_GasUsed = 100\<rparr>]"
      "[(1, (5, 2)), (2, (5, 3))]" 5] by (simp add: refund_due_def)

text \<open>
  Whom a block reports as absent. When the previous and the current signer each occur once before
  the point where the search ends, getSignerMissing returns exactly the signers between them in
  the queue; when the current signer comes first it returns nobody, and when it no longer comes
  after the previous one it returns the rest of the queue.
\<close>

theorem absent_signers:
  assumes "cur \<noteq> prev" "prev \<notin> set xs \<union> set ys" "cur \<notin> set xs \<union> set ys"
  shows "(he_SignerQueue e = xs @ prev # ys @ cur # zs \<longrightarrow> getSignerMissing prev cur e = ys) \<and>
    (he_SignerQueue e = xs @ prev # ys \<longrightarrow> getSignerMissing prev cur e = ys) \<and>
    (he_SignerQueue e = xs @ cur # zs \<longrightarrow> getSignerMissing prev cur e = [])"
  using getSignerMissing_between [OF _ assms(2,3,1)] getSignerMissing_rest [OF _ assms(2,3,1)]
    getSignerMissing_none [OF _ _ _ assms(1), of e xs] assms(2,3) by auto

theorem absent_signers_witness:
  "getSignerMissing 2 5 (new_HeaderExtra\<lparr>he_SignerQueue := [1, 2, 3, 4, 5, 6]\<rparr>) = [3, 4]"
  using absent_signers [of 5 2 "[1]" "[3, 4]" "new_HeaderExtra\<lparr>he_SignerQueue := [1, 2, 3, 4, 5, 6]\<rparr>" "[6]"] by simp

text \<open>
  The search for the block of a given time ends, with the right block. On a chain whose headers
  carry their numbers and are at least a period apart, the interpolation search, a loop without a
  bound, started from any header between the bounds, returns the header in whose period the target
  lies if its number is strictly between the bounds, and reports an unknown block, although it
  exists, if it is the lowest one.
\<close>

theorem search_by_time:
  assumes "serves chain period H lo hi" "lo < maxN" "maxN \<le> hi" "lo < c" "c \<le> hi"
  shows "(lo \<le> minN \<and> minN < b \<and> b < maxN \<and> at_time period target (H b) \<longrightarrow>
      byTime_loop chain period target (H c) minN maxN = Some (Inr (H b))) \<and>
    (at_time period target (H lo) \<longrightarrow> byTime_loop chain period target (H c) lo maxN = Some (Inl errUnknownBlock))"
  using byTime_found [OF assms(1)] byTime_lowest [OF assms(1)] assms(2-5) by simp

theorem search_by_time_witness:
  "byTime_loop sample_times 3 1017 (sample_header\<lparr>h_Number := Some 8, h_Time := 1024\<rparr>) 0 8 =
    Some (Inr (sample_header\<lparr>h_Number := Some 5, h_Time := 1015\<rparr>))"
  using search_by_time [OF sample_times_served, of 8 8 0 5 1017] by (simp add: at_time_def)

text \<open>
  Hashes and addresses survive their text forms. Reading back the hexadecimal form of a hash or
  the checksummed form of an address, whose letter case depends on an arbitrary hash function,
  gives the value, through the lenient FromHex route and through the strict UnmarshalText route;
  hexutil decodes what it encodes; and decimal block numbers below 2^63 are read back.
\<close>

theorem text_codecs:
  "HexToHash (Hash_Hex h) = h \<and> HexToAddress (Address_Hex keccak256 a) = a \<and>
   Hash_UnmarshalText h0 (Hash_Hex h) = (h, None) \<and>
   Address_UnmarshalText a0 (Address_Hex keccak256 a) = (a, None) \<and>
   hexutil_Decode (hexutil_Encode b) = (b, None) \<and>
   (n < 2 ^ 63 \<longrightarrow> Atoi (fmt_d n) = (int n, None))"
  by (simp add: HexToHash_Hex HexToAddress_Hex Hash_UnmarshalText_Hex Address_UnmarshalText_Hex
      hexutil_Decode_Encode Atoi_fmt_d)

theorem text_codecs_witness:
  "Atoi ''42'' = (42, None)"
proof -
  have "fmt_d 42 = ''42''" by code_simp
  then show ?thesis using text_codecs [of _ _ _ _ _ _ 42] by simp
qed

end
