(* ===== verification/Spec2Isabelle.thy ===== *)
theory Spec2Isabelle
  imports Further_Results
begin

text \<open>
  A verification library for gttc, the node of the TTC protocol (\<open>src/gttc\<close>, a fork of
  go-ethereum; \<open>src/gttc-base\<close> holds an earlier state of the same tree and is not modelled
  separately).  What is gttc's own is the consensus engine \<open>consensus/alien\<close>, a delegated proof
  of stake with side chains; it is modelled in full, with the code it stands on: the RLP codec
  and the text forms of hashes and addresses.  The second half is what every block runs through:
  the virtual machine \<open>core/vm\<close> with its gas, calls and precompiled contracts, the journaled
  state \<open>core/state\<close> that it works on, and the transition of a transaction that drives both.

  The parts and how they interact.  Every block carries its consensus payload in the extra
  field of its header, an RLP list between 32 bytes of vanity and a 65-byte signature.
  \<open>Snapshot.apply\<close> decodes the payloads of a batch of headers and updates the voting snapshot:
  confirmations, votes, corrections of stakes, punishments, proposals, declarations, side-chain
  records, then the expiry of votes and a recount.  The engine finds the snapshot of a block
  (in memory, on disk, or by walking back), verifies headers and seals against it, and produces
  blocks: it turns transactions with \<open>ufo\<close> data into payload entries, elects the signers
  of the next loop from the tally, pays rewards and signs.  Side chains ask the main chain whose
  turn it is and report their blocks by transactions.  The RPC interface searches snapshots.

  The virtual machine runs the code of a contract on a stack, a memory and the state, and calls
  itself for messages and creations.  A call takes a snapshot of the state and reverts to it when
  the callee fails; the state database undoes its journal for that.  A transition buys gas for a
  message, runs its call or creation, gives back what is left and pays the fee to the sealer.

  Theories, in order of import:
  \<^item> \<open>Gttc_Prelude\<close>: types, the error monad \<open>bindR\<close> and \<open>foldR\<close> for loops that may fail, Go maps
    as association lists (\<open>mget\<close>, \<open>mput\<close>, \<open>mdel\<close>, \<open>mhas\<close>), sums over maps, the locale \<open>go_sort\<close>.
  \<^item> \<open>Rlp_Encode\<close> (\<open>rlp/encode.go\<close>): types and values seen by reflection, the encoding buffer with its
    list headers, the writers; the reference encoding \<open>rlp_enc\<close>, and that the writers refine it.
  \<^item> \<open>Rlp_Decode\<close> (\<open>rlp/decode.go\<close>): the \<open>Stream\<close> with its input limit and list stack, the decoders;
    the locale \<open>rlp_elem\<close> of element decoders, interpreted on \<open>makeDecoder\<close>; the round trip.
  \<^item> \<open>Rlp_Raw\<close> (\<open>rlp/raw.go\<close>): \<open>Split\<close>, \<open>CountValues\<close> and their agreement with the encoding.
  \<^item> \<open>Gttc_Common\<close> (\<open>common/types.go\<close>, \<open>common/bytes.go\<close>, \<open>common/hexutil\<close>): hexadecimal forms, with the
    parts of \<open>strconv\<close>, \<open>strings\<close>, \<open>encoding/hex\<close> and \<open>math/big\<close> that the code calls.
  \<^item> \<open>Alien_Types\<close>: configuration, headers, payload records and their RLP view, the payload codec.
  \<^item> \<open>Alien_Snapshot\<close>: the state of a snapshot and its operations on votes, punishment, confirmation.
  \<^item> \<open>Alien_Ledger\<close>: the well-formedness \<open>ledger\<close> of votes and tally (cells distinct, every tally the
    sum of its votes), \<open>live\<close> (stakes positive), and that every operation keeps them; the locales
    \<open>ballot_step\<close> and \<open>live_ballot_step\<close>, interpreted on both vote loops.  \<open>Alien_Ballots\<close>: the abstract
    ballot box and that the loops refine it.  \<open>Alien_Duties\<close>: punishment, confirmation, turns, shares.
  \<^item> \<open>Alien_Proposal\<close>, \<open>Alien_SideChain\<close>, \<open>Alien_Queue\<close> (\<open>signer_queue.go\<close>), \<open>Alien_Apply\<close>: the rest of the
    snapshot; \<open>reached\<close> is the inductive set of the snapshots of a chain.
  \<^item> \<open>Alien_Custom_Tx\<close> (\<open>custom_tx.go\<close>), \<open>Alien_Engine\<close>, \<open>Alien_Verify\<close>, \<open>Alien_Produce\<close> (\<open>alien.go\<close>,
    \<open>cross_chain.go\<close>), \<open>Alien_Api\<close> (\<open>api.go\<close>): the engine.
  \<^item> \<open>Alien_Samples\<close>: small concrete states on which the properties below are exercised.
  \<^item> \<open>Evm_Math\<close> (\<open>common/math\<close>): 256-bit conversions of big integers, \<open>Exp\<close>, bytes, checked 64-bit
    sums.  \<open>Evm_Machine\<close> (\<open>stack.go\<close>, \<open>memory.go\<close>, \<open>contract.go\<close>, \<open>analysis.go\<close>): the data of a run; the
    bitmap of jump destinations against the inductive \<open>starts\<close>.  \<open>Evm_Arith\<close> (\<open>instructions.go\<close>):
    the instructions on the stack alone, against 256-bit words.
  \<^item> \<open>Evm_Gas\<close> (\<open>gas.go\<close>, \<open>gas_table.go\<close>, \<open>memory_table.go\<close>): the record \<open>StateDB\<close> of state operations,
    environment and frame, prices and memory sizes; the fee of memory and the gas of calls.
    \<open>Evm_Calls\<close> (\<open>evm.go\<close>, \<open>contracts.go\<close>), \<open>Evm_Instructions\<close> (\<open>instructions.go\<close>), \<open>Evm_Jump_Table\<close>
    (\<open>opcodes.go\<close>, \<open>jump_table.go\<close>), \<open>Evm_Interpreter\<close> (\<open>interpreter.go\<close>): calls, the other
    instructions, the tables of the four rule sets, the loop.
    Slices padded to a given length (\<open>getData\<close>) are allocated with the length as a signed \<open>int\<close>, and
    \<open>make\<close> panics for a negative one or one above \<open>maxAlloc\<close>.
  \<^item> \<open>Gttc_Crypto\<close> (\<open>crypto/crypto.go\<close>): contract addresses and the ranges of signature values.
    \<open>Core_Bloom\<close> (\<open>core/types/bloom9.go\<close>): the filter of the logs, without false negatives.
  \<^item> \<open>Evm_Runs\<close>, \<open>Evm_Turns\<close>: the weakest precondition \<open>wp\<close> and that a run ends within its gas, whatever the
    callee; \<open>Evm_Frames\<close>: well-typed frames and that a turn keeps them, for every
    \<open>runner\<close>, with the panics that a call may pass on (\<open>blame\<close>); \<open>Evm_Undo\<close>: the locales
    \<open>db_steps\<close> and \<open>db_snapshots\<close> of state databases whose snapshots can be undone, and that a
    failed call then leaves no trace.
  \<^item> \<open>State_DB\<close> (\<open>statedb.go\<close>, \<open>state_object.go\<close>, \<open>journal.go\<close>): accounts with their caches, the journal,
    snapshots; \<open>State_Journal\<close>: the abstract \<open>world\<close> that the getters show and that reverting an
    entry undoes it there; \<open>State_Snapshots\<close>: every operation extends the journal by entries that
    undo it, and the interpretation of both locales on \<open>state_db\<close>; \<open>State_Accounts\<close>: what the
    setters change in the world, and that they change nothing else; \<open>State_Transition\<close>
    (\<open>state_transition.go\<close>, \<open>gaspool.go\<close>): the transition and its gas; \<open>State_Fees\<close>: what a failed message
    costs on \<open>state_db\<close>; \<open>State_Samples\<close>: a small state and machine.
  \<^item> \<open>Further_Results\<close>: facts beside the main properties.

  Correspondence.  \<open>uint64\<close> is \<open>64 word\<close>, \<open>int\<close> conversions are \<open>sint\<close>, \<open>big.Int\<close> is \<open>int\<close>, addresses and
  hashes are 160- and 256-bit words.  Stakes and proposals are pointers that the code shares
  and updates in place, so a snapshot carries their cells (\<open>s_ints\<close>, \<open>s_props\<close>) and its maps hold
  indices; the sharing is the subject of several properties.  A nil dereference, an index
  out of range, a division by zero and a loop that never ends are error values (\<open>PanicNil\<close>,
  \<open>PanicIndex\<close>, \<open>PanicDivide\<close>, \<open>NoReturn\<close>).  A \<open>range\<close> loop has one variable for all rounds, as in Go
  before 1.22.  Stack words are \<open>int\<close>, as the code has big integers, and well-typed when below \<open>2 ^ 256\<close>.
  The machine's panics are the values \<open>abort\<close>, an error of the machine (\<open>evm_err\<close>) is a result.  The
  state is passed explicitly; the interpreter takes the way nested code is run as an argument
  (\<open>runner\<close>), and \<open>Run\<close> closes the knot.  The iteration order of a map is the order of its association list; the
  theorems either hold for every order or say so.

  Fuel and termination.  The element loop of the slice decoder takes fuel, one more than
  the bytes of the input, which suffices for every decodable value; the remaining loops are
  structural or come with a termination proof, and the two that may run forever
  (\<open>u64_loop\<close>, \<open>byTime_loop\<close>) are partial functions whose result \<open>None\<close> is that.  The interpreter takes
  one unit of fuel per turn, one more than the gas of the contract, and one level per nested
  run, one more than \<open>CallCreateDepth\<close>; \<open>execution_ends_within_gas\<close> shows that it never runs out.

  Parameters.  Keccak, signature recovery and signing, the JSON form and the store of
  snapshots, cache eviction, \<open>sort.Sort\<close>, remote calls, the state root, the sender of a
  transaction and the chain reader are arguments, gathered in \<open>Env\<close> and \<open>Chain\<close>; what is assumed
  of them is named (\<open>go_sort\<close>, \<open>evicts\<close>, \<open>chain_ok\<close>, \<open>stores_ok\<close>, \<open>signs\<close>).  For the machine they are the
  hash functions, signature recovery and curves (\<open>Crypto\<close>), and for the state the database behind it (\<open>Database\<close>: code by
  hash, storage by root, the hash of code, the root of a storage trie).

  Not modelled: updates of the engine's caches on paths that end in an error; the engine's
  configuration is one object shared with the snapshots in the code and a copy in the model;
  one clock reading per call; locks, logging and printing; waiting in \<open>Prepare\<close> and \<open>Seal\<close>;
  the streaming reader behind RLP \<open>Decode\<close> and \<open>Encode\<close> (the byte-slice entry points are modelled),
  the type cache (the descriptors \<open>gtype\<close> are its result) and interface-typed values; in the virtual
  machine the tracer, \<open>Cancel\<close> and the pool of integers; in the state the writing of tries,
  \<open>Commit\<close> and database errors.  Running out of memory below the allocation limit is not modelled.  The rest of the node (block chain database, transaction
  pool, networking, wallets, tools and the other engines) is inherited from go-ethereum and not
  modelled.

  The properties follow, the most important first; each names its claim.  They restate
  lemmas of the library on the definitions of the model, or compose several, and each with a
  hypothesis is applied to a concrete state by the witness after it.
\<close>

text \<open>
  C1. Applying blocks keeps the books. Starting from a snapshot whose numbers are right (its cells may
  be shared), a contiguous batch of headers whose votes go to known candidates with positive
  stakes, and that each step accepts, is never rejected by the recount at the end: apply returns a
  well-formed ledger with positive stakes, advanced by the length of the batch.
\<close>

theorem apply_keeps_ledger:
  assumes L: "refs_ok s" "tally_exact s" "backed s" and l: "live s"
    and adm: "list_all (header_admissible (s_config s) s) hs"
    and hs: "hs \<noteq> []" "contiguous hs" "Uint64 (hNumber (hd hs)) = s_Number s + 1"
    and f: "foldR (applyHeader recover hashf sortT pd (s_config s)) (Snapshot_copy s, m) hs = Inr (t, m')"
  shows "\<exists>s'. Snapshot_apply recover hashf sortT pd (s, m) hs = Inr (s', m') \<and> ledger s' \<and> live s' \<and>
    s_Number s' = s_Number s + of_nat (length hs)"
  by (rule Snapshot_apply_ledger [OF assms])

theorem apply_keeps_ledger_witness:
  "\<exists>s' m'. Snapshot_apply (\<lambda>h. Inr 1) (\<lambda>h. 99) sample_sort False (sample_genesis, 618) [sample_header] = Inr (s', m') \<and>
    ledger s' \<and> s_Number s' = 1"
proof -
  have n: "hNumber sample_header = 1" by (simp add: hNumber_def sample_header_def)
  have c: "s_config sample_genesis = sample_config" "s_Number sample_genesis = 0" by (simp_all add: sample_genesis_def)
  have "header_admissible sample_config sample_genesis sample_header"
    by (simp add: header_admissible_def sample_payload n sample_decode)
      (simp add: sample_extra_def new_HeaderExtra_def has_tally_def sample_genesis_def)
  then have a: "list_all (header_admissible (s_config sample_genesis) sample_genesis) [sample_header]" by (simp add: c)
  from sample_apply_header obtain t m' where
    "foldR (applyHeader (\<lambda>h. Inr 1) (\<lambda>h. 99) sample_sort False (s_config sample_genesis)) (Snapshot_copy sample_genesis, 618)
      [sample_header] = Inr (t, m')" by (auto simp: c)
  from apply_keeps_ledger [OF _ _ _ sample_live a _ _ _ this] sample_ledger show ?thesis
    by (auto simp: ledger_def n c Uint64_def)
qed

text \<open>
  C2. On the real state database a message call whose callee fails, at any depth and whatever it and
  its own callees did, leaves the world that the getters show (accounts, code, storage, refund,
  logs, preimages) exactly as it was, and the revert it does never panics for want of its
  snapshot.
\<close>

theorem failed_call_leaves_no_trace:
  assumes E: "env_db E = state_db B" and ok: "state_ok B (evm_StateDB evm)"
    and r: "r = Call E (Run E) evm caller a inp gas v \<or> r = CallCode E (Run E) evm caller a inp gas v \<or>
      r = DelegateCall E (Run E) evm caller a inp gas \<or> r = StaticCall E (Run E) evm caller a inp gas"
  shows "case r of
      Inl p \<Rightarrow> p \<noteq> AbortRevision
    | Inr ((ret, left, err), evm') \<Rightarrow>
        err \<noteq> None \<longrightarrow> world_of B (evm_StateDB evm') = world_of B (evm_StateDB evm)"
proof -
  have "sure (call_undone (keeps (state_ok B) (marks B)) (world_of B) evm) r"
    using r state_snapshots.calls_undone(1-4) [OF E E ok] by blast
  then show ?thesis by (auto simp: call_undone_def split: sum.splits)
qed

theorem failed_call_leaves_no_trace_witness:
  "case Call sample_vm (Run sample_vm) (NewEVM sample_state) (AccountRef 1) 2 [] 50 7 of
      Inl p \<Rightarrow> p \<noteq> AbortRevision
    | Inr ((ret, left, err), evm') \<Rightarrow>
        err \<noteq> None \<longrightarrow> world_of sample_db (evm_StateDB evm') = world_of sample_db sample_state"
  using failed_call_leaves_no_trace [OF sample_vm_db, of "NewEVM sample_state"
      "Call sample_vm (Run sample_vm) (NewEVM sample_state) (AccountRef 1) 2 [] 50 7" "AccountRef 1" 2 "[]" 50 7]
  unfolding NewEVM_db using sample_state_ok by simp

text \<open>
  C3. Processing a block's votes refines the ballot box. On a well-formed ledger a batch of votes for
  candidates with a tally never fails; afterwards every voter's entry is the last vote cast (the
  fold of cast over the batch), the ledger is well formed again, and each candidate's tally,
  though updated in place by additions and subtractions on shared cells, is the sum of the stakes
  in the box.
\<close>

theorem votes_refine_ballot_box:
  assumes "ledger s" "list_all (has_tally s) votes"
  shows "\<exists>s'. updateSnapshotByVotes pd votes n s = Inr s' \<and> ledger s' \<and>
    vote_view s' = foldl cast (vote_view s) votes \<and>
    (\<forall>c. tally_view s' c =
      (if c \<in> fst ` set (s_Tally s) then Some (box_tally (foldl cast (vote_view s) votes) c) else None))"
  using updateSnapshotByVotes_cast [OF assms] tally_box by metis

theorem votes_refine_ballot_box_witness:
  "\<exists>s'. updateSnapshotByVotes True [\<lparr>v_Voter = 4, v_Candidate = 2, v_Stake = 60\<rparr>,
      \<lparr>v_Voter = 5, v_Candidate = 1, v_Stake = 7\<rparr>] 9 sample_genesis = Inr s' \<and>
    ledger s' \<and> vote_view s' 4 = Some (4, 2, 60) \<and> vote_view s' 5 = Some (5, 1, 7)"
proof -
  have "list_all (has_tally sample_genesis) [\<lparr>v_Voter = 4, v_Candidate = 2, v_Stake = 60\<rparr>,
      \<lparr>v_Voter = 5, v_Candidate = 1, v_Stake = 7\<rparr>]"
    by (simp add: has_tally_def sample_genesis_def)
  from votes_refine_ballot_box [OF sample_ledger this, of True 9] show ?thesis
    by (fastforce simp: cast_def)
qed

text \<open>
  C4. What acceptance of a main-chain header means. If verifyHeader accepts, the header has a number,
  is not from the future, carries vanity and seal, no mix digest and no uncles; its parent is
  found with the preceding number, the named hash and a time not later; the snapshot of the parent
  exists, and the header's signature is by the signer whose turn it is at the header's time;
  beyond the first loop its queue is the parent's, or at a loop border the verified new one, and
  it reports exactly the absent signers.
\<close>

theorem accepted_header:
  assumes "verifyHeader env chain now a header parents = Inr a'" and "\<not> cfg_SideChain (ch_Config chain)"
    and "Uint64 (hNumber header) \<noteq> 0"
  shows "h_Number header \<noteq> None \<and> h_Time header \<le> now \<and> extraVanity + extraSeal \<le> length (h_Extra header) \<and>
    h_MixDigest header = 0 \<and> h_UncleHash header = uncleHash env \<and>
    (\<exists>parent a0 a1 snap signer.
      Uint64 (hNumber parent) = Uint64 (hNumber header) - 1 \<and> Header_Hash env parent = h_ParentHash header \<and>
      Uint64 (h_Time parent) \<le> Uint64 (h_Time header) \<and>
      snapshot env chain now a0 (Uint64 (hNumber header) - 1) (h_ParentHash header) parents []
        defaultLoopCntRecalculateSigners = Inr (a1, snap) \<and>
      fst (ecrecover env (a_signatures a1) header) = Inr signer \<and> inturn snap signer (Uint64 (h_Time header)) = Inr True \<and>
      (cfg_MaxSignerCount (a_config a1) < Uint64 (hNumber header) \<longrightarrow> follows_parent env a1 snap parent header))"
  using verifyHeader_ok [OF assms] verifyHeader_alone_ok by blast

theorem accepted_header_witness:
  "\<exists>a'. verifyHeader sample_env sample_chain 2000 sample_engine sample_block [] = Inr a' \<and> h_UncleHash sample_block = 77"
proof -
  have main: "\<not> cfg_SideChain (ch_Config sample_chain)" and n: "Uint64 (hNumber sample_block) \<noteq> 0"
    by (simp_all add: sample_chain_def sample_config_def sample_block_def sample_header_def hNumber_def Uint64_def)
  obtain a' where a': "verifyHeader sample_env sample_chain 2000 sample_engine sample_block [] = Inr a'"
    using sample_verified by blast
  with accepted_header [OF a' main n] show ?thesis by auto
qed

text \<open>
  C5. A run of the interpreter always ends: with one turn more than the contract has gas and one level
  of nesting more than the call depth limit the model never runs out of fuel, whatever the code,
  the state database and the callees do; and the run hands back no more gas than it was given,
  with the call depth and the read-only flag as they were.
\<close>

theorem execution_ends_within_gas:
  assumes "evm_depth evm \<le> CallCreateDepth"
  shows "case Run E evm c inp of
      Inl p \<Rightarrow> p \<noteq> AbortFuel
    | Inr (r, evm', c') \<Rightarrow> ct_Gas c' \<le> ct_Gas c \<and>
        evm_depth evm' = evm_depth evm \<and> evm_readOnly evm' = evm_readOnly evm"
  using Run_ok [OF assms, of c E inp] by (auto simp: run_ok_def wp_def split: sum.splits)

theorem execution_ends_within_gas_witness:
  "case Run sample_vm (NewEVM sample_state) sample_contract [] of
      Inl p \<Rightarrow> p \<noteq> AbortFuel
    | Inr (r, evm', c') \<Rightarrow> ct_Gas c' \<le> 100 \<and> evm_depth evm' = 0 \<and> \<not> evm_readOnly evm'"
  using execution_ends_within_gas [of "NewEVM sample_state" sample_contract sample_vm "[]"]
  by (auto simp: NewEVM_def sample_contract_def split: sum.splits)



text \<open>
  C7. Reverting to a snapshot brings back the world of the moment it was taken, after any sequence of
  the operations that change the state, and every snapshot that was valid before it is valid again
  and still restores its own world.
\<close>

theorem snapshot_restores_world:
  assumes ok: "state_ok B st" and snap: "StateDB_Snapshot st = (n, st1)" and ops: "mutates (state_db B) st1 st2"
  shows "\<exists>st3. StateDB_RevertToSnapshot B st2 n = Some st3 \<and> state_ok B st3 \<and>
    world_of B st3 = world_of B st \<and> (\<forall>m v. marks B m v st \<longrightarrow> marks B m v st3)"
proof -
  note s = Snapshot_marks [OF ok snap]
  have "keeps (state_ok B) (marks B) st1 st2"
    using state_steps.mutates_keeps [OF ops] s(1) by blast
  then have "state_ok B st2" "marks B n (world_of B st) st2" "\<forall>m v. marks B m v st \<longrightarrow> marks B m v st2"
    using s(1,3) by (auto simp: keeps_def)
  from Revert_marks [OF this(1,2)] this(3) s(4) show ?thesis by blast
qed

theorem snapshot_restores_world_witness:
  "\<exists>st3. StateDB_RevertToSnapshot sample_db
      (snd (StateDB_Suicide sample_db (StateDB_AddBalance sample_db (snd (StateDB_Snapshot sample_state)) 2 30) 1))
      (fst (StateDB_Snapshot sample_state)) = Some st3 \<and> state_ok sample_db st3 \<and>
    world_of sample_db st3 = world_of sample_db sample_state \<and>
    (\<forall>m v. marks sample_db m v sample_state \<longrightarrow> marks sample_db m v st3)"
proof (rule snapshot_restores_world [OF sample_state_ok prod.collapse [symmetric]])
  have "mutates (state_db sample_db) st (db_Suicide (state_db sample_db) (db_AddBalance (state_db sample_db) st 2 30) 1)"
    for st by simp
  then show "mutates (state_db sample_db) (snd (StateDB_Snapshot sample_state))
      (snd (StateDB_Suicide sample_db (StateDB_AddBalance sample_db (snd (StateDB_Snapshot sample_state)) 2 30) 1))"
    by (simp add: state_db_def)
qed

text \<open>
  C8. The reflective RLP encoder refines the RLP format. For every value the encoder accepts, whatever
  a pooled buffer held before, EncodeToBytes returns exactly the bytes of the reference encoding
  rlp_enc, the recursive definition of the format; the backpatched list headers, the single-byte
  case, nil pointers and the minimal big-endian integers all come out right.
\<close>

theorem rlp_encoding_canonical:
  assumes "encodable t v" and "length (rlp_enc t v) < 2 ^ 63"
  shows "EncodeToBytes_with pooled t v = Inr (rlp_enc t v)"
  using assms by (rule EncodeToBytes_correct)

theorem rlp_encoding_canonical_witness:
  "EncodeToBytes_with (encbuf_Write [7, 7] new_encbuf) (TStruct [TUint 64, TSlice TString, TBigInt])
     (VStruct [VUint 1024, VList [VString [100, 111, 103], VString [9]], VBig (Some 0)]) =
   Inr [0xca, 0x82, 4, 0, 0xc5, 0x83, 100, 111, 103, 9, 0x80]"
proof -
  let ?t = "TStruct [TUint 64, TSlice TString, TBigInt]"
  let ?v = "VStruct [VUint 1024, VList [VString [100, 111, 103], VString [9]], VBig (Some 0)]"
  have e: "encodable ?t ?v" by simp
  have r: "rlp_enc ?t ?v = [0xca, 0x82, 4, 0, 0xc5, 0x83, 100, 111, 103, 9, 0x80]" by code_simp
  show ?thesis using rlp_encoding_canonical [OF e] r by simp
qed

text \<open>
  C9. The consensus payload of a header survives the wire. Whatever votes, proposals, declarations,
  queues and side-chain records a block carries, encodeHeaderExtra succeeds, the payload is cut
  out of vanity, payload and seal again, and decodeHeaderExtra returns the record; before the
  Trantor fork exactly the two side-chain lists are lost.
\<close>

theorem header_extra_roundtrip:
  assumes "extra_ok val" "length (extra_bytes config number val) < 2 ^ 63"
  shows "\<exists>b. encodeHeaderExtra config number val = Inr b \<and>
    decodeHeaderExtra config number b new_HeaderExtra =
      Inr (if IsTrantor config number then val
           else val\<lparr>he_SideChainConfirmations := [], he_SideChainSetCoinbases := []\<rparr>) \<and>
    (\<forall>h vanity seal. length vanity = extraVanity \<longrightarrow> length seal = extraSeal \<longrightarrow>
       h_Extra h = vanity @ b @ seal \<longrightarrow> extra_payload h = Inr b)"
  using encodeHeaderExtra_bytes [OF assms] decodeHeaderExtra_bytes [OF assms]
    extra_payload_split by (auto simp: extra_visible_def)

theorem header_extra_roundtrip_witness:
  "\<exists>b. encodeHeaderExtra sample_config 1 (new_HeaderExtra\<lparr>he_CurrentBlockVotes := sample_votes, he_SignerQueue := [1, 2, 3]\<rparr>) = Inr b \<and>
    decodeHeaderExtra sample_config 1 b new_HeaderExtra =
      Inr (new_HeaderExtra\<lparr>he_CurrentBlockVotes := sample_votes, he_SignerQueue := [1, 2, 3]\<rparr>)"
proof -
  let ?val = "new_HeaderExtra\<lparr>he_CurrentBlockVotes := sample_votes, he_SignerQueue := [1, 2, 3]\<rparr>"
  have T: "IsTrantor sample_config 1" by code_simp
  have ok: "extra_ok ?val" by (simp add: extra_ok_def sample_votes_def new_HeaderExtra_def)
  have "length (extra_bytes sample_config 1 ?val) < 300" by code_simp
  then have len: "length (extra_bytes sample_config 1 ?val) < 2 ^ 63" by simp
  from header_extra_roundtrip [OF ok len] T show ?thesis by auto
qed

text \<open>
  C10. Decoding what was encoded gives the value back. For every value that is decodable at its type
  and whose encoding is shorter than 2^63 bytes, EncodeToBytes returns some bytes and DecodeBytes
  of those bytes at the same type returns the value, with no error, nothing left over and no input
  limit hit. Decodable are the values of the supported types except those that do not come back or
  have no encoding, namely: negative big integers (refused by the encoder); a nil *big.Int and a
  nil pointer without the nil tag (written as a zero value, read back as one); under the nil tag,
  a pointer to a value whose encoding is the empty string or list (read back as nil) and a nil
  pointer whose type is not written as one of these; a RawValue that is not one string or list in
  canonical form; unsigned integers of a width that is not a multiple of 8 up to 64; and the array
  [1]byte{0}, on which decodeByteArray consumes nothing. All of it holds inside slices, structs
  and pointers too.
\<close>

theorem rlp_decode_encode:
  assumes "decodable t v" and "length (rlp_enc t v) < 2 ^ 63"
  shows "\<exists>b. EncodeToBytes t v = Inr b \<and> DecodeBytes t b = Inr v"
  using EncodeToBytes_correct [OF decodable_encodable [OF assms(1)] assms(2)]
    DecodeBytes_rlp_enc [OF assms] by (simp add: EncodeToBytes_def)

theorem rlp_decode_encode_witness:
  "\<exists>b. EncodeToBytes (TSlice (TStruct [TByteArray 2, TBigInt, TBool]))
       (VList [VStruct [VByteArray [3, 0], VBig (Some 300), VBool True]]) = Inr b \<and>
     DecodeBytes (TSlice (TStruct [TByteArray 2, TBigInt, TBool])) b =
       Inr (VList [VStruct [VByteArray [3, 0], VBig (Some 300), VBool True]])"
proof (rule rlp_decode_encode)
  let ?t = "TSlice (TStruct [TByteArray 2, TBigInt, TBool])"
  let ?v = "VList [VStruct [VByteArray [3, 0], VBig (Some 300), VBool True]]"
  show "decodable ?t ?v" by simp
  have "length (rlp_enc ?t ?v) = 9" by code_simp
  then show "length (rlp_enc ?t ?v) < 2 ^ 63" by simp
qed

text \<open>
  C11. The jump check, which reads a bitmap of push data computed once per code and kept by code hash,
  accepts exactly the destinations inside the code that hold a JUMPDEST and start an instruction,
  for every 256-bit destination; it never reads the bitmap out of range and leaves only right
  analyses in the table.
\<close>

theorem jumps_only_to_instructions:
  assumes "word_ok dest" and "coherent d h code" and "length code < 2 ^ 62"
  shows "\<exists>d'. destinations_has d h code dest =
      Inr (dest < int (length code) \<and> code ! nat dest = OP_JUMPDEST \<and> starts code (nat dest), d') \<and>
    coherent d' h code"
proof -
  obtain d' where "destinations_has d h code dest = Inr (valid_jump code dest, d')"
    and "d' = d \<or> (\<exists>m. codeBitmap code = Inr m \<and> d' = mput h m d)"
    using destinations_has_ok [OF assms] by blast
  with assms(2) show ?thesis by (auto simp: valid_jump_def coherent_def mget_mput)
qed

theorem jumps_only_to_instructions_witness:
  "\<exists>d'. destinations_has [] 1 [OP_PUSH1, OP_JUMPDEST, OP_JUMPDEST] 1 = Inr (False, d') \<and>
    coherent d' 1 [OP_PUSH1, OP_JUMPDEST, OP_JUMPDEST]"
proof -
  let ?code = "[OP_PUSH1, OP_JUMPDEST, OP_JUMPDEST]"
  have "\<not> starts ?code (nat 1)"
    using starts_gap [of ?code "nat 1" 0] by (auto simp: starts_0 next_start_def push_size_def OP_PUSH1_def OP_PUSH32_def)
  moreover have "word_ok 1" "coherent [] 1 ?code" by (simp_all add: word_ok_def coherent_def)
  ultimately show ?thesis
    using jumps_only_to_instructions [of 1 "[]" 1 ?code] by (simp del: One_nat_def nat_one_as_int)
qed

text \<open>
  C12. The arithmetic instructions, which the code computes on unbounded big integers with conversions
  in between, are the operations of 256-bit machine words: wrapping sum, difference, product and
  power, unsigned and signed quotients and remainders that give 0 for a divisor of 0, two's
  complement comparison, bitwise operations, bytes, sign extension and shifts. The arithmetic
  shift by 256 or more gives -1 for zero too, where a shifted word would be 0.
\<close>

theorem alu_is_word_arithmetic:
  "opAdd (of_w x # of_w y # st) = Inr (of_w (x + y) # st) \<and>
   opSub (of_w x # of_w y # st) = Inr (of_w (x - y) # st) \<and>
   opMul (of_w x # of_w y # st) = Inr (of_w (x * y) # st) \<and>
   opDiv (of_w x # of_w y # st) = Inr (of_w (x div y) # st) \<and>
   opMod (of_w x # of_w y # st) = Inr (of_w (if y = 0 then 0 else x mod y) # st) \<and>
   opSdiv (of_w x # of_w y # st) = Inr (of_w (word_of_int (sint x sdiv sint y)) # st) \<and>
   opSmod (of_w x # of_w y # st) =
     Inr (of_w (if y = 0 then 0 else word_of_int (sint x smod sint y)) # st) \<and>
   opAddmod (of_w x # of_w y # of_w z # st) =
     Inr (of_w (if z = 0 then 0 else word_of_int ((of_w x + of_w y) mod of_w z)) # st) \<and>
   opMulmod (of_w x # of_w y # of_w z # st) =
     Inr (of_w (if z = 0 then 0 else word_of_int (of_w x * of_w y mod of_w z)) # st) \<and>
   opExp (of_w x # of_w y # st) = Inr (of_w (x ^ unat y) # st) \<and>
   opSignExtend (of_w x # of_w y # st) =
     Inr (of_w (if x < 31 then word_of_int (signed_take_bit (8 * unat x + 7) (of_w y)) else y) # st) \<and>
   opLt (of_w x # of_w y # st) = Inr (of_w (of_bool (x < y)) # st) \<and>
   opGt (of_w x # of_w y # st) = Inr (of_w (of_bool (y < x)) # st) \<and>
   opSlt (of_w x # of_w y # st) = Inr (of_w (of_bool (x <s y)) # st) \<and>
   opSgt (of_w x # of_w y # st) = Inr (of_w (of_bool (y <s x)) # st) \<and>
   opEq (of_w x # of_w y # st) = Inr (of_w (of_bool (x = y)) # st) \<and>
   opIszero (of_w x # st) = Inr (of_w (of_bool (x = 0)) # st) \<and>
   opNot (of_w x # st) = Inr (of_w (NOT x) # st) \<and>
   opAnd (of_w x # of_w y # st) = Inr (of_w (x AND y) # st) \<and>
   opOr (of_w x # of_w y # st) = Inr (of_w (x OR y) # st) \<and>
   opXor (of_w x # of_w y # st) = Inr (of_w (x XOR y) # st) \<and>
   opByte (of_w x # of_w y # st) =
     Inr (of_w (if x < 32 then drop_bit (8 * (31 - unat x)) y AND 0xFF else 0) # st) \<and>
   opSHL (of_w x # of_w y # st) = Inr (of_w (if x < 256 then push_bit (unat x) y else 0) # st) \<and>
   opSHR (of_w x # of_w y # st) = Inr (of_w (if x < 256 then drop_bit (unat x) y else 0) # st) \<and>
   opSAR (of_w x # of_w y # st) =
     Inr (of_w (if x < 256 then signed_drop_bit (unat x) y else if 0 <s y then 0 else - 1) # st)"
  by (intro conjI, (rule alu_words)+)

text \<open>
  C13. What a valid queue contains. When a re-election is due, the network is below the official size
  and the history is long enough, the queue that verifySignerQueue accepts is unique, has
  MaxSignerCount places, and its members are exactly the candidates ranked highest by stake times
  credit.
\<close>

theorem accepted_queue_content:
  assumes "go_sort SignerSlice_Less sortS" and "go_sort TallySlice_Less sortT"
    and "queue_due s" "reelection s"
    and M: "M = sint (cfg_MaxSignerCount (s_config s))" "0 < M"
    and "buildTallySlice pd s \<noteq> []" "plain M (length (buildTallySlice pd s))"
      "length (take (nat M) (buildTallySlice pd s)) \<le> length (s_HistoryHash s)"
  shows "\<exists>q. (\<forall>q'. verifySignerQueue sortT sortS pd s q' = Inr () \<longleftrightarrow> q' = q) \<and>
    length q = nat M \<and> set q = set (take (nat M) (map ti_addr (sortT (buildTallySlice pd s))))"
proof -
  from createSignerQueue_plain [OF assms] obtain p where p: "createSignerQueue sortT sortS pd s = Inr p"
    "length p = nat M" "set p = set (take (nat M) (map ti_addr (sortT (buildTallySlice pd s))))" by blast
  have "int (length p) \<le> sint (cfg_MaxSignerCount (s_config s))" "p \<noteq> []" using M p(2) by auto
  with p(1) have v: "verifySignerQueue sortT sortS pd s q = Inr () \<longleftrightarrow> q = p" for q
    using verifySignerQueue_iff [of sortT sortS pd s q] by auto
  with p(2,3) show ?thesis by blast
qed

theorem accepted_queue_content_witness:
  "\<exists>q. verifySignerQueue (sort_less TallySlice_Less) (sort_less SignerSlice_Less) False sample_due q = Inr () \<and> length q = 3"
proof -
  have M: "3 = sint (cfg_MaxSignerCount (s_config sample_due))" and n: "length (buildTallySlice False sample_due) = 3"
    by code_simp+
  have d: "queue_due sample_due" "reelection sample_due"
    by (simp_all add: queue_due_def reelection_def sample_due_def sample_genesis_def sample_config_def)
  have h: "length (take (nat 3) (buildTallySlice False sample_due)) \<le> length (s_HistoryHash sample_due)"
    using n by (simp add: sample_due_def)
  have ne: "buildTallySlice False sample_due \<noteq> []" using n by auto
  have p: "0 < (3 :: int)" "plain 3 (length (buildTallySlice False sample_due))"
    by (simp_all add: n plain_def defaultOfficialMaxSignerCount_def)
  show ?thesis
    using accepted_queue_content [OF signer_sort.go_sort_axioms tally_sort.go_sort_axioms d M p(1) ne p(2) h] by auto
qed

text \<open>
  C14. All nodes build the same queue below the official size. The result of createSignerQueue depends
  neither on the iteration order of the tally map nor on the (unstable) sorting algorithm, because
  addresses break ties of stake and distinct block hashes order the signers.
\<close>

theorem queue_deterministic:
  assumes "go_sort TallySlice_Less sortT" "go_sort TallySlice_Less sortT'"
    and "go_sort SignerSlice_Less sortS" "go_sort SignerSlice_Less sortS'"
    and "mset t = mset (s_Tally s)" "distinct (mkeys (s_Tally s))" and "distinct (s_HistoryHash s)"
    and "0 \<le> sint (cfg_MaxSignerCount (s_config s))"
      "plain (sint (cfg_MaxSignerCount (s_config s))) (length (buildTallySlice pd s))"
  shows "createSignerQueue sortT sortS pd s = createSignerQueue sortT' sortS' pd (s\<lparr>s_Tally := t\<rparr>)"
  by (rule createSignerQueue_deterministic [OF assms])

theorem queue_deterministic_witness:
  "createSignerQueue (sort_less TallySlice_Less) (sort_less SignerSlice_Less) False sample_due =
   createSignerQueue (sort_less TallySlice_Less) unstable_sort False (sample_due\<lparr>s_Tally := [(3, 5), (1, 1), (2, 3)]\<rparr>)"
proof -
  have M: "sint (cfg_MaxSignerCount (s_config sample_due)) = 3" by code_simp
  show ?thesis
    by (rule queue_deterministic [OF tally_sort.go_sort_axioms tally_sort.go_sort_axioms
          signer_sort.go_sort_axioms unstable.go_sort_axioms])
      (simp_all add: M plain_def defaultOfficialMaxSignerCount_def sample_due_def sample_genesis_def sample_config_def)
qed

text \<open>
  C15. Where a block's reward goes. With stakes that are not negative, a positive total stake for the
  sealer and a miner's share m of at most 1000 per thousand of the reward r, every account's
  balance after accumulateRewards is the one before plus its voter rewards (one for each vote for
  the sealer, none negative), plus what the side chains and the refunds pay it (from the Trantor
  fork on); the sealer gets m less all those side-chain rewards and refunds. So all balances
  together grow by at most r, and by at least r less one unit for each vote for the sealer.
\<close>

theorem rewards_conserved:
  assumes ok: "accumulateRewards config mrpt st header snap refunds = Inr st'" and "mrpt \<le> 1000"
    and "\<forall>v \<in> snd ` set (s_Votes snap). 0 \<le> deref snap (sv_Stake v)" "0 < votesum snap (h_Coinbase header)"
  defines "r \<equiv> block_reward config (hNumber header)"
  defines "m \<equiv> miner_reward r mrpt"
  defines "paid \<equiv> if IsTrantor config (hNumber header) then calculateSCReward snap m @ refunds else []"
  shows "\<exists>rewards. calculateVoteReward snap (h_Coinbase header) (r - m) = Inr rewards \<and>
    length rewards = length (filter (\<lambda>(voter, vote). sv_Candidate vote = h_Coinbase header) (s_Votes snap)) \<and>
    (\<forall>(a, x) \<in> set rewards. 0 \<le> x) \<and> 0 \<le> m \<and> m \<le> r \<and>
    (\<forall>a. st' a = st a + credit rewards a + credit paid a +
      (if a = h_Coinbase header then m - (\<Sum>(b, x) \<leftarrow> paid. x) else 0)) \<and>
    total st' \<le> total st + r \<and> total st + r - int (length rewards) \<le> total st'"
proof -
  have m: "0 \<le> m" "0 \<le> r - m"
    using miner_reward_bounds [OF block_reward_nonneg assms(2)] by (simp_all add: m_def r_def)
  obtain rewards where c: "calculateVoteReward snap (h_Coinbase header) (r - m) = Inr rewards"
    and t: "total st' = total st + m + (\<Sum>(a, x) \<leftarrow> rewards. x)"
    using accumulateRewards_total [OF ok] by (auto simp: r_def m_def)
  have "(\<Sum>(a, x) \<leftarrow> rewards. x) \<le> r - m" "r - m - int (length rewards) \<le> (\<Sum>(a, x) \<leftarrow> rewards. x)"
    "\<forall>(a, x) \<in> set rewards. 0 \<le> x"
    using calculateVoteReward_total [OF assms(3) m(2) assms(4)] c by auto
  moreover have "\<forall>a. st' a = st a + credit rewards a + credit paid a +
      (if a = h_Coinbase header then m - (\<Sum>(b, x) \<leftarrow> paid. x) else 0)"
    using accumulateRewards_balances [OF ok] c by (auto simp: r_def m_def paid_def)
  ultimately show ?thesis using t c m calculateVoteReward_length [OF c] by auto
qed

theorem rewards_conserved_witness:
  "\<exists>st'. accumulateRewards sample_config 618 (\<lambda>a. 0) sample_header sample_genesis [(2, 10)] = Inr st' \<and>
    total st' \<le> 5 * 10 ^ 18"
proof -
  have v: "\<forall>v \<in> snd ` set (s_Votes sample_genesis). 0 \<le> deref sample_genesis (sv_Stake v)"
    "0 < votesum sample_genesis (h_Coinbase sample_header)"
    by (simp_all add: sample_genesis_def deref_def votesum_def sample_header_def)
  obtain st' where st': "accumulateRewards sample_config 618 (\<lambda>a. 0) sample_header sample_genesis [(2, 10)] = Inr st'"
    using sample_rewards by blast
  have "block_reward sample_config (hNumber sample_header) \<le> 5 * 10 ^ 18" by code_simp
  moreover have "total (\<lambda>a. 0) = 0" by (simp add: total_def)
  ultimately show ?thesis using rewards_conserved [OF st' _ v] st' by auto
qed

text \<open>
  C16. A contract creation that fails leaves the world as it was, or with nothing but the creator's
  nonce raised; before Homestead the one exception is code whose storage could not be paid.
\<close>

theorem failed_creation_keeps_nonce:
  assumes E: "env_db E = state_db B" and ok: "state_ok B (evm_StateDB evm)"
  shows "case Create E (Run E) evm caller code gas v of
      Inl p \<Rightarrow> p \<noteq> AbortRevision
    | Inr ((ret, a, left, err), evm') \<Rightarrow>
        err \<noteq> None \<and> (IsHomestead E \<or> err \<noteq> Some ErrCodeStoreOutOfGas) \<longrightarrow>
          (let st = evm_StateDB evm; who = ContractRef_Address caller in
           world_of B (evm_StateDB evm') = world_of B st \<or>
           world_of B (evm_StateDB evm') =
             world_of B (StateDB_SetNonce B st who (StateDB_GetNonce B st who + 1)))"
  using state_snapshots.calls_undone(5) [OF E E ok, of caller code gas v]
  by (auto simp: create_undone_def Let_def E state_db_def split: sum.splits)

theorem failed_creation_keeps_nonce_witness:
  "case Create sample_vm (Run sample_vm) (NewEVM sample_state) (AccountRef 1) [0xfe] 90000 7 of
      Inl p \<Rightarrow> p \<noteq> AbortRevision
    | Inr ((ret, a, left, err), evm') \<Rightarrow>
        err \<noteq> None \<and> (IsHomestead sample_vm \<or> err \<noteq> Some ErrCodeStoreOutOfGas) \<longrightarrow>
          (let who = ContractRef_Address (AccountRef 1) in
           world_of sample_db (evm_StateDB evm') = world_of sample_db sample_state \<or>
           world_of sample_db (evm_StateDB evm') =
             world_of sample_db (StateDB_SetNonce sample_db sample_state who
               (StateDB_GetNonce sample_db sample_state who + 1)))"
  using failed_creation_keeps_nonce [OF sample_vm_db, of "NewEVM sample_state" "AccountRef 1" "[0xfe]" 90000 7]
  unfolding NewEVM_db Let_def using sample_state_ok by simp

text \<open>
  C17. A transfer that CanTransfer allows takes the amount from the sender and gives it to the
  recipient, changes no other balance, leaves none negative and conserves the sum of all balances,
  also when sender and recipient are one account or an account does not exist yet.
\<close>

theorem transfers_conserve_supply:
  fixes amount :: int and recipient :: address
  assumes ok: "objects_ok st" and can: "CanTransfer (state_db B) st sender amount" and "0 \<le> amount"
    and nonneg: "\<forall>a. 0 \<le> StateDB_GetBalance B st a"
  defines "st' \<equiv> Transfer (state_db B) st sender recipient amount"
  shows "(\<forall>a. StateDB_GetBalance B st' a =
        StateDB_GetBalance B st a - (if a = sender then amount else 0) + (if a = recipient then amount else 0)) \<and>
    (\<forall>a. 0 \<le> StateDB_GetBalance B st' a) \<and> total_supply B st' = total_supply B st"
proof -
  have "\<forall>a. StateDB_GetBalance B st' a =
      StateDB_GetBalance B st a - (if a = sender then amount else 0) + (if a = recipient then amount else 0)"
    unfolding st'_def by (simp add: GetBalance_Transfer [OF ok] Let_def)
  moreover from this have "\<forall>a. 0 \<le> StateDB_GetBalance B st' a"
    using can nonneg \<open>0 \<le> amount\<close> by (auto simp: CanTransfer_def state_db_def)
  ultimately show ?thesis by (simp add: st'_def total_supply_Transfer [OF ok])
qed

theorem transfers_conserve_supply_witness:
  "StateDB_GetBalance sample_db (Transfer (state_db sample_db) sample_state 1 2 30) 1 = 70 \<and>
   StateDB_GetBalance sample_db (Transfer (state_db sample_db) sample_state 1 2 30) 2 = 35 \<and>
   total_supply sample_db (Transfer (state_db sample_db) sample_state 1 2 30) = total_supply sample_db sample_state"
proof -
  have "CanTransfer (state_db sample_db) sample_state 1 30" by (simp add: CanTransfer_def state_db_def)
  from transfers_conserve_supply [OF sample_objects_ok this, of 2] show ?thesis by simp
qed

text \<open>
  C18. Expiry keeps the ledger exact. On a well-formed ledger with positive stakes the end-of-block
  sweep never fails; it drops exactly the votes older than an epoch when enough voters stay, and
  none otherwise; the ledger stays well formed, every remaining stake positive, and the tally
  check that follows it in apply accepts the result.
\<close>

theorem expiry_drops_old_votes:
  assumes "ledger s" "live s"
  shows "\<exists>s'. updateSnapshotForExpired s = Inr s' \<and> ledger s' \<and> live s' \<and> verifyTallyCnt s' = Inr () \<and>
    (\<forall>a. mget (s_Votes s') a =
      (if cfg_MaxSignerCount (s_config s) \<le> of_int (int (length (s_Voters s)) - int (length (expiredVotes s))) \<and>
          (\<exists>v \<in> set (expiredVotes s). sv_Voter v = a)
       then None else mget (s_Votes s) a))"
  using updateSnapshotForExpired_ok [OF assms] by (auto simp: restrict_map_def image_iff; metis)

theorem expiry_drops_old_votes_witness:
  "\<exists>s'. updateSnapshotForExpired sample_aged = Inr s' \<and> ledger s' \<and> verifyTallyCnt s' = Inr () \<and>
    mget (s_Votes s') 4 = None \<and> mget (s_Votes s') 1 \<noteq> None"
proof -
  have e: "expiredVotes sample_aged = [\<lparr>sv_Voter = 4, sv_Candidate = 1, sv_Stake = 6\<rparr>]" by code_simp
  have c: "cfg_MaxSignerCount (s_config sample_aged) \<le>
      of_int (int (length (s_Voters sample_aged)) - int (length (expiredVotes sample_aged)))"
    by code_simp
  have v: "mget (s_Votes sample_aged) 1 \<noteq> None" by (simp add: sample_aged_def sample_genesis_def)
  from expiry_drops_old_votes [OF sample_aged_ledger] show ?thesis using c v unfolding e by fastforce
qed

text \<open>
  C19. The engine answers for the block it was asked for. Given a chain reader and stores that are
  right, whatever mixture of memory, disk, parents and chain the walk back uses, a successful
  snapshot call returns a snapshot whose hash is the requested one, and the recent-snapshot cache
  it leaves still holds under each hash the snapshot of that block, for every eviction policy.
\<close>

theorem engine_snapshot_of_hash:
  assumes "snapshot env chain now a number hash parents gv lcrs = Inr (a', s)"
    and "evicts env" "chain_ok env chain" "stores_ok env a"
    and "number = 0 \<longrightarrow> (\<forall>g. ch_GetHeaderByNumber chain 0 = Some g \<longrightarrow> Header_Hash env g = hash)"
  shows "s_Hash s = hash \<and> (mget (a_recents a') h = Some t \<longrightarrow> s_Hash t = h)"
  using snapshot_hash [OF assms(1,3,4,5)] snapshot_recents_ok [OF assms(1-4)] by blast

theorem engine_snapshot_of_hash_witness:
  "s_Hash (sample_genesis\<lparr>s_Signers := [77, 77, 77]\<rparr>) = 77"
  by (rule engine_snapshot_of_hash [OF sample_snapshot sample_laws(1-3), THEN conjunct1]) simp

text \<open>
  C20. When a side-chain block counts as confirmed. For a required count n of at least one the
  computation returns, unless the largest reported number is 2^64-1, where its 64-bit loop never
  ends; the result is at least the last confirmed number, and if it moved, then at least n
  different coinbases reported the same loop info, and the result is the number written in it.
\<close>

theorem confirmed_number_justified:
  assumes "1 \<le> n"
  shows "if scr_MaxHeaderNumber rec = - 1 then calculateConfirmedNumber rec n = Inl NoReturn
    else \<exists>cn m. calculateConfirmedNumber rec n = Inr (cn, confirmedCoinbases n m) \<and>
        scr_LastConfirmedNumber rec \<le> cn \<and> evidence rec m \<and> justified rec n m cn"
proof -
  have "\<exists>cn m. calculateConfirmedNumber rec n = Inr (cn, confirmedCoinbases n m) \<and>
      scr_LastConfirmedNumber rec \<le> cn \<and> evidence rec m \<and> justified rec n m cn"
    if M: "scr_MaxHeaderNumber rec \<noteq> - 1"
  proof -
    obtain c cc where c: "calculateConfirmedNumber rec n = Inr (c, cc)"
      using calculateConfirmedNumber_returns [OF assms M] by blast
    from calculateConfirmedNumber_justified [OF M c] c show ?thesis by (auto simp: confirm_inv_def)
  qed
  then show ?thesis using calculateConfirmedNumber_hangs [OF assms] by simp
qed

theorem confirmed_number_justified_witness:
  "(\<exists>cn m. calculateConfirmedNumber \<lparr>scr_Record = [(7, [\<lparr>scc_Hash = 5, scc_Coinbase = 1, scc_Number = 7,
       scc_LoopInfo = [''6'', ''0x02'', ''7'', ''0x03'']\<rparr>])], scr_LastConfirmedNumber = 5, scr_MaxHeaderNumber = 7,
       scr_CountPerPeriod = 1, scr_RewardPerPeriod = 0\<rparr> 1 = Inr (cn, confirmedCoinbases 1 m) \<and> 5 \<le> cn) \<and>
   calculateConfirmedNumber \<lparr>scr_Record = [], scr_LastConfirmedNumber = 5, scr_MaxHeaderNumber = - 1,
     scr_CountPerPeriod = 1, scr_RewardPerPeriod = 0\<rparr> 1 = Inl NoReturn"
proof -
  let ?rec = "\<lparr>scr_Record = [(7, [\<lparr>scc_Hash = 5, scc_Coinbase = 1, scc_Number = 7,
       scc_LoopInfo = [''6'', ''0x02'', ''7'', ''0x03'']\<rparr>])], scr_LastConfirmedNumber = 5, scr_MaxHeaderNumber = 7,
       scr_CountPerPeriod = 1, scr_RewardPerPeriod = 0\<rparr>"
  have "\<exists>cn m. calculateConfirmedNumber ?rec 1 = Inr (cn, confirmedCoinbases 1 m) \<and> 5 \<le> cn"
    using confirmed_number_justified [of 1 ?rec] by fastforce
  moreover have "calculateConfirmedNumber \<lparr>scr_Record = [], scr_LastConfirmedNumber = 5, scr_MaxHeaderNumber = - 1,
     scr_CountPerPeriod = 1, scr_RewardPerPeriod = 0\<rparr> 1 = Inl NoReturn"
    using confirmed_number_justified [of 1 "\<lparr>scr_Record = [], scr_LastConfirmedNumber = 5, scr_MaxHeaderNumber = - 1,
     scr_CountPerPeriod = 1, scr_RewardPerPeriod = 0\<rparr>"] by simp
  ultimately show ?thesis by blast
qed

text \<open>
  C21. A precompiled contract never panics on any input shorter than 2^62 bytes when its caller brings
  less than 2^46 gas: modexp in particular pays for the lengths its input announces before it
  allocates and reads them, and with that much gas no announced length reaches the 2^48 bytes at
  which make panics on a 64-bit machine. Below that limit, memory is taken to suffice.
\<close>

theorem precompiles_never_panic:
  assumes "precompiles E a = Some p" and "length inp < 2 ^ 62" and "unat (ct_Gas c) < 2 ^ 46"
  shows "\<exists>r. RunPrecompiledContract p inp c = Inr r"
  by (rule precompile_safe [OF assms])

theorem precompiles_never_panic_witness:
  "\<exists>p r. precompiles sample_vm 5 = Some p \<and>
    RunPrecompiledContract p (replicate 96 0xff) sample_contract = Inr r"
proof -
  obtain p where p: "precompiles sample_vm 5 = Some p"
    by (simp add: precompiles_def PrecompiledContractsByzantium_def IsByzantium_def isForked_def
        sample_vm_def sample_machine_def sample_rules_def)
  have "\<exists>r. RunPrecompiledContract p (replicate 96 0xff) sample_contract = Inr r"
    using p by (rule precompiles_never_panic) (simp_all add: sample_contract_def)
  with p show ?thesis by blast
qed

text \<open>
  C22. How proposals are decided. The proposals that fall due in a block are judged on the state at its
  start: those whose yes-stake exceeds two thirds of all tallies are enacted, in the order of the
  map, and stay recorded; the others that are due are deleted; nothing else changes, and enacting
  one does not influence the judgement of the next.
\<close>

theorem proposals_decided:
  assumes "distinct (mkeys (s_Proposals s))"
  shows "calculateProposalResult pd n (s, m) =
    (let (u, m') = foldl (enact_step pd s) (s, m) (filter (\<lambda>(h, r). due s n r \<and> accepted s r) (s_Proposals s))
     in (u\<lparr>s_Proposals := filter (\<lambda>(h, r). \<not> (due s n r \<and> \<not> accepted s r)) (s_Proposals s)\<rparr>, m'))"
  by (rule calculateProposalResult_decisions [OF assms])

theorem proposals_decided_witness:
  "s_Proposals (fst (calculateProposalResult True 9 (sample_voting, 5))) = [] \<and>
   s_Proposals (fst (calculateProposalResult True 8 (sample_voting, 5))) = [(55, 0)]"
proof -
  have d: "due sample_voting 9 0" "\<not> due sample_voting 8 0" "\<not> accepted sample_voting 0"
    unfolding due_def accepted_def by code_simp+
  have P: "s_Proposals sample_voting = [(55, 0)]" by (simp add: sample_voting_def)
  then have P': "distinct (mkeys (s_Proposals sample_voting))" by simp
  show ?thesis
    using d by (simp add: proposals_decided [OF P'] P Let_def)
qed

text \<open>
  C23. The stake corrections refine their abstract operation. On a well-formed ledger
  ModifyPredecessorVotes never fails: a correction for a recorded voter replaces the stake and
  keeps the candidate, one for an unknown voter changes nothing, and every tally is again the sum
  over the box.
\<close>

theorem modified_votes_refine_restake:
  assumes "ledger s"
  shows "\<exists>s'. updateSnapshotByMPVotes votes s = Inr s' \<and> ledger s' \<and>
    vote_view s' = foldl restake (vote_view s) votes \<and>
    (\<forall>c. tally_view s' c =
      (if c \<in> fst ` set (s_Tally s) then Some (box_tally (foldl restake (vote_view s) votes) c) else None))"
  using updateSnapshotByMPVotes_restake [OF assms] tally_box by metis

theorem modified_votes_refine_restake_witness:
  "\<exists>s'. updateSnapshotByMPVotes [\<lparr>v_Voter = 4, v_Candidate = 0, v_Stake = 0\<rparr>,
      \<lparr>v_Voter = 9, v_Candidate = 0, v_Stake = 5\<rparr>] sample_genesis = Inr s' \<and>
    ledger s' \<and> vote_view s' 4 = Some (4, 1, 0) \<and> vote_view s' 9 = None"
proof -
  have v: "vote_view sample_genesis 4 = Some (4, 1, 30)" "vote_view sample_genesis 9 = None" by code_simp+
  show ?thesis
    using modified_votes_refine_restake [OF sample_ledger, of "[\<lparr>v_Voter = 4, v_Candidate = 0, v_Stake = 0\<rparr>,
      \<lparr>v_Voter = 9, v_Candidate = 0, v_Stake = 5\<rparr>]"] v by (fastforce simp: restake_def)
qed

text \<open>
  C24. The fee for growing memory, computed on wrapping 64-bit words with the fee paid so far
  remembered, is the difference of the quadratic fee between the new and the old number of words,
  for sizes up to 2^37 - 32 bytes, so the fees of successive growths add up to the fee of the
  whole; a word beyond that the square wraps, although sizes up to 2^40 - 32 are let through.
\<close>

theorem memory_fee_exact:
  assumes "mem_inv m" and "unat ms \<le> 0x1fffffffe0"
    and w: "w = max (mem_words m) ((unat ms + 31) div 32)"
  shows "(\<exists>fee m'. memoryGasCost m ms = (Inr fee, m') \<and>
      unat fee = mem_fee w - mem_fee (mem_words m) \<and>
      mem_store m' = mem_store m \<and> unat (mem_lastGasCost m') = mem_fee w) \<and>
    memoryGasCost NewMemory (2 ^ 37) = (Inr (3 * 2 ^ 32), NewMemory\<lparr>mem_lastGasCost := 3 * 2 ^ 32\<rparr>) \<and>
    mem_fee (2 ^ 32) = 3 * 2 ^ 32 + 2 ^ 55"
  unfolding w using memoryGasCost_exact [OF assms(1,2)] memoryGasCost_wraps by blast

theorem memory_fee_exact_witness:
  "\<exists>fee m'. memoryGasCost NewMemory 0x10000 = (Inr fee, m') \<and> unat fee = 3 * 2048 + 2048 ^ 2 div 512 \<and>
    mem_store m' = [] \<and> unat (mem_lastGasCost m') = 3 * 2048 + 2048 ^ 2 div 512"
  using memory_fee_exact [of NewMemory "0x10000" 2048]
  by (simp add: mem_inv_def NewMemory_def mem_words_def mem_fee_def)

text \<open>
  C25. After EIP-150 a call gets the gas it asks for or, if that is more, all but one 64th of what is
  left after the base cost, computed without wrapping.
\<close>

theorem call_gas_bounded:
  assumes "callGas gt availableGas base callCost = (g, None)" and "base \<le> availableGas"
    and "0 < gt_CreateBySuicide gt" and "0 \<le> callCost"
  shows "unat g = min (nat callCost) (unat availableGas - unat base - (unat availableGas - unat base) div 64)"
  using callGas_63_64 [OF assms(1-3)] assms(4) by blast

theorem call_gas_bounded_witness:
  "callGas GasTableEIP158 64000 0 70000 = (63000, None) \<and>
   unat (63000 :: u64) = min (nat 70000) (unat (64000 :: u64) - unat (0 :: u64) - (unat (64000 :: u64) - unat (0 :: u64)) div 64)"
proof -
  have "\<not> 64 < BitLen 70000" using BitLen_le [of 70000 64] by simp
  then have "callGas GasTableEIP158 64000 0 70000 = (63000, None)"
    by (simp add: callGas_def Let_def GasTableEIP158_def Uint64_def)
  moreover from this have "unat (63000 :: u64) = min (nat 70000) (unat (64000 :: u64) - unat (0 :: u64) - (unat (64000 :: u64) - unat (0 :: u64)) div 64)"
    by (rule call_gas_bounded) (simp_all add: GasTableEIP158_def)
  ultimately show ?thesis by blast
qed

text \<open>
  C26. What is written to an account is read back, through the object cache, the storage cache and the
  trie: nonces, code with its size and hash, and storage slots, of existing and of new accounts
  (where the cached objects stand under their own addresses). Nothing else that can be read
  changes: the world after the write (balances, nonces, codes, storage and flags of all accounts,
  the trie, the refund counter, the logs, the preimages and the running transaction) is the world
  before with that one field of that one account replaced. Writing to an address without an
  account first makes an empty account there, whose other slots are those the database has under
  the empty root.
\<close>

theorem writes_are_read_back:
  fixes B :: Database and st :: statedb and a :: address
  assumes ok: "objects_ok st"
  defines "w \<equiv> world_of B st" and "v \<equiv> account_in B (world_of B st) a"
  shows "(StateDB_GetNonce B (StateDB_SetNonce B st a n) a = n \<and>
      StateDB_GetCode B (StateDB_SetCode B st a c) a = c \<and>
      StateDB_GetCodeSize B (StateDB_SetCode B st a c) a = length c \<and>
      StateDB_GetState B (StateDB_SetState B st a k x) a k = x) \<and>
    world_of B (StateDB_SetNonce B st a n) =
      w\<lparr>w_accounts := (w_accounts w)(a \<mapsto> v\<lparr>av_Nonce := n\<rparr>)\<rparr> \<and>
    world_of B (StateDB_SetCode B st a c) =
      w\<lparr>w_accounts := (w_accounts w)
        (a \<mapsto> v\<lparr>av_CodeHash := Hash_Bytes (dbs_Keccak256Hash B c), av_Code := c\<rparr>)\<rparr> \<and>
    world_of B (StateDB_SetState B st a k x) =
      w\<lparr>w_accounts := (w_accounts w)(a \<mapsto> v\<lparr>av_Storage := (av_Storage v)(k := x)\<rparr>)\<rparr>"
proof -
  have "StateDB_GetNonce B (StateDB_SetNonce B st a n) a = n \<and>
      StateDB_GetCode B (StateDB_SetCode B st a c) a = c \<and>
      StateDB_GetCodeSize B (StateDB_SetCode B st a c) a = length c \<and>
      StateDB_GetState B (StateDB_SetState B st a k x) a k = x"
    by (simp add: GetNonce_Set [OF ok] GetCode_Set [OF ok] GetCodeSize_Set [OF ok] GetState_Set [OF ok])
  then show ?thesis
    using world_setters(1-3) [OF ok, where a = a] by (simp add: w_def v_def with_account_def)
qed

theorem writes_are_read_back_witness:
  "StateDB_GetNonce sample_db (StateDB_SetNonce sample_db sample_state 3 4) 3 = 4 \<and>
   StateDB_GetCode sample_db (StateDB_SetCode sample_db sample_state 3 [1, 2]) 3 = [1, 2] \<and>
   StateDB_GetState sample_db (StateDB_SetState sample_db sample_state 3 8 9) 3 8 = 9 \<and>
   w_accounts (world_of sample_db (StateDB_SetNonce sample_db sample_state 3 4)) 1 =
     w_accounts (world_of sample_db sample_state) 1"
  using writes_are_read_back [OF sample_objects_ok, of sample_db 3 4 "[1, 2]" 8 9] by simp

text \<open>
  C27. Suicide of an existing account empties its balance and marks it while the transaction goes on,
  and Finalise removes it from the state and the trie.
\<close>

theorem suicided_accounts_vanish:
  assumes "objects_ok st" and "StateDB_Exist B st a"
  defines "st' \<equiv> snd (StateDB_Suicide B st a)"
  shows "StateDB_GetBalance B st' a = 0 \<and> StateDB_HasSuicided B st' a \<and>
    \<not> StateDB_Exist B (StateDB_Finalise B d st') a \<and> st_trie (StateDB_Finalise B d st') a = None"
  using Suicide_then_Finalise [OF assms(1,2)] unfolding st'_def by blast

theorem suicided_accounts_vanish_witness:
  "StateDB_Exist sample_db sample_state 1 \<and>
   \<not> StateDB_Exist sample_db (StateDB_Finalise sample_db False (snd (StateDB_Suicide sample_db sample_state 1))) 1"
  using suicided_accounts_vanish [OF sample_objects_ok sample_exist] by simp

text \<open>
  C28. CreateAccount at an address that may hold a balance, a nonce, code and storage leaves there a
  fresh account (nonce 0, no code, empty root and storage, not suicided) with the old balance
  carried over, and changes nothing else that can be read: every other account with its balance,
  nonce, code, storage and flags, the trie, the refund counter, the logs, the preimages and the
  running transaction are as before.
\<close>

theorem created_accounts_keep_balance:
  fixes B :: Database and st :: statedb
  assumes ok: "objects_ok st"
  defines "w \<equiv> world_of B st"
  shows "world_of B (CreateAccount B st a) =
    w\<lparr>w_accounts := (w_accounts w)(a \<mapsto>
      \<lparr>av_Nonce = 0, av_Balance = StateDB_GetBalance B st a, av_Root = 0, av_CodeHash = emptyCodeHash B, av_Code = [],
       av_Storage = dbs_storage B a 0, av_suicided = False\<rparr>)\<rparr>"
  using world_CreateAccount [OF ok] by (simp add: w_def with_account_def)

theorem created_accounts_keep_balance_witness:
  "StateDB_GetBalance sample_db (CreateAccount sample_db sample_state 1) 1 = 100 \<and>
   w_accounts (world_of sample_db (CreateAccount sample_db sample_state 1)) 2 =
     w_accounts (world_of sample_db sample_state) 2"
proof -
  have w: "w_accounts (world_of sample_db (CreateAccount sample_db sample_state 1)) 1 = Some
      \<lparr>av_Nonce = 0, av_Balance = 100, av_Root = 0, av_CodeHash = emptyCodeHash sample_db, av_Code = [],
       av_Storage = dbs_storage sample_db 1 0, av_suicided = False\<rparr>"
    "w_accounts (world_of sample_db (CreateAccount sample_db sample_state 1)) 2 =
      w_accounts (world_of sample_db sample_state) 2"
    using created_accounts_keep_balance [OF sample_objects_ok, of sample_db 1] by simp_all
  then show ?thesis by (simp add: getters_of_account account_in_def)
qed

text \<open>
  C29. copy is a deep copy of the ledger. The copy shows the same votes, tallies and proposals, none of
  its tally cells is shared with another entry or with a vote whatever sharing the original had,
  and so a ledger whose numbers are right becomes one on which in-place updates are safe.
\<close>

theorem snapshot_copy_deep:
  "vote_view (Snapshot_copy s) = vote_view s \<and> tally_view (Snapshot_copy s) = tally_view s \<and>
   proposal_view (Snapshot_copy s) = proposal_view s \<and> unshared (Snapshot_copy s) \<and>
   (refs_ok s \<and> tally_exact s \<and> backed s \<longrightarrow> ledger (Snapshot_copy s))"
  using copy_vote_view copy_tally_view copy_proposal_view copy_unshared copy_ledger by (auto simp: fun_eq_iff)

theorem snapshot_copy_deep_witness:
  "ledger (Snapshot_copy sample_genesis)"
  using snapshot_copy_deep [of sample_genesis] sample_ledger by (simp add: ledger_def)

text \<open>
  C30. What the tally check accepts. verifyTallyCnt, which recounts the votes into a fresh map,
  succeeds exactly when every candidate in the tally is voted for and its entry equals the sum of
  the stakes cast for it, and otherwise answers errIncorrectTallyCount. So a voted candidate
  without a tally entry passes unnoticed, and an entry of zero without a vote does not.
\<close>

theorem tally_check_exact:
  "verifyTallyCnt s =
    (if \<forall>(c, r) \<in> set (s_Tally s). c \<in> sv_Candidate ` snd ` set (s_Votes s) \<and> deref s r = votesum s c
     then Inr () else Inl errIncorrectTallyCount)"
  using verifyTallyCnt_iff [of s] verifyTallyCnt_error [of s] by (cases "verifyTallyCnt s = Inr ()") simp_all

theorem tally_check_exact_witness:
  "verifyTallyCnt sample_genesis = Inr ()"
proof -
  have "\<forall>(c, r) \<in> set (s_Tally sample_genesis). c \<in> sv_Candidate ` snd ` set (s_Votes sample_genesis) \<and>
      deref sample_genesis r = votesum sample_genesis c"
    by (simp add: sample_genesis_def deref_def votesum_def)
  then show ?thesis using tally_check_exact [of sample_genesis] by simp
qed

text \<open>
  C31. A transaction accounts for its gas, whatever its message, code and state database: a transition
  that is accepted uses at most the message's gas limit and, after the refund, at least half of
  its intrinsic price; the block's gas pool loses exactly what was used, and putting the rest back
  never panics with a pool above 2^64. A message refused before it runs (nonce, balance for the
  gas, block gas limit) changes neither state nor pool; one that fails on its intrinsic gas or on
  the balance for its transfer leaves the gas it bought out of the pool. A transition that panics
  does so neither for want of fuel of the model nor in the gas pool.
\<close>

theorem transitions_account_for_gas:
  shows "case TransitionDb E (NewStateTransition evm msg gp) of
      Inl p \<Rightarrow> p \<noteq> AbortFuel \<and> p \<noteq> AbortGasPool
    | Inr ((ret, used, failed, None), tr) \<Rightarrow>
        used \<le> msg_gasLimit msg \<and> unat (tr_gp tr) + unat used = unat gp \<and>
        (\<exists>ig. IntrinsicGas (msg_data msg) (msg_to msg = None) (IsHomestead E) = Inr ig \<and> unat ig \<le> 2 * unat used)
    | Inr ((ret, used, failed, Some (VmErr e)), tr) \<Rightarrow> unat (tr_gp tr) + unat (msg_gasLimit msg) = unat gp
    | Inr ((ret, used, failed, Some e), tr) \<Rightarrow> tr = NewStateTransition evm msg gp"
  using TransitionDb_ok [of E evm msg gp]
  by (auto simp: transition_ok_def wp_def split: sum.splits option.splits tx_err.splits)

text \<open>
  C32. A message call that fails costs its fee and nothing more. On the real state database, with
  nothing on the refund counter (as at the start of every transaction), a transition of a message
  with a recipient that reports failed leaves every account as its getters show it (nonce,
  balance, code, storage, root and flags) but for two: the sender's nonce is one higher and its
  balance lower by the gas used times the price, and the coinbase has that fee more (they may be
  one account).
\<close>

theorem failed_message_costs_its_fee:
  assumes "env_db E = state_db B" and "state_ok B (evm_StateDB evm)"
    and "StateDB_GetRefund (evm_StateDB evm) = 0" and "msg_to msg = Some callee"
    and run: "TransitionDb E (NewStateTransition evm msg gp) = Inr ((ret, used, True, err), tr)"
  defines "fee \<equiv> uint used * msg_gasPrice msg"
  shows "account_in B (world_of B (tr_db tr)) a =
    (let v = account_in B (world_of B (evm_StateDB evm)) a
     in v\<lparr>av_Nonce := av_Nonce v + (if a = msg_from msg then 1 else 0),
          av_Balance := av_Balance v - (if a = msg_from msg then fee else 0) + (if a = env_Coinbase E then fee else 0)\<rparr>)"
proof -
  have none: "err = None" by (rule failed_no_error [OF run])
  have "st_refund (evm_StateDB evm) = 0" using assms(3) by (simp add: StateDB_GetRefund_def)
  from failed_message [OF assms(1,2) this assms(4) run [unfolded none]]
  show ?thesis by (simp add: pay_def bump_def fee_def Let_def)
qed

theorem failed_message_costs_its_fee_witness:
  "\<exists>tr. TransitionDb sample_vm (NewStateTransition (NewEVM rich_state) sample_message 50000) =
      Inr (([], 30000, True, None), tr) \<and>
    StateDB_GetBalance sample_db (tr_db tr) 1 = 40000 \<and> StateDB_GetNonce sample_db (tr_db tr) 1 = 1 \<and>
    StateDB_GetBalance sample_db (tr_db tr) 7 = 60000 \<and> StateDB_GetBalance sample_db (tr_db tr) 8 = 0"
proof -
  obtain tr where tr: "TransitionDb sample_vm (NewStateTransition (NewEVM rich_state) sample_message 50000) =
      Inr (([], 30000, True, None), tr)"
    using sample_message_fails by (auto split: sum.splits)
  have start: "account_in sample_db (world_of sample_db rich_state) a =
      (if a = 1 then view_object sample_db (newObject sample_db 1 (sample_account 100000))
       else view_object sample_db (stateObject_setNonce 0 (newObject sample_db a new_Account)))" for a
    by (simp add: account_in_def world_of_def live_object_def getStateObject_def rich_state_def StateDB_New_def Let_def)
  have w: "account_in sample_db (world_of sample_db (tr_db tr)) a =
      (let v = account_in sample_db (world_of sample_db rich_state) a
       in v\<lparr>av_Nonce := av_Nonce v + (if a = 1 then 1 else 0),
          av_Balance := av_Balance v - (if a = 1 then 60000 else 0) + (if a = 7 then 60000 else 0)\<rparr>)" for a
    using failed_message_costs_its_fee [OF sample_vm_db _ _ _ tr, of 8 a]
    by (simp add: sample_message_def StateDB_GetRefund_def rich_refund sample_vm_def sample_machine_def)
  have "StateDB_GetBalance sample_db (tr_db tr) a = (if a = 1 then 40000 else if a = 7 then 60000 else 0)"
    "StateDB_GetNonce sample_db (tr_db tr) a = (if a = 1 then 1 else 0)" for a
    by (simp_all add: getters_of_account w start view_object_def newObject_def sample_account_def
        stateObject_setNonce_def new_Account_def)
  then show ?thesis using tr by simp
qed

text \<open>
  C33. At the official size a valid queue is not determined. With 21 signers and more than 30
  candidates the four levels of the selection reuse the same history hashes, so the final sort has
  ties; two correct sorting algorithms then build different queues, and a queue one node proposes
  is rejected by the other.
\<close>

theorem official_queue_ambiguous:
  assumes "go_sort TallySlice_Less sortT" and "queue_due s" "reelection s"
    and "sint (cfg_MaxSignerCount (s_config s)) = 21"
    and "30 < length (buildTallySlice pd s)" and "distinct (mkeys (s_Tally s))" "distinct (s_HistoryHash s)"
    and q: "createSignerQueue sortT (sort_less SignerSlice_Less) pd s = Inr q"
  shows "go_sort SignerSlice_Less unstable_sort \<and>
    (\<exists>q'. createSignerQueue sortT unstable_sort pd s = Inr q' \<and> q' \<noteq> q) \<and>
    verifySignerQueue sortT unstable_sort pd s q \<noteq> Inr ()"
  using createSignerQueue_ambiguous [OF assms] unstable.go_sort_axioms verifySignerQueue_iff by auto

theorem official_queue_ambiguous_witness:
  "\<exists>q q'. createSignerQueue (sort_less TallySlice_Less) (sort_less SignerSlice_Less) False (sample_official (map of_nat [1..<43])) = Inr q \<and>
    createSignerQueue (sort_less TallySlice_Less) unstable_sort False (sample_official (map of_nat [1..<43])) = Inr q' \<and> q' \<noteq> q"
proof -
  let ?h = "map of_nat [1..<43] :: hash list"
  have "\<not> isl (createSignerQueue (sort_less TallySlice_Less) (sort_less SignerSlice_Less) False (sample_official ?h))"
    by code_simp
  then obtain q where q: "createSignerQueue (sort_less TallySlice_Less) (sort_less SignerSlice_Less) False (sample_official ?h) = Inr q"
    by (auto simp: not_isl_conv)
  have M: "sint (cfg_MaxSignerCount (s_config (sample_official ?h))) = 21" by (simp add: sample_official_def)
  have n: "30 < length (buildTallySlice False (sample_official ?h))" by (simp only: sample_official_slice)
  have h: "?h \<noteq> []" by simp
  from official_queue_ambiguous [OF tally_sort.go_sort_axioms sample_official_due(1) [OF h] sample_official_due(2) M n
      sample_official_tally sample_official_history q] q
  show ?thesis by blast
qed

text \<open>
  C34. Too many candidates stop the chain. Take the official size, MaxSignerCount = 21, and a snapshot
  at the last block of a loop whose hash ends the history, where the next loop re-elects the
  signers ((Number+1) divisible by MaxSignerCount * LCRS; the other loops only reorder the queue).
  If the tally has more than thirty candidates plus the length of the history (which keeps at most
  42 hashes), building the queue indexes the history below zero and panics, whatever the stakes
  and however Go sorts: createSignerQueue, and with it verifySignerQueue of any queue of at most
  21 signers, so neither producing nor verifying the next block gets through.
\<close>

theorem official_queue_panics:
  assumes "go_sort TallySlice_Less sortT" and "queue_due s" "reelection s"
    and "sint (cfg_MaxSignerCount (s_config s)) = 21"
    and "30 + length (s_HistoryHash s) < length (buildTallySlice pd s)"
  shows "createSignerQueue sortT sortS pd s = Inl PanicIndex \<and>
    (length q \<le> 21 \<longrightarrow> verifySignerQueue sortT sortS pd s q = Inl PanicIndex)"
  using createSignerQueue_panic [OF assms] assms(4) by (simp add: verifySignerQueue_def)

theorem official_queue_panics_witness:
  "createSignerQueue (sort_less TallySlice_Less) unstable_sort False (sample_official [77]) = Inl PanicIndex"
proof -
  have M: "sint (cfg_MaxSignerCount (s_config (sample_official [77]))) = 21" by (simp add: sample_official_def)
  have "30 + length (s_HistoryHash (sample_official [77])) < length (buildTallySlice False (sample_official [77]))"
    unfolding sample_official_slice by (simp add: sample_official_def)
  from official_queue_panics [OF tally_sort.go_sort_axioms _ sample_official_due(2) M this] show ?thesis
    using sample_official_due(1) by blast
qed

text \<open>
  C35. The confirmation a side chain sends is the one the main chain records. The transaction data
  built from a chain's hash, a block number below 2^63, a time and the list of numbers and
  coinbases of the loop, in decimal and checksummed hexadecimal, is split and parsed into a record
  with that chain, number and sender, and the words stored in it parse back to exactly the
  reported pairs.
\<close>

theorem confirm_message_roundtrip:
  assumes "unat (Uint64 number) < 2 ^ 63" and "\<forall>(n, a) \<in> set ps. unat n < 2 ^ 63"
    and "tx_Data tx = buildSCEventConfirmData h number time (str_bytes (loop_text k ps))"
  shows "\<exists>info. processSC snap tx sender (strings_Split (CHR '':'') (bytes_str (tx_Data tx))) (he, rh) =
      Inr (he\<lparr>he_SideChainConfirmations := he_SideChainConfirmations he @
            [\<lparr>scc_Hash = h, scc_Coinbase = sender, scc_Number = Uint64 number, scc_LoopInfo = info\<rparr>]\<rparr>,
          mput (tx_Hash tx) (sender, tx_GasPrice tx) rh) \<and>
    coinbasePairs m info = foldl (\<lambda>m (n, a). mput n a m) m ps"
  using processSC_confirm [OF assms(1,3)] coinbasePairs_words [OF assms(2)] by blast

theorem confirm_message_roundtrip_witness:
  "\<exists>info. coinbasePairs [] info = [(7, 0xab), (8, 0xcd)] \<and>
    processSC None \<lparr>tx_Hash = 1, tx_To = None, tx_Value = 0, tx_GasPrice = 2,
        tx_Data = buildSCEventConfirmData 99 8 1234 (str_bytes (loop_text (\<lambda>b. replicate 32 0) [(7, 0xab), (8, 0xcd)]))\<rparr> 5
      (strings_Split (CHR '':'') (bytes_str (buildSCEventConfirmData 99 8 1234
         (str_bytes (loop_text (\<lambda>b. replicate 32 0) [(7, 0xab), (8, 0xcd)]))))) (new_HeaderExtra, []) =
    Inr (new_HeaderExtra\<lparr>he_SideChainConfirmations :=
        [\<lparr>scc_Hash = 99, scc_Coinbase = 5, scc_Number = 8, scc_LoopInfo = info\<rparr>]\<rparr>, [(1, (5, 2))])"
  using confirm_message_roundtrip [of 8 "[(7, 0xab), (8, 0xcd)]"
      "\<lparr>tx_Hash = 1, tx_To = None, tx_Value = 0, tx_GasPrice = 2,
        tx_Data = buildSCEventConfirmData 99 8 1234 (str_bytes (loop_text (\<lambda>b. replicate 32 0) [(7, 0xab), (8, 0xcd)]))\<rparr>"
      99 1234 "\<lambda>b. replicate 32 0" None 5 new_HeaderExtra "[]" "[]"]
  by (auto simp: Uint64_def new_HeaderExtra_def)

text \<open>
  C36. Seal and Author agree. Given a wallet whose 65-byte signatures recover to the signer, a block
  that Seal returns differs from the given header only in the last 65 bytes of its extra data, its
  recovered signer is the engine's own address, and on the main chain it was that signer's turn.
\<close>

theorem sealed_by_author:
  assumes "Seal env chain now stop a header txs = Inr (a', Some h')" and "signs env"
  shows "fst (Author env (a\<lparr>a_signatures := []\<rparr>) h') = Inr (a_signer a) \<and>
    h'\<lparr>h_Extra := h_Extra header\<rparr> = header \<and>
    take (length (h_Extra header) - extraSeal) (h_Extra h') = take (length (h_Extra header) - extraSeal) (h_Extra header) \<and>
    (\<not> cfg_SideChain (ch_Config chain) \<longrightarrow> (\<exists>a1 snap.
      snapshot env chain now a (Uint64 (hNumber header) - 1) (h_ParentHash header) [] []
        defaultLoopCntRecalculateSigners = Inr (a1, snap) \<and> inturn snap (a_signer a) (Uint64 (h_Time header)) = Inr True))"
  using Seal_ok [OF assms] by (simp add: Author_def signer_of_def case_prod_beta)

theorem sealed_by_author_witness:
  "\<exists>a' h'. Seal sample_env sample_chain 2000 False sample_engine sample_block [] = Inr (a', Some h') \<and>
    fst (Author sample_env (sample_engine\<lparr>a_signatures := []\<rparr>) h') = Inr 77"
proof -
  obtain a' h' where s: "Seal sample_env sample_chain 2000 False sample_engine sample_block [] = Inr (a', Some h')"
    using sample_sealed by blast
  have "a_signer sample_engine = 77" by (simp add: sample_engine_def)
  with sealed_by_author [OF s sample_laws(4)] s show ?thesis by auto
qed

text \<open>
  C37. The genesis snapshot is a well-formed ledger. When the genesis votes come from different voters,
  newSnapshot gives every vote and every tally a cell of its own, the box holds exactly those
  votes and the tally of each candidate is their sum; the first rotation repeats the configured
  signers.
\<close>

theorem genesis_ledger:
  assumes "distinct (map v_Voter votes)" "newSnapshot now cfg h votes lcrs = Inr s"
  shows "ledger s \<and> vote_view s = foldl cast Map.empty votes \<and>
    s_Number s = 0 \<and> s_HistoryHash s = [h] \<and> s_config s = cfg \<and>
    s_Signers s = map (\<lambda>i. cfg_SelfVoteSigners cfg ! (i mod length (cfg_SelfVoteSigners cfg)))
       [0..<nat (sint (cfg_MaxSignerCount cfg))]"
  using newSnapshot_ledger [OF assms] newSnapshot_core [OF assms(2)] newSnapshot_Signers [OF assms(2)]
    newSnapshot_cast [OF assms] by simp_all

theorem genesis_ledger_witness:
  "ledger sample_genesis \<and> vote_view sample_genesis 4 = Some (4, 1, 30)"
  using genesis_ledger [OF _ sample_newSnapshot] by (simp add: sample_votes_def cast_def)

text \<open>
  C38. On every snapshot of a chain, built by newSnapshot and any sequence of successful apply calls,
  the construction of a signer queue is refused as not allowed exactly when the next block is not
  the first of a loop; the other guard, that the snapshot's hash is the last of its history, never
  fails there.
\<close>

theorem reachable_queue_due:
  assumes "reached recover hashf sortT pd config s" "0 < sint (cfg_MaxSignerCount config * 2)"
  shows "createSignerQueue sT sS pd' s = Inl errCreateSignerQueueNotAllowed \<longleftrightarrow>
    (s_Number s + 1) mod cfg_MaxSignerCount config \<noteq> 0"
  by (rule reached_queue_due [OF assms])

theorem reachable_queue_due_witness:
  "createSignerQueue sample_sort (sort_less SignerSlice_Less) True sample_genesis = Inl errCreateSignerQueueNotAllowed"
  using reachable_queue_due [OF reached.genesis [OF sample_newSnapshot], of sample_sort "sort_less SignerSlice_Less" True]
  by (simp add: sample_genesis_def sample_config_def)

text \<open>
  C39. The signature cache changes nothing. On headers with different hashes, recovering the signers of
  a batch through a cache that is right for them gives exactly the signers their signatures say,
  in any order and for any eviction policy that only drops entries, and the cache stays right.
\<close>

theorem signature_cache_transparent:
  assumes "evicts env" "inj_on (Header_Hash env) H" "cache_ok env H c" "set hs \<subseteq> H"
  shows "(\<forall>h \<in> set hs. recovered (fst (recoverAll env c hs)) h = signer_of env h) \<and>
    cache_ok env H (snd (recoverAll env c hs))"
proof -
  have "fst (recoverAll env c hs) = map (\<lambda>h. (h, signer_of env h)) hs"
    using recoverAll_transparent [OF assms] by (metis fst_conv)
  then show ?thesis using recovered_signer recoverAll_transparent [OF assms] by metis
qed

theorem signature_cache_transparent_witness:
  "recovered (fst (recoverAll sample_env [(77, 77)] [sample_block])) sample_block = Inr 77"
proof -
  have "inj_on (Header_Hash sample_env) {sample_block}" "cache_ok sample_env {sample_block} [(77, 77)]"
    by (simp_all add: cache_ok_def sample_signer)
  from signature_cache_transparent [OF sample_laws(1) this, of "[sample_block]"] show ?thesis
    by (simp add: sample_signer)
qed

text \<open>
  C40. The proposals of one block are all recorded as the last of them. The loop stores the address of
  its single variable, so every key of the batch shows the last proposal of the block, whatever
  was proposed under it, while proposals of other blocks are untouched.
\<close>

theorem block_proposals_aliased:
  assumes "props_ok s"
  shows "props_ok (updateSnapshotByProposals ps n s) \<and>
    proposal_view (updateSnapshotByProposals ps n s) h =
      (if h \<in> p_Hash ` set ps then Some ((last ps)\<lparr>p_ReceivedNumber := n\<rparr>) else proposal_view s h)"
  using byProposals_view [of _ ps n s] byProposals_view_other [OF _ assms] byProposals_ok [OF assms] by auto

theorem block_proposals_aliased_witness:
  "proposal_view (updateSnapshotByProposals [sample_proposal\<lparr>p_Hash := 8, p_Candidate := 1\<rparr>,
      sample_proposal\<lparr>p_Hash := 9, p_Candidate := 2\<rparr>] 30 sample_voting) 8 =
    Some (sample_proposal\<lparr>p_Hash := 9, p_Candidate := 2, p_ReceivedNumber := 30\<rparr>)"
  using block_proposals_aliased [OF sample_voting_ok(1), of "[sample_proposal\<lparr>p_Hash := 8, p_Candidate := 1\<rparr>,
      sample_proposal\<lparr>p_Hash := 9, p_Candidate := 2\<rparr>]" 30 8] by simp

end
